(* ===== verification/Prelude.thy ===== *)
theory Prelude
  imports Main "HOL-Library.Word" "HOL-Library.Multiset"
begin

text \<open>
  Shared vocabulary of the development: C++ exceptions as values, the result type and its
  sequencing operator, unsigned machine integers with the checked arithmetic the sources
  repeat in several translation units, the power-of-two alignment arithmetic, and generic
  lemmas on sorted lists and list ranges that the components use.
\<close>

unbundle bit_operations_syntax

section \<open>Exceptions and results\<close>

text \<open>
  One constructor per exception class the sources throw; the text is the literal part of the
  message, so that two throws of the same class stay distinguishable.
\<close>

datatype exn =
    invalid_argument string
  | overflow_error string
  | logic_error string
  | out_of_range string
  | length_error string
  | runtime_error string
  | bad_alloc
  | ArtifactError string
  | api_error string
  | request_error string string
  | process_abort

type_synonym 'a result = "exn + 'a"

named_theorems result_simps \<open>inversion of sequenced fallible code\<close>
named_theorems machine_simps \<open>reading checked machine arithmetic as natural numbers\<close>

definition rbind :: "'a result \<Rightarrow> ('a \<Rightarrow> 'b result) \<Rightarrow> 'b result" where
  "rbind m f = (case m of Inl e \<Rightarrow> Inl e | Inr x \<Rightarrow> f x)"

definition throw_if :: "bool \<Rightarrow> exn \<Rightarrow> unit result" where
  "throw_if c e = (if c then Inl e else Inr ())"

fun rmap :: "('a \<Rightarrow> 'b result) \<Rightarrow> 'a list \<Rightarrow> 'b list result" where
  "rmap f [] = Inr []"
| "rmap f (x # xs) = rbind (f x) (\<lambda>y. rbind (rmap f xs) (\<lambda>ys. Inr (y # ys)))"

fun rfold :: "('s \<Rightarrow> 'a \<Rightarrow> 's result) \<Rightarrow> 's \<Rightarrow> 'a list \<Rightarrow> 's result" where
  "rfold f s [] = Inr s"
| "rfold f s (x # xs) = rbind (f s x) (\<lambda>s'. rfold f s' xs)"

lemma rbind_simps [simp]:
  "rbind (Inl e) f = Inl e"
  "rbind (Inr x) f = f x"
  by (simp_all add: rbind_def)

lemma throw_if_simps [simp]:
  "throw_if True e = Inl e"
  "throw_if False e = Inr ()"
  by (simp_all add: throw_if_def)

lemma rbind_Inr_iff [result_simps]:
  "rbind m f = Inr y \<longleftrightarrow> (\<exists>x. m = Inr x \<and> f x = Inr y)"
  by (cases m) auto

lemma rbind_Inl_iff [result_simps]:
  "rbind m f = Inl e \<longleftrightarrow> m = Inl e \<or> (\<exists>x. m = Inr x \<and> f x = Inl e)"
  by (cases m) auto

lemma throw_if_Inr_iff [result_simps]: "throw_if c e = Inr u \<longleftrightarrow> \<not> c"
  by (simp add: throw_if_def)

lemma throw_if_Inl_iff [result_simps]: "throw_if c e = Inl e' \<longleftrightarrow> c \<and> e = e'"
  by (simp add: throw_if_def)

lemma rmap_length: "rmap f xs = Inr ys \<Longrightarrow> length ys = length xs"
  by (induction xs arbitrary: ys) (auto simp: result_simps)

lemma rmap_nth:
  "rmap f xs = Inr ys \<Longrightarrow> i < length xs \<Longrightarrow> f (xs ! i) = Inr (ys ! i)"
  by (induction xs arbitrary: ys i) (auto simp: result_simps nth_Cons split: nat.splits)

lemma rmap_ok: "(\<And>x. x \<in> set xs \<Longrightarrow> f x = Inr (g x)) \<Longrightarrow> rmap f xs = Inr (map g xs)"
  by (induction xs) auto

text \<open>An invariant that every successful step of a fallible fold keeps holds at its end.\<close>

lemma rfold_invariant:
  assumes "rfold f s xs = Inr s'" and "P s"
    and "\<And>s x t. x \<in> set xs \<Longrightarrow> P s \<Longrightarrow> f s x = Inr t \<Longrightarrow> P t"
  shows "P s'"
  using assms by (induction xs arbitrary: s) (auto simp: result_simps)

section \<open>Stateful code that may throw\<close>

text \<open>
  A C++ operation on mutable objects: it returns a value or throws, and in both cases leaves a
  state behind. \<open>sbind\<close> sequences two operations; a throw skips the rest but keeps the state
  reached so far.
\<close>

type_synonym ('s, 'a) prog = "'s \<Rightarrow> 'a result \<times> 's"

definition sret :: "'a \<Rightarrow> ('s, 'a) prog" where
  "sret x s = (Inr x, s)"

definition sthrow :: "exn \<Rightarrow> ('s, 'a) prog" where
  "sthrow e s = (Inl e, s)"

definition sbind :: "('s, 'a) prog \<Rightarrow> ('a \<Rightarrow> ('s, 'b) prog) \<Rightarrow> ('s, 'b) prog" where
  "sbind m f s = (case m s of (Inl e, s') \<Rightarrow> (Inl e, s') | (Inr x, s') \<Rightarrow> f x s')"

definition gets :: "('s \<Rightarrow> 'a) \<Rightarrow> ('s, 'a) prog" where
  "gets f s = (Inr (f s), s)"

definition modify :: "('s \<Rightarrow> 's) \<Rightarrow> ('s, unit) prog" where
  "modify f s = (Inr (), f s)"

definition swhen :: "bool \<Rightarrow> ('s, unit) prog \<Rightarrow> ('s, unit) prog" where
  "swhen b m = (if b then m else sret ())"

definition slift :: "'a result \<Rightarrow> ('s, 'a) prog" where
  "slift r s = (r, s)"

text \<open>\<open>try\<close> with \<open>catch (...)\<close>; \<open>std::abort\<close> is not an exception and passes through.\<close>

definition scatch :: "('s, 'a) prog \<Rightarrow> (exn \<Rightarrow> ('s, 'a) prog) \<Rightarrow> ('s, 'a) prog" where
  "scatch m h s = (case m s of
     (Inl e, s') \<Rightarrow> (if e = process_abort then (Inl e, s') else h e s') | (Inr x, s') \<Rightarrow> (Inr x, s'))"

fun smap :: "('a \<Rightarrow> ('s, 'b) prog) \<Rightarrow> 'a list \<Rightarrow> ('s, 'b list) prog" where
  "smap f [] = sret []"
| "smap f (x # xs) = sbind (f x) (\<lambda>y. sbind (smap f xs) (\<lambda>ys. sret (y # ys)))"

fun siter :: "('a \<Rightarrow> ('s, unit) prog) \<Rightarrow> 'a list \<Rightarrow> ('s, unit) prog" where
  "siter f [] = sret ()"
| "siter f (x # xs) = sbind (f x) (\<lambda>_. siter f xs)"

lemma sret_simp [simp]: "sret x s = (Inr x, s)"
  by (simp add: sret_def)

lemma sthrow_simp [simp]: "sthrow e s = (Inl e, s)"
  by (simp add: sthrow_def)

text \<open>A predicate that every operation keeps, whether it returns or throws.\<close>

definition keeps :: "('s \<Rightarrow> bool) \<Rightarrow> ('s, 'a) prog \<Rightarrow> bool" where
  "keeps P m = (\<forall>s. P s \<longrightarrow> P (snd (m s)))"

lemma keepsD: "keeps P m \<Longrightarrow> P s \<Longrightarrow> P (snd (m s))"
  by (simp add: keeps_def)

lemma keeps_sret [intro, simp]: "keeps P (sret x)" and keeps_sthrow [intro, simp]: "keeps P (sthrow e)"
  by (simp_all add: keeps_def)

lemma keeps_sbind [intro]:
  assumes "keeps P m" "\<And>x. keeps P (f x)"
  shows "keeps P (sbind m f)"
  unfolding keeps_def
proof (intro allI impI)
  fix s assume "P s"
  then have "P (snd (m s))" using assms(1) by (simp add: keeps_def)
  then show "P (snd (sbind m f s))"
    using assms(2) by (auto simp: sbind_def keeps_def split: prod.splits sum.splits)
qed

lemma keeps_siter [intro]: "(\<And>x. x \<in> set xs \<Longrightarrow> keeps P (f x)) \<Longrightarrow> keeps P (siter f xs)"
  by (induction xs) auto

section \<open>Machine integers\<close>

text \<open>
  \<open>std::size_t\<close>, \<open>std::uint64_t\<close> and \<open>std::uintptr_t\<close> are 64 bits wide on every platform the
  project builds for; \<open>std::uint32_t\<close> is 32 bits wide. Signed values (\<open>std::int32_t\<close>,
  \<open>std::int64_t\<close>) are mathematical integers with the overflow guards of the sources written
  out, since C++ gives no meaning to signed overflow.
\<close>

type_synonym u64 = "64 word"
type_synonym u32 = "32 word"
type_synonym byte = "8 word"

abbreviation u64_max :: nat where "u64_max \<equiv> 18446744073709551615"
abbreviation u32_max :: nat where "u32_max \<equiv> 4294967295"
abbreviation i64_max :: int where "i64_max \<equiv> 9223372036854775807"
abbreviation i32_max :: int where "i32_max \<equiv> 2147483647"

abbreviation max_word :: "'a::len word" where "max_word \<equiv> - 1"

lemma unat_u64_le [machine_simps]: "unat (x :: u64) \<le> u64_max"
  using unsigned_less [of x, where 'a = nat] by simp

lemma unat_u32_le [machine_simps]: "unat (x :: u32) \<le> u32_max"
  using unsigned_less [of x, where 'a = nat] by simp

lemma unat_max_u64 [simp]: "unat (max_word :: u64) = u64_max"
  by (simp add: unsigned_minus_1_eq_mask mask_eq_exp_minus_1)

lemma sint_u32 [machine_simps]:
  assumes "uint v \<le> i32_max"
  shows "sint (v :: u32) = uint v"
proof -
  have "signed_take_bit 31 (uint v) = uint v"
    by (rule signed_take_bit_int_eq_self) (use assms in \<open>simp_all add: order_trans [of _ 0]\<close>)
  then show ?thesis by (simp add: sint_uint)
qed

definition checked_add :: "u64 \<Rightarrow> u64 \<Rightarrow> exn \<Rightarrow> u64 result" where
  "checked_add a b e = (if b > max_word - a then Inl e else Inr (a + b))"

definition checked_mul :: "u64 \<Rightarrow> u64 \<Rightarrow> exn \<Rightarrow> u64 result" where
  "checked_mul a b e = (if b \<noteq> 0 \<and> a > max_word div b then Inl e else Inr (a * b))"

lemma max_word_minus_less_iff:
  "(max_word - a < b) \<longleftrightarrow> u64_max < unat a + unat (b :: u64)"
proof -
  have "unat (max_word - a) = u64_max - unat a"
    by (simp add: unat_sub)
  then show ?thesis
    using unat_u64_le [of a] by (auto simp: word_less_nat_alt)
qed

lemma checked_add_Inr_iff [result_simps]:
  "checked_add a b e = Inr c \<longleftrightarrow> unat a + unat b \<le> u64_max \<and> c = a + b"
  by (auto simp: checked_add_def max_word_minus_less_iff)

lemma checked_add_Inl_iff [result_simps]:
  "checked_add a b e = Inl e' \<longleftrightarrow> u64_max < unat a + unat b \<and> e = e'"
  by (auto simp: checked_add_def max_word_minus_less_iff)

lemma unat_add_u64 [machine_simps]:
  "unat a + unat b \<le> u64_max \<Longrightarrow> unat (a + b) = unat a + unat (b :: u64)"
  by (simp add: unat_word_ariths)

lemma max_word_div_less_iff:
  assumes "b \<noteq> 0"
  shows "(max_word div b < a) \<longleftrightarrow> u64_max < unat a * unat (b :: u64)"
proof -
  have "0 < unat b" using assms by (simp add: unat_gt_0)
  have "(max_word div b < a) \<longleftrightarrow> u64_max div unat b < unat a"
    by (simp add: word_less_nat_alt unat_div)
  also have "\<dots> \<longleftrightarrow> u64_max < unat a * unat b"
    using \<open>0 < unat b\<close> by (metis div_less_iff_less_mult)
  finally show ?thesis .
qed

lemma checked_mul_Inr_iff [result_simps]:
  "checked_mul a b e = Inr c \<longleftrightarrow> unat a * unat b \<le> u64_max \<and> c = a * b"
  by (cases "b = 0") (auto simp: checked_mul_def max_word_div_less_iff)

lemma checked_mul_Inl_iff [result_simps]:
  "checked_mul a b e = Inl e' \<longleftrightarrow> u64_max < unat a * unat b \<and> e = e'"
  by (cases "b = 0") (auto simp: checked_mul_def max_word_div_less_iff)

lemma unat_mult_u64 [machine_simps]:
  "unat a * unat b \<le> u64_max \<Longrightarrow> unat (a * b) = unat a * unat (b :: u64)"
  by (simp add: unat_word_ariths)

section \<open>Power-of-two alignment\<close>

lemma nat_and_pred_eq_0:
  "n \<noteq> 0 \<Longrightarrow> n AND (n - 1) = 0 \<Longrightarrow> \<exists>k. n = 2 ^ k" for n :: nat
proof (induction n rule: less_induct)
  case (less n)
  show ?case
  proof (cases "even n")
    case True
    then obtain m where m: "n = 2 * m" by blast
    with less.prems have "0 < m" by simp
    have d: "(2 * m - Suc 0) div 2 = m - Suc 0" using \<open>0 < m\<close> by arith
    have "n AND (n - 1) = 2 * (m AND (m - 1))"
      by (subst and_rec) (simp add: m d)
    with less.prems have "m AND (m - 1) = 0" by simp
    with less.IH [of m] m \<open>0 < m\<close> obtain k where "m = 2 ^ k" by auto
    with m have "n = 2 ^ Suc k" by simp
    then show ?thesis by blast
  next
    case False
    then obtain m where m: "n = 2 * m + 1" by (elim oddE) 
    have "n AND (n - 1) = 2 * m"
      by (subst and_rec) (simp add: m)
    with less.prems have "m = 0" by simp
    with m have "n = 2 ^ 0" by simp
    then show ?thesis by blast
  qed
qed

definition is_power_of_two :: "u64 \<Rightarrow> bool" where
  "is_power_of_two value = (value \<noteq> 0 \<and> value AND (value - 1) = 0)"

lemma is_power_of_two_iff: "is_power_of_two a \<longleftrightarrow> (\<exists>k < 64. a = 2 ^ k)"
proof
  assume a: "is_power_of_two a"
  then have nz: "unat a \<noteq> 0" by (simp add: is_power_of_two_def unat_eq_0)
  have "unat (a - 1) = unat a - 1"
    using a by (simp add: is_power_of_two_def unat_minus_one)
  moreover have "unat (a AND (a - 1)) = 0"
    using a by (simp add: is_power_of_two_def)
  ultimately have "unat a AND (unat a - 1) = 0"
    by (simp add: unsigned_and_eq)
  with nz obtain k where k: "unat a = 2 ^ k" using nat_and_pred_eq_0 by blast
  moreover have "k < 64"
  proof (rule ccontr)
    assume "\<not> k < 64"
    then have "(2::nat) ^ 64 \<le> 2 ^ k" by (intro power_increasing) auto
    with k unat_u64_le [of a] show False by simp
  qed
  moreover have "a = 2 ^ k"
  proof -
    have "a = word_of_nat (unat a)" by simp
    also have "\<dots> = 2 ^ k" by (simp only: k) simp
    finally show ?thesis .
  qed
  ultimately show "\<exists>k < 64. a = 2 ^ k" by blast
next
  assume "\<exists>k < 64. a = 2 ^ k"
  then obtain k where k: "k < 64" "a = 2 ^ k" by blast
  have "a - 1 = mask k" by (simp add: k mask_eq_exp_minus_1)
  moreover have "(2 ^ k :: u64) AND mask k = 0"
    by (rule bit_eqI) (auto simp: bit_and_iff bit_mask_iff bit_exp_iff)
  moreover have "(2 :: u64) ^ k \<noteq> 0" using k by simp
  ultimately show "is_power_of_two a" using k by (simp add: is_power_of_two_def)
qed

definition round_up :: "nat \<Rightarrow> nat \<Rightarrow> nat" where
  "round_up v a = (v + (a - 1)) div a * a"

lemma round_up_props:
  assumes "0 < a"
  shows "v \<le> round_up v a" "round_up v a < v + a" "a dvd round_up v a"
proof -
  have eq: "v + (a - 1) = round_up v a + (v + (a - 1)) mod a"
    by (simp add: round_up_def)
  have "(v + (a - 1)) mod a < a" using assms by simp
  with eq show "v \<le> round_up v a" and "round_up v a < v + a" using assms by linarith+
  show "a dvd round_up v a" by (simp add: round_up_def)
qed

lemma round_up_least:
  assumes "0 < a" "a dvd w" "v \<le> w"
  shows "round_up v a \<le> w"
proof -
  from assms obtain q where q: "w = a * q" by blast
  have "(v + (a - 1)) div a \<le> (w + (a - 1)) div a" using assms by (intro div_le_mono) simp
  also have "\<dots> = q"
    using assms(1) by (metis add.commute div_less div_mult_self2 add_0_right diff_less less_numeral_extra(1) neq0_conv not_less_zero q)
  finally have "(v + (a - 1)) div a \<le> q" .
  then have "(v + (a - 1)) div a * a \<le> q * a" by (rule mult_le_mono1)
  then show ?thesis by (simp only: round_up_def q mult.commute)
qed

lemma unat_and_not_mask:
  assumes "is_power_of_two a"
  shows "unat (x AND NOT (a - 1)) = unat x div unat a * unat a"
proof -
  from assms obtain k where k: "k < 64" "a = 2 ^ k" by (auto simp: is_power_of_two_iff)
  have "(2::nat) ^ k < 2 ^ 64" using k by (intro power_strict_increasing) auto
  then have ua: "unat a = 2 ^ k" using k unat_of_nat [of "2 ^ k", where 'a = 64] by simp
  have "x AND NOT (a - 1) = x AND NOT (mask k)" by (simp add: k mask_eq_exp_minus_1)
  also have "\<dots> = push_bit k (drop_bit k x)"
    by (rule bit_eqI) (auto simp: bit_and_iff bit_not_iff bit_mask_iff bit_push_bit_iff bit_drop_bit_eq)
  finally have e: "x AND NOT (a - 1) = drop_bit k x * 2 ^ k" by (simp add: push_bit_eq_mult)
  have d: "unat (drop_bit k x) = unat x div 2 ^ k"
    by (metis unat_drop_bit_eq drop_bit_eq_div)
  have "unat (drop_bit k x) * unat a \<le> unat x" by (simp add: d ua)
  then have "unat (drop_bit k x) * unat a \<le> u64_max" using unat_u64_le [of x] by linarith
  then show ?thesis using e d ua k by (simp add: unat_mult_u64)
qed

section \<open>Decimal text\<close>

text \<open>\<open>std::to_string\<close> on an unsigned value.\<close>

fun string_of_nat :: "nat \<Rightarrow> string" where
  "string_of_nat n =
     (if n < 10 then [char_of (48 + n)] else string_of_nat (n div 10) @ [char_of (48 + n mod 10)])"

declare string_of_nat.simps [simp del]

section \<open>Lists\<close>

text \<open>Replacing one element of a list exchanges its contribution to a sum over the list.\<close>

lemma sum_list_exchange:
  fixes g :: "'a \<Rightarrow> 'b :: comm_monoid_add"
  assumes "i < length xs"
  shows "sum_list (map g (xs[i := v])) + g (xs ! i) = sum_list (map g xs) + g v"
  using assms
proof (induction xs arbitrary: i)
  case (Cons x xs)
  show ?case
  proof (cases i)
    case 0
    then show ?thesis by (simp add: ac_simps)
  next
    case (Suc k)
    with Cons show ?thesis by (simp add: add.assoc)
  qed
qed simp

lemma sorted_wrt_pairwise:
  "sorted_wrt R xs \<Longrightarrow> i < j \<Longrightarrow> j < length xs \<Longrightarrow> R (xs ! i) (xs ! j)"
  by (simp add: sorted_wrt_iff_nth_less)

lemma exchange_balance:
  fixes x :: "'a :: cancel_comm_monoid_add"
  assumes "x' + a' = x + a" "y' + a = y + a'"
  shows "x' + y' = x + y"
proof -
  have "(x' + y') + (a' + a) = (x' + a') + (y' + a)" by (simp add: ac_simps)
  also have "\<dots> = (x + y) + (a' + a)" unfolding assms by (simp add: ac_simps)
  finally show ?thesis by simp
qed

lemma replicate_small: "replicate 2 x = [x, x]" "replicate 3 x = [x, x, x]" "replicate 4 x = [x, x, x, x]"
  by (simp_all add: numeral_eq_Suc)

lemma zip_upt_nth: "zip [0..<length xs] xs = map (\<lambda>k. (k, xs ! k)) [0..<length xs]"
  by (rule nth_equalityI) auto

lemma length4E:
  assumes "length xs = 4"
  obtains a b c d where "xs = [a, b, c, d]"
proof -
  from assms have "length xs = Suc (Suc (Suc (Suc 0)))" by simp
  then show ?thesis using that by (auto simp: length_Suc_conv)
qed

end
