(* ===== verification/Tensor.thy ===== *)
theory Tensor
  imports Prelude
begin

text \<open>
  Element types and tensor views (\<open>src/core/dtype.*\<close>, \<open>src/core/tensor.*\<close>): shape
  normalisation, overflow-checked element counts and byte sizes, contiguous strides, and the
  three view operations \<open>view\<close>, \<open>slice\<close> and \<open>permute\<close>. A tensor never owns memory: its
  \<open>data\<close> pointer is an address (0 is the null pointer). The lemmas describe where an element
  of a view lives in memory.
\<close>

section \<open>Element types\<close>

datatype dtype = BF16 | FP32 | I32 | U8 | I64 | I8 | FP16 | FP8_E4M3FN

fun dtype_size :: "dtype \<Rightarrow> nat" where
  "dtype_size BF16 = 2"
| "dtype_size FP32 = 4"
| "dtype_size I32 = 4"
| "dtype_size U8 = 1"
| "dtype_size I64 = 8"
| "dtype_size I8 = 1"
| "dtype_size FP16 = 2"
| "dtype_size FP8_E4M3FN = 1"

lemma dtype_size_bounds: "0 < dtype_size d" "dtype_size d \<le> 8"
  by (cases d; simp)+

section \<open>Shapes\<close>

definition checked_mul_i64 :: "int \<Rightarrow> int \<Rightarrow> int result" where
  "checked_mul_i64 a b =
     (if a < 0 \<or> b < 0 then Inl (invalid_argument ''tensor dimensions must be positive'')
      else if b \<noteq> 0 \<and> a > i64_max div b then Inl (overflow_error ''tensor size overflows int64'')
      else Inr (a * b))"

definition normalize_shape :: "int list \<Rightarrow> int list result" where
  "normalize_shape shape =
     rbind (throw_if (length shape = 0 \<or> length shape > 4)
              (invalid_argument ''tensor rank must be in [1,4]'')) (\<lambda>_.
     rbind (rmap (\<lambda>dim. if dim \<le> 0
                        then Inl (invalid_argument ''tensor dimensions must be positive'')
                        else Inr dim) shape) (\<lambda>out.
     Inr (out @ replicate (4 - length out) 1)))"

definition shape_numel :: "int list \<Rightarrow> int result" where
  "shape_numel shape =
     rfold (\<lambda>total dim. if dim \<le> 0
                        then Inl (invalid_argument ''tensor dimensions must be positive'')
                        else checked_mul_i64 total dim) 1 shape"

section \<open>Tensors\<close>

record tensor =
  t_data :: u64
  t_dtype :: dtype
  t_ne :: "int list"
  t_nb :: "int list"

text \<open>The running product of \<open>set_contiguous_strides\<close>: the stride before each extent.\<close>

fun stride_scan :: "int \<Rightarrow> int list \<Rightarrow> int list result" where
  "stride_scan stride [] = Inr [stride]"
| "stride_scan stride (n # ns) =
     rbind (checked_mul_i64 stride n) (\<lambda>stride'.
     rbind (stride_scan stride' ns) (\<lambda>rest. Inr (stride # rest)))"

definition set_contiguous_strides :: "tensor \<Rightarrow> tensor result" where
  "set_contiguous_strides t =
     rbind (stride_scan (int (dtype_size (t_dtype t))) (take 3 (t_ne t)))
       (\<lambda>nb. Inr (t\<lparr>t_nb := nb\<rparr>))"

definition make_tensor :: "u64 \<Rightarrow> dtype \<Rightarrow> int list \<Rightarrow> tensor result" where
  "make_tensor data dt shape =
     rbind (normalize_shape shape) (\<lambda>ne.
     set_contiguous_strides \<lparr>t_data = data, t_dtype = dt, t_ne = ne, t_nb = [0, 0, 0, 0]\<rparr>)"

definition numel :: "tensor \<Rightarrow> int result" where
  "numel t = shape_numel (t_ne t)"

definition tensor_bytes :: "tensor \<Rightarrow> u64 result" where
  "tensor_bytes t =
     rbind (numel t) (\<lambda>elements.
     let elem_size = (word_of_nat (dtype_size (t_dtype t)) :: u64);
         unsigned_elements = (word_of_int elements :: u64)
     in rbind (throw_if (elements < 0 \<or> nat elements > u64_max)
                 (overflow_error ''tensor element count overflows size_t'')) (\<lambda>_.
        rbind (throw_if (elem_size \<noteq> 0 \<and> unsigned_elements > max_word div elem_size)
                 (overflow_error ''tensor byte size overflows size_t'')) (\<lambda>_.
        Inr (unsigned_elements * elem_size))))"

text \<open>
  The loop of \<open>is_contiguous\<close> over the (extent, stride) pairs; an overflow of the expected
  stride is caught and answers false.
\<close>

fun contiguous_loop :: "int \<Rightarrow> (int \<times> int) list \<Rightarrow> bool" where
  "contiguous_loop expected [] = True"
| "contiguous_loop expected ((n, b) # rest) =
     (if n \<le> 0 then False
      else if n \<noteq> 1 \<and> b \<noteq> expected then False
      else if rest \<noteq> [] \<and> n \<noteq> 1 then
        (case checked_mul_i64 expected n of
           Inl _ \<Rightarrow> False
         | Inr expected' \<Rightarrow> contiguous_loop expected' rest)
      else contiguous_loop expected rest)"

definition is_contiguous :: "tensor \<Rightarrow> bool" where
  "is_contiguous t = contiguous_loop (int (dtype_size (t_dtype t))) (zip (t_ne t) (t_nb t))"

definition view :: "tensor \<Rightarrow> int list \<Rightarrow> tensor result" where
  "view t shape =
     rbind (throw_if (\<not> is_contiguous t)
              (invalid_argument ''view requires a contiguous tensor'')) (\<lambda>_.
     rbind (normalize_shape shape) (\<lambda>normalized.
     rbind (shape_numel normalized) (\<lambda>wanted.
     rbind (numel t) (\<lambda>actual.
     rbind (throw_if (wanted \<noteq> actual) (invalid_argument ''view element count mismatch'')) (\<lambda>_.
     make_tensor (t_data t) (t_dtype t) shape)))))"

definition reshape :: "tensor \<Rightarrow> int list \<Rightarrow> tensor result" where
  "reshape t shape = view t shape"

definition slice :: "tensor \<Rightarrow> int \<Rightarrow> int \<Rightarrow> int \<Rightarrow> tensor result" where
  "slice t dim start len =
     rbind (throw_if (dim < 0 \<or> dim \<ge> 4) (invalid_argument ''slice dim out of range'')) (\<lambda>_.
     let d = nat dim; n = t_ne t ! d
     in rbind (throw_if (start < 0 \<or> len \<le> 0 \<or> start > n \<or> len > n - start)
                 (invalid_argument ''slice range out of bounds'')) (\<lambda>_.
        rbind (checked_mul_i64 start (t_nb t ! d)) (\<lambda>off.
        Inr (t\<lparr>t_data := (if t_data t \<noteq> 0 then t_data t + word_of_int off else t_data t),
               t_ne := (t_ne t)[d := len]\<rparr>))))"

fun permute_check :: "int list \<Rightarrow> int list \<Rightarrow> unit result" where
  "permute_check seen [] = Inr ()"
| "permute_check seen (dim # dims) =
     (if dim < 0 \<or> dim \<ge> 4 \<or> dim \<in> set seen
      then Inl (invalid_argument ''invalid permutation'')
      else permute_check (dim # seen) dims)"

definition permute :: "tensor \<Rightarrow> int list \<Rightarrow> tensor result" where
  "permute t order =
     rbind (throw_if (length order \<noteq> 4)
              (invalid_argument ''permute requires four dimensions'')) (\<lambda>_.
     rbind (permute_check [] order) (\<lambda>_.
     Inr (t\<lparr>t_ne := map (\<lambda>dim. t_ne t ! nat dim) order,
            t_nb := map (\<lambda>dim. t_nb t ! nat dim) order\<rparr>)))"

section \<open>Element addresses\<close>

text \<open>
  The byte offset of an element relative to \<open>data\<close>, as every kernel computes it from the
  strides, and the set of valid element indices.
\<close>

definition element_offset :: "tensor \<Rightarrow> int list \<Rightarrow> int" where
  "element_offset t idx = sum_list (map2 (*) (t_nb t) idx)"

definition valid_index :: "tensor \<Rightarrow> int list \<Rightarrow> bool" where
  "valid_index t idx = list_all2 (\<lambda>i n. 0 \<le> i \<and> i < n) idx (t_ne t)"

definition wf_tensor :: "tensor \<Rightarrow> bool" where
  "wf_tensor t = (length (t_ne t) = 4 \<and> length (t_nb t) = 4 \<and>
     list_all (\<lambda>n. 0 < n) (t_ne t) \<and> list_all (\<lambda>b. 0 \<le> b) (t_nb t))"

lemma int_div_less_iff:
  fixes a b c :: int
  assumes "0 < b"
  shows "c div b < a \<longleftrightarrow> c < a * b"
proof
  assume "c div b < a"
  then have "(c div b + 1) * b \<le> a * b" using assms by (intro mult_right_mono) auto
  moreover have "c < (c div b + 1) * b"
  proof -
    have "c = c div b * b + c mod b" by simp
    moreover have "c mod b < b" using assms by simp
    ultimately have "c < c div b * b + b" by linarith
    then show ?thesis by (simp add: distrib_right)
  qed
  ultimately show "c < a * b" by linarith
next
  assume *: "c < a * b"
  show "c div b < a"
  proof (rule ccontr)
    assume "\<not> c div b < a"
    then have "a * b \<le> c div b * b" using assms by (intro mult_right_mono) auto
    moreover have "c div b * b \<le> c"
      using assms pos_mod_sign [of b c] div_mult_mod_eq [of c b] by linarith
    ultimately show False using * by linarith
  qed
qed

lemma checked_mul_i64_Inr_iff [result_simps]:
  "checked_mul_i64 a b = Inr c \<longleftrightarrow> 0 \<le> a \<and> 0 \<le> b \<and> a * b \<le> i64_max \<and> c = a * b"
proof (cases "0 < b")
  case True
  then show ?thesis
    by (auto simp: checked_mul_i64_def int_div_less_iff [OF True] not_less)
qed (auto simp: checked_mul_i64_def)

lemma normalize_shape_Inr:
  assumes "normalize_shape shape = Inr ne"
  shows "length ne = 4" "list_all (\<lambda>n. 0 < n) ne" "ne = shape @ replicate (4 - length shape) 1"
    "shape \<noteq> []" "length shape \<le> 4"
proof -
  from assms obtain out where out: "rmap (\<lambda>dim. if dim \<le> 0
      then Inl (invalid_argument ''tensor dimensions must be positive'') else Inr dim) shape = Inr out"
    and ne: "ne = out @ replicate (4 - length out) 1" and rank: "shape \<noteq> []" "length shape \<le> 4"
    by (auto simp: normalize_shape_def result_simps split: if_splits)
  have nth: "0 < shape ! i \<and> out ! i = shape ! i" if "i < length shape" for i
    using rmap_nth [OF out that] by (auto split: if_splits)
  have len: "length out = length shape" using rmap_length [OF out] .
  then have "out = shape" using nth by (auto intro: nth_equalityI)
  moreover have "list_all (\<lambda>n. 0 < n) out" using nth len by (auto simp: list_all_length)
  ultimately show "length ne = 4" "list_all (\<lambda>n. 0 < n) ne"
    "ne = shape @ replicate (4 - length shape) 1" "shape \<noteq> []" "length shape \<le> 4"
    using ne rank by (auto simp: list_all_iff)
qed

lemma stride_scan_Inr:
  "stride_scan s ns = Inr nb \<Longrightarrow> length nb = Suc (length ns)"
  by (induction ns arbitrary: s nb) (auto simp: result_simps)

lemma stride_scan4:
  assumes "stride_scan s [a, b, c] = Inr nb"
  shows "nb = [s, s * a, s * a * b, s * a * b * c]" "0 \<le> s" "0 \<le> a" "0 \<le> b" "0 \<le> c"
    "s * a * b * c \<le> i64_max"
  using assms by (auto simp: result_simps)

lemma make_tensor_Inr:
  assumes "make_tensor p dt shape = Inr t"
  obtains a b c d where "t_ne t = [a, b, c, d]"
    "t_nb t = [int (dtype_size dt), int (dtype_size dt) * a, int (dtype_size dt) * a * b,
       int (dtype_size dt) * a * b * c]"
    "0 < a" "0 < b" "0 < c" "0 < d" "t_data t = p" "t_dtype t = dt"
    "shape @ replicate (4 - length shape) 1 = [a, b, c, d]"
    "int (dtype_size dt) * a * b * c \<le> i64_max"
proof -
  from assms obtain ne where ne: "normalize_shape shape = Inr ne"
    and t: "set_contiguous_strides \<lparr>t_data = p, t_dtype = dt, t_ne = ne, t_nb = [0,0,0,0]\<rparr> = Inr t"
    by (auto simp: make_tensor_def result_simps)
  obtain a b c d where abcd: "ne = [a, b, c, d]"
    using normalize_shape_Inr(1) [OF ne] by (rule length4E)
  from t obtain nb where nb: "stride_scan (int (dtype_size dt)) [a, b, c] = Inr nb"
    and teq: "t = \<lparr>t_data = p, t_dtype = dt, t_ne = ne, t_nb = nb\<rparr>"
    by (auto simp: set_contiguous_strides_def result_simps abcd)
  have pos: "0 < a" "0 < b" "0 < c" "0 < d" using normalize_shape_Inr(2) [OF ne] abcd by auto
  show ?thesis
    using pos stride_scan4 [OF nb] normalize_shape_Inr(3) [OF ne] teq abcd
    by (intro that [of a b c d]) simp_all
qed

lemma shape_numel4:
  "shape_numel [a, b, c, d] = Inr n \<Longrightarrow> n = a * b * c * d \<and> 0 < a \<and> 0 < b \<and> 0 < c \<and> 0 < d \<and> n \<le> i64_max"
  by (auto simp: shape_numel_def result_simps split: if_splits)

lemma tensor_bytes_Inr:
  assumes "tensor_bytes t = Inr n"
  obtains m where "numel t = Inr m" "0 \<le> m" "int (unat n) = m * int (dtype_size (t_dtype t))"
proof -
  let ?es = "word_of_nat (dtype_size (t_dtype t)) :: u64"
  from assms obtain m where m: "numel t = Inr m" "0 \<le> m" "nat m \<le> u64_max"
    and fit: "\<not> (?es \<noteq> 0 \<and> max_word div ?es < word_of_int m)"
    and n: "n = word_of_int m * ?es"
    by (auto simp: tensor_bytes_def Let_def result_simps split: if_splits)
  have um: "unat (word_of_int m :: u64) = nat m"
    using m by (simp add: unat_eq_nat_uint uint_word_of_int_eq take_bit_eq_mod nat_mod_as_int
        flip: nat_less_iff)
  have ue: "unat ?es = dtype_size (t_dtype t)"
    using dtype_size_bounds(2) [of "t_dtype t"] by (simp add: unat_of_nat)
  then have nz: "?es \<noteq> 0" using dtype_size_bounds(1) [of "t_dtype t"] by (metis unat_0 less_numeral_extra(3))
  then have "nat m * dtype_size (t_dtype t) \<le> u64_max"
    using fit by (simp add: max_word_div_less_iff um ue)
  then have "unat n = nat m * dtype_size (t_dtype t)"
    using n um ue unat_mult_u64 [of "word_of_int m" ?es] by simp
  then show ?thesis using that [of m] m by simp
qed

text \<open>
  C19. A tensor the constructor accepts is well formed and contiguous: positive extents, non-negative strides, and
  \<open>is_contiguous\<close> answers true, so that it can be reinterpreted by \<open>view\<close>.
\<close>

theorem make_tensor_contiguous:
  assumes "make_tensor p dt shape = Inr t"
  shows "wf_tensor t \<and> is_contiguous t"
proof -
  obtain a b c d where *: "t_ne t = [a, b, c, d]"
    "t_nb t = [int (dtype_size dt), int (dtype_size dt) * a, int (dtype_size dt) * a * b,
       int (dtype_size dt) * a * b * c]"
    "0 < a" "0 < b" "0 < c" "0 < d" "t_dtype t = dt" "int (dtype_size dt) * a * b * c \<le> i64_max"
    by (rule make_tensor_Inr [OF assms])
  define s where "s = int (dtype_size dt)"
  have s: "0 < s" using dtype_size_bounds(1) by (simp add: s_def)
  have le: "s * a * b \<le> i64_max" "s * a \<le> i64_max"
  proof -
    have grow: "x \<le> x * y" if "0 \<le> x" "0 < y" for x y :: int
      using that mult_left_mono [of 1 y x] by simp
    have "s * a * b \<le> s * a * b * c" using *(3-6) s by (intro grow) auto
    then show ab: "s * a * b \<le> i64_max" using *(8) unfolding s_def by linarith
    have "s * a \<le> s * a * b" using *(3-6) s by (intro grow) auto
    then show "s * a \<le> i64_max" using ab by linarith
  qed
  have cm: "checked_mul_i64 s a = Inr (s * a)" "checked_mul_i64 (s * a) b = Inr (s * a * b)"
    "checked_mul_i64 (s * a * b) c = Inr (s * a * b * c)"
    using * s le by (auto simp: checked_mul_i64_Inr_iff s_def)
  show ?thesis
    using * s cm
    by (auto simp: wf_tensor_def is_contiguous_def s_def split: sum.splits)
qed

text \<open>Mixed-radix numbers: the linear index of a four-dimensional index.\<close>

definition linear_index :: "int list \<Rightarrow> int list \<Rightarrow> int" where
  "linear_index ne idx = (case (ne, idx) of
     ([a, b, c, d], [i, j, k, l]) \<Rightarrow> i + a * (j + b * (k + c * l)) | _ \<Rightarrow> 0)"

lemma radix_step:
  fixes a i m :: int
  assumes "0 \<le> i" "i < a" "0 \<le> m" "m < q"
  shows "0 \<le> i + a * m" "i + a * m < a * q"
proof -
  show "0 \<le> i + a * m" using assms by simp
  have "i + a * m < a * (m + 1)" using assms by (simp add: distrib_left)
  also have "\<dots> \<le> a * q" using assms by (intro mult_left_mono) auto
  finally show "i + a * m < a * q" .
qed

lemma radix_inj:
  fixes a i i' m m' :: int
  assumes "0 \<le> i" "i < a" "0 \<le> i'" "i' < a" "i + a * m = i' + a * m'"
  shows "i = i' \<and> m = m'"
proof -
  have "(i + a * m) mod a = i" using assms(1,2) by simp
  moreover have "(i' + a * m') mod a = i'" using assms(3,4) by simp
  ultimately have "i = i'" using assms(5) by simp
  with assms show ?thesis by simp
qed

lemma linear_index_range:
  assumes "list_all2 (\<lambda>i n. 0 \<le> i \<and> i < n) [i, j, k, l] [a, b, c, d]"
  shows "0 \<le> linear_index [a, b, c, d] [i, j, k, l]"
    "linear_index [a, b, c, d] [i, j, k, l] < a * b * c * d"
proof -
  have h: "0 \<le> i" "i < a" "0 \<le> j" "j < b" "0 \<le> k" "k < c" "0 \<le> l" "l < d" using assms by auto
  note r1 = radix_step [OF h(5,6,7,8)]
  note r2 = radix_step [OF h(3,4) r1]
  note r3 = radix_step [OF h(1,2) r2]
  show "0 \<le> linear_index [a, b, c, d] [i, j, k, l]"
    "linear_index [a, b, c, d] [i, j, k, l] < a * b * c * d"
    using r3 by (simp_all add: linear_index_def mult.assoc)
qed

lemma linear_index_inj:
  assumes "list_all2 (\<lambda>i n. 0 \<le> i \<and> i < n) [i, j, k, l] [a, b, c, d]"
    and "list_all2 (\<lambda>i n. 0 \<le> i \<and> i < n) [i', j', k', l'] [a, b, c, d]"
    and "linear_index [a, b, c, d] [i, j, k, l] = linear_index [a, b, c, d] [i', j', k', l']"
  shows "[i, j, k, l] = [i', j', k', l']"
proof -
  have h: "0 \<le> i" "i < a" "0 \<le> i'" "i' < a" "0 \<le> j" "j < b" "0 \<le> j'" "j' < b"
    "0 \<le> k" "k < c" "0 \<le> k'" "k' < c" using assms(1,2) by auto
  have e: "i + a * (j + b * (k + c * l)) = i' + a * (j' + b * (k' + c * l'))"
    using assms(3) by (simp add: linear_index_def)
  note e1 = radix_inj [OF h(1-4) e]
  note e2 = radix_inj [OF h(5-8) conjunct2 [OF e1]]
  note e3 = radix_inj [OF h(9-12) conjunct2 [OF e2]]
  show ?thesis using e1 e2 e3 by simp
qed

lemma valid_indexE:
  assumes "valid_index t idx" "t_ne t = [a, b, c, d]"
  obtains i j k l where "idx = [i, j, k, l]" "list_all2 (\<lambda>i n. 0 \<le> i \<and> i < n) [i, j, k, l] [a, b, c, d]"
proof -
  have "length idx = 4" using assms by (auto simp: valid_index_def dest: list_all2_lengthD)
  then obtain i j k l where "idx = [i, j, k, l]" by (rule length4E)
  then show ?thesis using that [of i j k l] assms unfolding valid_index_def by simp
qed

lemma make_tensor_offset:
  assumes "make_tensor p dt shape = Inr t" "valid_index t idx"
  shows "element_offset t idx = int (dtype_size dt) * linear_index (t_ne t) idx"
proof -
  obtain a b c d where *: "t_ne t = [a, b, c, d]"
    "t_nb t = [int (dtype_size dt), int (dtype_size dt) * a, int (dtype_size dt) * a * b,
       int (dtype_size dt) * a * b * c]"
    by (rule make_tensor_Inr [OF assms(1)])
  obtain i j k l where "idx = [i, j, k, l]" by (rule valid_indexE [OF assms(2) *(1)])
  then show ?thesis by (simp add: element_offset_def linear_index_def * algebra_simps)
qed

text \<open>
  C17. Every element of a freshly constructed tensor lies inside its byte size, and two
  different elements occupy disjoint byte ranges.
\<close>

theorem tensor_elements_in_bounds:
  assumes t: "make_tensor p dt shape = Inr t" and n: "tensor_bytes t = Inr n"
    and v: "valid_index t idx" "valid_index t idx'"
  shows "0 \<le> element_offset t idx \<and> element_offset t idx + int (dtype_size dt) \<le> int (unat n) \<and>
    (idx \<noteq> idx' \<longrightarrow> element_offset t idx + int (dtype_size dt) \<le> element_offset t idx' \<or>
       element_offset t idx' + int (dtype_size dt) \<le> element_offset t idx)"
proof -
  obtain a b c d where *: "t_ne t = [a, b, c, d]" "t_dtype t = dt"
    by (rule make_tensor_Inr [OF t])
  obtain i j k l where ix: "idx = [i, j, k, l]"
    "list_all2 (\<lambda>i n. 0 \<le> i \<and> i < n) [i, j, k, l] [a, b, c, d]"
    by (rule valid_indexE [OF v(1) *(1)])
  obtain i' j' k' l' where ix': "idx' = [i', j', k', l']"
    "list_all2 (\<lambda>i n. 0 \<le> i \<and> i < n) [i', j', k', l'] [a, b, c, d]"
    by (rule valid_indexE [OF v(2) *(1)])
  define s where "s = int (dtype_size dt)"
  define m m' where "m = linear_index (t_ne t) idx" and "m' = linear_index (t_ne t) idx'"
  have s: "0 < s" using dtype_size_bounds(1) by (simp add: s_def)
  have off: "element_offset t idx = s * m" "element_offset t idx' = s * m'"
    using make_tensor_offset [OF t] v by (simp_all add: s_def m_def m'_def)
  obtain q where q: "numel t = Inr q" "int (unat n) = q * s"
    using tensor_bytes_Inr [OF n] *(2) unfolding s_def by metis
  have "q = a * b * c * d" using q(1) shape_numel4 by (auto simp: numel_def *)
  then have r: "0 \<le> m" "m + 1 \<le> q"
    using linear_index_range [OF ix(2)] by (simp_all add: m_def * ix(1))
  have step: "s * x + s \<le> s * y" if "x < y" for x y :: int
  proof -
    have "s * (x + 1) \<le> s * y" using s that by (intro mult_left_mono) auto
    then show ?thesis by (simp add: distrib_left)
  qed
  have in_range: "0 \<le> s * m" "s * m + s \<le> int (unat n)"
    using r s step [of m q] q(2) by (auto simp: mult.commute)
  have "m \<noteq> m'" if "idx \<noteq> idx'"
    using linear_index_inj [OF ix(2) ix'(2)] that by (auto simp: m_def m'_def * ix(1) ix'(1))
  then have "idx \<noteq> idx' \<longrightarrow> s * m + s \<le> s * m' \<or> s * m' + s \<le> s * m"
    using step by (metis linorder_neqE)
  then show ?thesis using in_range unfolding off s_def [symmetric] by blast
qed

theorem make_tensor_contiguous_witness:
  "\<exists>t. make_tensor 4096 BF16 [3, 2] = Inr t \<and> wf_tensor t \<and> is_contiguous t"
proof -
  have mk: "make_tensor 4096 BF16 [3, 2] = Inr \<lparr>t_data = 4096, t_dtype = BF16,
      t_ne = [3, 2, 1, 1], t_nb = [2, 6, 12, 12]\<rparr>"
    by (simp add: make_tensor_def normalize_shape_def set_contiguous_strides_def
        checked_mul_i64_def numeral_2_eq_2)
  then show ?thesis using make_tensor_contiguous [OF mk] by blast
qed

theorem tensor_elements_in_bounds_witness:
  "\<exists>t. make_tensor 4096 BF16 [3, 2] = Inr t \<and> tensor_bytes t = Inr 12 \<and>
     element_offset t [2, 1, 0, 0] + 2 \<le> 12"
proof -
  let ?t = "\<lparr>t_data = 4096, t_dtype = BF16, t_ne = [3, 2, 1, 1], t_nb = [2, 6, 12, 12]\<rparr>"
  have mk: "make_tensor 4096 BF16 [3, 2] = Inr ?t"
    by (simp add: make_tensor_def normalize_shape_def set_contiguous_strides_def
        checked_mul_i64_def numeral_2_eq_2)
  have nb: "tensor_bytes ?t = Inr 12"
    by (simp add: tensor_bytes_def numel_def shape_numel_def checked_mul_i64_def)
  have v: "valid_index ?t [2, 1, 0, 0]" by (simp add: valid_index_def)
  from tensor_elements_in_bounds [OF mk nb v v] mk nb show ?thesis by auto
qed

text \<open>
  C18. \<open>slice\<close> selects: element \<open>idx\<close> of the slice is element \<open>idx\<close> shifted by \<open>start\<close> in the
  sliced dimension of the original tensor, at the same memory address.
\<close>

theorem slice_address:
  assumes sl: "slice t dim start len = Inr t'" and wf: "wf_tensor t" and data: "t_data t \<noteq> 0"
    and v: "valid_index t' idx"
  shows "valid_index t (idx[nat dim := idx ! nat dim + start]) \<and>
    t_data t' + word_of_int (element_offset t' idx) =
    t_data t + word_of_int (element_offset t (idx[nat dim := idx ! nat dim + start]))"
proof -
  define e where "e = nat dim"
  have dim: "e < 4" and range: "0 \<le> start" "0 < len" "len + start \<le> t_ne t ! e"
    and t': "t' = t\<lparr>t_data := t_data t + word_of_int (start * t_nb t ! e), t_ne := (t_ne t)[e := len]\<rparr>"
    using sl data by (auto simp: slice_def Let_def e_def result_simps split: if_splits)
  obtain a b c d where ne: "t_ne t = [a, b, c, d]" using wf by (auto simp: wf_tensor_def elim: length4E)
  obtain w x y z where nb: "t_nb t = [w, x, y, z]" using wf by (auto simp: wf_tensor_def elim: length4E)
  have "length (t_ne t') = 4" using wf by (simp add: t' wf_tensor_def)
  moreover have "length idx = length (t_ne t')"
    using v unfolding valid_index_def by (rule list_all2_lengthD)
  ultimately have "length idx = 4" by simp
  then obtain i j k l where ix: "idx = [i, j, k, l]" by (rule length4E)
  have cases: "e = 0 \<or> e = 1 \<or> e = 2 \<or> e = 3" using dim by auto
  have shifted: "element_offset t (idx[e := idx ! e + start]) = element_offset t' idx + start * t_nb t ! e"
    using cases by (auto simp: element_offset_def t' nb ix algebra_simps numeral_2_eq_2 numeral_3_eq_3)
  have "valid_index t (idx[e := idx ! e + start])"
    using cases v range by (auto simp: valid_index_def t' ne ix numeral_2_eq_2 numeral_3_eq_3)
  moreover have "t_data t' + word_of_int (element_offset t' idx) =
      t_data t + word_of_int (element_offset t (idx[e := idx ! e + start]))"
    unfolding shifted t' by simp
  ultimately show ?thesis unfolding e_def ..
qed

theorem slice_address_witness:
  "\<exists>t t'. make_tensor 4096 BF16 [3, 2] = Inr t \<and> slice t 1 1 1 = Inr t' \<and>
     t_data t' + word_of_int (element_offset t' [2, 0, 0, 0]) = 4096 + 10"
proof -
  let ?t = "\<lparr>t_data = 4096, t_dtype = BF16, t_ne = [3, 2, 1, 1], t_nb = [2, 6, 12, 12]\<rparr>"
  let ?t' = "\<lparr>t_data = 4102, t_dtype = BF16, t_ne = [3, 1, 1, 1], t_nb = [2, 6, 12, 12]\<rparr>"
  have mk: "make_tensor 4096 BF16 [3, 2] = Inr ?t"
    by (simp add: make_tensor_def normalize_shape_def set_contiguous_strides_def
        checked_mul_i64_def numeral_2_eq_2)
  have sl: "slice ?t 1 1 1 = Inr ?t'" by (simp add: slice_def checked_mul_i64_def)
  have wf: "wf_tensor ?t" and nn: "t_data ?t \<noteq> 0" and v: "valid_index ?t' [2, 0, 0, 0]"
    by (simp_all add: wf_tensor_def valid_index_def)
  have "t_data ?t' + word_of_int (element_offset ?t' [2, 0, 0, 0]) = 4096 + 10"
    using slice_address [OF sl wf nn v] by (simp add: element_offset_def)
  with mk sl show ?thesis by blast
qed

lemma permute_check_Inr:
  "permute_check seen order = Inr u \<Longrightarrow>
     distinct order \<and> set order \<inter> set seen = {} \<and> set order \<subseteq> {0..<4}"
  by (induction seen order rule: permute_check.induct) (auto split: if_splits)

lemma permute_orderE:
  assumes "permute t order = Inr t'"
  shows "length order = 4" "distinct order" "set order = {0..<4}"
    "t' = t\<lparr>t_ne := map (\<lambda>dim. t_ne t ! nat dim) order, t_nb := map (\<lambda>dim. t_nb t ! nat dim) order\<rparr>"
proof -
  from assms obtain u where "permute_check [] order = Inr u" and len: "length order = 4"
    and t': "t' = t\<lparr>t_ne := map (\<lambda>dim. t_ne t ! nat dim) order,
       t_nb := map (\<lambda>dim. t_nb t ! nat dim) order\<rparr>"
    by (auto simp: permute_def result_simps split: if_splits)
  from permute_check_Inr [OF this(1)] have d: "distinct order" "set order \<subseteq> {0..<4}" by auto
  then have "card (set order) = card {0..<4::int}" using len by (simp add: distinct_card)
  then have "set order = {0..<4}" using d by (intro card_subset_eq) auto
  then show "length order = 4" "distinct order" "set order = {0..<4}"
    "t' = t\<lparr>t_ne := map (\<lambda>dim. t_ne t ! nat dim) order, t_nb := map (\<lambda>dim. t_nb t ! nat dim) order\<rparr>"
    using len d t' by auto
qed

text \<open>
  \<open>permute\<close> moves no data: element \<open>map (nth idx) order\<close> of the permuted view is element
  \<open>idx\<close> of the original one, at the same offset, and the element count is unchanged.
\<close>

theorem permute_address:
  assumes p: "permute t order = Inr t'" and wf: "wf_tensor t" and len: "length idx = 4"
  shows "element_offset t' (map (\<lambda>dim. idx ! nat dim) order) = element_offset t idx \<and>
    mset (t_ne t') = mset (t_ne t) \<and> t_data t' = t_data t"
proof -
  note o = permute_orderE [OF p]
  obtain w x y z where nb: "t_nb t = [w, x, y, z]" using wf by (auto simp: wf_tensor_def elim: length4E)
  obtain a b c d where ne: "t_ne t = [a, b, c, d]" using wf by (auto simp: wf_tensor_def elim: length4E)
  obtain i j k l where ix: "idx = [i, j, k, l]" using len by (rule length4E)
  have as: "{0..<4::int} = {0, 1, 2, 3}" by auto
  have m: "mset order = {#0, 1, 2, 3#}"
    using o(2,3) mset_set_set [of order] by (simp add: as)
  have "element_offset t' (map (\<lambda>dim. idx ! nat dim) order) =
      sum_list (map (\<lambda>dim. t_nb t ! nat dim * idx ! nat dim) order)"
    by (simp add: element_offset_def o(4) map2_map_map)
  also have "\<dots> = sum_mset (image_mset (\<lambda>dim. t_nb t ! nat dim * idx ! nat dim) (mset order))"
    by (metis mset_map sum_mset_sum_list)
  also have "\<dots> = element_offset t idx" by (simp add: m nb ix element_offset_def)
  finally have off: "element_offset t' (map (\<lambda>dim. idx ! nat dim) order) = element_offset t idx" .
  have "mset (t_ne t') = image_mset (\<lambda>dim. t_ne t ! nat dim) (mset order)" by (simp add: o(4))
  also have "\<dots> = mset (t_ne t)" by (simp add: m ne)
  finally show ?thesis using off o(4) by simp
qed

theorem permute_address_witness:
  "\<exists>t'. permute \<lparr>t_data = 64, t_dtype = I32, t_ne = [5, 3, 2, 1], t_nb = [4, 20, 60, 120]\<rparr>
       [1, 0, 3, 2] = Inr t' \<and> t_ne t' = [3, 5, 1, 2] \<and> element_offset t' [2, 4, 0, 1] = 116"
proof -
  let ?t = "\<lparr>t_data = 64, t_dtype = I32, t_ne = [5, 3, 2, 1], t_nb = [4, 20, 60, 120]\<rparr>"
  have p: "permute ?t [1, 0, 3, 2] = Inr (?t\<lparr>t_ne := [3, 5, 1, 2], t_nb := [20, 4, 120, 60]\<rparr>)"
    by (simp add: permute_def)
  have "element_offset (?t\<lparr>t_ne := [3, 5, 1, 2], t_nb := [20, 4, 120, 60]\<rparr>) [2, 4, 0, 1] = 116"
    using permute_address [OF p, of "[4, 2, 1, 0]"] by (simp add: wf_tensor_def element_offset_def)
  with p show ?thesis by auto
qed

end
