(* ===== verification/Bump.thy ===== *)
theory Bump
  imports Prelude
begin

text \<open>
  The contract of a bump allocator, shared by the layout builder, the workspace dry run and
  the device arena: an allocation starts at an aligned position not below the cursor, moves the
  cursor to its end and raises the peak. What a client may conclude from it, that a sequence of
  allocations yields ordered, disjoint ranges below the peak, is proved once in the locale.
\<close>

text \<open>An allocation request is (bytes, alignment); a run collects the (offset, bytes) ranges.\<close>

fun alloc_run :: "('s \<Rightarrow> u64 \<Rightarrow> u64 \<Rightarrow> (u64 \<times> 's) result) \<Rightarrow> 's \<Rightarrow> (u64 \<times> u64) list \<Rightarrow>
    ((u64 \<times> u64) list \<times> 's) result" where
  "alloc_run alloc s [] = Inr ([], s)"
| "alloc_run alloc s ((b, a) # reqs) =
     rbind (alloc s b a) (\<lambda>(off, s').
     rbind (alloc_run alloc s' reqs) (\<lambda>(rs, s''). Inr ((off, b) # rs, s'')))"

definition range_end :: "u64 \<times> u64 \<Rightarrow> nat" where
  "range_end r = unat (fst r) + unat (snd r)"

definition before :: "u64 \<times> u64 \<Rightarrow> u64 \<times> u64 \<Rightarrow> bool" where
  "before r r' = (range_end r \<le> unat (fst r'))"

locale bump_allocator =
  fixes alloc :: "'s \<Rightarrow> u64 \<Rightarrow> u64 \<Rightarrow> (u64 \<times> 's) result"
    and cursor :: "'s \<Rightarrow> nat"
    and peak :: "'s \<Rightarrow> nat"
    and origin :: "'s \<Rightarrow> nat"
  assumes alloc_above: "alloc s b a = Inr (off, s') \<Longrightarrow> cursor s \<le> unat off"
    and alloc_cursor: "alloc s b a = Inr (off, s') \<Longrightarrow> cursor s' = unat off + unat b"
    and alloc_peak: "alloc s b a = Inr (off, s') \<Longrightarrow> peak s' = max (peak s) (cursor s')"
    and alloc_origin: "alloc s b a = Inr (off, s') \<Longrightarrow> origin s' = origin s"
    and alloc_aligned: "alloc s b a = Inr (off, s') \<Longrightarrow> unat a dvd origin s + unat off"
begin

lemma run_ConsE:
  assumes "alloc_run alloc s ((b, a) # reqs) = Inr (rs, s')"
  obtains off s1 rs' where "alloc s b a = Inr (off, s1)" "alloc_run alloc s1 reqs = Inr (rs', s')"
    "rs = (off, b) # rs'"
  using assms by (auto simp: result_simps split: prod.splits)

lemma run_cursor: "alloc_run alloc s reqs = Inr (rs, s') \<Longrightarrow> cursor s \<le> cursor s'"
proof (induction reqs arbitrary: s rs)
  case (Cons r reqs)
  obtain b a where r: "r = (b, a)" by fastforce
  from Cons.prems [unfolded r] show ?case
    by (rule run_ConsE) (use Cons.IH alloc_above alloc_cursor in fastforce)
qed simp

lemma run_above:
  "alloc_run alloc s reqs = Inr (rs, s') \<Longrightarrow> r \<in> set rs \<Longrightarrow> cursor s \<le> unat (fst r)"
proof (induction reqs arbitrary: s rs)
  case (Cons q reqs)
  obtain b a where q: "q = (b, a)" by fastforce
  from Cons.prems(1) [unfolded q] obtain off s1 rs' where
    *: "alloc s b a = Inr (off, s1)" "alloc_run alloc s1 reqs = Inr (rs', s')" "rs = (off, b) # rs'"
    by (rule run_ConsE)
  show ?case
  proof (cases "r = (off, b)")
    case True
    then show ?thesis using alloc_above [OF *(1)] by simp
  next
    case False
    then have "cursor s1 \<le> unat (fst r)" using Cons.IH [OF *(2)] Cons.prems(2) *(3) by simp
    then show ?thesis using alloc_above [OF *(1)] alloc_cursor [OF *(1)] by simp
  qed
qed simp

text \<open>The ranges of one run are ordered and hence pairwise disjoint.\<close>

lemma run_ordered: "alloc_run alloc s reqs = Inr (rs, s') \<Longrightarrow> sorted_wrt before rs"
proof (induction reqs arbitrary: s rs)
  case (Cons q reqs)
  obtain b a where q: "q = (b, a)" by fastforce
  from Cons.prems [unfolded q] obtain off s1 rs' where
    *: "alloc s b a = Inr (off, s1)" "alloc_run alloc s1 reqs = Inr (rs', s')" "rs = (off, b) # rs'"
    by (rule run_ConsE)
  have "before (off, b) r" if "r \<in> set rs'" for r
    using run_above [OF *(2) that] alloc_cursor [OF *(1)] by (simp add: before_def range_end_def)
  then show ?case using Cons.IH [OF *(2)] *(3) by simp
qed simp

lemma run_peak_mono: "alloc_run alloc s reqs = Inr (rs, s') \<Longrightarrow> peak s \<le> peak s'"
proof (induction reqs arbitrary: s rs)
  case (Cons q reqs)
  obtain b a where q: "q = (b, a)" by fastforce
  from Cons.prems [unfolded q] show ?case
    by (rule run_ConsE) (use Cons.IH alloc_peak in fastforce)
qed simp

text \<open>No range of a run reaches past the peak.\<close>

lemma run_below_peak:
  "alloc_run alloc s reqs = Inr (rs, s') \<Longrightarrow> r \<in> set rs \<Longrightarrow> range_end r \<le> peak s'"
proof (induction reqs arbitrary: s rs)
  case (Cons q reqs)
  obtain b a where q: "q = (b, a)" by fastforce
  from Cons.prems(1) [unfolded q] obtain off s1 rs' where
    *: "alloc s b a = Inr (off, s1)" "alloc_run alloc s1 reqs = Inr (rs', s')" "rs = (off, b) # rs'"
    by (rule run_ConsE)
  have "range_end (off, b) \<le> peak s1"
    using alloc_peak [OF *(1)] alloc_cursor [OF *(1)] by (simp add: range_end_def)
  then have "range_end (off, b) \<le> peak s'" using run_peak_mono [OF *(2)] by simp
  then show ?case using Cons.IH [OF *(2)] Cons.prems(2) *(3) by auto
qed simp

text \<open>The run serves every request in order, at an aligned address.\<close>

lemma run_served:
  "alloc_run alloc s reqs = Inr (rs, s') \<Longrightarrow>
     list_all2 (\<lambda>(off, b) (b', a). b = b' \<and> unat a dvd origin s + unat off) rs reqs"
proof (induction reqs arbitrary: s rs)
  case (Cons q reqs)
  obtain b a where q: "q = (b, a)" by fastforce
  from Cons.prems [unfolded q] obtain off s1 rs' where
    *: "alloc s b a = Inr (off, s1)" "alloc_run alloc s1 reqs = Inr (rs', s')" "rs = (off, b) # rs'"
    by (rule run_ConsE)
  show ?case
    using Cons.IH [OF *(2)] alloc_aligned [OF *(1)] alloc_origin [OF *(1)] *(3) q by simp
qed simp

end

end
