(* ===== verification/Layout.thy ===== *)
theory Layout
  imports Tensor Bump
begin

text \<open>
  Offset planning for project-owned device allocations (\<open>src/core/layout.*\<close>): the power-of-two
  \<open>align_up\<close>, the \<open>LayoutBuilder\<close> that assigns offsets and its scopes, the regions it returns
  and their binding to a backing allocation, and the \<open>WorkspaceLayoutBuilder\<close> dry run.
\<close>

section \<open>Aligned offsets\<close>

definition align_up :: "u64 \<Rightarrow> u64 \<Rightarrow> string \<Rightarrow> u64 result" where
  "align_up value alignment label =
     rbind (throw_if (\<not> is_power_of_two alignment)
              (invalid_argument (label @ '' alignment must be a power of two''))) (\<lambda>_.
     let mask = alignment - 1
     in rbind (checked_add value mask (overflow_error (label @ '' size overflow''))) (\<lambda>biased.
        Inr (biased AND NOT mask)))"

section \<open>Regions and binding\<close>

record device_span =
  ds_data :: u64
  ds_bytes :: u64

record layout_region =
  lr_offset :: u64
  lr_bytes :: u64
  lr_alignment :: u64

record tensor_region =
  tr_region :: layout_region
  tr_dtype :: dtype
  tr_shape :: "int list"

definition region_bind :: "layout_region \<Rightarrow> device_span \<Rightarrow> device_span result" where
  "region_bind r backing =
     rbind (throw_if (ds_data backing = 0) (invalid_argument ''layout backing is null'')) (\<lambda>_.
     rbind (throw_if (\<not> is_power_of_two (lr_alignment r))
              (logic_error ''layout region has an invalid alignment'')) (\<lambda>_.
     rbind (throw_if ((ds_data backing + lr_offset r) mod lr_alignment r \<noteq> 0)
              (invalid_argument ''layout backing does not satisfy region alignment'')) (\<lambda>_.
     rbind (throw_if (lr_offset r > ds_bytes backing \<or> lr_bytes r > ds_bytes backing - lr_offset r)
              (out_of_range ''layout region exceeds its backing allocation'')) (\<lambda>_.
     Inr \<lparr>ds_data = ds_data backing + lr_offset r, ds_bytes = lr_bytes r\<rparr>))))"

definition tensor_region_bind :: "tensor_region \<Rightarrow> device_span \<Rightarrow> tensor result" where
  "tensor_region_bind r backing =
     rbind (make_tensor 0 (tr_dtype r) (tr_shape r)) (\<lambda>expected.
     rbind (tensor_bytes expected) (\<lambda>n.
     rbind (throw_if (n \<noteq> lr_bytes (tr_region r))
              (logic_error ''tensor layout has an inconsistent byte size'')) (\<lambda>_.
     rbind (region_bind (tr_region r) backing) (\<lambda>span.
     make_tensor (ds_data span) (tr_dtype r) (tr_shape r)))))"

section \<open>The layout builder\<close>

record layout_builder =
  lb_cursor :: u64
  lb_peak :: u64

definition empty_builder :: layout_builder where
  "empty_builder = \<lparr>lb_cursor = 0, lb_peak = 0\<rparr>"

definition layout_add ::
  "layout_builder \<Rightarrow> u64 \<Rightarrow> u64 \<Rightarrow> string \<Rightarrow> (layout_region \<times> layout_builder) result" where
  "layout_add b bytes alignment label =
     rbind (throw_if (bytes = 0) (invalid_argument (label @ '' must not be empty''))) (\<lambda>_.
     rbind (align_up (lb_cursor b) alignment label) (\<lambda>offset.
     rbind (checked_add offset bytes (overflow_error (label @ '' size overflow''))) (\<lambda>cursor.
     Inr (\<lparr>lr_offset = offset, lr_bytes = bytes, lr_alignment = alignment\<rparr>,
          b\<lparr>lb_cursor := cursor, lb_peak := (if cursor > lb_peak b then cursor else lb_peak b)\<rparr>))))"

definition layout_add_tensor ::
  "layout_builder \<Rightarrow> dtype \<Rightarrow> int list \<Rightarrow> u64 \<Rightarrow> string \<Rightarrow> (tensor_region \<times> layout_builder) result" where
  "layout_add_tensor b dt shape alignment label =
     rbind (make_tensor 0 dt shape) (\<lambda>t.
     rbind (tensor_bytes t) (\<lambda>n.
     rbind (layout_add b n alignment label) (\<lambda>(r, b').
     Inr (\<lparr>tr_region = r, tr_dtype = dt, tr_shape = shape @ replicate (4 - length shape) 1\<rparr>, b'))))"

text \<open>A scope remembers the cursor; its destructor restores it and keeps the peak.\<close>

definition layout_scope :: "layout_builder \<Rightarrow> u64" where
  "layout_scope b = lb_cursor b"

definition layout_scope_exit :: "u64 \<Rightarrow> layout_builder \<Rightarrow> layout_builder" where
  "layout_scope_exit saved b = b\<lparr>lb_cursor := saved\<rparr>"

definition layout_finish :: "layout_builder \<Rightarrow> u64 \<Rightarrow> string \<Rightarrow> u64 result" where
  "layout_finish b alignment label = align_up (lb_peak b) alignment label"

section \<open>The workspace dry run\<close>

text \<open>
  Both cursor writes of \<open>alloc\<close> and \<open>alloc_bytes\<close> are assignments: when the second checked
  addition throws, the aligned cursor has already been stored. The state is therefore returned
  in every case.
\<close>

record workspace_builder =
  ws_cursor :: u64
  ws_peak :: u64

definition ws_bump :: "workspace_builder \<Rightarrow> u64 \<Rightarrow> u64 \<Rightarrow> unit result \<times> workspace_builder" where
  "ws_bump w bytes alignment =
     (case align_up (ws_cursor w) alignment ''workspace layout'' of
        Inl e \<Rightarrow> (Inl e, w)
      | Inr aligned \<Rightarrow>
         (let w1 = w\<lparr>ws_cursor := aligned\<rparr>
          in case checked_add aligned bytes (overflow_error ''workspace layout size overflow'') of
               Inl e \<Rightarrow> (Inl e, w1)
             | Inr cursor \<Rightarrow>
                (Inr (), w1\<lparr>ws_cursor := cursor,
                   ws_peak := (if cursor > ws_peak w then cursor else ws_peak w)\<rparr>)))"

definition ws_alloc_bytes :: "workspace_builder \<Rightarrow> u64 \<Rightarrow> u64 \<Rightarrow> device_span result \<times> workspace_builder" where
  "ws_alloc_bytes w bytes alignment =
     (if bytes = 0 then (Inr \<lparr>ds_data = 0, ds_bytes = 0\<rparr>, w)
      else case ws_bump w bytes alignment of
        (Inl e, w') \<Rightarrow> (Inl e, w')
      | (Inr _, w') \<Rightarrow> (Inr \<lparr>ds_data = 0, ds_bytes = bytes\<rparr>, w'))"

text \<open>
  \<open>alloc\<close> aligns the cursor before it evaluates \<open>tensor.bytes()\<close>, which may itself throw; the
  tensor is returned with its null data pointer.
\<close>

definition ws_alloc :: "workspace_builder \<Rightarrow> dtype \<Rightarrow> int list \<Rightarrow> u64 \<Rightarrow> tensor result \<times> workspace_builder" where
  "ws_alloc w dt shape alignment =
     (case make_tensor 0 dt shape of
        Inl e \<Rightarrow> (Inl e, w)
      | Inr t \<Rightarrow>
         (case align_up (ws_cursor w) alignment ''workspace layout'' of
            Inl e \<Rightarrow> (Inl e, w)
          | Inr aligned \<Rightarrow>
             (case tensor_bytes t of
                Inl e \<Rightarrow> (Inl e, w\<lparr>ws_cursor := aligned\<rparr>)
              | Inr n \<Rightarrow>
                 (case ws_bump w n alignment of
                    (Inl e, w') \<Rightarrow> (Inl e, w')
                  | (Inr _, w') \<Rightarrow> (Inr t, w')))))"

definition ws_scope :: "workspace_builder \<Rightarrow> u64" where
  "ws_scope w = ws_cursor w"

definition ws_scope_exit :: "u64 \<Rightarrow> workspace_builder \<Rightarrow> workspace_builder" where
  "ws_scope_exit saved w = w\<lparr>ws_cursor := saved\<rparr>"

definition ws_peak_bytes :: "workspace_builder \<Rightarrow> u64 \<Rightarrow> u64 result" where
  "ws_peak_bytes w alignment = align_up (ws_peak w) alignment ''workspace layout''"

section \<open>Correctness of the alignment arithmetic\<close>

lemma power_of_two_pos: "is_power_of_two a \<Longrightarrow> 0 < unat a"
  by (simp add: is_power_of_two_def unat_gt_0)

lemma unat_minus_one_u64: "is_power_of_two a \<Longrightarrow> unat (a - 1) = unat a - 1"
  by (simp add: is_power_of_two_def unat_minus_one)

lemma align_up_Inr_iff [result_simps]:
  "align_up v a label = Inr r \<longleftrightarrow>
     is_power_of_two a \<and> unat v + (unat a - 1) \<le> u64_max \<and> unat r = round_up (unat v) (unat a)"
proof -
  have "align_up v a label = Inr r \<longleftrightarrow>
      is_power_of_two a \<and> unat v + (unat a - 1) \<le> u64_max \<and> r = (v + (a - 1)) AND NOT (a - 1)"
    by (auto simp: align_up_def Let_def result_simps unat_minus_one_u64)
  moreover have "unat ((v + (a - 1)) AND NOT (a - 1)) = round_up (unat v) (unat a)"
    if "is_power_of_two a" "unat v + (unat a - 1) \<le> u64_max"
    using that unat_add_u64 [of v "a - 1"]
    by (simp add: unat_and_not_mask round_up_def unat_minus_one_u64)
  ultimately show ?thesis by (metis word_unat_eq_iff)
qed



section \<open>The builders are bump allocators\<close>

lemma layout_add_Inr:
  assumes "layout_add b n a label = Inr (r, b')"
  shows "lr_bytes r = n" "lr_alignment r = a" "is_power_of_two a" "n \<noteq> 0"
    "unat (lr_offset r) = round_up (unat (lb_cursor b)) (unat a)"
    "unat (lb_cursor b') = unat (lr_offset r) + unat n"
    "unat (lb_peak b') = max (unat (lb_peak b)) (unat (lb_cursor b'))"
    "unat (lb_cursor b) \<le> unat (lr_offset r)" "unat a dvd unat (lr_offset r)"
proof -
  have n: "n \<noteq> 0" using assms by (auto simp: layout_add_def split: if_splits)
  then obtain off where a: "is_power_of_two a" and off: "unat off = round_up (unat (lb_cursor b)) (unat a)"
    and fit: "unat off + unat n \<le> u64_max"
    and r: "r = \<lparr>lr_offset = off, lr_bytes = n, lr_alignment = a\<rparr>"
    and b': "b' = b\<lparr>lb_cursor := off + n, lb_peak := (if off + n > lb_peak b then off + n else lb_peak b)\<rparr>"
    using assms by (auto simp: layout_add_def result_simps)
  note up = round_up_props [OF power_of_two_pos [OF a], of "unat (lb_cursor b)"]
  show "lr_bytes r = n" "lr_alignment r = a" "is_power_of_two a" "n \<noteq> 0"
    "unat (lr_offset r) = round_up (unat (lb_cursor b)) (unat a)"
    "unat (lb_cursor b') = unat (lr_offset r) + unat n"
    "unat (lb_peak b') = max (unat (lb_peak b)) (unat (lb_cursor b'))"
    "unat (lb_cursor b) \<le> unat (lr_offset r)" "unat a dvd unat (lr_offset r)"
    using n a off fit up by (auto simp: r b' unat_add_u64 word_less_nat_alt)
qed

definition layout_alloc :: "layout_builder \<Rightarrow> u64 \<Rightarrow> u64 \<Rightarrow> (u64 \<times> layout_builder) result" where
  "layout_alloc b n a = rbind (layout_add b n a ''layout'') (\<lambda>(r, b'). Inr (lr_offset r, b'))"

interpretation lb: bump_allocator layout_alloc "\<lambda>b. unat (lb_cursor b)" "\<lambda>b. unat (lb_peak b)" "\<lambda>_. 0"
  by unfold_locales (auto simp: layout_alloc_def result_simps dest: layout_add_Inr)

definition ws_alloc_offset :: "workspace_builder \<Rightarrow> u64 \<Rightarrow> u64 \<Rightarrow> (u64 \<times> workspace_builder) result" where
  "ws_alloc_offset w n a = (case ws_bump w n a of
     (Inl e, _) \<Rightarrow> Inl e | (Inr _, w') \<Rightarrow> Inr (ws_cursor w' - n, w'))"

lemma ws_bump_Inr:
  assumes "ws_bump w n a = (Inr u, w')"
  shows "is_power_of_two a"
    "unat (ws_cursor w' - n) = round_up (unat (ws_cursor w)) (unat a)"
    "unat (ws_cursor w') = unat (ws_cursor w' - n) + unat n"
    "unat (ws_peak w') = max (unat (ws_peak w)) (unat (ws_cursor w'))"
    "unat (ws_cursor w) \<le> unat (ws_cursor w' - n)" "unat a dvd unat (ws_cursor w' - n)"
proof -
  from assms obtain off where a: "is_power_of_two a"
    and off: "unat off = round_up (unat (ws_cursor w)) (unat a)"
    and fit: "unat off + unat n \<le> u64_max"
    and w': "w' = w\<lparr>ws_cursor := off + n, ws_peak := (if off + n > ws_peak w then off + n else ws_peak w)\<rparr>"
    by (auto simp: ws_bump_def Let_def result_simps split: sum.splits)
  note up = round_up_props [OF power_of_two_pos [OF a], of "unat (ws_cursor w)"]
  show "is_power_of_two a"
    "unat (ws_cursor w' - n) = round_up (unat (ws_cursor w)) (unat a)"
    "unat (ws_cursor w') = unat (ws_cursor w' - n) + unat n"
    "unat (ws_peak w') = max (unat (ws_peak w)) (unat (ws_cursor w'))"
    "unat (ws_cursor w) \<le> unat (ws_cursor w' - n)" "unat a dvd unat (ws_cursor w' - n)"
    using a off fit up by (auto simp: w' unat_add_u64 word_less_nat_alt)
qed

interpretation ws: bump_allocator ws_alloc_offset "\<lambda>w. unat (ws_cursor w)" "\<lambda>w. unat (ws_peak w)" "\<lambda>_. 0"
  by unfold_locales
    (auto simp: ws_alloc_offset_def dest: ws_bump_Inr split: prod.splits sum.splits)

section \<open>Planned layouts\<close>

text \<open>Adding a list of (bytes, alignment) requests; the labels do not influence the offsets.\<close>

fun plan_regions :: "layout_builder \<Rightarrow> (u64 \<times> u64) list \<Rightarrow> (layout_region list \<times> layout_builder) result" where
  "plan_regions b [] = Inr ([], b)"
| "plan_regions b ((n, a) # reqs) =
     rbind (layout_add b n a ''layout'') (\<lambda>(r, b').
     rbind (plan_regions b' reqs) (\<lambda>(rs, b''). Inr (r # rs, b'')))"

definition region_range :: "layout_region \<Rightarrow> u64 \<times> u64" where
  "region_range r = (lr_offset r, lr_bytes r)"

lemma plan_regions_run:
  "plan_regions b reqs = Inr (rs, b') \<Longrightarrow>
     alloc_run layout_alloc b reqs = Inr (map region_range rs, b') \<and>
     map (\<lambda>r. (lr_bytes r, lr_alignment r)) rs = reqs \<and>
     (\<forall>r \<in> set rs. is_power_of_two (lr_alignment r))"
proof (induction reqs arbitrary: b rs)
  case (Cons q reqs)
  obtain n a where q: "q = (n, a)" by fastforce
  from Cons.prems obtain r b1 rs' where *: "layout_add b n a ''layout'' = Inr (r, b1)"
    "plan_regions b1 reqs = Inr (rs', b')" "rs = r # rs'"
    by (auto simp: q result_simps)
  show ?case
    using Cons.IH [OF *(2)] *(1,3) layout_add_Inr(1-3) [OF *(1)]
    by (auto simp: q layout_alloc_def region_range_def)
qed simp

lemma planned_regions_geometry:
  assumes plan: "plan_regions b reqs = Inr (rs, b')" and fin: "layout_finish b' a label = Inr sz"
  shows "sorted_wrt (\<lambda>r r'. unat (lr_offset r) + unat (lr_bytes r) \<le> unat (lr_offset r')) rs \<and>
    (\<forall>r \<in> set rs. unat (lr_alignment r) dvd unat (lr_offset r) \<and>
        unat (lr_offset r) + unat (lr_bytes r) \<le> unat sz)"
proof -
  note run = plan_regions_run [OF plan]
  have "sorted_wrt before (map region_range rs)" using run lb.run_ordered by blast
  then have ord: "sorted_wrt (\<lambda>r r'. unat (lr_offset r) + unat (lr_bytes r) \<le> unat (lr_offset r')) rs"
    by (simp add: sorted_wrt_map before_def range_end_def region_range_def)
  have pk: "unat (lb_peak b') \<le> unat sz"
    using fin round_up_props(1) power_of_two_pos by (auto simp: layout_finish_def result_simps)
  have al: "list_all2 (\<lambda>(off, b) (b', a). b = b' \<and> unat a dvd 0 + unat off) (map region_range rs)
      reqs"
    by (rule lb.run_served) (use run in blast)
  have reqs: "reqs = map (\<lambda>r. (lr_bytes r, lr_alignment r)) rs" using run by simp
  have "unat (lr_alignment r) dvd unat (lr_offset r)" if "r \<in> set rs" for r
    using al that unfolding reqs by (auto simp: list_all2_conv_all_nth in_set_conv_nth region_range_def)
  moreover have "unat (lr_offset r) + unat (lr_bytes r) \<le> unat sz" if "r \<in> set rs" for r
    using lb.run_below_peak [of b reqs "map region_range rs" b' "region_range r"] run that pk
    by (auto simp: range_end_def region_range_def)
  ultimately show ?thesis using ord by blast
qed

text \<open>
  Regions planned by one builder never overlap, are aligned as requested and end at or below the
  peak, hence inside the size \<open>finish\<close> reports.
\<close>

theorem planned_regions_disjoint:
  assumes plan: "plan_regions b reqs = Inr (rs, b')" and fin: "layout_finish b' a label = Inr sz"
  shows "sorted_wrt (\<lambda>r r'. unat (lr_offset r) + unat (lr_bytes r) \<le> unat (lr_offset r')) rs \<and>
    (\<forall>r \<in> set rs. unat (lr_alignment r) dvd unat (lr_offset r) \<and>
        unat (lr_offset r) + unat (lr_bytes r) \<le> unat sz)"
  using planned_regions_geometry [OF plan fin] .

theorem planned_regions_disjoint_witness:
  "\<exists>rs b'. plan_regions empty_builder [(100, 256), (5, 4)] = Inr (rs, b') \<and>
     layout_finish b' 256 ''x'' = Inr 256 \<and>
     map lr_offset rs = [0, 100] \<and>
     sorted_wrt (\<lambda>r r'. unat (lr_offset r) + unat (lr_bytes r) \<le> unat (lr_offset r')) rs"
proof -
  let ?rs = "[\<lparr>lr_offset = 0, lr_bytes = 100, lr_alignment = 256\<rparr>,
     \<lparr>lr_offset = 100, lr_bytes = 5, lr_alignment = 4\<rparr>]"
  have p: "plan_regions empty_builder [(100, 256), (5, 4)] = Inr (?rs, \<lparr>lb_cursor = 105, lb_peak = 105\<rparr>)"
    by (simp add: layout_add_def empty_builder_def align_up_def is_power_of_two_def checked_add_def)
  have f: "layout_finish \<lparr>lb_cursor = 105, lb_peak = 105\<rparr> 256 ''x'' = Inr 256"
    by (simp add: layout_finish_def align_up_def is_power_of_two_def checked_add_def)
  show ?thesis using planned_regions_disjoint [OF p f] p f by fastforce
qed

lemma power_of_two_mod_dvd:
  assumes "is_power_of_two a"
  shows "x mod a = 0 \<longleftrightarrow> unat a dvd unat x"
  using power_of_two_pos [OF assms] by (simp add: word_unat_eq_iff unat_mod dvd_eq_mod_eq_0)

text \<open>A region inside its backing binds to exactly its bytes of the backing.\<close>

lemma region_bind_ok:
  assumes "is_power_of_two (lr_alignment r)" "unat (lr_alignment r) dvd unat (lr_offset r)"
    and "unat (lr_offset r) + unat (lr_bytes r) \<le> unat (ds_bytes backing)"
    and "ds_data backing \<noteq> 0" "unat (lr_alignment r) dvd unat (ds_data backing)"
    and "unat (ds_data backing) + unat (ds_bytes backing) \<le> u64_max"
  shows "region_bind r backing =
      Inr \<lparr>ds_data = ds_data backing + lr_offset r, ds_bytes = lr_bytes r\<rparr>"
    "unat (ds_data backing + lr_offset r) = unat (ds_data backing) + unat (lr_offset r)"
proof -
  show sum: "unat (ds_data backing + lr_offset r) = unat (ds_data backing) + unat (lr_offset r)"
    using assms by (intro unat_add_u64) linarith
  have "(ds_data backing + lr_offset r) mod lr_alignment r = 0"
    using assms sum by (simp add: power_of_two_mod_dvd)
  moreover have "unat (ds_bytes backing - lr_offset r) = unat (ds_bytes backing) - unat (lr_offset r)"
    using assms(3) by (intro unat_sub) (simp add: word_le_nat_alt)
  ultimately show "region_bind r backing =
      Inr \<lparr>ds_data = ds_data backing + lr_offset r, ds_bytes = lr_bytes r\<rparr>"
    using assms by (auto simp: region_bind_def word_less_nat_alt throw_if_def)
qed

text \<open>
  C10. A backing allocation of the size \<open>finish\<close> reports, at an address aligned for every
  requested alignment, satisfies every planned region: all bindings succeed, and the bound spans are disjoint
  and inside the backing.
\<close>

theorem planned_regions_bind:
  assumes plan: "plan_regions b reqs = Inr (rs, b')" and fin: "layout_finish b' a label = Inr sz"
    and backing: "ds_bytes backing = sz" "ds_data backing \<noteq> 0"
      "unat (ds_data backing) + unat sz \<le> u64_max"
    and base: "\<forall>(n, al) \<in> set reqs. unat al dvd unat (ds_data backing)"
  shows "\<exists>spans. rmap (\<lambda>r. region_bind r backing) rs = Inr spans \<and>
    map ds_bytes spans = map fst reqs \<and>
    sorted_wrt (\<lambda>x y. unat (ds_data x) + unat (ds_bytes x) \<le> unat (ds_data y)) spans \<and>
    (\<forall>x \<in> set spans. ds_data backing \<le> ds_data x \<and>
       unat (ds_data x) + unat (ds_bytes x) \<le> unat (ds_data backing) + unat sz)"
proof -
  let ?span = "\<lambda>r. \<lparr>ds_data = ds_data backing + lr_offset r, ds_bytes = lr_bytes r\<rparr>"
  note run = plan_regions_run [OF plan]
  note geo = planned_regions_geometry [OF plan fin]
  have al: "unat (lr_alignment r) dvd unat (ds_data backing)" if "r \<in> set rs" for r
  proof -
    have "(lr_bytes r, lr_alignment r) \<in> set reqs" using run that by force
    with base show ?thesis by blast
  qed
  have ok: "region_bind r backing = Inr (?span r)"
    and addr: "unat (ds_data backing + lr_offset r) = unat (ds_data backing) + unat (lr_offset r)"
    if "r \<in> set rs" for r
    using region_bind_ok [of r backing] run geo al backing that by auto
  have "rmap (\<lambda>r. region_bind r backing) rs = Inr (map ?span rs)" by (rule rmap_ok) (rule ok)
  moreover have "map ds_bytes (map ?span rs) = map fst reqs"
    using conjunct1 [OF conjunct2 [OF run]] by (auto simp: comp_def)
  moreover have "sorted_wrt (\<lambda>x y. unat (ds_data x) + unat (ds_bytes x) \<le> unat (ds_data y)) (map ?span rs)"
    unfolding sorted_wrt_map
    by (rule sorted_wrt_mono_rel [OF _ conjunct1 [OF geo]]) (simp add: addr)
  moreover have "\<forall>x \<in> set (map ?span rs). ds_data backing \<le> ds_data x \<and>
       unat (ds_data x) + unat (ds_bytes x) \<le> unat (ds_data backing) + unat sz"
    using geo by (auto simp: addr word_le_nat_alt)
  ultimately show ?thesis by blast
qed

theorem planned_regions_bind_witness:
  "\<exists>spans. rmap (\<lambda>r. region_bind r \<lparr>ds_data = 512, ds_bytes = 256\<rparr>)
      [\<lparr>lr_offset = 0, lr_bytes = 100, lr_alignment = 256\<rparr>,
       \<lparr>lr_offset = 100, lr_bytes = 5, lr_alignment = 4\<rparr>] = Inr spans \<and> map ds_bytes spans = [100, 5]"
proof -
  let ?rs = "[\<lparr>lr_offset = 0, lr_bytes = 100, lr_alignment = 256\<rparr>,
     \<lparr>lr_offset = 100, lr_bytes = 5, lr_alignment = 4\<rparr>]"
  have p: "plan_regions empty_builder [(100, 256), (5, 4)] = Inr (?rs, \<lparr>lb_cursor = 105, lb_peak = 105\<rparr>)"
    by (simp add: layout_add_def empty_builder_def align_up_def is_power_of_two_def checked_add_def)
  have f: "layout_finish \<lparr>lb_cursor = 105, lb_peak = 105\<rparr> 256 ''x'' = Inr 256"
    by (simp add: layout_finish_def align_up_def is_power_of_two_def checked_add_def)
  show ?thesis using planned_regions_bind [OF p f, of "\<lparr>ds_data = 512, ds_bytes = 256\<rparr>"] by auto
qed

end
