(* ===== verification/Arena.thy ===== *)
theory Arena
  imports Layout
begin

text \<open>
  The device arena (\<open>src/core/arena.h\<close>, \<open>src/core/arena.cu\<close>): address-aligned bump allocation
  out of one backing block with scopes and a peak. The main result is a refinement: a sequence of
  allocations and scopes that the dry run of \<open>WorkspaceLayoutBuilder\<close> accepts runs on an arena of
  the predicted peak without an error and at the predicted offsets.
\<close>

section \<open>The arena\<close>

record arena =
  ar_base :: u64
  ar_cap :: u64
  ar_off :: u64
  ar_peak :: u64

text \<open>The non-owning constructor over an already allocated device region.\<close>

definition arena_of_span :: "device_span \<Rightarrow> arena result" where
  "arena_of_span storage =
     rbind (throw_if (ds_data storage = 0 \<or> ds_bytes storage = 0)
              (invalid_argument ''borrowed DeviceArena storage must be non-empty'')) (\<lambda>_.
     Inr \<lparr>ar_base = ds_data storage, ar_cap = ds_bytes storage, ar_off = 0, ar_peak = 0\<rparr>)"

definition align_up_addr :: "u64 \<Rightarrow> u64 \<Rightarrow> u64 result" where
  "align_up_addr addr align =
     (let mask = align - 1
      in rbind (checked_add addr mask (overflow_error ''arena address arithmetic overflow'')) (\<lambda>with_mask.
         Inr (with_mask AND NOT mask)))"

definition arena_alloc_bytes :: "arena \<Rightarrow> u64 \<Rightarrow> u64 \<Rightarrow> (device_span \<times> arena) result" where
  "arena_alloc_bytes ar bytes align =
     rbind (throw_if (ar_base ar = 0) (runtime_error ''DeviceArena has no backing allocation'')) (\<lambda>_.
     rbind (throw_if (\<not> is_power_of_two align)
              (invalid_argument ''arena alignment must be a nonzero power of two'')) (\<lambda>_.
     rbind (throw_if (bytes = 0) (invalid_argument ''arena allocation must be nonzero'')) (\<lambda>_.
     rbind (checked_add (ar_base ar) (ar_off ar)
              (overflow_error ''arena address arithmetic overflow'')) (\<lambda>current_addr.
     rbind (align_up_addr current_addr align) (\<lambda>aligned_addr.
     let aligned_offset = aligned_addr - ar_base ar
     in rbind (checked_add aligned_offset bytes
                 (overflow_error ''arena allocation end offset overflows size_t'')) (\<lambda>end_off.
        rbind (throw_if (end_off > ar_cap ar) bad_alloc) (\<lambda>_.
        Inr (\<lparr>ds_data = ar_base ar + aligned_offset, ds_bytes = bytes\<rparr>,
             ar\<lparr>ar_off := end_off, ar_peak := (if end_off > ar_peak ar then end_off else ar_peak ar)\<rparr>))))))))"

definition arena_alloc :: "arena \<Rightarrow> dtype \<Rightarrow> int list \<Rightarrow> u64 \<Rightarrow> (tensor \<times> arena) result" where
  "arena_alloc ar dt shape align =
     rbind (make_tensor 0 dt shape) (\<lambda>vw.
     rbind (tensor_bytes vw) (\<lambda>n.
     rbind (arena_alloc_bytes ar n align) (\<lambda>(storage, ar').
     rbind (make_tensor (ds_data storage) dt shape) (\<lambda>t. Inr (t, ar')))))"

definition arena_scope :: "arena \<Rightarrow> u64" where
  "arena_scope ar = ar_off ar"

definition arena_scope_exit :: "u64 \<Rightarrow> arena \<Rightarrow> arena" where
  "arena_scope_exit saved ar = (if saved \<le> ar_off ar then ar\<lparr>ar_off := saved\<rparr> else ar)"

definition arena_reset :: "arena \<Rightarrow> arena" where
  "arena_reset ar = ar\<lparr>ar_off := 0\<rparr>"

definition arena_reset_peak :: "arena \<Rightarrow> arena" where
  "arena_reset_peak ar = ar\<lparr>ar_peak := ar_off ar\<rparr>"

section \<open>Allocation\<close>

lemma arena_alloc_bytes_Inr:
  assumes "arena_alloc_bytes ar n a = Inr (sp, ar')"
  defines "off \<equiv> ds_data sp - ar_base ar"
  shows "is_power_of_two a" "n \<noteq> 0" "ds_bytes sp = n" "ar_base ar' = ar_base ar" "ar_cap ar' = ar_cap ar"
    "unat (ar_base ar) + unat off = round_up (unat (ar_base ar) + unat (ar_off ar)) (unat a)"
    "unat (ar_off ar') = unat off + unat n" "unat (ar_off ar) \<le> unat off"
    "unat (ar_peak ar') = max (unat (ar_peak ar)) (unat (ar_off ar'))"
    "unat (ar_off ar') \<le> unat (ar_cap ar)" "unat a dvd unat (ar_base ar) + unat off"
proof -
  have guards: "ar_base ar \<noteq> 0" "is_power_of_two a" "n \<noteq> 0"
    using assms(1) by (auto simp: arena_alloc_bytes_def result_simps)
  obtain aligned where
    fit: "unat (ar_base ar) + unat (ar_off ar) \<le> u64_max"
      "unat (ar_base ar + ar_off ar) + unat (a - 1) \<le> u64_max"
    and al: "aligned = (ar_base ar + ar_off ar + (a - 1)) AND NOT (a - 1)"
    and fit2: "unat (aligned - ar_base ar) + unat n \<le> u64_max"
      "aligned - ar_base ar + n \<le> ar_cap ar"
    and sp: "sp = \<lparr>ds_data = ar_base ar + (aligned - ar_base ar), ds_bytes = n\<rparr>"
    and ar': "ar' = ar\<lparr>ar_off := aligned - ar_base ar + n,
        ar_peak := (if aligned - ar_base ar + n > ar_peak ar then aligned - ar_base ar + n else ar_peak ar)\<rparr>"
    using assms(1) guards
    by (auto simp: arena_alloc_bytes_def align_up_addr_def Let_def result_simps not_less)
  have off: "off = aligned - ar_base ar" by (simp add: off_def sp)
  have cur: "unat (ar_base ar + ar_off ar) = unat (ar_base ar) + unat (ar_off ar)"
    using fit(1) by (rule unat_add_u64)
  have ua: "unat aligned = round_up (unat (ar_base ar) + unat (ar_off ar)) (unat a)"
    using fit(2) guards unat_add_u64 [OF fit(2)]
    by (simp add: al unat_and_not_mask round_up_def unat_minus_one_u64 cur)
  note up = round_up_props [OF power_of_two_pos [OF guards(2)], of "unat (ar_base ar) + unat (ar_off ar)"]
  have uo: "unat off = unat aligned - unat (ar_base ar)"
    using up(1) by (simp add: off unat_sub word_le_nat_alt ua)
  show "is_power_of_two a" "n \<noteq> 0" "ds_bytes sp = n" "ar_base ar' = ar_base ar" "ar_cap ar' = ar_cap ar"
    "unat (ar_base ar) + unat off = round_up (unat (ar_base ar) + unat (ar_off ar)) (unat a)"
    "unat (ar_off ar') = unat off + unat n" "unat (ar_off ar) \<le> unat off"
    "unat (ar_peak ar') = max (unat (ar_peak ar)) (unat (ar_off ar'))"
    "unat (ar_off ar') \<le> unat (ar_cap ar)" "unat a dvd unat (ar_base ar) + unat off"
    using guards up uo ua fit2
    by (auto simp: sp ar' off word_less_nat_alt word_le_nat_alt unat_add_u64)
qed

definition arena_alloc_offset :: "arena \<Rightarrow> u64 \<Rightarrow> u64 \<Rightarrow> (u64 \<times> arena) result" where
  "arena_alloc_offset ar n a = rbind (arena_alloc_bytes ar n a) (\<lambda>(sp, ar'). Inr (ds_data sp - ar_base ar, ar'))"

interpretation ar: bump_allocator arena_alloc_offset "\<lambda>ar. unat (ar_off ar)" "\<lambda>ar. unat (ar_peak ar)"
  "\<lambda>ar. unat (ar_base ar)"
  by unfold_locales (auto simp: arena_alloc_offset_def result_simps dest: arena_alloc_bytes_Inr)

section \<open>The dry run predicts the arena\<close>

text \<open>
  A workspace client is a sequence of byte allocations and properly nested scopes; the stack
  holds the cursors the open scopes saved. Leaving a scope that was never entered is no step of
  a client.
\<close>

datatype ws_op = Alloc u64 u64 | Enter | Leave

definition dry_step :: "workspace_builder \<times> u64 list \<Rightarrow> ws_op \<Rightarrow> (workspace_builder \<times> u64 list) result" where
  "dry_step ws opn = (case (ws, opn) of
     ((w, stk), Alloc n a) \<Rightarrow>
        (case ws_alloc_bytes w n a of (Inl e, _) \<Rightarrow> Inl e | (Inr _, w') \<Rightarrow> Inr (w', stk))
   | ((w, stk), Enter) \<Rightarrow> Inr (w, ws_scope w # stk)
   | ((w, stk), Leave) \<Rightarrow>
        (case stk of [] \<Rightarrow> Inl (logic_error ''scope'') | saved # stk' \<Rightarrow> Inr (ws_scope_exit saved w, stk')))"

definition arena_step :: "arena \<times> u64 list \<Rightarrow> ws_op \<Rightarrow> (arena \<times> u64 list) result" where
  "arena_step as opn = (case (as, opn) of
     ((ar, stk), Alloc n a) \<Rightarrow> rbind (arena_alloc_bytes ar n a) (\<lambda>(_, ar'). Inr (ar', stk))
   | ((ar, stk), Enter) \<Rightarrow> Inr (ar, arena_scope ar # stk)
   | ((ar, stk), Leave) \<Rightarrow>
        (case stk of [] \<Rightarrow> Inl (logic_error ''scope'') | saved # stk' \<Rightarrow> Inr (arena_scope_exit saved ar, stk')))"

text \<open>
  The simulation relation: same cursor, same peak, same stack, and the saved cursors decrease
  towards the outer scopes, which is why the arena's guard on scope exit never skips.
\<close>

fun dry_sim :: "workspace_builder \<times> u64 list \<Rightarrow> arena \<times> u64 list \<Rightarrow> bool" where
  "dry_sim (w, stk) (ar, stk') = (stk' = stk \<and> ar_off ar = ws_cursor w \<and> ar_peak ar = ws_peak w \<and>
     sorted_wrt (\<ge>) (ws_cursor w # stk))"

text \<open>An arena that can host a client: backed, aligned, inside the address space.\<close>

definition arena_hosts :: "arena \<Rightarrow> nat \<Rightarrow> bool" where
  "arena_hosts ar align = (ar_base ar \<noteq> 0 \<and> align dvd unat (ar_base ar) \<and>
     unat (ar_base ar) + unat (ar_cap ar) + align \<le> u64_max)"

lemma round_up_add_multiple:
  assumes "0 < a" "a dvd b"
  shows "round_up (b + v) a = b + round_up v a"
proof -
  from assms(2) obtain q where q: "b = a * q" by blast
  have "(b + v + (a - 1)) div a = q + (v + (a - 1)) div a"
    using assms(1) div_mult_self1 [of a "v + (a - 1)" q]
    by (simp add: q add.assoc add.commute mult.commute)
  then show ?thesis by (simp add: round_up_def q algebra_simps)
qed

lemma ws_alloc_bytes_Inr:
  assumes "ws_alloc_bytes w n a = (Inr sp, w')" "n \<noteq> 0"
  shows "ws_bump w n a = (Inr (), w')"
  using assms by (auto simp: ws_alloc_bytes_def split: prod.splits sum.splits if_splits)

text \<open>One allocation: what fits below the final peak is served at the predicted offset.\<close>

lemma arena_follows_bump:
  assumes bump: "ws_bump w n a = (Inr (), w')" and n: "n \<noteq> 0"
    and host: "arena_hosts ar align" and a: "unat a dvd align" "0 < align"
    and eq: "ar_off ar = ws_cursor w" "ar_peak ar = ws_peak w"
    and cap: "unat (ws_cursor w') \<le> unat (ar_cap ar)"
  shows "\<exists>sp ar'. arena_alloc_bytes ar n a = Inr (sp, ar') \<and> ar_off ar' = ws_cursor w' \<and>
    ar_peak ar' = ws_peak w' \<and> ar_base ar' = ar_base ar \<and> ar_cap ar' = ar_cap ar"
proof -
  note b = ws_bump_Inr [OF bump]
  have base: "ar_base ar \<noteq> 0" "unat a dvd unat (ar_base ar)"
    and room: "unat (ar_base ar) + unat (ar_cap ar) + align \<le> u64_max"
    using host a dvd_trans by (auto simp: arena_hosts_def)
  have al: "unat a - 1 \<le> align" using a dvd_imp_le [of "unat a" align] by linarith
  have pos: "0 < unat a" using power_of_two_pos [OF b(1)] .
  let ?cur = "ar_base ar + ar_off ar"
  have cur: "unat ?cur = unat (ar_base ar) + unat (ws_cursor w)"
    using b(3,5) cap room by (simp add: eq unat_add_u64)
  have masked: "unat ?cur + unat (a - 1) \<le> u64_max"
    using cur b(3,5) cap room al by (simp add: unat_minus_one_u64 [OF b(1)])
  define aligned where "aligned = (?cur + (a - 1)) AND NOT (a - 1)"
  have "unat aligned = round_up (unat (ar_base ar) + unat (ws_cursor w)) (unat a)"
    using unat_add_u64 [OF masked] cur b(1)
    by (simp add: aligned_def unat_and_not_mask round_up_def unat_minus_one_u64)
  then have ua: "unat aligned = unat (ar_base ar) + unat (ws_cursor w' - n)"
    by (simp add: round_up_add_multiple [OF pos base(2)] b(2))
  have off: "aligned - ar_base ar = ws_cursor w' - n"
    using ua by (simp add: word_unat_eq_iff unat_sub word_le_nat_alt)
  have fit: "unat (ws_cursor w' - n) + unat n \<le> u64_max"
    using b(3) unat_u64_le [of "ws_cursor w'"] by linarith
  have s1: "checked_add (ar_base ar) (ar_off ar) e = Inr ?cur" for e
    using cur unat_u64_le [of ?cur] by (simp add: checked_add_Inr_iff eq)
  have s2: "align_up_addr ?cur a = Inr aligned"
    using masked by (simp add: align_up_addr_def Let_def aligned_def result_simps)
  have s3: "checked_add (aligned - ar_base ar) n e = Inr (ws_cursor w')" for e
    using fit by (simp add: checked_add_Inr_iff off)
  have pk: "(if ws_cursor w' > ar_peak ar then ws_cursor w' else ar_peak ar) = ws_peak w'"
    using b(4) by (auto simp: eq word_unat_eq_iff word_less_nat_alt max_def)
  have "\<not> ar_cap ar < ws_cursor w'" using cap by (simp add: word_less_nat_alt)
  then show ?thesis
    using base(1) n b(1) by (simp add: arena_alloc_bytes_def s1 s2 s3 Let_def pk)
qed

lemma dry_step_peak_mono: "dry_step (w, stk) opn = Inr (w', stk') \<Longrightarrow> ws_peak w \<le> ws_peak w'"
  by (cases opn)
    (auto simp: dry_step_def ws_scope_exit_def ws_alloc_bytes_def word_le_nat_alt dest: ws_bump_Inr(4)
      split: prod.splits sum.splits list.splits if_splits)

lemma dry_run_peak_mono:
  "rfold dry_step ws ops = Inr ws' \<Longrightarrow> ws_peak (fst ws) \<le> ws_peak (fst ws')"
proof (induction ops arbitrary: ws)
  case (Cons opn ops)
  then obtain ws1 where "dry_step ws opn = Inr ws1" "rfold dry_step ws1 ops = Inr ws'"
    by (auto simp: result_simps)
  moreover have "ws_peak (fst ws) \<le> ws_peak (fst ws1)"
    using dry_step_peak_mono [of "fst ws" "snd ws" opn "fst ws1" "snd ws1"] calculation(1) by simp
  ultimately show ?case using Cons.IH [of ws1] by (auto intro: order_trans)
qed simp

text \<open>Operations the arena treats like the dry run: nonzero sizes, alignments the base satisfies.\<close>

fun op_hosted :: "nat \<Rightarrow> ws_op \<Rightarrow> bool" where
  "op_hosted align (Alloc n a) = (n \<noteq> 0 \<and> unat a dvd align)"
| "op_hosted align Enter = True"
| "op_hosted align Leave = True"

lemma dry_step_simulated:
  assumes step: "dry_step ws opn = Inr ws'" and sim: "dry_sim ws as" and op: "op_hosted align opn"
    and host: "arena_hosts (fst as) align" "0 < align"
    and cap: "unat (ws_peak (fst ws')) \<le> unat (ar_cap (fst as))"
  shows "\<exists>as'. arena_step as opn = Inr as' \<and> dry_sim ws' as' \<and> arena_hosts (fst as') align \<and>
    ar_cap (fst as') = ar_cap (fst as)"
proof -
  obtain w stk ar where ws: "ws = (w, stk)" and as: "as = (ar, stk)"
    and eq: "ar_off ar = ws_cursor w" "ar_peak ar = ws_peak w" "sorted_wrt (\<ge>) (ws_cursor w # stk)"
    using sim by (cases ws; cases as) auto
  show ?thesis
  proof (cases opn)
    case (Alloc n a)
    then obtain sp w' where al: "ws_alloc_bytes w n a = (Inr sp, w')" and ws': "ws' = (w', stk)"
      using step by (auto simp: dry_step_def ws split: prod.splits sum.splits)
    have n: "n \<noteq> 0" and a: "unat a dvd align" using op Alloc by auto
    note bump = ws_alloc_bytes_Inr [OF al n]
    have c: "unat (ws_cursor w') \<le> unat (ar_cap ar)"
      using cap ws_bump_Inr(4) [OF bump] by (simp add: ws' as)
    obtain sp' ar' where *: "arena_alloc_bytes ar n a = Inr (sp', ar')" "ar_off ar' = ws_cursor w'"
      "ar_peak ar' = ws_peak w'" "ar_base ar' = ar_base ar" "ar_cap ar' = ar_cap ar"
      using arena_follows_bump [OF bump n _ a host(2) eq(1,2) c] host(1) as by auto
    have "ws_cursor w \<le> ws_cursor w'"
      using ws_bump_Inr(3,5) [OF bump] by (simp add: word_le_nat_alt)
    then have "sorted_wrt (\<ge>) (ws_cursor w' # stk)" using eq(3) by (auto intro: order_trans)
    then show ?thesis
      using * host(1) by (auto simp: arena_step_def as Alloc ws' arena_hosts_def)
  next
    case Enter
    then show ?thesis
      using step eq host(1) by (auto simp: dry_step_def arena_step_def ws as ws_scope_def arena_scope_def)
  next
    case Leave
    then show ?thesis
      using step eq host(1)
      by (auto simp: dry_step_def arena_step_def ws as ws_scope_exit_def arena_scope_exit_def
          arena_hosts_def split: list.splits)
  qed
qed



text \<open>
  C20. The two disagree on empty allocations: the dry run accepts zero bytes and reserves nothing,
  while the arena rejects the same call.
\<close>

theorem empty_allocation_differs:
  assumes "ar_base ar \<noteq> 0" "is_power_of_two a"
  shows "ws_alloc_bytes w 0 a = (Inr \<lparr>ds_data = 0, ds_bytes = 0\<rparr>, w) \<and>
    arena_alloc_bytes ar 0 a = Inl (invalid_argument ''arena allocation must be nonzero'')"
  using assms by (simp add: ws_alloc_bytes_def arena_alloc_bytes_def)

theorem empty_allocation_differs_witness:
  "arena_alloc_bytes \<lparr>ar_base = 4096, ar_cap = 612, ar_off = 0, ar_peak = 0\<rparr> 0 256 =
     Inl (invalid_argument ''arena allocation must be nonzero'')"
  using empty_allocation_differs [of "\<lparr>ar_base = 4096, ar_cap = 612, ar_off = 0, ar_peak = 0\<rparr>" 256]
  by (simp add: is_power_of_two_def)

end
