(* ===== verification/Paged_Pool.thy ===== *)
theory Paged_Pool
  imports Layout
begin

text \<open>
  The homogeneous physical page pool of \<open>src/core/paged_kv_cache.*\<close>: planning of its storage
  planes and block tables, construction, capacity tests, the page selection of \<open>take_pages\<close>,
  the return of pages, and the coalesced zeroing of named pages. The allocations that own pages
  are in \<open>Paged_KV\<close>. CUDA copies and fills are recorded as the writes they issue.
\<close>

section \<open>Specifications and planning\<close>

abbreviation kPagedKVPageSize :: int where "kPagedKVPageSize \<equiv> 64"

definition checked_i32 :: "u32 \<Rightarrow> string \<Rightarrow> int result" where
  "checked_i32 v label =
     (if v = 0 \<or> uint v > i32_max then Inl (invalid_argument (label @ '' must fit positive int32''))
      else Inr (uint v))"

definition pages_for_tokens :: "u32 \<Rightarrow> u32" where
  "pages_for_tokens tokens = (if tokens = 0 then 0 else 1 + (tokens - 1) div 64)"

record plane_spec =
  pl_dtype :: dtype
  pl_leading_extent :: int
  pl_head_extent :: int
  pl_alignment :: u64

datatype plane_order = PageMajor | HeadMajor

record pool_spec =
  sp_page_group_count :: u32
  sp_logical_page_capacity :: u32
  sp_table_rows :: int
  sp_plane_order :: plane_order
  sp_planes :: "plane_spec list"

record plane_layout =
  pll_spec :: plane_spec
  pll_storage :: tensor_region

record pool_layout =
  pol_spec :: pool_spec
  pol_planes :: "plane_layout list"
  pol_block_tables :: tensor_region

definition plane_shape :: "plane_order \<Rightarrow> int \<Rightarrow> plane_spec \<Rightarrow> int list" where
  "plane_shape ord physical_pages plane =
     (case ord of
        PageMajor \<Rightarrow> [pl_leading_extent plane, kPagedKVPageSize, pl_head_extent plane, physical_pages]
      | HeadMajor \<Rightarrow> [pl_leading_extent plane, kPagedKVPageSize, physical_pages, pl_head_extent plane])"

text \<open>The loop over the planes; the index only labels the region.\<close>

fun plan_planes :: "plane_order \<Rightarrow> int \<Rightarrow> nat \<Rightarrow> plane_spec list \<Rightarrow> layout_builder \<Rightarrow>
    (plane_layout list \<times> layout_builder) result" where
  "plan_planes ord physical_pages index [] b = Inr ([], b)"
| "plan_planes ord physical_pages index (plane # planes) b =
     rbind (throw_if (pl_leading_extent plane \<le> 0 \<or> pl_head_extent plane \<le> 0)
              (invalid_argument ''Paged KV plane extents must be positive'')) (\<lambda>_.
     rbind (layout_add_tensor b (pl_dtype plane) (plane_shape ord physical_pages plane)
              (pl_alignment plane) (''Paged KV plane '' @ string_of_nat index)) (\<lambda>(storage, b').
     rbind (plan_planes ord physical_pages (Suc index) planes b') (\<lambda>(rest, b'').
     Inr (\<lparr>pll_spec = plane, pll_storage = storage\<rparr> # rest, b''))))"

definition plan_paged_kv_pool ::
  "layout_builder \<Rightarrow> pool_spec \<Rightarrow> (pool_layout \<times> layout_builder) result" where
  "plan_paged_kv_pool b spec =
     rbind (checked_i32 (sp_page_group_count spec) ''Paged KV page cnt'') (\<lambda>physical_pages.
     rbind (checked_i32 (sp_logical_page_capacity spec) ''Paged KV logical page capacity'')
       (\<lambda>logical_pages.
     rbind (throw_if (sp_table_rows spec \<le> 0)
              (invalid_argument ''Paged KV table row cnt must be positive'')) (\<lambda>_.
     rbind (throw_if (sp_planes spec = [])
              (invalid_argument ''Paged KV pool must contain planes'')) (\<lambda>_.
     rbind (plan_planes (sp_plane_order spec) physical_pages 0 (sp_planes spec) b) (\<lambda>(planes, b').
     rbind (layout_add_tensor b' I32 [logical_pages, sp_table_rows spec] 256
              ''Paged KV block tables'') (\<lambda>(tables, b'').
     Inr (\<lparr>pol_spec = spec, pol_planes = planes, pol_block_tables = tables\<rparr>, b'')))))))"

definition payload_bytes :: "pool_layout \<Rightarrow> u64" where
  "payload_bytes l = foldl (\<lambda>total plane. total + lr_bytes (tr_region (pll_storage plane))) 0 (pol_planes l)"

definition metadata_bytes :: "pool_layout \<Rightarrow> u64" where
  "metadata_bytes l = lr_bytes (tr_region (pol_block_tables l))"

section \<open>The pool\<close>

text \<open>
  \<open>kp_table row k\<close> is the device content of logical entry \<open>k\<close> of block-table row \<open>row\<close>, the
  memory behind the tensor \<open>block_table_row(row)\<close>; it is undefined until published, which the
  initial value -1 stands for.
\<close>

record kv_pool =
  kp_spec :: pool_spec
  kp_planes :: "tensor list"
  kp_block_tables :: tensor
  kp_free :: "int list"
  kp_rows :: "bool list"
  kp_entitled :: u32
  kp_mapped :: u32
  kp_table :: "nat \<Rightarrow> nat \<Rightarrow> int"

fun bind_planes :: "device_span \<Rightarrow> plane_layout list \<Rightarrow> plane_spec list \<Rightarrow> tensor list result" where
  "bind_planes backing (plane # planes) (s # ss) =
     rbind (throw_if (pl_dtype (pll_spec plane) \<noteq> pl_dtype s \<or>
                      pl_leading_extent (pll_spec plane) \<noteq> pl_leading_extent s \<or>
                      pl_head_extent (pll_spec plane) \<noteq> pl_head_extent s)
              (logic_error ''Paged KV plane layout does not match its spec'')) (\<lambda>_.
     rbind (tensor_region_bind (pll_storage plane) backing) (\<lambda>t.
     rbind (bind_planes backing planes ss) (\<lambda>ts. Inr (t # ts))))"
| "bind_planes backing _ _ = Inr []"

definition initial_page_ids :: "u32 \<Rightarrow> int list" where
  "initial_page_ids n = map (\<lambda>page. sint (word_of_nat page :: u32)) [0..<unat n]"

definition make_pool :: "device_span \<Rightarrow> pool_layout \<Rightarrow> kv_pool result" where
  "make_pool backing layout =
     (let spec = pol_spec layout in
     rbind (tensor_region_bind (pol_block_tables layout) backing) (\<lambda>tables.
     rbind (throw_if (sp_table_rows spec < 0)
              (length_error ''cannot create std::vector larger than max_size()'')) (\<lambda>_.
     rbind (throw_if (length (pol_planes layout) \<noteq> length (sp_planes spec) \<or> pol_planes layout = [])
              (invalid_argument ''Paged KV layout plane inventory is inconsistent'')) (\<lambda>_.
     rbind (throw_if (t_dtype tables \<noteq> I32)
              (logic_error ''Paged KV block-table layout is inconsistent'')) (\<lambda>_.
     rbind (checked_i32 (sp_logical_page_capacity spec) ''Paged KV logical page capacity'') (\<lambda>cap.
     rbind (throw_if (t_ne tables ! 0 \<noteq> cap \<or> t_ne tables ! 1 \<noteq> sp_table_rows spec)
              (logic_error ''Paged KV block-table layout is inconsistent'')) (\<lambda>_.
     rbind (bind_planes backing (pol_planes layout) (sp_planes spec)) (\<lambda>planes.
     Inr \<lparr>kp_spec = spec, kp_planes = planes, kp_block_tables = tables,
          kp_free = initial_page_ids (sp_page_group_count spec),
          kp_rows = replicate (nat (sp_table_rows spec)) False,
          kp_entitled = 0, kp_mapped = 0, kp_table = (\<lambda>_ _. - 1)\<rparr>))))))))"

definition page_group_count :: "kv_pool \<Rightarrow> u32" where
  "page_group_count p = sp_page_group_count (kp_spec p)"

definition logical_page_capacity :: "kv_pool \<Rightarrow> u32" where
  "logical_page_capacity p = sp_logical_page_capacity (kp_spec p)"

definition table_row_count :: "kv_pool \<Rightarrow> int" where
  "table_row_count p = sp_table_rows (kp_spec p)"

definition pool_plane :: "kv_pool \<Rightarrow> nat \<Rightarrow> tensor result" where
  "pool_plane p index =
     (if index < length (kp_planes p) then Inr (kp_planes p ! index)
      else Inl (out_of_range ''vector::at''))"

definition block_table_row :: "kv_pool \<Rightarrow> int \<Rightarrow> tensor result" where
  "block_table_row p row =
     rbind (throw_if (row < 0 \<or> row \<ge> table_row_count p)
              (out_of_range ''Paged KV block-table row out of range'')) (\<lambda>_.
     rbind (slice (kp_block_tables p) 1 row 1) (\<lambda>t.
     view t [sint (logical_page_capacity p)]))"

definition free_pages :: "kv_pool \<Rightarrow> u32" where
  "free_pages p = word_of_nat (length (kp_free p))"

definition can_reserve :: "kv_pool \<Rightarrow> u32 \<Rightarrow> bool" where
  "can_reserve p n =
     (n \<noteq> 0 \<and> n \<le> logical_page_capacity p \<and> n \<le> page_group_count p - kp_entitled p)"

definition can_replace_entitlement :: "kv_pool \<Rightarrow> u32 \<Rightarrow> u32 \<Rightarrow> bool" where
  "can_replace_entitlement p old_pages new_pages =
     (old_pages \<le> kp_entitled p \<and> new_pages \<le> logical_page_capacity p \<and>
      new_pages \<le> page_group_count p - (kp_entitled p - old_pages))"

definition add_entitlement :: "kv_pool \<Rightarrow> u32 \<Rightarrow> kv_pool" where
  "add_entitlement p pages = p\<lparr>kp_entitled := kp_entitled p + pages\<rparr>"

definition replace_entitlement :: "kv_pool \<Rightarrow> u32 \<Rightarrow> u32 \<Rightarrow> kv_pool" where
  "replace_entitlement p old_pages new_pages =
     p\<lparr>kp_entitled := kp_entitled p - old_pages + new_pages\<rparr>"

definition acquire_row :: "kv_pool \<Rightarrow> int \<Rightarrow> kv_pool result" where
  "acquire_row p row =
     rbind (throw_if (row < 0 \<or> row \<ge> table_row_count p)
              (out_of_range ''Paged KV block-table row out of range'')) (\<lambda>_.
     rbind (throw_if (kp_rows p ! nat row)
              (logic_error ''Paged KV block-table row is already bound'')) (\<lambda>_.
     Inr (p\<lparr>kp_rows := (kp_rows p)[nat row := True]\<rparr>)))"

definition release_row :: "kv_pool \<Rightarrow> int \<Rightarrow> kv_pool" where
  "release_row p row = p\<lparr>kp_rows := (kp_rows p)[nat row := False]\<rparr>"

section \<open>Taking and returning pages\<close>

definition run_at :: "int list \<Rightarrow> nat \<Rightarrow> nat \<Rightarrow> bool" where
  "run_at ids cnt begin =
     (begin + cnt \<le> length ids \<and>
      list_all (\<lambda>offset. ids ! (begin + offset) = ids ! begin + int offset) [1..<cnt])"

text \<open>\<open>std::lower_bound\<close> on a sorted vector: the index of the first element not below the key.\<close>

definition lower_bound :: "int list \<Rightarrow> int \<Rightarrow> nat" where
  "lower_bound ids key = length (takeWhile (\<lambda>x. x < key) ids)"

definition preferred_run :: "int list \<Rightarrow> nat \<Rightarrow> int \<Rightarrow> nat" where
  "preferred_run ids cnt preferred =
     (if preferred \<ge> 0 \<and> lower_bound ids preferred < length ids \<and>
         ids ! lower_bound ids preferred = preferred \<and> run_at ids cnt (lower_bound ids preferred)
      then lower_bound ids preferred else length ids)"

definition first_run :: "int list \<Rightarrow> nat \<Rightarrow> nat" where
  "first_run ids cnt =
     (case find (run_at ids cnt) [0..<Suc (length ids) - cnt] of
        Some begin \<Rightarrow> begin | None \<Rightarrow> length ids)"

definition take_pages :: "kv_pool \<Rightarrow> u32 \<Rightarrow> int \<Rightarrow> (int list \<times> kv_pool) result" where
  "take_pages p cnt preferred =
     (let ids = kp_free p; n = unat cnt in
      if cnt = 0 then Inr ([], p)
      else if n > length ids
      then Inl (logic_error ''Paged KV entitlement could not be materialized'')
      else
        let preferred_at = preferred_run ids n preferred;
            selected = (if preferred_at = length ids then first_run ids n else preferred_at);
            first = (if selected \<noteq> length ids then selected else 0)
        in Inr (take n (drop first ids),
                p\<lparr>kp_free := take first ids @ drop (first + n) ids,
                  kp_mapped := kp_mapped p + cnt\<rparr>))"

definition return_pages :: "kv_pool \<Rightarrow> int list \<Rightarrow> kv_pool" where
  "return_pages p pages =
     (if pages = [] then p
      else p\<lparr>kp_free := sort (kp_free p @ pages),
             kp_mapped := kp_mapped p - word_of_nat (length pages)\<rparr>)"

section \<open>Zeroing pages\<close>

text \<open>
  The device fills \<open>zero_pages\<close> issues: plane index, byte offset from the plane's base, and the
  extents of \<open>cudaMemsetAsync\<close> or \<open>cudaMemset2DAsync\<close> (pitch, width and height).
\<close>

datatype fill =
    Memset nat int int
  | Memset2D nat int int int int

definition plane_fill :: "plane_order \<Rightarrow> int \<Rightarrow> int \<Rightarrow> nat \<times> tensor \<Rightarrow> fill" where
  "plane_fill ord first cnt ip =
     (case ip of (index, plane) \<Rightarrow>
       (case ord of
          PageMajor \<Rightarrow> Memset index (first * t_nb plane ! 3) (cnt * t_nb plane ! 3)
        | HeadMajor \<Rightarrow> Memset2D index (first * t_nb plane ! 2) (t_nb plane ! 3)
                         (cnt * t_nb plane ! 2) (t_ne plane ! 3)))"

definition zero_run :: "kv_pool \<Rightarrow> int \<times> nat \<Rightarrow> fill list" where
  "zero_run p run =
     map (plane_fill (sp_plane_order (kp_spec p)) (fst run) (int (snd run)))
       (zip [0..<length (kp_planes p)] (kp_planes p))"

text \<open>The inner loop counts how far the ids stay consecutive; the outer loop emits the runs.\<close>

fun consecutive :: "int \<Rightarrow> int list \<Rightarrow> nat" where
  "consecutive x [] = 0"
| "consecutive x (y # ys) = (if y = x + 1 then Suc (consecutive y ys) else 0)"

function page_runs :: "int list \<Rightarrow> (int \<times> nat) list" where
  "page_runs [] = []"
| "page_runs (x # xs) =
     (let n = consecutive x xs in (x, Suc n) # page_runs (drop n xs))"
  by pat_completeness auto
termination by (relation "measure length") auto

definition zero_pages :: "kv_pool \<Rightarrow> int list \<Rightarrow> fill list result" where
  "zero_pages p page_ids =
     (if page_ids = [] then Inr []
      else let sorted_ids = sort page_ids in
        rbind (throw_if (hd sorted_ids < 0 \<or> last sorted_ids \<ge> sint (page_group_count p))
                 (out_of_range ''Paged KV physical page is out of range'')) (\<lambda>_.
        rbind (throw_if (\<not> distinct_adj sorted_ids)
                 (invalid_argument ''Paged KV physical pages must be distinct'')) (\<lambda>_.
        Inr (concat (map (zero_run p) (page_runs sorted_ids))))))"


section \<open>Page selection\<close>

lemma lower_bound_nth:
  assumes "sorted ids" "distinct ids" "key \<in> set ids"
  shows "lower_bound ids key < length ids" "ids ! lower_bound ids key = key"
proof -
  obtain i where i: "i < length ids" "ids ! i = key" using assms(3) by (auto simp: in_set_conv_nth)
  have "ids ! j < key" if "j < i" for j
    using assms(1,2) i that by (metis strict_sorted_iff sorted_wrt_pairwise)
  then have "takeWhile (\<lambda>x. x < key) ids = take i ids"
    using i by (intro takeWhile_eq_take_P_nth) auto
  then have "lower_bound ids key = i" using i by (simp add: lower_bound_def)
  with i show "lower_bound ids key < length ids" "ids ! lower_bound ids key = key" by simp_all
qed

lemma interval_positions:
  assumes "sorted ids" "distinct ids" "{a..<a + int n} \<subseteq> set ids" "k < n"
  shows "lower_bound ids a + k < length ids \<and> ids ! (lower_bound ids a + k) = a + int k"
  using assms(4)
proof (induction k)
  case 0
  then have "a \<in> set ids" using assms(3) by auto
  then show ?case using lower_bound_nth assms(1,2) by auto
next
  case (Suc k)
  let ?b = "lower_bound ids a"
  from Suc have IH: "?b + k < length ids" "ids ! (?b + k) = a + int k" by auto
  have "a + int (Suc k) \<in> set ids" using assms(3) Suc.prems by (auto intro!: subsetD [OF assms(3)])
  then obtain j where j: "j < length ids" "ids ! j = a + int (Suc k)" by (auto simp: in_set_conv_nth)
  have strict: "ids ! x < ids ! y" if "x < y" "y < length ids" for x y
    using that assms(1,2) by (metis strict_sorted_iff sorted_wrt_pairwise)
  have "?b + k < j" using strict [of j "?b + k"] j IH by (cases "?b + k" j rule: linorder_cases) auto
  moreover have "\<not> Suc (?b + k) < j" using strict [of "Suc (?b + k)" j] strict [of "?b + k" "Suc (?b + k)"] j IH
    by auto
  ultimately have "j = Suc (?b + k)" by auto
  then show ?case using j by simp
qed

lemma interval_run_at:
  assumes "sorted ids" "distinct ids" "{a..<a + int n} \<subseteq> set ids" "0 < n"
  shows "run_at ids n (lower_bound ids a)"
  using interval_positions [OF assms(1-3), of "n - 1"] interval_positions [OF assms(1-3)]
    interval_positions [OF assms(1-3) assms(4)] assms(4)
  by (auto simp: run_at_def list_all_iff)

lemma set_map_upt_int: "set (map (\<lambda>k. a + int k) [0..<n]) = {a..<a + int n}"
proof (rule set_eqI)
  fix x
  show "x \<in> set (map (\<lambda>k. a + int k) [0..<n]) \<longleftrightarrow> x \<in> {a..<a + int n}"
  proof
    assume "x \<in> {a..<a + int n}"
    then have "nat (x - a) < n" "x = a + int (nat (x - a))" by auto
    then show "x \<in> set (map (\<lambda>k. a + int k) [0..<n])" by force
  qed auto
qed

lemma run_at_ids:
  assumes "run_at ids n begin"
  shows "take n (drop begin ids) = map (\<lambda>k. ids ! begin + int k) [0..<n]"
proof (rule nth_equalityI)
  show "length (take n (drop begin ids)) = length (map (\<lambda>k. ids ! begin + int k) [0..<n])"
    using assms by (auto simp: run_at_def)
  fix k assume "k < length (take n (drop begin ids))"
  then have k: "k < n" by simp
  have "ids ! (begin + k) = ids ! begin + int k"
    using assms k by (cases "k = 0") (auto simp: run_at_def list_all_iff)
  then show "take n (drop begin ids) ! k = map (\<lambda>k. ids ! begin + int k) [0..<n] ! k"
    using assms k by (auto simp: run_at_def)
qed

lemma first_run_found:
  assumes "run_at ids n b" "0 < n"
  shows "first_run ids n < length ids" "run_at ids n (first_run ids n)"
proof -
  have "b \<in> set [0..<Suc (length ids) - n]" using assms by (auto simp: run_at_def)
  then have "find (run_at ids n) [0..<Suc (length ids) - n] \<noteq> None"
    using assms(1) unfolding find_None_iff by blast
  then obtain x where x: "find (run_at ids n) [0..<Suc (length ids) - n] = Some x" by blast
  then have "run_at ids n x" by (auto simp: find_Some_iff)
  then show "first_run ids n < length ids" "run_at ids n (first_run ids n)"
    using x assms(2) by (auto simp: first_run_def run_at_def)
qed

text \<open>What \<open>take_pages\<close> changes: it moves \<open>cnt\<close> ids from the free list to the caller.\<close>

lemma take_pages_first:
  assumes "take_pages p cnt pref = Inr (out, p')" "cnt \<noteq> 0"
  obtains first where "first + unat cnt \<le> length (kp_free p)"
    "out = take (unat cnt) (drop first (kp_free p))"
    "p' = p\<lparr>kp_free := take first (kp_free p) @ drop (first + unat cnt) (kp_free p),
       kp_mapped := kp_mapped p + cnt\<rparr>"
proof -
  let ?ids = "kp_free p" and ?n = "unat cnt"
  have le: "?n \<le> length ?ids" using assms by (auto simp: take_pages_def Let_def split: if_splits)
  have npos: "0 < ?n" using assms(2) by (simp add: unat_gt_0)
  define sel where "sel = (if preferred_run ?ids ?n pref = length ?ids then first_run ?ids ?n
      else preferred_run ?ids ?n pref)"
  have sel: "sel = length ?ids \<or> run_at ?ids ?n sel"
  proof (cases "preferred_run ?ids ?n pref = length ?ids")
    case True
    then show ?thesis
      by (auto simp: sel_def first_run_def find_Some_iff split: option.splits)
  next
    case False
    then show ?thesis by (auto simp: sel_def preferred_run_def split: if_splits)
  qed
  define first where "first = (if sel \<noteq> length ?ids then sel else 0)"
  have "first + ?n \<le> length ?ids" using sel le by (auto simp: first_def run_at_def)
  moreover have "take_pages p cnt pref = Inr (take ?n (drop first ?ids),
      p\<lparr>kp_free := take first ?ids @ drop (first + ?n) ?ids, kp_mapped := kp_mapped p + cnt\<rparr>)"
    using assms(2) le unfolding take_pages_def Let_def sel_def [symmetric] first_def [symmetric]
    by simp
  ultimately show ?thesis using that assms(1) by auto
qed

lemma mset_take_drop_mid:
  "a + n \<le> length xs \<Longrightarrow> mset (take a xs @ drop (a + n) xs) + mset (take n (drop a xs)) = mset xs"
  by (metis add.assoc add.commute append_take_drop_id drop_drop mset_append)

lemma take_pages_Inr:
  assumes "take_pages p cnt pref = Inr (out, p')"
  shows "length out = unat cnt" "mset (kp_free p') + mset out = mset (kp_free p)"
    "kp_mapped p' = kp_mapped p + cnt"
    "sorted (kp_free p) \<Longrightarrow> sorted (kp_free p')"
    "p' = p\<lparr>kp_free := kp_free p', kp_mapped := kp_mapped p'\<rparr>"
proof -
  have "length out = unat cnt \<and> mset (kp_free p') + mset out = mset (kp_free p) \<and>
    kp_mapped p' = kp_mapped p + cnt \<and> (sorted (kp_free p) \<longrightarrow> sorted (kp_free p')) \<and>
    p' = p\<lparr>kp_free := kp_free p', kp_mapped := kp_mapped p'\<rparr>"
  proof (cases "cnt = 0")
    case True
    then show ?thesis using assms by (auto simp: take_pages_def Let_def)
  next
    case False
    then obtain first where f: "first + unat cnt \<le> length (kp_free p)"
      and out: "out = take (unat cnt) (drop first (kp_free p))"
      and p': "p' = p\<lparr>kp_free := take first (kp_free p) @ drop (first + unat cnt) (kp_free p),
        kp_mapped := kp_mapped p + cnt\<rparr>"
      by (rule take_pages_first [OF assms])
    have "sorted (take first (kp_free p) @ drop (first + unat cnt) (kp_free p))" if "sorted (kp_free p)"
    proof -
      have "sorted (take first (kp_free p) @ drop first (kp_free p))" using that by simp
      moreover have "set (drop (first + unat cnt) (kp_free p)) \<subseteq> set (drop first (kp_free p))"
        by (rule set_drop_subset_set_drop) simp
      ultimately show ?thesis using that
        unfolding sorted_append by (auto simp: sorted_wrt_drop)
    qed
    then show ?thesis using f mset_take_drop_mid [OF f] by (auto simp: out p')
  qed
  then show "length out = unat cnt" "mset (kp_free p') + mset out = mset (kp_free p)"
    "kp_mapped p' = kp_mapped p + cnt" "sorted (kp_free p) \<Longrightarrow> sorted (kp_free p')"
    "p' = p\<lparr>kp_free := kp_free p', kp_mapped := kp_mapped p'\<rparr>" by blast+
qed

lemma take_pages_total:
  "unat cnt \<le> length (kp_free p) \<Longrightarrow> \<exists>out p'. take_pages p cnt pref = Inr (out, p')"
  by (simp add: take_pages_def Let_def)


text \<open>
  C27. Page selection prefers contiguity: when the ids from \<open>preferred\<close> on are free, they are the ones taken;
  otherwise, when any run of free consecutive ids is long enough, the taken ids are one such
  run; otherwise they are the lowest free ids.
\<close>

theorem take_pages_contiguous:
  assumes "take_pages p cnt pref = Inr (out, p')" "cnt \<noteq> 0"
    and "sorted (kp_free p)" "distinct (kp_free p)"
  shows "(0 \<le> pref \<and> {pref..<pref + int (unat cnt)} \<subseteq> set (kp_free p)
            \<longrightarrow> out = map (\<lambda>k. pref + int k) [0..<unat cnt]) \<and>
    ((\<exists>a. {a..<a + int (unat cnt)} \<subseteq> set (kp_free p))
            \<longrightarrow> (\<exists>a. out = map (\<lambda>k. a + int k) [0..<unat cnt])) \<and>
    ((\<nexists>a. {a..<a + int (unat cnt)} \<subseteq> set (kp_free p)) \<longrightarrow> out = take (unat cnt) (kp_free p))"
proof -
  let ?ids = "kp_free p" and ?n = "unat cnt"
  have n: "0 < ?n" using assms(2) by (simp add: unat_gt_0)
  define sel where "sel = (if preferred_run ?ids ?n pref = length ?ids then first_run ?ids ?n
      else preferred_run ?ids ?n pref)"
  have out: "out = take ?n (drop (if sel \<noteq> length ?ids then sel else 0) ?ids)"
    using assms(1,2) unfolding take_pages_def Let_def sel_def by (auto split: if_splits)
  have pref: "out = map (\<lambda>k. pref + int k) [0..<?n]"
    if "0 \<le> pref" and sub: "{pref..<pref + int ?n} \<subseteq> set ?ids"
  proof -
    have "pref \<in> set ?ids" by (rule subsetD [OF sub]) (use assms(2) in \<open>simp add: less_le uint_0_iff\<close>)
    note lb = lower_bound_nth [OF assms(3,4) this]
    have run: "run_at ?ids ?n (lower_bound ?ids pref)"
      using interval_run_at [OF assms(3,4) sub n] .
    have "sel = lower_bound ?ids pref" using lb run that(1) by (simp add: sel_def preferred_run_def)
    then show ?thesis using run_at_ids [OF run] lb out by simp
  qed
  have some: "\<exists>a. out = map (\<lambda>k. a + int k) [0..<?n]" if "run_at ?ids ?n b" for b
  proof -
    have "sel < length ?ids \<and> run_at ?ids ?n sel"
      using first_run_found [OF that n] by (auto simp: sel_def preferred_run_def)
    then show ?thesis using run_at_ids out by auto
  qed
  have none: "out = take ?n ?ids" if "\<nexists>a. {a..<a + int ?n} \<subseteq> set ?ids"
  proof -
    have no: "\<not> run_at ?ids ?n b" for b
    proof
      assume r: "run_at ?ids ?n b"
      have "{?ids ! b..<?ids ! b + int ?n} = set (map (\<lambda>k. ?ids ! b + int k) [0..<?n])"
        by (rule set_map_upt_int [symmetric])
      also have "\<dots> \<subseteq> set ?ids"
        unfolding run_at_ids [OF r, symmetric] by (meson set_drop_subset set_take_subset subset_trans)
      finally show False using that by blast
    qed
    then have "sel = length ?ids"
      by (auto simp: sel_def preferred_run_def first_run_def find_None_iff find_Some_iff split: option.splits)
    then show ?thesis using out by simp
  qed
  show ?thesis using pref some none interval_run_at [OF assms(3,4) _ n] by blast
qed

definition sample_pool :: "int list \<Rightarrow> kv_pool" where
  "sample_pool ids = \<lparr>kp_spec = \<lparr>sp_page_group_count = 8, sp_logical_page_capacity = 8, sp_table_rows = 2,
      sp_plane_order = PageMajor, sp_planes = []\<rparr>, kp_planes = [],
     kp_block_tables = \<lparr>t_data = 4096, t_dtype = I32, t_ne = [8, 2, 1, 1], t_nb = [4, 32, 64, 64]\<rparr>,
     kp_free = ids, kp_rows = [False, False], kp_entitled = 8, kp_mapped = 3, kp_table = (\<lambda>_ _. - 1)\<rparr>"

theorem take_pages_contiguous_witness:
  "\<exists>out p'. take_pages (sample_pool [0, 2, 4, 5, 7]) 2 (- 1) = Inr (out, p') \<and>
     (\<exists>a. out = map (\<lambda>k. a + int k) [0..<2])"
proof -
  obtain out p' where t: "take_pages (sample_pool [0, 2, 4, 5, 7]) 2 (- 1) = Inr (out, p')"
    using take_pages_total [of 2 "sample_pool [0, 2, 4, 5, 7]" "- 1"] by (force simp: sample_pool_def)
  have "{4..<4 + int (unat (2 :: u32))} \<subseteq> set (kp_free (sample_pool [0, 2, 4, 5, 7]))"
    by (auto simp: sample_pool_def)
  then have "\<exists>a. {a..<a + int (unat (2 :: u32))} \<subseteq> set (kp_free (sample_pool [0, 2, 4, 5, 7]))" by blast
  with take_pages_contiguous [OF t]
  have "\<exists>a. out = map (\<lambda>k. a + int k) [0..<unat (2 :: u32)]" by (simp add: sample_pool_def)
  with t show ?thesis by auto
qed


section \<open>Zeroed bytes\<close>

text \<open>The bytes of plane \<open>i\<close> a fill writes, by the documented meaning of the two fill calls.\<close>

definition fill_writes :: "fill \<Rightarrow> nat \<Rightarrow> int \<Rightarrow> bool" where
  "fill_writes f i x = (case f of
     Memset j off n \<Rightarrow> i = j \<and> off \<le> x \<and> x < off + n
   | Memset2D j off pitch w h \<Rightarrow> i = j \<and> (\<exists>r. 0 \<le> r \<and> r < h \<and> off + r * pitch \<le> x \<and> x < off + r * pitch + w))"

definition page_coordinate :: "plane_order \<Rightarrow> int list \<Rightarrow> int" where
  "page_coordinate ord idx = (case ord of PageMajor \<Rightarrow> idx ! 3 | HeadMajor \<Rightarrow> idx ! 2)"

text \<open>The planes of a pool as planned: contiguous tensors whose page extent is the page count.\<close>

definition pool_planes_ok :: "kv_pool \<Rightarrow> bool" where
  "pool_planes_ok p = (\<forall>t \<in> set (kp_planes p).
     (\<exists>shape. make_tensor (t_data t) (t_dtype t) shape = Inr t) \<and>
     page_coordinate (sp_plane_order (kp_spec p)) (t_ne t) = uint (page_group_count p))"

lemma page_runs_expand:
  "concat (map (\<lambda>(x, n). map (\<lambda>k. x + int k) [0..<n]) (page_runs xs)) = xs"
proof (induction xs rule: page_runs.induct)
  case (2 x xs)
  have run: "map (\<lambda>k. x + int k) [0..<Suc (consecutive x xs)] = x # take (consecutive x xs) xs" for x xs
  proof (induction x xs rule: consecutive.induct)
    case (2 x y ys)
    have "map (\<lambda>k. x + int k) [0..<Suc (Suc (consecutive y ys))] =
        x # map (\<lambda>k. (x + 1) + int k) [0..<Suc (consecutive y ys)]"
      by (subst map_upt_Suc) (simp add: algebra_simps del: upt_Suc)
    with 2 show ?case by (cases "y = x + 1") (simp_all del: upt_Suc add: upt_Suc [of 0 0])
  qed simp
  have "map (\<lambda>k. x + int k) [0..<Suc (consecutive x xs)] @ drop (consecutive x xs) xs = x # xs"
    unfolding run by simp
  then show ?case using 2 [OF refl] by (simp add: Let_def del: upt_Suc)
qed simp

lemma page_runs_member:
  "g \<in> set xs \<longleftrightarrow> (\<exists>(x, n) \<in> set (page_runs xs). x \<le> g \<and> g < x + int n)"
proof -
  have "g \<in> set xs \<longleftrightarrow> g \<in> set (concat (map (\<lambda>(x, n). map (\<lambda>k. x + int k) [0..<n]) (page_runs xs)))"
    by (simp only: page_runs_expand)
  also have "\<dots> \<longleftrightarrow> (\<exists>(x, n) \<in> set (page_runs xs). g \<in> set (map (\<lambda>k. x + int k) [0..<n]))"
    by (simp add: case_prod_beta)
  finally show ?thesis by (simp only: set_map_upt_int atLeastLessThan_iff)
qed

lemma quotient_unique:
  fixes q :: int
  assumes "0 \<le> r" "r < q" "0 \<le> r'" "r' < q" "q * a + r = q * b + r'"
  shows "a = b"
  using radix_inj [OF assms(1-4)] assms(5) by (simp add: algebra_simps)

lemma quotient_range:
  fixes q :: int
  assumes "0 \<le> r" "r < q"
  shows "a * q \<le> q * i + r \<and> q * i + r < a * q + n * q \<longleftrightarrow> a \<le> i \<and> i < a + n"
proof -
  have lo: "a * q \<le> q * i + r \<longleftrightarrow> a \<le> i"
  proof
    assume "a * q \<le> q * i + r"
    then have "a * q < (i + 1) * q" using assms by (simp add: algebra_simps)
    then show "a \<le> i" using assms by (simp add: mult_less_cancel_right)
  next
    assume "a \<le> i"
    then have "a * q \<le> i * q" using assms by (intro mult_right_mono) auto
    then show "a * q \<le> q * i + r" using assms(1) mult.commute [of q i] by linarith
  qed
  have hi: "q * i + r < m * q \<longleftrightarrow> i < m" for m
  proof
    assume "q * i + r < m * q"
    then have "i * q < m * q" using assms(1) mult.commute [of q i] by linarith
    then show "i < m" using assms by (simp add: mult_less_cancel_right)
  next
    assume "i < m"
    then have "(i + 1) * q \<le> m * q" using assms by (intro mult_right_mono) auto
    then show "q * i + r < m * q" using assms by (simp add: algebra_simps)
  qed
  show ?thesis using lo hi [of "a + n"] by (simp add: algebra_simps)
qed

text \<open>The bytes of one element written by the fill of one run of pages.\<close>

lemma plane_fill_element:
  assumes t: "make_tensor d dt shape = Inr t" and v: "valid_index t idx"
    and b: "0 \<le> b" "b < int (dtype_size dt)"
    and run: "0 \<le> x" "0 \<le> n" "x + n \<le> page_coordinate ord (t_ne t)"
  shows "fill_writes (plane_fill ord x n (i, t)) j (element_offset t idx + b) \<longleftrightarrow>
    i = j \<and> x \<le> page_coordinate ord idx \<and> page_coordinate ord idx < x + n"
proof -
  define e where "e = int (dtype_size dt)"
  obtain A B C D where ne: "t_ne t = [A, B, C, D]" and nb: "t_nb t = [e, e * A, e * A * B, e * A * B * C]"
    unfolding e_def by (rule make_tensor_Inr [OF t])
  obtain i0 i1 i2 i3 where idx: "idx = [i0, i1, i2, i3]"
    and rng: "list_all2 (\<lambda>i n. 0 \<le> i \<and> i < n) [i0, i1, i2, i3] [A, B, C, D]"
    by (rule valid_indexE [OF v ne])
  have h: "0 \<le> i0" "i0 < A" "0 \<le> i1" "i1 < B" "0 \<le> i2" "i2 < C" "0 \<le> i3" "i3 < D"
    using rng by auto
  define q2 where "q2 = e * A * B"
  define q3 where "q3 = q2 * C"
  define r2 where "r2 = b + e * (i0 + A * i1)"
  note s1 = radix_step [OF h(1-4)]
  note s2 = radix_step [OF b(1) b(2)[folded e_def] s1]
  have r2: "0 \<le> r2" "r2 < q2" using s2 by (simp_all add: r2_def q2_def mult.assoc)
  define r3 where "r3 = r2 + q2 * i2"
  have r3: "0 \<le> r3" "r3 < q3" using radix_step [OF r2 h(5,6)] by (simp_all add: r3_def q3_def)
  have off: "element_offset t idx + b = q3 * i3 + r3"
    by (simp add: element_offset_def idx nb r2_def r3_def q2_def q3_def algebra_simps)
  have str: "t_nb t ! 2 = q2" "t_nb t ! 3 = q3" "t_ne t ! 3 = D" by (simp_all add: nb ne q2_def q3_def)
  show ?thesis
  proof (cases ord)
    case PageMajor
    then show ?thesis
      using quotient_range [OF r3, of x i3 n] off str
      by (auto simp: fill_writes_def plane_fill_def page_coordinate_def idx)
  next
    case HeadMajor
    then have fit: "x + n \<le> C" using run by (simp add: page_coordinate_def ne)
    have rows: "(\<exists>r. 0 \<le> r \<and> r < D \<and> x * q2 + r * q3 \<le> q3 * i3 + r3 \<and>
        q3 * i3 + r3 < x * q2 + r * q3 + n * q2) \<longleftrightarrow> x \<le> i2 \<and> i2 < x + n" (is "?L \<longleftrightarrow> _")
    proof
      assume ?L
      then obtain r where r: "0 \<le> r" "r < D" "x * q2 + r * q3 \<le> q3 * i3 + r3"
        "q3 * i3 + r3 < x * q2 + r * q3 + n * q2" by blast
      define y where "y = q3 * i3 + r3 - r * q3"
      have "(x + n) * q2 \<le> C * q2" using fit r2 by (intro mult_right_mono) auto
      moreover have "0 \<le> x * q2" using run r2 by simp
      ultimately have y: "0 \<le> y" "y < q3" using r by (simp_all add: y_def q3_def algebra_simps)
      have "i3 = r" by (rule quotient_unique [OF r3 y]) (simp add: y_def algebra_simps)
      with r show "x \<le> i2 \<and> i2 < x + n"
        using quotient_range [OF r2, of x i2 n] by (simp add: r3_def algebra_simps)
    next
      assume "x \<le> i2 \<and> i2 < x + n"
      then have "x * q2 \<le> r3 \<and> r3 < x * q2 + n * q2"
        using quotient_range [OF r2, of x i2 n] by (simp add: r3_def algebra_simps)
      then show ?L using h(7,8) by (intro exI [of _ i3]) (simp add: algebra_simps)
    qed
    show ?thesis using HeadMajor rows off str
      by (auto simp: fill_writes_def plane_fill_def page_coordinate_def idx)
  qed
qed


lemma pages_in_range:
  assumes "zero_pages p ids = Inr fs" "ids \<noteq> []" "uint (page_group_count p) \<le> i32_max" "g \<in> set ids"
  shows "0 \<le> g" "g < uint (page_group_count p)"
proof -
  have s: "sint (page_group_count p) = uint (page_group_count p)"
    using assms(3) by (rule sint_u32)
  have "sort ids \<noteq> []" using assms(2) by (metis set_empty set_sort)
  moreover obtain k where k: "k < length (sort ids)" "sort ids ! k = g"
    using assms(4) by (metis in_set_conv_nth set_sort)
  ultimately have "hd (sort ids) \<le> g" "g \<le> last (sort ids)"
    using sorted_nth_mono [OF sorted_sort [of ids], of 0 k]
      sorted_nth_mono [OF sorted_sort [of ids], of k "length (sort ids) - 1"]
    by (simp_all add: last_conv_nth hd_conv_nth)
  then show "0 \<le> g" "g < uint (page_group_count p)"
    using assms s by (auto simp: zero_pages_def Let_def result_simps split: if_splits)
qed

lemma page_runs_pos: "(x, n) \<in> set (page_runs xs) \<Longrightarrow> 0 < n"
  by (induction xs rule: page_runs.induct) (auto simp: Let_def)

text \<open>
  C26. \<open>zero_pages\<close> clears exactly the named pages: an element of any plane is overwritten if and
  only if its page coordinate is one of the given ids, whatever the plane order and however the ids were
  coalesced into runs.
\<close>

theorem zero_pages_exact:
  assumes z: "zero_pages p ids = Inr fs" and ok: "pool_planes_ok p"
    and cnt: "uint (page_group_count p) \<le> i32_max"
    and i: "i < length (kp_planes p)" and v: "valid_index (kp_planes p ! i) idx"
    and b: "0 \<le> b" "b < int (dtype_size (t_dtype (kp_planes p ! i)))"
  shows "(\<exists>f \<in> set fs. fill_writes f i (element_offset (kp_planes p ! i) idx + b)) \<longleftrightarrow>
    page_coordinate (sp_plane_order (kp_spec p)) idx \<in> set ids"
proof (cases "ids = []")
  case True
  then show ?thesis using z by (simp add: zero_pages_def)
next
  case False
  let ?ord = "sp_plane_order (kp_spec p)" and ?t = "kp_planes p ! i"
  let ?x = "element_offset ?t idx + b"
  have fs: "fs = concat (map (zero_run p) (page_runs (sort ids)))"
    using z False by (auto simp: zero_pages_def Let_def result_simps)
  obtain shape where t: "make_tensor (t_data ?t) (t_dtype ?t) shape = Inr ?t"
    and ext: "page_coordinate ?ord (t_ne ?t) = uint (page_group_count p)"
    using ok i unfolding pool_planes_ok_def by force
  have run: "0 \<le> x \<and> x + int n \<le> uint (page_group_count p)" if "(x, n) \<in> set (page_runs (sort ids))" for x n
  proof -
    have n: "0 < n" using page_runs_pos [OF that] .
    then have "x \<in> set ids" "x + int n - 1 \<in> set ids"
      using page_runs_member [of x "sort ids"] page_runs_member [of "x + int n - 1" "sort ids"] that by force+
    then show ?thesis using pages_in_range [OF z False cnt] by force
  qed
  have one: "(\<exists>f \<in> set (zero_run p (x, n)). fill_writes f i ?x) \<longleftrightarrow>
      x \<le> page_coordinate ?ord idx \<and> page_coordinate ?ord idx < x + int n"
    if "(x, n) \<in> set (page_runs (sort ids))" for x n
  proof -
    have el: "fill_writes (plane_fill ?ord x (int n) (k, kp_planes p ! k)) i ?x \<longleftrightarrow>
        k = i \<and> x \<le> page_coordinate ?ord idx \<and> page_coordinate ?ord idx < x + int n" for k
    proof (cases "k = i")
      case True
      then show ?thesis using plane_fill_element [OF t v b, of x "int n" ?ord i i] run [OF that] ext by auto
    next
      case False
      then show ?thesis by (cases ?ord) (auto simp: fill_writes_def plane_fill_def)
    qed
    have "set (zero_run p (x, n)) =
        (\<lambda>k. plane_fill ?ord x (int n) (k, kp_planes p ! k)) ` {0..<length (kp_planes p)}"
      by (simp add: zero_run_def zip_upt_nth image_image)
    then show ?thesis using el i by auto
  qed
  have "(\<exists>f \<in> set fs. fill_writes f i ?x) \<longleftrightarrow>
      (\<exists>(x, n) \<in> set (page_runs (sort ids)). \<exists>f \<in> set (zero_run p (x, n)). fill_writes f i ?x)"
    by (auto simp: fs)
  also have "\<dots> \<longleftrightarrow> page_coordinate ?ord idx \<in> set (sort ids)"
    unfolding page_runs_member by (rule bex_cong [OF refl]) (use one in \<open>auto split: prod.splits\<close>)
  finally show ?thesis by simp
qed


definition zero_sample :: kv_pool where
  "zero_sample = (sample_pool [0..7])\<lparr>
     kp_spec := (kp_spec (sample_pool []))\<lparr>sp_plane_order := HeadMajor\<rparr>,
     kp_planes := [\<lparr>t_data = 8192, t_dtype = BF16, t_ne = [2, 64, 8, 3], t_nb = [2, 4, 256, 2048]\<rparr>]\<rparr>"

lemma zero_sample_planes: "pool_planes_ok zero_sample"
proof -
  have "make_tensor 8192 BF16 [2, 64, 8, 3] = Inr (kp_planes zero_sample ! 0)"
    by (simp add: make_tensor_def normalize_shape_def set_contiguous_strides_def checked_mul_i64_def
        zero_sample_def)
  then show ?thesis
    by (auto simp: pool_planes_ok_def zero_sample_def page_coordinate_def page_group_count_def sample_pool_def)
qed

theorem zero_pages_exact_witness:
  "\<exists>fs. zero_pages zero_sample [5, 2, 3] = Inr fs \<and>
     (\<exists>f \<in> set fs. fill_writes f 0 (element_offset (kp_planes zero_sample ! 0) [1, 63, 3, 2] + 1))"
proof -
  have srt: "sort [5, 2, 3 :: int] = [2, 3, 5]" by simp
  have cnt: "page_group_count zero_sample = 8" by (simp add: page_group_count_def zero_sample_def sample_pool_def)
  obtain fs where z: "zero_pages zero_sample [5, 2, 3] = Inr fs"
    by (simp add: zero_pages_def srt cnt)
  have "\<exists>f \<in> set fs. fill_writes f 0 (element_offset (kp_planes zero_sample ! 0) [1, 63, 3, 2] + 1)"
    using zero_pages_exact [OF z zero_sample_planes, of 0 "[1, 63, 3, 2]" 1] cnt
    by (simp add: zero_sample_def valid_index_def page_coordinate_def sample_pool_def)
  with z show ?thesis by blast
qed

section \<open>Construction\<close>

text \<open>A row of the block tables is a contiguous tensor of \<open>logical_page_capacity\<close> entries.\<close>

lemma block_table_row_ok:
  assumes t: "make_tensor d I32 [cap, rows, 1, 1] = Inr (kp_block_tables p)"
    and cap: "cap = uint (logical_page_capacity p)" "cap \<le> i32_max"
    and row: "0 \<le> row" "row < table_row_count p" "table_row_count p = rows"
  shows "\<exists>r. block_table_row p row = Inr r \<and>
    t_data r = (if d = 0 then 0 else d + word_of_int (row * (4 * cap))) \<and> t_ne r = [cap, 1, 1, 1]"
proof -
  obtain a b c d' where f: "t_ne (kp_block_tables p) = [a, b, c, d']"
    "t_nb (kp_block_tables p) = [4, 4 * a, 4 * a * b, 4 * a * b * c]"
    "0 < a" "0 < b" "t_data (kp_block_tables p) = d" "t_dtype (kp_block_tables p) = I32"
    "[cap, rows, 1, 1] = [a, b, c, d']" "4 * a * b * c \<le> i64_max"
    by (rule make_tensor_Inr [OF t]) simp
  then have e: "a = cap" "b = rows" "c = 1" "d' = 1" by auto
  have "row * (4 * cap) \<le> rows * (4 * cap)" using row f(3) e by (intro mult_right_mono) auto
  also have "\<dots> \<le> i64_max" using f(8) e by (simp add: algebra_simps)
  finally have mul: "checked_mul_i64 row (4 * cap) = Inr (row * (4 * cap))"
    using row f(3) e by (simp add: checked_mul_i64_Inr_iff)
  define s where "s = \<lparr>t_data = (if d = 0 then 0 else d + word_of_int (row * (4 * cap))), t_dtype = I32,
      t_ne = [cap, 1, 1, 1], t_nb = [4, 4 * cap, 4 * cap * rows, 4 * cap * rows]\<rparr>"
  have sl: "slice (kp_block_tables p) 1 row 1 = Inr s"
    using row f(1,2,4,5,6) e mul by (cases "kp_block_tables p") (simp add: slice_def throw_if_def s_def)
  have c4: "checked_mul_i64 4 cap = Inr (4 * cap)" "checked_mul_i64 1 cap = Inr cap"
    "checked_mul_i64 cap 1 = Inr cap" "checked_mul_i64 (4 * cap) 1 = Inr (4 * cap)"
    using cap(2) f(3) e by (simp_all add: checked_mul_i64_Inr_iff)
  have lc: "sint (logical_page_capacity p) = cap" using cap sint_u32 by auto
  have "view s [cap] = Inr \<lparr>t_data = t_data s, t_dtype = I32, t_ne = [cap, 1, 1, 1],
      t_nb = [4, 4 * cap, 4 * cap, 4 * cap]\<rparr>"
    using f(3) e c4 by (simp add: view_def is_contiguous_def s_def throw_if_def normalize_shape_def
        shape_numel_def numel_def make_tensor_def set_contiguous_strides_def numeral_3_eq_3)
  then show ?thesis using sl row lc by (simp add: block_table_row_def throw_if_def s_def)
qed


text \<open>The parts of a pool that no operation changes.\<close>

definition pool_static :: "kv_pool \<Rightarrow> bool" where
  "pool_static p = (uint (page_group_count p) \<le> i32_max \<and> uint (logical_page_capacity p) \<le> i32_max \<and>
     0 < table_row_count p \<and> length (kp_rows p) = nat (table_row_count p) \<and> pool_planes_ok p \<and>
     make_tensor (t_data (kp_block_tables p)) I32
       [uint (logical_page_capacity p), table_row_count p, 1, 1] = Inr (kp_block_tables p))"

lemma checked_i32_Inr_iff [result_simps]:
  "checked_i32 v label = Inr i \<longleftrightarrow> v \<noteq> 0 \<and> uint v \<le> i32_max \<and> i = uint v"
  by (auto simp: checked_i32_def)

lemma layout_add_tensor_Inr:
  assumes "layout_add_tensor b dt shape al label = Inr (r, b')"
  shows "tr_dtype r = dt" "tr_shape r = shape @ replicate (4 - length shape) 1"
  using assms by (auto simp: layout_add_tensor_def result_simps)

lemma tensor_region_bind_Inr:
  assumes "tensor_region_bind r backing = Inr t"
  shows "make_tensor (t_data t) (t_dtype t) (tr_shape r) = Inr t" "t_dtype t = tr_dtype r"
proof -
  have "\<exists>d. make_tensor d (tr_dtype r) (tr_shape r) = Inr t"
    using assms by (auto simp: tensor_region_bind_def result_simps)
  then obtain d where mk: "make_tensor d (tr_dtype r) (tr_shape r) = Inr t" by blast
  obtain a b c e where "t_data t = d" "t_dtype t = tr_dtype r" by (rule make_tensor_Inr [OF mk])
  with mk show "make_tensor (t_data t) (t_dtype t) (tr_shape r) = Inr t" "t_dtype t = tr_dtype r" by simp_all
qed

lemma plan_planes_Inr:
  assumes "plan_planes ord n k planes b = Inr (ls, b')"
  shows "list_all2 (\<lambda>l plane. pll_spec l = plane \<and> tr_shape (pll_storage l) = plane_shape ord n plane) ls planes"
  using assms
proof (induction planes arbitrary: k b ls)
  case (Cons plane planes)
  then obtain st b1 rest where *: "layout_add_tensor b (pl_dtype plane) (plane_shape ord n plane)
      (pl_alignment plane) (''Paged KV plane '' @ string_of_nat k) = Inr (st, b1)"
    "plan_planes ord n (Suc k) planes b1 = Inr (rest, b')" "ls = \<lparr>pll_spec = plane, pll_storage = st\<rparr> # rest"
    by (auto simp: result_simps)
  then show ?case using Cons.IH [OF *(2)] layout_add_tensor_Inr(2) [OF *(1)]
    by (cases ord) (auto simp: plane_shape_def)
qed simp

lemma bind_planes_Inr:
  assumes "bind_planes backing ls specs = Inr ts" "length ls = length specs"
  shows "list_all2 (\<lambda>t l. make_tensor (t_data t) (t_dtype t) (tr_shape (pll_storage l)) = Inr t) ts ls"
  using assms
  by (induction backing ls specs arbitrary: ts rule: bind_planes.induct)
    (auto simp: result_simps dest: tensor_region_bind_Inr)

lemma initial_page_ids_eq:
  assumes "uint n \<le> i32_max"
  shows "initial_page_ids n = map int [0..<unat n]"
  unfolding initial_page_ids_def
proof (rule map_cong [OF refl])
  fix k assume "k \<in> set [0..<unat n]"
  then have k: "k < unat n" by simp
  have "int (unat n) \<le> i32_max" using assms by simp
  then have "int k \<le> i32_max" using k by linarith
  then have "uint (word_of_nat k :: u32) = int k" by (simp add: unsigned_of_nat take_bit_nat_eq_self)
  then show "sint (word_of_nat k :: u32) = int k" using \<open>int k \<le> i32_max\<close> sint_u32 [of "word_of_nat k"] by simp
qed

lemma make_pool_planned:
  assumes plan: "plan_paged_kv_pool b spec = Inr (l, b')" and mk: "make_pool backing l = Inr p"
  shows "pool_static p" "kp_spec p = spec" "kp_free p = map int [0..<unat (page_group_count p)]"
    "kp_rows p = replicate (nat (sp_table_rows spec)) False" "kp_entitled p = 0" "kp_mapped p = 0"
proof -
  obtain planes tables b1 where
    cnt: "uint (sp_page_group_count spec) \<le> i32_max" and cap: "uint (sp_logical_page_capacity spec) \<le> i32_max"
    and rows: "0 < sp_table_rows spec"
    and pl: "plan_planes (sp_plane_order spec) (uint (sp_page_group_count spec)) 0 (sp_planes spec) b = Inr (planes, b1)"
    and bt: "layout_add_tensor b1 I32 [uint (sp_logical_page_capacity spec), sp_table_rows spec] 256
        ''Paged KV block tables'' = Inr (tables, b')"
    and l: "l = \<lparr>pol_spec = spec, pol_planes = planes, pol_block_tables = tables\<rparr>"
    using plan by (auto simp: plan_paged_kv_pool_def result_simps not_le)
  obtain tt ts where tt: "tensor_region_bind tables backing = Inr tt"
    and ts: "bind_planes backing planes (sp_planes spec) = Inr ts"
    and p: "p = \<lparr>kp_spec = spec, kp_planes = ts, kp_block_tables = tt,
          kp_free = initial_page_ids (sp_page_group_count spec),
          kp_rows = replicate (nat (sp_table_rows spec)) False,
          kp_entitled = 0, kp_mapped = 0, kp_table = (\<lambda>_ _. - 1)\<rparr>"
    using mk by (auto simp: make_pool_def Let_def l result_simps)
  have tabs: "make_tensor (t_data tt) I32 [uint (sp_logical_page_capacity spec), sp_table_rows spec, 1, 1] = Inr tt"
    using tensor_region_bind_Inr [OF tt] layout_add_tensor_Inr [OF bt] by (simp add: numeral_2_eq_2)
  note la = plan_planes_Inr [OF pl]
  note lt = bind_planes_Inr [OF ts list_all2_lengthD [OF la]]
  have "(\<exists>shape. make_tensor (t_data t) (t_dtype t) shape = Inr t) \<and>
     page_coordinate (sp_plane_order spec) (t_ne t) = uint (sp_page_group_count spec)" if mem: "t \<in> set ts" for t
  proof -
    obtain i where i: "i < length ts" "t = ts ! i" using mem unfolding in_set_conv_nth by blast
    define plane where "plane = sp_planes spec ! i"
    have mt: "make_tensor (t_data t) (t_dtype t)
        (plane_shape (sp_plane_order spec) (uint (sp_page_group_count spec)) plane) = Inr t"
      using la lt i by (auto simp: list_all2_conv_all_nth plane_def)
    obtain x y z w where "t_ne t = [x, y, z, w]"
      "plane_shape (sp_plane_order spec) (uint (sp_page_group_count spec)) plane = [x, y, z, w]"
      by (rule make_tensor_Inr [OF mt]) (cases "sp_plane_order spec"; auto simp: plane_shape_def)
    then show ?thesis using mt by (cases "sp_plane_order spec") (auto simp: plane_shape_def page_coordinate_def)
  qed
  then show "pool_static p"
    using cnt cap rows tabs by (auto simp: pool_static_def pool_planes_ok_def p page_group_count_def
        logical_page_capacity_def table_row_count_def)
  show "kp_spec p = spec" "kp_free p = map int [0..<unat (page_group_count p)]"
    "kp_rows p = replicate (nat (sp_table_rows spec)) False" "kp_entitled p = 0" "kp_mapped p = 0"
    using cnt by (simp_all add: p page_group_count_def initial_page_ids_eq)
qed

end
