(* ===== verification/Paged_KV.thy ===== *)
theory Paged_KV
  imports Paged_Pool Transitions
begin

text \<open>
  Sequence-owned allocations over the page pools (\<open>PagedKVAllocation\<close> and the bundle functions
  of \<open>src/core/paged_kv_cache.*\<close>): entitlements, materialization, trimming, block-table rows,
  moves and release, and the all-or-nothing bundle operations over several pools. The main
  theorems are the ownership invariant of every reachable state, that an entitled extent can
  always be materialized, and that a refused bundle changes nothing.
\<close>

section \<open>State\<close>

text \<open>
  Pool and allocation objects are named by their index; a pointer is an index or \<open>None\<close>. An
  object that was moved from or released stays in the list in its empty state.
\<close>

record allocation =
  al_pool :: "nat option"
  al_page_ids :: "int list"
  al_entitlement :: u32
  al_bound_row :: int

record kv_state =
  ks_pools :: "kv_pool list"
  ks_allocs :: "allocation list"

definition empty_allocation :: allocation where
  "empty_allocation = \<lparr>al_pool = None, al_page_ids = [], al_entitlement = 0, al_bound_row = - 1\<rparr>"

definition make_allocation :: "nat \<Rightarrow> u32 \<Rightarrow> allocation" where
  "make_allocation pid n = \<lparr>al_pool = Some pid, al_page_ids = [], al_entitlement = n, al_bound_row = - 1\<rparr>"

definition mapped_page_count :: "allocation \<Rightarrow> u32" where
  "mapped_page_count a = word_of_nat (length (al_page_ids a))"

definition mapped_token_capacity :: "allocation \<Rightarrow> u32" where
  "mapped_token_capacity a = mapped_page_count a * 64"

definition belongs_to :: "allocation \<Rightarrow> nat \<Rightarrow> bool" where
  "belongs_to a pid = (al_pool a = Some pid)"

definition kv_write :: "nat \<Rightarrow> allocation \<Rightarrow> nat \<Rightarrow> kv_pool \<Rightarrow> kv_state \<Rightarrow> kv_state" where
  "kv_write i a pid p s = s\<lparr>ks_pools := (ks_pools s)[pid := p], ks_allocs := (ks_allocs s)[i := a]\<rparr>"

section \<open>Operations of one allocation\<close>

definition pool_reserve :: "nat \<Rightarrow> u32 \<Rightarrow> (kv_state, nat) prog" where
  "pool_reserve pid n s =
     (let p = ks_pools s ! pid in
      if \<not> can_reserve p n then (Inl bad_alloc, s)
      else (Inr (length (ks_allocs s)),
            s\<lparr>ks_pools := (ks_pools s)[pid := add_entitlement p n],
              ks_allocs := ks_allocs s @ [make_allocation pid n]\<rparr>))"

definition set_page_entitlement :: "nat \<Rightarrow> u32 \<Rightarrow> (kv_state, unit) prog" where
  "set_page_entitlement i pages s =
     (let a = ks_allocs s ! i in
      case al_pool a of
        None \<Rightarrow> (Inl (invalid_argument ''Paged KV entitlement is smaller than mapped pages''), s)
      | Some pid \<Rightarrow>
         (let p = ks_pools s ! pid in
          if pages < mapped_page_count a
          then (Inl (invalid_argument ''Paged KV entitlement is smaller than mapped pages''), s)
          else if \<not> can_replace_entitlement p (al_entitlement a) pages then (Inl bad_alloc, s)
          else (Inr (), kv_write i (a\<lparr>al_entitlement := pages\<rparr>) pid
                          (replace_entitlement p (al_entitlement a) pages) s)))"

definition cancel_unmapped_entitlement :: "nat \<Rightarrow> (kv_state, unit) prog" where
  "cancel_unmapped_entitlement i s =
     (let a = ks_allocs s ! i in
      case al_pool a of
        None \<Rightarrow> (Inr (), s)
      | Some pid \<Rightarrow>
         (let mapped = mapped_page_count a
          in (Inr (), kv_write i (a\<lparr>al_entitlement := mapped\<rparr>) pid
                (replace_entitlement (ks_pools s ! pid) (al_entitlement a) mapped) s)))"

text \<open>The copy of ids \<open>first ..< first + cnt\<close> into the bound block-table row.\<close>

definition publish_range :: "kv_pool \<Rightarrow> allocation \<Rightarrow> nat \<Rightarrow> nat \<Rightarrow> kv_pool result" where
  "publish_range p a first cnt =
     (if cnt = 0 then Inr p
      else rbind (block_table_row p (al_bound_row a)) (\<lambda>_.
        let row = nat (al_bound_row a); old = kp_table p row
        in Inr (p\<lparr>kp_table := (kp_table p)(row :=
             (\<lambda>k. if first \<le> k \<and> k < first + cnt then al_page_ids a ! k else old k))\<rparr>)))"

definition publish_mapping :: "kv_pool \<Rightarrow> allocation \<Rightarrow> kv_pool result" where
  "publish_mapping p a =
     rbind (throw_if (al_bound_row a < 0) (logic_error ''Paged KV allocation is not bound'')) (\<lambda>_.
     publish_range p a 0 (unat (mapped_page_count a)))"

definition materialize_pages :: "nat \<Rightarrow> u32 \<Rightarrow> (kv_state, unit) prog" where
  "materialize_pages i pages s =
     (let a = ks_allocs s ! i;
          bad = invalid_argument ''Paged KV materialize extent is outside entitlement'' in
      case al_pool a of
        None \<Rightarrow> (Inl bad, s)
      | Some pid \<Rightarrow>
         (let p = ks_pools s ! pid; old_count = mapped_page_count a; cnt = pages - old_count;
              preferred = (if al_page_ids a = [] then - 1 else last (al_page_ids a) + 1) in
          if pages < old_count \<or> pages > al_entitlement a then (Inl bad, s)
          else if cnt = 0 then (Inr (), s)
          else case take_pages p cnt preferred of
              Inl e \<Rightarrow> (Inl e, s)
            | Inr (acquired, p1) \<Rightarrow>
               (let a1 = a\<lparr>al_page_ids := al_page_ids a @ acquired\<rparr> in
                if al_bound_row a \<ge> 0 then
                  (case publish_range p1 a1 (unat old_count) (unat cnt) of
                     Inl e \<Rightarrow> (Inl e, kv_write i a1 pid p1 s)
                   | Inr p2 \<Rightarrow> (Inr (), kv_write i a1 pid p2 s))
                else (Inr (), kv_write i a1 pid p1 s))))"

definition materialize_tokens :: "nat \<Rightarrow> u32 \<Rightarrow> (kv_state, unit) prog" where
  "materialize_tokens i tokens = materialize_pages i (pages_for_tokens tokens)"

definition trim_pages :: "nat \<Rightarrow> u32 \<Rightarrow> (kv_state, unit) prog" where
  "trim_pages i pages s =
     (let a = ks_allocs s ! i in
      case al_pool a of
        None \<Rightarrow> (Inl (logic_error ''Cannot trim an empty Paged KV allocation''), s)
      | Some pid \<Rightarrow>
         if pages > mapped_page_count a
         then (Inl (invalid_argument ''Paged KV trim extent exceeds mapped pages''), s)
         else if pages = mapped_page_count a then (Inr (), s)
         else (Inr (), kv_write i (a\<lparr>al_page_ids := take (unat pages) (al_page_ids a)\<rparr>) pid
                (return_pages (ks_pools s ! pid) (drop (unat pages) (al_page_ids a))) s))"

definition trim_tokens :: "nat \<Rightarrow> u32 \<Rightarrow> (kv_state, unit) prog" where
  "trim_tokens i tokens = trim_pages i (pages_for_tokens tokens)"

definition bind_row :: "nat \<Rightarrow> int \<Rightarrow> (kv_state, unit) prog" where
  "bind_row i row s =
     (let a = ks_allocs s ! i in
      case al_pool a of
        None \<Rightarrow> (Inl (logic_error ''Cannot bind an empty Paged KV allocation''), s)
      | Some pid \<Rightarrow>
         if al_bound_row a \<ge> 0 then (Inl (logic_error ''Paged KV allocation is already bound''), s)
         else case acquire_row (ks_pools s ! pid) row of
             Inl e \<Rightarrow> (Inl e, s)
           | Inr p1 \<Rightarrow>
              (let a1 = a\<lparr>al_bound_row := row\<rparr> in
               case publish_mapping p1 a1 of
                 Inl e \<Rightarrow> (Inl e, kv_write i a1 pid p1 s)
               | Inr p2 \<Rightarrow> (Inr (), kv_write i a1 pid p2 s)))"

definition unbind_row :: "kv_pool \<times> allocation \<Rightarrow> kv_pool \<times> allocation" where
  "unbind_row pa = (case pa of (p, a) \<Rightarrow>
     if al_bound_row a < 0 then (p, a)
     else (release_row p (al_bound_row a), a\<lparr>al_bound_row := - 1\<rparr>))"

definition unbind_row_at :: "nat \<Rightarrow> (kv_state, unit) prog" where
  "unbind_row_at i s =
     (let a = ks_allocs s ! i in
      case al_pool a of
        None \<Rightarrow> (Inr (), s)
      | Some pid \<Rightarrow> (case unbind_row (ks_pools s ! pid, a) of (p', a') \<Rightarrow> (Inr (), kv_write i a' pid p' s)))"

definition block_table :: "kv_pool \<Rightarrow> allocation \<Rightarrow> tensor result" where
  "block_table p a =
     rbind (throw_if (al_bound_row a < 0) (logic_error ''Paged KV allocation is not bound'')) (\<lambda>_.
     block_table_row p (al_bound_row a))"

definition release_alloc :: "nat \<Rightarrow> (kv_state, unit) prog" where
  "release_alloc i s =
     (let a = ks_allocs s ! i in
      case al_pool a of
        None \<Rightarrow> (Inr (), s)
      | Some pid \<Rightarrow>
         (case unbind_row (ks_pools s ! pid, a) of (p1, a1) \<Rightarrow>
            (Inr (), kv_write i (a1\<lparr>al_page_ids := [], al_entitlement := 0, al_pool := None\<rparr>) pid
               (replace_entitlement (return_pages p1 (al_page_ids a1)) (al_entitlement a1) 0) s)))"

text \<open>Move assignment \<open>allocs[i] = std::move(allocs[j])\<close>; the source is left empty.\<close>

definition move_alloc :: "nat \<Rightarrow> nat \<Rightarrow> (kv_state, unit) prog" where
  "move_alloc i j =
     (if i = j then sret ()
      else sbind (release_alloc i) (\<lambda>_ s.
        let src = ks_allocs s ! j
        in (Inr (), s\<lparr>ks_allocs := (ks_allocs s)[i := src,
              j := src\<lparr>al_pool := None, al_page_ids := [], al_entitlement := 0, al_bound_row := - 1\<rparr>]\<rparr>)))"

section \<open>Bundles\<close>

record kv_reservation =
  rv_pool :: "nat option"
  rv_pages :: u32

record kv_resize =
  rz_allocation :: "nat option"
  rz_mapped_pages :: u32
  rz_page_entitlement :: u32

fun validate_distinct_pools :: "kv_reservation list \<Rightarrow> kv_reservation list \<Rightarrow> unit result" where
  "validate_distinct_pools prev [] = Inr ()"
| "validate_distinct_pools prev (r # rs) =
     (if rv_pool r = None \<or> rv_pages r = 0
      then Inl (invalid_argument ''Paged KV reservation must name a pool and pages'')
      else if rv_pool r \<in> rv_pool ` set prev
      then Inl (invalid_argument ''Paged KV bundle contains the same pool twice'')
      else validate_distinct_pools (r # prev) rs)"

text \<open>
  The reserving loop pushes each allocation on the result vector; a throw in the middle unwinds
  the vector, whose elements release themselves.
\<close>

fun reserve_each :: "nat list \<Rightarrow> kv_reservation list \<Rightarrow> (kv_state, nat list) prog" where
  "reserve_each got [] s = (Inr got, s)"
| "reserve_each got (r # rs) s =
     (case pool_reserve (the (rv_pool r)) (rv_pages r) s of
        (Inl e, s') \<Rightarrow> (Inl e, snd (siter release_alloc got s'))
      | (Inr i, s') \<Rightarrow> reserve_each (got @ [i]) rs s')"

definition reserve_paged_kv_bundle :: "kv_reservation list \<Rightarrow> (kv_state, nat list) prog" where
  "reserve_paged_kv_bundle rs s =
     (case rbind (validate_distinct_pools [] rs) (\<lambda>_.
           rfold (\<lambda>_ r. throw_if (\<not> can_reserve (ks_pools s ! the (rv_pool r)) (rv_pages r)) bad_alloc) () rs) of
        Inl e \<Rightarrow> (Inl e, s)
      | Inr _ \<Rightarrow> reserve_each [] rs s)"

fun resize_check :: "kv_state \<Rightarrow> kv_resize list \<Rightarrow> kv_resize list \<Rightarrow> unit result" where
  "resize_check s prev [] = Inr ()"
| "resize_check s prev (c # cs) =
     (case rz_allocation c of
        None \<Rightarrow> Inl (invalid_argument ''Paged KV resize must name a live allocation'')
      | Some i \<Rightarrow>
         (let a = ks_allocs s ! i in
          case al_pool a of
            None \<Rightarrow> Inl (invalid_argument ''Paged KV resize must name a live allocation'')
          | Some pid \<Rightarrow>
             if rz_mapped_pages c > mapped_page_count a \<or> rz_mapped_pages c > rz_page_entitlement c
             then Inl (invalid_argument ''Paged KV resize extents are inconsistent'')
             else if list_ex (\<lambda>d. rz_allocation d = Some i \<or>
                                al_pool (ks_allocs s ! the (rz_allocation d)) = Some pid) prev
             then Inl (invalid_argument ''Paged KV resize contains the same pool twice'')
             else if \<not> can_replace_entitlement (ks_pools s ! pid) (al_entitlement a) (rz_page_entitlement c)
             then Inl bad_alloc
             else resize_check s (c # prev) cs))"

definition resize_paged_kv_bundle :: "kv_resize list \<Rightarrow> (kv_state, unit) prog" where
  "resize_paged_kv_bundle cs s =
     (case resize_check s [] cs of
        Inl e \<Rightarrow> (Inl e, s)
      | Inr _ \<Rightarrow>
         siter (\<lambda>c. sbind (trim_pages (the (rz_allocation c)) (rz_mapped_pages c)) (\<lambda>_.
                  set_page_entitlement (the (rz_allocation c)) (rz_page_entitlement c))) cs s)"


section \<open>Ownership invariant\<close>

definition contrib :: "nat \<Rightarrow> (allocation \<Rightarrow> 'b) \<Rightarrow> allocation \<Rightarrow> 'b :: comm_monoid_add" where
  "contrib pid f a = (if al_pool a = Some pid then f a else 0)"

abbreviation owned :: "nat \<Rightarrow> (allocation \<Rightarrow> 'b) \<Rightarrow> allocation list \<Rightarrow> 'b :: comm_monoid_add" where
  "owned pid f allocs \<equiv> sum_list (map (contrib pid f) allocs)"

abbreviation page_mset :: "allocation \<Rightarrow> int multiset" where "page_mset a \<equiv> mset (al_page_ids a)"
abbreviation page_len :: "allocation \<Rightarrow> nat" where "page_len a \<equiv> length (al_page_ids a)"
abbreviation ent_len :: "allocation \<Rightarrow> nat" where "ent_len a \<equiv> unat (al_entitlement a)"
abbreviation at_row :: "nat \<Rightarrow> allocation \<Rightarrow> nat" where "at_row r a \<equiv> of_bool (al_bound_row a = int r)"

text \<open>
  Of every pool: the free ids are sorted and together with the ids of the pool's allocations
  are exactly the ids below the page count; the two counters are the sums over the allocations;
  a row is in use exactly if one allocation is bound to it.
\<close>

definition pool_inv :: "allocation list \<Rightarrow> nat \<Rightarrow> kv_pool \<Rightarrow> bool" where
  "pool_inv allocs pid p =
     (pool_static p \<and> sorted (kp_free p) \<and>
      mset (kp_free p) + owned pid page_mset allocs = mset (map int [0..<unat (page_group_count p)]) \<and>
      unat (kp_entitled p) = owned pid ent_len allocs \<and>
      unat (kp_mapped p) = owned pid page_len allocs \<and>
      unat (kp_entitled p) \<le> unat (page_group_count p) \<and>
      (\<forall>r < length (kp_rows p). owned pid (at_row r) allocs = of_bool (kp_rows p ! r)))"

definition alloc_inv :: "kv_pool list \<Rightarrow> allocation \<Rightarrow> bool" where
  "alloc_inv pools a =
     (case al_pool a of
        None \<Rightarrow> a = empty_allocation
      | Some pid \<Rightarrow> pid < length pools \<and> page_len a \<le> ent_len a \<and>
          al_entitlement a \<le> logical_page_capacity (pools ! pid) \<and>
          (al_bound_row a = - 1 \<or>
           0 \<le> al_bound_row a \<and> al_bound_row a < table_row_count (pools ! pid) \<and>
           (\<forall>k < page_len a. kp_table (pools ! pid) (nat (al_bound_row a)) k = al_page_ids a ! k)))"

definition kv_inv :: "kv_state \<Rightarrow> bool" where
  "kv_inv s = ((\<forall>pid < length (ks_pools s). pool_inv (ks_allocs s) pid (ks_pools s ! pid)) \<and>
     (\<forall>a \<in> set (ks_allocs s). alloc_inv (ks_pools s) a))"

lemma pool_invD:
  assumes "pool_inv allocs pid p"
  shows "pool_static p" "sorted (kp_free p)"
    "mset (kp_free p) + owned pid page_mset allocs = mset (map int [0..<unat (page_group_count p)])"
    "unat (kp_entitled p) = owned pid ent_len allocs" "unat (kp_mapped p) = owned pid page_len allocs"
    "unat (kp_entitled p) \<le> unat (page_group_count p)"
  using assms unfolding pool_inv_def by blast+

lemma sum_list_two:
  fixes g :: "'a \<Rightarrow> nat"
  assumes "i < length xs" "j < length xs" "i \<noteq> j"
  shows "g (xs ! i) + g (xs ! j) \<le> sum_list (map g xs)"
proof -
  have "sum_list (map g xs) = (\<Sum>k < length xs. g (xs ! k))"
    by (simp add: sum_list_sum_nth atLeast0LessThan)
  also have "\<dots> \<ge> (\<Sum>k \<in> {i, j}. g (xs ! k))"
    using assms by (intro sum_mono2) auto
  finally show ?thesis using assms by simp
qed

lemma owned_update:
  assumes "i < length allocs" "al_pool (allocs ! i) = Some pid \<or> f (allocs ! i) = 0"
    and "al_pool a' = Some pid \<or> f a' = (0 :: 'b :: comm_monoid_add)"
  shows "owned pid f (allocs[i := a']) + f (allocs ! i) = owned pid f allocs + f a'"
proof -
  have "contrib pid f (allocs ! i) = f (allocs ! i)" "contrib pid f a' = f a'"
    using assms(2,3) by (auto simp: contrib_def)
  then show ?thesis using sum_list_exchange [OF assms(1), of "contrib pid f" a'] by simp
qed

lemma owned_update_other:
  assumes "i < length allocs" "al_pool (allocs ! i) \<noteq> Some pid" "al_pool a' \<noteq> Some pid"
  shows "owned pid f (allocs[i := a']) = owned pid f allocs"
  using sum_list_exchange [OF assms(1), of "contrib pid f" a'] assms(2,3)
  by (simp add: contrib_def)

text \<open>
  One rule carries every operation on a single allocation: it exchanges pages, entitlement and
  row between the allocation and its pool so that the sums stay balanced.
\<close>

definition balanced :: "kv_pool \<Rightarrow> allocation \<Rightarrow> kv_pool \<Rightarrow> allocation \<Rightarrow> bool" where
  "balanced p a p' a' =
     (mset (kp_free p') + page_mset a' = mset (kp_free p) + page_mset a \<and>
      unat (kp_entitled p') + ent_len a = unat (kp_entitled p) + ent_len a' \<and>
      unat (kp_mapped p') + page_len a = unat (kp_mapped p) + page_len a' \<and>
      (\<forall>r < length (kp_rows p). of_bool (kp_rows p' ! r) + at_row r a = of_bool (kp_rows p ! r) + at_row r a'))"

definition same_shape :: "kv_pool \<Rightarrow> kv_pool \<Rightarrow> bool" where
  "same_shape p p' = (kp_spec p' = kp_spec p \<and> kp_planes p' = kp_planes p \<and>
     kp_block_tables p' = kp_block_tables p \<and> length (kp_rows p') = length (kp_rows p))"

lemma same_shape_simps:
  assumes "same_shape p p'"
  shows "page_group_count p' = page_group_count p" "logical_page_capacity p' = logical_page_capacity p"
    "table_row_count p' = table_row_count p" "pool_static p' = pool_static p"
    "length (kp_rows p') = length (kp_rows p)"
  using assms by (simp_all add: same_shape_def page_group_count_def logical_page_capacity_def
      table_row_count_def pool_static_def pool_planes_ok_def)

lemma pool_inv_update:
  assumes inv: "pool_inv allocs pid p" and i: "i < length allocs" and a: "allocs ! i = a"
    and own: "al_pool a = Some pid \<or> a = empty_allocation" "al_pool a' = Some pid \<or> a' = empty_allocation"
    and bal: "balanced p a p' a'" and shape: "same_shape p p'"
    and srt: "sorted (kp_free p')" and ent: "unat (kp_entitled p') \<le> unat (page_group_count p)"
  shows "pool_inv (allocs[i := a']) pid p'"
proof -
  note eq = same_shape_simps [OF shape]
  have z: "page_mset empty_allocation = {#}" "ent_len empty_allocation = 0"
    "page_len empty_allocation = 0" "at_row r empty_allocation = 0" for r
    by (simp_all add: empty_allocation_def)
  have o_page: "owned pid page_mset (allocs[i := a']) + page_mset a = owned pid page_mset allocs + page_mset a'"
    using owned_update [OF i, of pid page_mset a'] a own z by auto
  have o_ent: "owned pid ent_len (allocs[i := a']) + ent_len a = owned pid ent_len allocs + ent_len a'"
    using owned_update [OF i, of pid ent_len a'] a own z by auto
  have o_len: "owned pid page_len (allocs[i := a']) + page_len a = owned pid page_len allocs + page_len a'"
    using owned_update [OF i, of pid page_len a'] a own z by auto
  have o_row: "owned pid (at_row r) (allocs[i := a']) + at_row r a = owned pid (at_row r) allocs + at_row r a'" for r
    using owned_update [OF i, of pid "at_row r" a'] a own z(4) [of r] by auto
  have "mset (kp_free p') + owned pid page_mset (allocs[i := a']) = mset (kp_free p) + owned pid page_mset allocs"
    using bal o_page unfolding balanced_def by (blast intro: exchange_balance)
  moreover have "unat (kp_entitled p') = owned pid ent_len (allocs[i := a'])"
    using inv bal o_ent by (simp add: balanced_def pool_inv_def)
  moreover have "unat (kp_mapped p') = owned pid page_len (allocs[i := a'])"
    using inv bal o_len by (simp add: balanced_def pool_inv_def)
  moreover have "owned pid (at_row r) (allocs[i := a']) = of_bool (kp_rows p' ! r)"
    if "r < length (kp_rows p)" for r
  proof -
    have "of_bool (kp_rows p' ! r) + at_row r a = owned pid (at_row r) allocs + at_row r a'"
      using inv bal that by (simp only: balanced_def pool_inv_def)
    then show ?thesis using o_row [of r] by (metis add_right_cancel)
  qed
  ultimately show ?thesis using inv srt ent eq by (simp add: pool_inv_def)
qed

lemma kv_inv_write:
  assumes inv: "kv_inv s" and i: "i < length (ks_allocs s)" and a: "ks_allocs s ! i = a"
    and pid: "pid < length (ks_pools s)" and p: "ks_pools s ! pid = p"
    and own: "al_pool a = Some pid \<or> a = empty_allocation" "al_pool a' = Some pid \<or> a' = empty_allocation"
    and bal: "balanced p a p' a'" and shape: "same_shape p p'"
    and srt: "sorted (kp_free p')" and ent: "unat (kp_entitled p') \<le> unat (page_group_count p)"
    and table: "\<forall>r. kp_table p' r \<noteq> kp_table p r \<longrightarrow> al_pool a' = Some pid \<and> al_bound_row a' = int r"
    and ok: "al_pool a' = Some pid \<Longrightarrow> alloc_inv ((ks_pools s)[pid := p']) a'"
  shows "kv_inv (kv_write i a' pid p' s)"
proof -
  let ?pools = "(ks_pools s)[pid := p']" and ?allocs = "(ks_allocs s)[i := a']"
  have new: "pool_inv ?allocs pid p'"
    using inv pid p by (intro pool_inv_update [OF _ i a own bal shape srt ent]) (auto simp: kv_inv_def)
  have pools: "pool_inv ?allocs q (?pools ! q)" if "q < length (ks_pools s)" for q
  proof (cases "q = pid")
    case False
    have "al_pool (ks_allocs s ! i) \<noteq> Some q" "al_pool a' \<noteq> Some q"
      using a own False by (auto simp: empty_allocation_def)
    note other = owned_update_other [OF i this]
    have "pool_inv (ks_allocs s) q (ks_pools s ! q)" using inv that by (simp add: kv_inv_def)
    then show ?thesis using False by (simp add: pool_inv_def other)
  qed (use new pid in simp)
  have allocs: "alloc_inv ?pools (?allocs ! j)" if j: "j < length (ks_allocs s)" for j
  proof (cases "j = i")
    case True
    then show ?thesis using ok own(2) i by (auto simp: alloc_inv_def empty_allocation_def)
  next
    case False
    define b where "b = ks_allocs s ! j"
    have old: "alloc_inv (ks_pools s) b" using inv j by (simp add: kv_inv_def b_def)
    show ?thesis
    proof (cases "al_pool b = Some pid \<and> al_bound_row b \<noteq> - 1")
      case True
      then have row: "0 \<le> al_bound_row b" "al_bound_row b < table_row_count p"
        using old p by (auto simp: alloc_inv_def)
      define r where "r = nat (al_bound_row b)"
      have "pool_inv (ks_allocs s) pid p" using inv pid p by (auto simp: kv_inv_def)
      then have rl: "r < length (kp_rows p')"
        using row same_shape_simps(5) [OF shape] by (simp add: pool_inv_def pool_static_def r_def)
      have "contrib pid (at_row r) (?allocs ! i) + contrib pid (at_row r) (?allocs ! j) \<le> 1"
        using sum_list_two [of i ?allocs j "contrib pid (at_row r)"] i j False new rl
        by (cases "kp_rows p' ! r") (auto simp: pool_inv_def)
      then have "\<not> (al_pool a' = Some pid \<and> al_bound_row a' = int r)"
        using True row False i by (auto simp: contrib_def b_def r_def)
      then have "kp_table p' r = kp_table p r" using table by blast
      then show ?thesis using old True False pid p same_shape_simps [OF shape]
        by (simp add: alloc_inv_def b_def r_def)
    next
      case no: False
      then show ?thesis using old False pid p same_shape_simps [OF shape]
        by (auto simp: alloc_inv_def b_def nth_list_update split: option.splits)
    qed
  qed
  show ?thesis using pools allocs by (simp add: kv_inv_def kv_write_def all_set_conv_all_nth)
qed


section \<open>Every operation keeps the invariant\<close>

text \<open>What the invariant says of one live allocation and its pool.\<close>

lemma kv_inv_live:
  assumes "kv_inv s" "i < length (ks_allocs s)" "al_pool (ks_allocs s ! i) = Some pid"
  shows "pid < length (ks_pools s)" "page_len (ks_allocs s ! i) \<le> ent_len (ks_allocs s ! i)"
    "unat (mapped_page_count (ks_allocs s ! i)) = page_len (ks_allocs s ! i)"
    "al_entitlement (ks_allocs s ! i) \<le> logical_page_capacity (ks_pools s ! pid)"
    "pool_inv (ks_allocs s) pid (ks_pools s ! pid)"
    "ent_len (ks_allocs s ! i) \<le> unat (kp_entitled (ks_pools s ! pid))"
    "page_len (ks_allocs s ! i) \<le> unat (kp_mapped (ks_pools s ! pid))"
    "al_entitlement (ks_allocs s ! i) \<le> kp_entitled (ks_pools s ! pid)"
proof -
  let ?a = "ks_allocs s ! i"
  have ok: "alloc_inv (ks_pools s) ?a" using assms by (simp add: kv_inv_def)
  then show pid: "pid < length (ks_pools s)" and len: "page_len ?a \<le> ent_len ?a"
    and "al_entitlement ?a \<le> logical_page_capacity (ks_pools s ! pid)"
    using assms(3) by (auto simp: alloc_inv_def)
  show "unat (mapped_page_count ?a) = page_len ?a"
    using len unat_u32_le [of "al_entitlement ?a"] by (simp add: mapped_page_count_def unat_of_nat)
  show inv: "pool_inv (ks_allocs s) pid (ks_pools s ! pid)" using assms(1) pid by (simp add: kv_inv_def)
  have le: "f ?a \<le> owned pid f (ks_allocs s)" for f :: "allocation \<Rightarrow> nat"
    using member_le_sum_list [of "contrib pid f ?a" "map (contrib pid f) (ks_allocs s)"] assms(2,3)
    by (simp add: contrib_def)
  show ent: "ent_len ?a \<le> unat (kp_entitled (ks_pools s ! pid))"
    and "page_len ?a \<le> unat (kp_mapped (ks_pools s ! pid))"
    using inv le [of ent_len] le [of page_len] by (auto simp: pool_inv_def)
  from ent show "al_entitlement ?a \<le> kp_entitled (ks_pools s ! pid)" by (simp add: word_le_nat_alt)
qed

lemma unat_replace_u32:
  assumes "old \<le> (e :: u32)" "unat e - unat old + unat new \<le> u32_max"
  shows "unat (e - old + new) = unat e - unat old + unat new"
  using assms by (simp add: unat_word_ariths unat_sub word_le_nat_alt)

text \<open>The entitlement exchange of \<open>replace_entitlement\<close>, for any new extent that fits.\<close>

lemma replace_entitlement_bound:
  assumes "pool_inv allocs pid p" "old \<le> kp_entitled p" "can_replace_entitlement p old new"
  shows "unat (kp_entitled p) - unat old + unat new \<le> unat (page_group_count p)"
proof -
  let ?c = "page_group_count p"
  have ent: "unat (kp_entitled p) \<le> unat ?c" using assms(1) by (simp add: pool_inv_def)
  have d: "unat (kp_entitled p - old) = unat (kp_entitled p) - unat old"
    using assms(2) by (simp add: unat_sub)
  then have "kp_entitled p - old \<le> ?c" using ent by (simp add: word_le_nat_alt)
  then have "unat (?c - (kp_entitled p - old)) = unat ?c - (unat (kp_entitled p) - unat old)"
    by (simp add: unat_sub d)
  moreover have "unat new \<le> unat (?c - (kp_entitled p - old))"
    using assms(3) by (simp add: can_replace_entitlement_def word_le_nat_alt)
  ultimately show ?thesis using ent by linarith
qed

lemma alloc_inv_cong:
  assumes "alloc_inv pools a" "al_pool a = Some pid" "same_shape (pools ! pid) p'"
    and "kp_table p' = kp_table (pools ! pid)"
    and "al_pool a' = Some pid" "page_len a' \<le> ent_len a'"
    and "al_entitlement a' \<le> logical_page_capacity (pools ! pid)"
    and "al_bound_row a' = - 1 \<or> al_bound_row a' = al_bound_row a"
    and "\<forall>k < page_len a'. k < page_len a \<and> al_page_ids a' ! k = al_page_ids a ! k"
  shows "alloc_inv (pools[pid := p']) a'"
  using assms same_shape_simps [OF assms(3)] by (auto simp: alloc_inv_def)

lemma kv_inv_reentitle:
  assumes inv: "kv_inv s" and i: "i < length (ks_allocs s)" "al_pool (ks_allocs s ! i) = Some pid"
    and n: "page_len (ks_allocs s ! i) \<le> unat n" "n \<le> logical_page_capacity (ks_pools s ! pid)"
    and fit: "unat (kp_entitled (ks_pools s ! pid)) - ent_len (ks_allocs s ! i) + unat n
        \<le> unat (page_group_count (ks_pools s ! pid))"
  shows "kv_inv (kv_write i ((ks_allocs s ! i)\<lparr>al_entitlement := n\<rparr>) pid
      (replace_entitlement (ks_pools s ! pid) (al_entitlement (ks_allocs s ! i)) n) s)"
proof -
  let ?a = "ks_allocs s ! i" and ?p = "ks_pools s ! pid"
  let ?p' = "replace_entitlement ?p (al_entitlement ?a) n"
  note live = kv_inv_live [OF inv i]
  have ent: "unat (kp_entitled ?p') = unat (kp_entitled ?p) - ent_len ?a + unat n"
    using unat_replace_u32 [OF live(8)] fit unat_u32_le [of "page_group_count ?p"]
    by (simp add: replace_entitlement_def)
  have shape: "same_shape ?p ?p'" by (simp add: same_shape_def replace_entitlement_def)
  show ?thesis
  proof (rule kv_inv_write [OF inv i(1) refl live(1) refl])
    show "balanced ?p ?a ?p' (?a\<lparr>al_entitlement := n\<rparr>)"
      using ent live(6) by (simp add: balanced_def) (simp add: replace_entitlement_def)
    show "alloc_inv ((ks_pools s)[pid := ?p']) (?a\<lparr>al_entitlement := n\<rparr>)"
      by (rule alloc_inv_cong [OF _ i(2) shape]) (use inv i n in \<open>auto simp: kv_inv_def replace_entitlement_def\<close>)
    show "unat (kp_entitled ?p') \<le> unat (page_group_count ?p)" using ent fit by simp
    show "sorted (kp_free ?p')" using live(5) by (simp add: replace_entitlement_def pool_inv_def)
  qed (use i(2) shape in \<open>auto simp: replace_entitlement_def\<close>)
qed

lemma set_page_entitlement_keeps:
  assumes "kv_inv s" "i < length (ks_allocs s)"
  shows "kv_inv (snd (set_page_entitlement i pages s))"
proof (cases "al_pool (ks_allocs s ! i)")
  case (Some pid)
  note live = kv_inv_live [OF assms Some]
  show ?thesis
    using assms Some live kv_inv_reentitle [OF assms Some, of pages]
      replace_entitlement_bound [OF live(5) live(8), of pages]
    by (auto simp: set_page_entitlement_def Let_def can_replace_entitlement_def word_le_nat_alt word_less_nat_alt)
qed (use assms in \<open>simp add: set_page_entitlement_def\<close>)

lemma cancel_unmapped_entitlement_keeps:
  assumes "kv_inv s" "i < length (ks_allocs s)"
  shows "kv_inv (snd (cancel_unmapped_entitlement i s))"
proof (cases "al_pool (ks_allocs s ! i)")
  case (Some pid)
  note live = kv_inv_live [OF assms Some]
  have "unat (kp_entitled (ks_pools s ! pid)) \<le> unat (page_group_count (ks_pools s ! pid))"
    using live(5) by (simp add: pool_inv_def)
  then show ?thesis
    using live Some kv_inv_reentitle [OF assms Some, of "mapped_page_count (ks_allocs s ! i)"]
    by (simp add: cancel_unmapped_entitlement_def Let_def word_le_nat_alt)
qed (use assms in \<open>simp add: cancel_unmapped_entitlement_def\<close>)


lemma return_pages_props:
  assumes "length ids \<le> unat (kp_mapped p)"
  shows "mset (kp_free (return_pages p ids)) = mset (kp_free p) + mset ids"
    "unat (kp_mapped (return_pages p ids)) = unat (kp_mapped p) - length ids"
    "sorted (kp_free p) \<Longrightarrow> sorted (kp_free (return_pages p ids))"
    "kp_entitled (return_pages p ids) = kp_entitled p" "kp_rows (return_pages p ids) = kp_rows p"
    "kp_table (return_pages p ids) = kp_table p" "same_shape p (return_pages p ids)"
proof -
  have "unat (word_of_nat (length ids) :: u32) = length ids"
    using assms unat_u32_le [of "kp_mapped p"] by (simp add: unat_of_nat)
  then show "unat (kp_mapped (return_pages p ids)) = unat (kp_mapped p) - length ids"
    using assms by (simp add: return_pages_def unat_sub word_le_nat_alt)
qed (auto simp: return_pages_def same_shape_def)

lemma trim_pages_keeps:
  assumes "kv_inv s" "i < length (ks_allocs s)"
  shows "kv_inv (snd (trim_pages i pages s))"
proof (cases "al_pool (ks_allocs s ! i)")
  case (Some pid)
  let ?a = "ks_allocs s ! i" and ?p = "ks_pools s ! pid"
  let ?a' = "?a\<lparr>al_page_ids := take (unat pages) (al_page_ids ?a)\<rparr>"
  let ?p' = "return_pages ?p (drop (unat pages) (al_page_ids ?a))"
  note live = kv_inv_live [OF assms Some]
  have len: "length (drop (unat pages) (al_page_ids ?a)) \<le> unat (kp_mapped ?p)" using live(7) by simp
  note ret = return_pages_props [OF len]
  have "kv_inv (kv_write i ?a' pid ?p' s)" if le: "unat pages \<le> page_len ?a"
  proof (rule kv_inv_write [OF assms refl live(1) refl])
    have "mset (take (unat pages) (al_page_ids ?a)) + mset (drop (unat pages) (al_page_ids ?a)) = page_mset ?a"
      by (metis append_take_drop_id mset_append)
    then show "balanced ?p ?a ?p' ?a'"
      using ret live(7) le by (simp add: balanced_def ac_simps)
    show "alloc_inv ((ks_pools s)[pid := ?p']) ?a'"
      by (rule alloc_inv_cong [OF _ Some ret(7) ret(6)]) (use assms Some live in \<open>auto simp: kv_inv_def\<close>)
    show "sorted (kp_free ?p')" "unat (kp_entitled ?p') \<le> unat (page_group_count ?p)"
      using live(5) ret by (auto simp: pool_inv_def)
  qed (use Some ret in auto)
  then show ?thesis using assms Some live(3)
    by (auto simp: trim_pages_def Let_def word_less_nat_alt)
qed (use assms in \<open>simp add: trim_pages_def\<close>)

lemma unbind_row_props:
  assumes "alloc_inv pools a" "al_pool a = Some pid" "unbind_row (pools ! pid, a) = (p', a')"
  shows "a' = a\<lparr>al_bound_row := - 1\<rparr>" "same_shape (pools ! pid) p'"
    "kp_free p' = kp_free (pools ! pid)" "kp_entitled p' = kp_entitled (pools ! pid)"
    "kp_mapped p' = kp_mapped (pools ! pid)" "kp_table p' = kp_table (pools ! pid)"
    "kp_rows p' = (if al_bound_row a < 0 then kp_rows (pools ! pid)
       else (kp_rows (pools ! pid))[nat (al_bound_row a) := False])"
  using assms by (auto simp: unbind_row_def alloc_inv_def release_row_def same_shape_def split: if_splits)

text \<open>A bound allocation's row is marked in use, and the mark disappears with the binding.\<close>

lemma unbind_rows_balanced:
  assumes inv: "kv_inv s" and i: "i < length (ks_allocs s)" "al_pool (ks_allocs s ! i) = Some pid"
    and u: "unbind_row (ks_pools s ! pid, ks_allocs s ! i) = (p', a')"
    and r: "r < length (kp_rows (ks_pools s ! pid))"
  shows "of_bool (kp_rows p' ! r) + at_row r (ks_allocs s ! i) = of_bool (kp_rows (ks_pools s ! pid) ! r)"
proof -
  let ?a = "ks_allocs s ! i"
  have ok: "alloc_inv (ks_pools s) ?a" using inv i by (simp add: kv_inv_def)
  have "at_row r ?a \<le> owned pid (at_row r) (ks_allocs s)"
    using member_le_sum_list [of "contrib pid (at_row r) ?a" "map (contrib pid (at_row r)) (ks_allocs s)"] i
    by (simp add: contrib_def)
  also have "\<dots> = of_bool (kp_rows (ks_pools s ! pid) ! r)"
    using kv_inv_live(5) [OF inv i] r unfolding pool_inv_def by blast
  finally have used: "al_bound_row ?a = int r \<Longrightarrow> kp_rows (ks_pools s ! pid) ! r"
    by (cases "kp_rows (ks_pools s ! pid) ! r") auto
  show ?thesis
    using unbind_row_props(7) [OF ok i(2) u] used r by (auto simp: nth_list_update)
qed

lemma unbind_row_at_keeps:
  assumes "kv_inv s" "i < length (ks_allocs s)"
  shows "kv_inv (snd (unbind_row_at i s))"
proof (cases "al_pool (ks_allocs s ! i)")
  case (Some pid)
  let ?a = "ks_allocs s ! i" and ?p = "ks_pools s ! pid"
  obtain p' a' where u: "unbind_row (?p, ?a) = (p', a')" by fastforce
  note live = kv_inv_live [OF assms Some]
  have ok: "alloc_inv (ks_pools s) ?a" using assms by (simp add: kv_inv_def)
  note ub = unbind_row_props [OF ok Some u]
  have "kv_inv (kv_write i a' pid p' s)"
  proof (rule kv_inv_write [OF assms refl live(1) refl _ _ _ ub(2)])
    show "balanced ?p ?a p' a'"
      using unbind_rows_balanced [OF assms Some u] ub by (simp add: balanced_def)
    show "alloc_inv ((ks_pools s)[pid := p']) a'"
      by (rule alloc_inv_cong [OF ok Some ub(2,6)]) (use Some ub live in auto)
  qed (use live(5) Some ub in \<open>auto simp: pool_inv_def\<close>)
  then show ?thesis using Some u by (simp add: unbind_row_at_def)
qed (use assms in \<open>simp add: unbind_row_at_def\<close>)

lemma release_alloc_props:
  assumes "kv_inv s" "i < length (ks_allocs s)"
  shows "kv_inv (snd (release_alloc i s))" "fst (release_alloc i s) = Inr ()"
    "ks_allocs (snd (release_alloc i s)) = (ks_allocs s)[i := empty_allocation]"
    "length (ks_pools (snd (release_alloc i s))) = length (ks_pools s)"
proof -
  have "kv_inv (snd (release_alloc i s)) \<and> fst (release_alloc i s) = Inr () \<and>
    ks_allocs (snd (release_alloc i s)) = (ks_allocs s)[i := empty_allocation] \<and>
    length (ks_pools (snd (release_alloc i s))) = length (ks_pools s)"
  proof (cases "al_pool (ks_allocs s ! i)")
    case None
    have "alloc_inv (ks_pools s) (ks_allocs s ! i)" using assms by (simp add: kv_inv_def)
    then have "ks_allocs s ! i = empty_allocation" using None by (simp add: alloc_inv_def)
    then have "(ks_allocs s)[i := empty_allocation] = ks_allocs s" by (metis list_update_id)
    then show ?thesis using assms None by (simp add: release_alloc_def)
  next
    case (Some pid)
    let ?a = "ks_allocs s ! i" and ?p = "ks_pools s ! pid"
    obtain p1 a1 where u: "unbind_row (?p, ?a) = (p1, a1)" by fastforce
    note live = kv_inv_live [OF assms Some]
    have ok: "alloc_inv (ks_pools s) ?a" using assms by (simp add: kv_inv_def)
    note ub = unbind_row_props [OF ok Some u]
    have len: "length (al_page_ids ?a) \<le> unat (kp_mapped p1)" using live(7) ub by simp
    note ret = return_pages_props [OF len]
    define p' where "p' = replace_entitlement (return_pages p1 (al_page_ids ?a)) (al_entitlement ?a) 0"
    have p': "kp_free p' = kp_free (return_pages p1 (al_page_ids ?a))" "kp_rows p' = kp_rows p1"
      "kp_mapped p' = kp_mapped (return_pages p1 (al_page_ids ?a))" "kp_table p' = kp_table ?p"
      "unat (kp_entitled p') = unat (kp_entitled ?p) - ent_len ?a"
      using ret ub live(8) by (simp_all add: p'_def replace_entitlement_def unat_sub)
    have shape: "same_shape ?p p'"
      using ub(2) ret(7) by (simp add: same_shape_def p'_def replace_entitlement_def)
    have a': "a1\<lparr>al_page_ids := [], al_entitlement := 0, al_pool := None\<rparr> = empty_allocation"
      using ub(1) by (simp add: empty_allocation_def)
    have "kv_inv (kv_write i empty_allocation pid p' s)"
    proof (rule kv_inv_write [OF assms refl live(1) refl _ _ _ shape])
      have "at_row r empty_allocation = 0" for r by (simp add: empty_allocation_def)
      then show "balanced ?p ?a p' empty_allocation"
        using unbind_rows_balanced [OF assms Some u] p' ret live(6,7) ub
        by (simp add: balanced_def) (simp add: empty_allocation_def)
      show "sorted (kp_free p')" using p'(1) ret(3) live(5) ub by (simp add: pool_inv_def)
      show "unat (kp_entitled p') \<le> unat (page_group_count ?p)" using p'(5) pool_invD(6) [OF live(5)] by linarith
    qed (use Some p' in \<open>auto simp: empty_allocation_def\<close>)
    moreover have "release_alloc i s = (Inr (), kv_write i empty_allocation pid p' s)"
      using Some u a' ub(1) by (simp add: release_alloc_def p'_def Let_def)
    ultimately show ?thesis by (simp add: kv_write_def)
  qed
  then show "kv_inv (snd (release_alloc i s))" "fst (release_alloc i s) = Inr ()"
    "ks_allocs (snd (release_alloc i s)) = (ks_allocs s)[i := empty_allocation]"
    "length (ks_pools (snd (release_alloc i s))) = length (ks_pools s)" by blast+
qed


text \<open>Publishing into the bound row succeeds and writes only that row.\<close>

lemma publish_range_ok:
  assumes "pool_static p" "0 \<le> al_bound_row a" "al_bound_row a < table_row_count p"
  shows "\<exists>p'. publish_range p a first cnt = Inr p' \<and> p' = p\<lparr>kp_table := kp_table p'\<rparr> \<and>
    (\<forall>r. int r \<noteq> al_bound_row a \<longrightarrow> kp_table p' r = kp_table p r) \<and>
    (\<forall>k. kp_table p' (nat (al_bound_row a)) k =
       (if first \<le> k \<and> k < first + cnt then al_page_ids a ! k else kp_table p (nat (al_bound_row a)) k))"
proof (cases "cnt = 0")
  case False
  obtain t where "block_table_row p (al_bound_row a) = Inr t"
    using block_table_row_ok [OF _ refl _ assms(2,3) refl] assms(1) by (auto simp: pool_static_def)
  then show ?thesis using False assms(2) by (auto simp: publish_range_def Let_def)
qed (simp add: publish_range_def)

lemma bind_row_keeps:
  assumes "kv_inv s" "i < length (ks_allocs s)"
  shows "kv_inv (snd (bind_row i row s))"
proof (cases "al_pool (ks_allocs s ! i)")
  case (Some pid)
  let ?a = "ks_allocs s ! i" and ?p = "ks_pools s ! pid"
  let ?a1 = "?a\<lparr>al_bound_row := row\<rparr>"
  note live = kv_inv_live [OF assms Some]
  have ok: "alloc_inv (ks_pools s) ?a" using assms by (simp add: kv_inv_def)
  show ?thesis
  proof (cases "\<exists>p1. al_bound_row ?a < 0 \<and> acquire_row ?p row = Inr p1")
    case False
    then show ?thesis using assms Some by (auto simp: bind_row_def Let_def split: sum.splits)
  next
    case True
    then obtain p1 where free: "al_bound_row ?a < 0" and acq: "acquire_row ?p row = Inr p1" by blast
    then have row: "0 \<le> row" "row < table_row_count ?p" "\<not> kp_rows ?p ! nat row"
      and p1: "p1 = ?p\<lparr>kp_rows := (kp_rows ?p)[nat row := True]\<rparr>"
      by (auto simp: acquire_row_def result_simps)
    have shape1: "same_shape ?p p1" by (simp add: p1 same_shape_def)
    have st: "pool_static p1" using live(5) same_shape_simps(4) [OF shape1] by (simp add: pool_inv_def)
    obtain p2 where p2: "publish_range p1 ?a1 0 (page_len ?a) = Inr p2" "p2 = p1\<lparr>kp_table := kp_table p2\<rparr>"
      "\<forall>r. int r \<noteq> row \<longrightarrow> kp_table p2 r = kp_table p1 r"
      "\<forall>k < page_len ?a. kp_table p2 (nat row) k = al_page_ids ?a ! k"
      using publish_range_ok [OF st, of ?a1 0 "page_len ?a"] row same_shape_simps(3) [OF shape1] by auto
    have "unat (mapped_page_count ?a1) = page_len ?a" using live(3) by (simp add: mapped_page_count_def)
    then have step: "bind_row i row s = (Inr (), kv_write i ?a1 pid p2 s)"
      using Some free acq p2(1) row(1) by (simp add: bind_row_def publish_mapping_def)
    have p2': "kp_free p2 = kp_free ?p" "kp_entitled p2 = kp_entitled ?p" "kp_mapped p2 = kp_mapped ?p"
      "kp_rows p2 = (kp_rows ?p)[nat row := True]" and shape: "same_shape ?p p2"
      by (subst p2(2), simp add: p1 same_shape_def)+
    have unbound: "al_bound_row ?a = - 1" using ok Some free by (auto simp: alloc_inv_def)
    have "kv_inv (kv_write i ?a1 pid p2 s)"
    proof (rule kv_inv_write [OF assms refl live(1) refl _ _ _ shape])
      show "balanced ?p ?a p2 ?a1"
        using p2' row unbound by (auto simp: balanced_def nth_list_update)
      show "alloc_inv ((ks_pools s)[pid := p2]) ?a1"
        using ok Some row p2(4) live(1) same_shape_simps [OF shape] by (simp add: alloc_inv_def)
      show "\<forall>r. kp_table p2 r \<noteq> kp_table ?p r \<longrightarrow> al_pool ?a1 = Some pid \<and> al_bound_row ?a1 = int r"
        using p2(3) Some by (auto simp: p1)
    qed (use live(5) Some p2' in \<open>auto simp: pool_inv_def\<close>)
    then show ?thesis by (simp add: step)
  qed
qed (use assms in \<open>simp add: bind_row_def\<close>)


text \<open>
  The free list is long enough for everything that is entitled but not yet mapped: the reason an
  entitlement can always be materialized.
\<close>

lemma size_owned_pages: "size (owned pid page_mset allocs) = owned pid page_len allocs"
  by (induction allocs) (auto simp: contrib_def)

lemma owned_unmapped:
  assumes "i < length allocs" "\<forall>a \<in> set allocs. page_len a \<le> ent_len a" "al_pool (allocs ! i) = Some pid"
  shows "ent_len (allocs ! i) + owned pid page_len allocs \<le> owned pid ent_len allocs + page_len (allocs ! i)"
proof -
  have "owned pid page_len (allocs[i := empty_allocation]) \<le> owned pid ent_len (allocs[i := empty_allocation])"
    using assms(1,2) by (intro sum_list_mono) (auto simp: contrib_def empty_allocation_def
        dest!: set_update_subset_insert [THEN subsetD])
  moreover have "owned pid page_len (allocs[i := empty_allocation]) + page_len (allocs ! i) = owned pid page_len allocs"
    "owned pid ent_len (allocs[i := empty_allocation]) + ent_len (allocs ! i) = owned pid ent_len allocs"
    using owned_update [OF assms(1), of pid page_len empty_allocation]
      owned_update [OF assms(1), of pid ent_len empty_allocation] assms(3)
    by (simp_all add: empty_allocation_def)
  ultimately show ?thesis by linarith
qed

lemma entitled_pages_free:
  assumes "kv_inv s" "i < length (ks_allocs s)" "al_pool (ks_allocs s ! i) = Some pid"
  shows "ent_len (ks_allocs s ! i) - page_len (ks_allocs s ! i) \<le> length (kp_free (ks_pools s ! pid))"
proof -
  let ?p = "ks_pools s ! pid"
  note inv = pool_invD [OF kv_inv_live(5) [OF assms]]
  have "\<forall>a \<in> set (ks_allocs s). page_len a \<le> ent_len a"
    using assms(1) by (auto simp: kv_inv_def alloc_inv_def empty_allocation_def split: option.splits)
  note un = owned_unmapped [OF assms(2) this assms(3)]
  have "length (kp_free ?p) + owned pid page_len (ks_allocs s) = unat (page_group_count ?p)"
    using arg_cong [OF inv(3), of size] by (simp add: size_owned_pages)
  then show ?thesis using inv(4,6) un by linarith
qed

lemma materialize_pages_ok:
  assumes inv: "kv_inv s" and i: "i < length (ks_allocs s)" "al_pool (ks_allocs s ! i) = Some pid"
    and n: "page_len (ks_allocs s ! i) \<le> unat pages" "pages \<le> al_entitlement (ks_allocs s ! i)"
  shows "\<exists>s'. materialize_pages i pages s = (Inr (), s') \<and> kv_inv s' \<and>
    ks_allocs s' = (ks_allocs s)[i := (ks_allocs s ! i)\<lparr>al_page_ids := al_page_ids (ks_allocs s' ! i)\<rparr>] \<and>
    page_len (ks_allocs s' ! i) = unat pages \<and>
    take (page_len (ks_allocs s ! i)) (al_page_ids (ks_allocs s' ! i)) = al_page_ids (ks_allocs s ! i)"
proof (cases "unat pages = page_len (ks_allocs s ! i)")
  case True
  note live = kv_inv_live [OF inv i]
  have "pages = mapped_page_count (ks_allocs s ! i)" using True live(3) by (simp add: word_unat_eq_iff)
  then show ?thesis using inv i n True by (simp add: materialize_pages_def Let_def)
next
  case False
  let ?a = "ks_allocs s ! i" and ?p = "ks_pools s ! pid"
  note live = kv_inv_live [OF inv i]
  have ok: "alloc_inv (ks_pools s) ?a" using inv i by (simp add: kv_inv_def)
  let ?pref = "if al_page_ids ?a = [] then - 1 else last (al_page_ids ?a) + 1"
  define cnt where "cnt = pages - mapped_page_count ?a"
  have cnt: "unat cnt = unat pages - page_len ?a" using n live(3) by (simp add: cnt_def unat_sub word_le_nat_alt)
  have nz: "cnt \<noteq> 0" using cnt False n(1) by auto
  have le: "\<not> pages < mapped_page_count ?a" using n live(3) by (simp add: word_less_nat_alt)
  have "unat cnt \<le> length (kp_free ?p)"
    using entitled_pages_free [OF inv i] cnt n(2) by (simp add: word_le_nat_alt)
  then obtain acq p1 where t: "take_pages ?p cnt ?pref = Inr (acq, p1)"
    using take_pages_total [of cnt ?p ?pref] by blast
  note tk = take_pages_Inr [OF t]
  define a1 where "a1 = ?a\<lparr>al_page_ids := al_page_ids ?a @ acq\<rparr>"
  have shape1: "same_shape ?p p1" by (subst tk(5)) (simp add: same_shape_def)
  have p1: "kp_entitled p1 = kp_entitled ?p" "kp_rows p1 = kp_rows ?p" "kp_table p1 = kp_table ?p"
    by (subst tk(5), simp)+
  have st: "pool_static p1" using pool_invD(1) [OF live(5)] same_shape_simps(4) [OF shape1] by simp
  define p2 where "p2 = (if al_bound_row ?a \<ge> 0
      then projr (publish_range p1 a1 (page_len ?a) (unat cnt)) else p1)"
  have p2: "p2 = p1\<lparr>kp_table := kp_table p2\<rparr> \<and> (\<forall>r. int r \<noteq> al_bound_row ?a \<longrightarrow> kp_table p2 r = kp_table p1 r) \<and>
     (0 \<le> al_bound_row ?a \<longrightarrow> publish_range p1 a1 (page_len ?a) (unat cnt) = Inr p2 \<and>
       (\<forall>k. kp_table p2 (nat (al_bound_row ?a)) k = (if page_len ?a \<le> k \<and> k < page_len ?a + unat cnt
          then al_page_ids a1 ! k else kp_table p1 (nat (al_bound_row ?a)) k)))"
  proof (cases "al_bound_row ?a \<ge> 0")
    case True
    then have "al_bound_row a1 < table_row_count p1" "0 \<le> al_bound_row a1"
      using ok i(2) same_shape_simps(3) [OF shape1] by (auto simp: alloc_inv_def a1_def)
    from publish_range_ok [OF st this(2,1), of "page_len ?a" "unat cnt"] True
    show ?thesis by (auto simp: p2_def a1_def)
  qed (simp add: p2_def)
  have shape: "same_shape ?p p2" and p2': "kp_free p2 = kp_free p1" "kp_entitled p2 = kp_entitled ?p"
      "kp_mapped p2 = kp_mapped p1" "kp_rows p2 = kp_rows ?p"
    using shape1 p1 by (subst conjunct1 [OF p2], simp add: same_shape_def)+
  have step: "materialize_pages i pages s = (Inr (), kv_write i a1 pid p2 s)"
  proof (cases "al_bound_row ?a \<ge> 0")
    case True
    then have "publish_range p1 a1 (page_len ?a) (unat cnt) = Inr p2" using p2 by blast
    then show ?thesis using True i(2) le n(2) nz t live(3)
      by (simp add: materialize_pages_def Let_def cnt_def [symmetric] a1_def [symmetric] not_less)
  next
    case False
    then have "p2 = p1" by (simp add: p2_def)
    with False show ?thesis using i(2) le n(2) nz t
      by (simp add: materialize_pages_def Let_def cnt_def [symmetric] a1_def [symmetric] not_less)
  qed
  have len1: "page_len a1 = unat pages" using tk(1) cnt n(1) by (simp add: a1_def)
  have mapped: "unat (kp_mapped p2) = unat (kp_mapped ?p) + unat cnt"
  proof -
    have "size (mset (kp_free ?p)) + owned pid page_len (ks_allocs s) = unat (page_group_count ?p)"
      using arg_cong [OF pool_invD(3) [OF live(5)], of size] by (simp add: size_owned_pages)
    then have "unat (kp_mapped ?p) + unat cnt \<le> u32_max"
      using pool_invD(5) [OF live(5)] \<open>unat cnt \<le> length (kp_free ?p)\<close> unat_u32_le [of "page_group_count ?p"]
      by simp
    then show ?thesis using p2'(3) tk(3) by (simp add: unat_word_ariths)
  qed
  have "kv_inv (kv_write i a1 pid p2 s)"
  proof (rule kv_inv_write [OF inv i(1) refl live(1) refl _ _ _ shape])
    show "balanced ?p ?a p2 a1"
      using tk(1,2) p2' mapped by (auto simp: balanced_def a1_def)
    show "sorted (kp_free p2)" using tk(4) p2'(1) pool_invD(2) [OF live(5)] by simp
    have "\<forall>k < page_len a1. kp_table p2 (nat (al_bound_row ?a)) k = al_page_ids a1 ! k"
      if "0 \<le> al_bound_row ?a"
      using p2 that ok i(2) p1(3) tk(1) by (auto simp: alloc_inv_def a1_def nth_append)
    then show "alloc_inv ((ks_pools s)[pid := p2]) a1"
      using ok i(2) len1 n(2) live(1) same_shape_simps [OF shape]
      by (auto simp: alloc_inv_def a1_def word_le_nat_alt)
  qed (use p2 p2' p1 i(2) pool_invD(6) [OF live(5)] in \<open>auto simp: a1_def\<close>)
  then show ?thesis using step len1 i(1) by (auto simp: kv_write_def a1_def)
qed


lemma materialize_pages_keeps:
  assumes "kv_inv s" "i < length (ks_allocs s)"
  shows "kv_inv (snd (materialize_pages i pages s))"
proof (cases "\<exists>pid. al_pool (ks_allocs s ! i) = Some pid \<and> mapped_page_count (ks_allocs s ! i) \<le> pages \<and>
    pages \<le> al_entitlement (ks_allocs s ! i)")
  case True
  then obtain pid where *: "al_pool (ks_allocs s ! i) = Some pid" "mapped_page_count (ks_allocs s ! i) \<le> pages"
    "pages \<le> al_entitlement (ks_allocs s ! i)" by blast
  have "page_len (ks_allocs s ! i) \<le> unat pages"
    using *(2) kv_inv_live(3) [OF assms *(1)] by (simp add: word_le_nat_alt)
  from materialize_pages_ok [OF assms *(1) this *(3)] show ?thesis by auto
next
  case False
  then show ?thesis using assms
    by (auto simp: materialize_pages_def Let_def not_less split: option.splits)
qed

lemma kv_inv_perm:
  assumes "kv_inv s" "mset allocs = mset (ks_allocs s)"
  shows "kv_inv (s\<lparr>ks_allocs := allocs\<rparr>)"
proof -
  have "owned pid f allocs = owned pid f (ks_allocs s)" for pid and f :: "allocation \<Rightarrow> int multiset"
    using assms(2) by (metis mset_map sum_mset_sum_list)
  moreover have "owned pid f allocs = owned pid f (ks_allocs s)" for pid and f :: "allocation \<Rightarrow> nat"
    using assms(2) by (metis mset_map sum_mset_sum_list)
  ultimately have "pool_inv allocs pid p = pool_inv (ks_allocs s) pid p" for pid p
    by (simp only: pool_inv_def)
  moreover have "set allocs = set (ks_allocs s)" using assms(2) by (rule mset_eq_setD)
  ultimately show ?thesis using assms(1) by (simp add: kv_inv_def)
qed

lemma kv_inv_append_empty:
  assumes "kv_inv s"
  shows "kv_inv (s\<lparr>ks_allocs := ks_allocs s @ [empty_allocation]\<rparr>)"
proof -
  have "contrib pid f empty_allocation = 0" for pid and f :: "allocation \<Rightarrow> int multiset"
    by (simp add: contrib_def empty_allocation_def)
  moreover have "contrib pid f empty_allocation = 0" for pid and f :: "allocation \<Rightarrow> nat"
    by (simp add: contrib_def empty_allocation_def)
  ultimately have "pool_inv (ks_allocs s @ [empty_allocation]) pid p = pool_inv (ks_allocs s) pid p" for pid p
    by (simp only: pool_inv_def map_append sum_list_append list.map sum_list_simps add_0_right)
  moreover have "alloc_inv (ks_pools s) empty_allocation" by (simp add: alloc_inv_def empty_allocation_def)
  ultimately show ?thesis using assms by (simp add: kv_inv_def)
qed

lemma clear_allocation:
  "a\<lparr>al_pool := None, al_page_ids := [], al_entitlement := 0, al_bound_row := - 1\<rparr> = empty_allocation"
  by (simp add: empty_allocation_def)

lemma pool_reserve_Inr:
  assumes inv: "kv_inv s" and pid: "pid < length (ks_pools s)" and can: "can_reserve (ks_pools s ! pid) n"
  shows "\<exists>p'. pool_reserve pid n s = (Inr (length (ks_allocs s)),
      s\<lparr>ks_pools := (ks_pools s)[pid := p'], ks_allocs := ks_allocs s @ [make_allocation pid n]\<rparr>) \<and>
    kv_inv (snd (pool_reserve pid n s))"
proof -
  let ?p = "ks_pools s ! pid" and ?k = "length (ks_allocs s)"
  let ?s0 = "s\<lparr>ks_allocs := ks_allocs s @ [empty_allocation]\<rparr>"
  let ?p' = "add_entitlement ?p n"
  note pinv = pool_invD [of "ks_allocs s" pid ?p]
  have pi: "pool_inv (ks_allocs s) pid ?p" using inv pid by (simp add: kv_inv_def)
  have "kp_entitled ?p \<le> page_group_count ?p" using pool_invD(6) [OF pi] by (simp add: word_le_nat_alt)
  then have sum: "unat (kp_entitled ?p) + unat n \<le> unat (page_group_count ?p)"
    using can pool_invD(6) [OF pi] by (auto simp: can_reserve_def word_le_nat_alt unat_sub)
  then have ent: "unat (kp_entitled ?p') = unat (kp_entitled ?p) + unat n"
    using unat_u32_le [of "page_group_count ?p"] by (simp add: add_entitlement_def unat_word_ariths)
  have shape: "same_shape ?p ?p'" by (simp add: same_shape_def add_entitlement_def)
  have "kv_inv (kv_write ?k (make_allocation pid n) pid ?p' ?s0)"
  proof (rule kv_inv_write [OF kv_inv_append_empty [OF inv] _ refl _ _ _ _ _ shape])
    show "balanced ?p (ks_allocs ?s0 ! ?k) ?p' (make_allocation pid n)"
      using ent by (simp add: balanced_def make_allocation_def empty_allocation_def)
        (simp add: add_entitlement_def)
    show "alloc_inv ((ks_pools ?s0)[pid := ?p']) (make_allocation pid n)"
      using pid can same_shape_simps [OF shape]
      by (simp add: alloc_inv_def make_allocation_def can_reserve_def)
    show "sorted (kp_free ?p')" using pool_invD(2) [OF pi] by (simp add: add_entitlement_def)
    show "unat (kp_entitled ?p') \<le> unat (page_group_count ?p)" using ent sum by simp
  qed (use pid in \<open>auto simp: make_allocation_def add_entitlement_def\<close>)
  moreover have "pool_reserve pid n s = (Inr ?k, kv_write ?k (make_allocation pid n) pid ?p' ?s0)"
    using can by (simp add: pool_reserve_def kv_write_def)
  ultimately show ?thesis by (auto simp: kv_write_def)
qed

lemma pool_reserve_keeps:
  "kv_inv s \<Longrightarrow> pid < length (ks_pools s) \<Longrightarrow> kv_inv (snd (pool_reserve pid n s))"
  using pool_reserve_Inr [of s pid n] by (cases "can_reserve (ks_pools s ! pid) n") (auto simp: pool_reserve_def)

lemma move_alloc_keeps:
  assumes inv: "kv_inv s" and ij: "i < length (ks_allocs s)" "j < length (ks_allocs s)"
  shows "kv_inv (snd (move_alloc i j s))"
proof (cases "i = j")
  case False
  let ?s1 = "snd (release_alloc i s)"
  note rel = release_alloc_props [OF inv ij(1)]
  let ?xs = "ks_allocs ?s1"
  have e: "?xs ! i = empty_allocation" and len: "length ?xs = length (ks_allocs s)" using rel(3) ij by simp_all
  have step: "snd (move_alloc i j s) = ?s1\<lparr>ks_allocs := ?xs[i := ?xs ! j, j := ?xs ! i]\<rparr>"
  proof -
    obtain s1 where "release_alloc i s = (Inr (), s1)" using rel(2) by (metis prod.collapse)
    then show ?thesis using False e by (simp add: move_alloc_def sbind_def Let_def clear_allocation)
  qed
  have "mset (?xs[i := ?xs ! j, j := ?xs ! i]) = mset ?xs"
    using mset_swap [of j ?xs i] ij len by simp
  then show ?thesis unfolding step by (rule kv_inv_perm [OF rel(1)])
qed (use inv in \<open>simp add: move_alloc_def\<close>)


section \<open>Bundles\<close>

lemma validate_distinct_pools_Inr:
  "validate_distinct_pools prev rs = Inr () \<Longrightarrow>
     (\<forall>r \<in> set rs. rv_pool r \<noteq> None \<and> rv_pool r \<notin> rv_pool ` set prev) \<and> distinct (map rv_pool rs)"
proof (induction prev rs rule: validate_distinct_pools.induct)
  case (2 prev r rs)
  then show ?case by (auto split: if_splits)
qed simp

lemma rfold_unit_check: "rfold (\<lambda>_ r. throw_if (bad r) e) () rs = Inr () \<longleftrightarrow> (\<forall>r \<in> set rs. \<not> bad r)"
  by (induction rs) (auto simp: throw_if_def)

text \<open>Once the checks have passed, no reservation of the loop can be refused.\<close>

lemma reserve_each_ok:
  assumes "kv_inv s" "distinct (map rv_pool rs)"
    and "\<forall>r \<in> set rs. \<exists>pid. rv_pool r = Some pid \<and> pid < length (ks_pools s) \<and> can_reserve (ks_pools s ! pid) (rv_pages r)"
  shows "\<exists>s'. reserve_each got rs s =
      (Inr (got @ [length (ks_allocs s)..<length (ks_allocs s) + length rs]), s') \<and> kv_inv s' \<and>
    ks_allocs s' = ks_allocs s @ map (\<lambda>r. make_allocation (the (rv_pool r)) (rv_pages r)) rs"
  using assms
proof (induction rs arbitrary: s got)
  case (Cons r rs)
  then obtain pid where pid: "rv_pool r = Some pid" "pid < length (ks_pools s)"
    "can_reserve (ks_pools s ! pid) (rv_pages r)" by auto
  define s1 where "s1 = snd (pool_reserve pid (rv_pages r) s)"
  obtain p' where step: "pool_reserve pid (rv_pages r) s = (Inr (length (ks_allocs s)), s1)"
    and s1: "s1 = s\<lparr>ks_pools := (ks_pools s)[pid := p'], ks_allocs := ks_allocs s @ [make_allocation pid (rv_pages r)]\<rparr>"
    and inv: "kv_inv s1"
    using pool_reserve_Inr [OF Cons.prems(1) pid(2,3)] by (auto simp: s1_def)
  have rest: "\<forall>q \<in> set rs. \<exists>pid. rv_pool q = Some pid \<and> pid < length (ks_pools s1) \<and>
      can_reserve (ks_pools s1 ! pid) (rv_pages q)"
  proof
    fix q assume q: "q \<in> set rs"
    then obtain qid where qid: "rv_pool q = Some qid" "qid < length (ks_pools s)"
      "can_reserve (ks_pools s ! qid) (rv_pages q)" using Cons.prems(3) by auto
    moreover have "qid \<noteq> pid" using Cons.prems(2) q qid(1) pid(1) by (force simp: image_iff)
    ultimately show "\<exists>pid. rv_pool q = Some pid \<and> pid < length (ks_pools s1) \<and>
      can_reserve (ks_pools s1 ! pid) (rv_pages q)" by (simp add: s1)
  qed
  have d: "distinct (map rv_pool rs)" using Cons.prems(2) by simp
  have n: "length (ks_allocs s) # [Suc (length (ks_allocs s))..<Suc (length (ks_allocs s) + length rs)] =
      [length (ks_allocs s)..<Suc (length (ks_allocs s) + length rs)]"
    by (simp add: upt_conv_Cons del: upt_Suc)
  from Cons.IH [OF inv d rest, of "got @ [length (ks_allocs s)]"] show ?case
    by (auto simp: step pid(1) s1 n simp del: upt_Suc)
qed simp

lemma bundle_cases:
  assumes "kv_inv s" "\<forall>r \<in> set rs. \<forall>pid. rv_pool r = Some pid \<longrightarrow> pid < length (ks_pools s)"
  shows "(\<exists>e. reserve_paged_kv_bundle rs s = (Inl e, s)) \<or>
    (\<exists>s'. reserve_paged_kv_bundle rs s = (Inr [length (ks_allocs s)..<length (ks_allocs s) + length rs], s') \<and>
      kv_inv s' \<and>
      ks_allocs s' = ks_allocs s @ map (\<lambda>r. make_allocation (the (rv_pool r)) (rv_pages r)) rs)"
proof (cases "validate_distinct_pools [] rs = Inr () \<and>
    (\<forall>r \<in> set rs. can_reserve (ks_pools s ! the (rv_pool r)) (rv_pages r))")
  case True
  note v = validate_distinct_pools_Inr [OF conjunct1 [OF True]]
  have "\<forall>r \<in> set rs. \<exists>pid. rv_pool r = Some pid \<and> pid < length (ks_pools s) \<and>
      can_reserve (ks_pools s ! pid) (rv_pages r)"
    using v True assms(2) by fastforce
  from reserve_each_ok [OF assms(1) conjunct2 [OF v] this, of "[]"] show ?thesis
    using True by (auto simp: reserve_paged_kv_bundle_def rfold_unit_check [THEN iffD2])
next
  case False
  have "rbind (validate_distinct_pools [] rs) (\<lambda>_.
     rfold (\<lambda>_ r. throw_if (\<not> can_reserve (ks_pools s ! the (rv_pool r)) (rv_pages r)) bad_alloc) () rs) \<noteq> Inr ()"
    using False by (auto simp: rbind_Inr_iff rfold_unit_check)
  then obtain e where "rbind (validate_distinct_pools [] rs) (\<lambda>_.
     rfold (\<lambda>_ r. throw_if (\<not> can_reserve (ks_pools s ! the (rv_pool r)) (rv_pages r)) bad_alloc) () rs) = Inl e"
    by (cases "rbind (validate_distinct_pools [] rs) (\<lambda>_.
     rfold (\<lambda>_ r. throw_if (\<not> can_reserve (ks_pools s ! the (rv_pool r)) (rv_pages r)) bad_alloc) () rs)") auto
  then show ?thesis by (simp add: reserve_paged_kv_bundle_def)
qed

text \<open>What the checks of a resize establish for one change.\<close>

definition resize_ready :: "kv_state \<Rightarrow> kv_resize \<Rightarrow> bool" where
  "resize_ready s c = (\<exists>i pid. rz_allocation c = Some i \<and> i < length (ks_allocs s) \<and>
     al_pool (ks_allocs s ! i) = Some pid \<and>
     rz_mapped_pages c \<le> mapped_page_count (ks_allocs s ! i) \<and> rz_mapped_pages c \<le> rz_page_entitlement c \<and>
     can_replace_entitlement (ks_pools s ! pid) (al_entitlement (ks_allocs s ! i)) (rz_page_entitlement c))"

definition resize_pool :: "kv_state \<Rightarrow> kv_resize \<Rightarrow> nat option" where
  "resize_pool s c = al_pool (ks_allocs s ! the (rz_allocation c))"

lemma resize_check_Inr:
  assumes "resize_check s prev cs = Inr ()" "\<forall>c \<in> set cs. \<forall>i. rz_allocation c = Some i \<longrightarrow> i < length (ks_allocs s)"
  shows "(\<forall>c \<in> set cs. resize_ready s c \<and> resize_pool s c \<notin> resize_pool s ` set prev) \<and>
    distinct (map (resize_pool s) cs)"
  using assms
proof (induction s prev cs rule: resize_check.induct)
  case (2 s prev c cs)
  obtain i pid where i: "rz_allocation c = Some i" "al_pool (ks_allocs s ! i) = Some pid"
    using "2.prems"(1) by (auto simp: Let_def split: option.splits)
  have r: "resize_ready s c" and new: "\<not> list_ex (\<lambda>d. rz_allocation d = Some i \<or>
      al_pool (ks_allocs s ! the (rz_allocation d)) = Some pid) prev"
    and rest: "resize_check s (c # prev) cs = Inr ()"
    using "2.prems" i by (auto simp: Let_def resize_ready_def not_less split: if_splits)
  have "resize_pool s c \<notin> resize_pool s ` set prev"
    using new i by (auto simp: resize_pool_def list_ex_iff)
  moreover have "(\<forall>d \<in> set cs. resize_ready s d \<and> resize_pool s d \<notin> resize_pool s ` set (c # prev)) \<and>
      distinct (map (resize_pool s) cs)"
    using "2.IH" [OF i(1) refl i(2)] "2.prems" i rest by (auto simp: Let_def not_less split: if_splits)
  ultimately show ?case using r by (auto simp: image_iff)
qed simp


text \<open>One change of a resize: it succeeds and touches one allocation and its pool.\<close>

definition resized :: "kv_resize \<Rightarrow> allocation \<Rightarrow> allocation" where
  "resized c a = a\<lparr>al_page_ids := take (unat (rz_mapped_pages c)) (al_page_ids a),
     al_entitlement := rz_page_entitlement c\<rparr>"

abbreviation resize_one :: "kv_resize \<Rightarrow> (kv_state, unit) prog" where
  "resize_one c \<equiv> sbind (trim_pages (the (rz_allocation c)) (rz_mapped_pages c)) (\<lambda>_.
     set_page_entitlement (the (rz_allocation c)) (rz_page_entitlement c))"

lemma trim_pages_ok:
  assumes inv: "kv_inv s" and i: "i < length (ks_allocs s)" "al_pool (ks_allocs s ! i) = Some pid"
    and n: "pages \<le> mapped_page_count (ks_allocs s ! i)"
  shows "\<exists>p'. trim_pages i pages s = (Inr (), kv_write i
      ((ks_allocs s ! i)\<lparr>al_page_ids := take (unat pages) (al_page_ids (ks_allocs s ! i))\<rparr>) pid p' s) \<and>
    kp_entitled p' = kp_entitled (ks_pools s ! pid) \<and> same_shape (ks_pools s ! pid) p'"
proof (cases "pages = mapped_page_count (ks_allocs s ! i)")
  case True
  then have "take (unat pages) (al_page_ids (ks_allocs s ! i)) = al_page_ids (ks_allocs s ! i)"
    using kv_inv_live(3) [OF inv i] by simp
  then show ?thesis using True i
    by (intro exI [of _ "ks_pools s ! pid"]) (simp add: trim_pages_def kv_write_def same_shape_def)
next
  case False
  note live = kv_inv_live [OF inv i]
  let ?d = "drop (unat pages) (al_page_ids (ks_allocs s ! i))"
  have "length ?d \<le> unat (kp_mapped (ks_pools s ! pid))" using live(7) by simp
  note ret = return_pages_props [OF this]
  show ?thesis using False i n ret
    by (intro exI [of _ "return_pages (ks_pools s ! pid) ?d"]) (simp add: trim_pages_def Let_def not_less)
qed

lemma resize_one_ok:
  assumes inv: "kv_inv s" and r: "resize_ready s c"
  obtains i pid p' where "rz_allocation c = Some i" "i < length (ks_allocs s)" "resize_pool s c = Some pid"
    "resize_one c s = (Inr (), kv_write i (resized c (ks_allocs s ! i)) pid p' s)"
    "kv_inv (kv_write i (resized c (ks_allocs s ! i)) pid p' s)"
proof -
  from r obtain i pid where i: "rz_allocation c = Some i" "i < length (ks_allocs s)"
      "al_pool (ks_allocs s ! i) = Some pid"
    and m: "rz_mapped_pages c \<le> mapped_page_count (ks_allocs s ! i)" "rz_mapped_pages c \<le> rz_page_entitlement c"
    and can: "can_replace_entitlement (ks_pools s ! pid) (al_entitlement (ks_allocs s ! i)) (rz_page_entitlement c)"
    by (auto simp: resize_ready_def)
  let ?a1 = "(ks_allocs s ! i)\<lparr>al_page_ids := take (unat (rz_mapped_pages c)) (al_page_ids (ks_allocs s ! i))\<rparr>"
  obtain p1 where trim: "trim_pages i (rz_mapped_pages c) s = (Inr (), kv_write i ?a1 pid p1 s)"
    and p1: "kp_entitled p1 = kp_entitled (ks_pools s ! pid)" "same_shape (ks_pools s ! pid) p1"
    using trim_pages_ok [OF inv i(2,3) m(1)] by blast
  let ?s1 = "kv_write i ?a1 pid p1 s"
  have inv1: "kv_inv ?s1" using trim_pages_keeps [OF inv i(2), of "rz_mapped_pages c"] trim by simp
  note live = kv_inv_live [OF inv i(2,3)]
  have at: "ks_allocs ?s1 ! i = ?a1" "ks_pools ?s1 ! pid = p1" "i < length (ks_allocs ?s1)"
    using i live(1) by (simp_all add: kv_write_def)
  have "can_replace_entitlement p1 (al_entitlement ?a1) (rz_page_entitlement c)"
    using can p1 same_shape_simps [OF p1(2)] by (simp add: can_replace_entitlement_def)
  moreover have "\<not> rz_page_entitlement c < mapped_page_count ?a1"
  proof -
    have "unat (mapped_page_count ?a1) = page_len ?a1"
      using kv_inv_live(3) [OF inv1 at(3)] at i(3) by simp
    then show ?thesis using m(2) by (simp add: word_less_nat_alt word_le_nat_alt)
  qed
  ultimately have set: "set_page_entitlement i (rz_page_entitlement c) ?s1 = (Inr (),
      kv_write i (resized c (ks_allocs s ! i)) pid (replace_entitlement p1 (al_entitlement ?a1) (rz_page_entitlement c)) s)"
    using i at by (simp add: set_page_entitlement_def Let_def) (simp add: kv_write_def resized_def)
  then show ?thesis
    using that [of i pid] i trim set_page_entitlement_keeps [OF inv1 at(3), of "rz_page_entitlement c"]
    by (auto simp: sbind_def resize_pool_def)
qed

lemma resize_each_ok:
  assumes "kv_inv s" "\<forall>c \<in> set cs. resize_ready s c" "distinct (map (resize_pool s) cs)"
  shows "\<exists>s'. siter resize_one cs s = (Inr (), s') \<and> kv_inv s' \<and> length (ks_allocs s') = length (ks_allocs s) \<and>
    (\<forall>c \<in> set cs. ks_allocs s' ! the (rz_allocation c) = resized c (ks_allocs s ! the (rz_allocation c))) \<and>
    (\<forall>i. Some i \<notin> rz_allocation ` set cs \<longrightarrow> ks_allocs s' ! i = ks_allocs s ! i)"
  using assms
proof (induction cs arbitrary: s)
  case (Cons c cs)
  obtain i pid p' where i: "rz_allocation c = Some i" "i < length (ks_allocs s)" "resize_pool s c = Some pid"
    and step: "resize_one c s = (Inr (), kv_write i (resized c (ks_allocs s ! i)) pid p' s)"
    and inv: "kv_inv (kv_write i (resized c (ks_allocs s ! i)) pid p' s)"
    using resize_one_ok [OF Cons.prems(1), of c] Cons.prems(2) by (metis list.set_intros(1))
  let ?s1 = "kv_write i (resized c (ks_allocs s ! i)) pid p' s"
  have other: "rz_allocation d \<noteq> Some i \<and> resize_pool s d \<noteq> Some pid \<and> resize_ready ?s1 d \<and>
      resize_pool ?s1 d = resize_pool s d \<and> ks_allocs ?s1 ! the (rz_allocation d) = ks_allocs s ! the (rz_allocation d)"
    if "d \<in> set cs" for d
  proof -
    have "resize_pool s d \<noteq> resize_pool s c" using Cons.prems(3) that by (auto simp: image_iff)
    moreover have ready: "resize_ready s d" using Cons.prems(2) that by simp
    then obtain k where k: "rz_allocation d = Some k" by (auto simp: resize_ready_def)
    ultimately have "k \<noteq> i" using i by (auto simp: resize_pool_def)
    then show ?thesis using i k ready \<open>resize_pool s d \<noteq> resize_pool s c\<close>
      by (auto simp: resize_ready_def resize_pool_def kv_write_def)
  qed
  have "distinct (map (resize_pool ?s1) cs)"
    using Cons.prems(3) other by (simp add: cong: map_cong)
  with Cons.IH [OF inv] other obtain s' where s': "siter resize_one cs ?s1 = (Inr (), s')" "kv_inv s'"
    "length (ks_allocs s') = length (ks_allocs ?s1)"
    "\<forall>d \<in> set cs. ks_allocs s' ! the (rz_allocation d) = resized d (ks_allocs ?s1 ! the (rz_allocation d))"
    "\<forall>k. Some k \<notin> rz_allocation ` set cs \<longrightarrow> ks_allocs s' ! k = ks_allocs ?s1 ! k" by blast
  have "Some i \<notin> rz_allocation ` set cs" using other by fastforce
  then have "ks_allocs s' ! i = resized c (ks_allocs s ! i)" using s'(5) i(2) by (simp add: kv_write_def)
  moreover have "siter resize_one (c # cs) s = (Inr (), s')" using step s'(1) by (simp add: sbind_def)
  ultimately show ?case using s' other i
    by (intro exI [of _ s']) (auto simp: kv_write_def)
qed simp


section \<open>Reachable states\<close>

text \<open>
  Clients call the operations in any order on any live objects; the pools start as
  constructed from their plans.
\<close>

datatype kv_op =
    Reserve nat u32
  | SetEntitlement nat u32
  | CancelUnmapped nat
  | MaterializePages nat u32
  | MaterializeTokens nat u32
  | TrimPages nat u32
  | TrimTokens nat u32
  | BindRow nat int
  | UnbindRow nat
  | Release nat
  | Move nat nat
  | ReserveBundle "kv_reservation list"
  | ResizeBundle "kv_resize list"

fun kv_exec :: "kv_op \<Rightarrow> kv_state \<Rightarrow> kv_state" where
  "kv_exec (Reserve pid n) s = snd (pool_reserve pid n s)"
| "kv_exec (SetEntitlement i n) s = snd (set_page_entitlement i n s)"
| "kv_exec (CancelUnmapped i) s = snd (cancel_unmapped_entitlement i s)"
| "kv_exec (MaterializePages i n) s = snd (materialize_pages i n s)"
| "kv_exec (MaterializeTokens i n) s = snd (materialize_tokens i n s)"
| "kv_exec (TrimPages i n) s = snd (trim_pages i n s)"
| "kv_exec (TrimTokens i n) s = snd (trim_tokens i n s)"
| "kv_exec (BindRow i row) s = snd (bind_row i row s)"
| "kv_exec (UnbindRow i) s = snd (unbind_row_at i s)"
| "kv_exec (Release i) s = snd (release_alloc i s)"
| "kv_exec (Move i j) s = snd (move_alloc i j s)"
| "kv_exec (ReserveBundle rs) s = snd (reserve_paged_kv_bundle rs s)"
| "kv_exec (ResizeBundle cs) s = snd (resize_paged_kv_bundle cs s)"

fun kv_handles :: "kv_op \<Rightarrow> kv_state \<Rightarrow> bool" where
  "kv_handles (Reserve pid n) s = (pid < length (ks_pools s))"
| "kv_handles (SetEntitlement i n) s = (i < length (ks_allocs s))"
| "kv_handles (CancelUnmapped i) s = (i < length (ks_allocs s))"
| "kv_handles (MaterializePages i n) s = (i < length (ks_allocs s))"
| "kv_handles (MaterializeTokens i n) s = (i < length (ks_allocs s))"
| "kv_handles (TrimPages i n) s = (i < length (ks_allocs s))"
| "kv_handles (TrimTokens i n) s = (i < length (ks_allocs s))"
| "kv_handles (BindRow i row) s = (i < length (ks_allocs s))"
| "kv_handles (UnbindRow i) s = (i < length (ks_allocs s))"
| "kv_handles (Release i) s = (i < length (ks_allocs s))"
| "kv_handles (Move i j) s = (i < length (ks_allocs s) \<and> j < length (ks_allocs s))"
| "kv_handles (ReserveBundle rs) s =
     list_all (\<lambda>r. case rv_pool r of None \<Rightarrow> True | Some pid \<Rightarrow> pid < length (ks_pools s)) rs"
| "kv_handles (ResizeBundle cs) s =
     list_all (\<lambda>c. case rz_allocation c of None \<Rightarrow> True | Some i \<Rightarrow> i < length (ks_allocs s)) cs"

inductive kv_step :: "kv_state \<Rightarrow> kv_state \<Rightarrow> bool" where
  call: "kv_handles op s \<Longrightarrow> kv_step s (kv_exec op s)"

inductive_cases kv_stepE: "kv_step s s'"

definition kv_init :: "kv_state \<Rightarrow> bool" where
  "kv_init s = (ks_allocs s = [] \<and> (\<forall>p \<in> set (ks_pools s). \<exists>b spec l b' backing.
     plan_paged_kv_pool b spec = Inr (l, b') \<and> make_pool backing l = Inr p))"

lemma resize_cases:
  assumes "kv_inv s" "\<forall>c \<in> set cs. \<forall>i. rz_allocation c = Some i \<longrightarrow> i < length (ks_allocs s)"
  shows "(\<exists>e. resize_paged_kv_bundle cs s = (Inl e, s)) \<or>
    (\<exists>s'. resize_paged_kv_bundle cs s = (Inr (), s') \<and> kv_inv s' \<and>
      (\<forall>c \<in> set cs. ks_allocs s' ! the (rz_allocation c) = resized c (ks_allocs s ! the (rz_allocation c))) \<and>
      (\<forall>i. Some i \<notin> rz_allocation ` set cs \<longrightarrow> ks_allocs s' ! i = ks_allocs s ! i))"
proof (cases "resize_check s [] cs")
  case (Inl e)
  then show ?thesis by (simp add: resize_paged_kv_bundle_def)
next
  case (Inr u)
  then have "resize_check s [] cs = Inr ()" by simp
  from resize_check_Inr [OF this assms(2)] have "\<forall>c \<in> set cs. resize_ready s c" "distinct (map (resize_pool s) cs)"
    by auto
  from resize_each_ok [OF assms(1) this] show ?thesis using Inr by (auto simp: resize_paged_kv_bundle_def)
qed

lemmas kv_op_keeps = set_page_entitlement_keeps cancel_unmapped_entitlement_keeps materialize_pages_keeps
  trim_pages_keeps bind_row_keeps unbind_row_at_keeps release_alloc_props(1) move_alloc_keeps pool_reserve_keeps

lemma kv_exec_keeps:
  assumes "kv_inv s" "kv_handles op s"
  shows "kv_inv (kv_exec op s)"
proof (cases op)
  case (ReserveBundle rs)
  have "\<forall>r \<in> set rs. \<forall>pid. rv_pool r = Some pid \<longrightarrow> pid < length (ks_pools s)"
    using assms(2) by (auto simp: ReserveBundle list_all_iff split: option.splits)
  from bundle_cases [OF assms(1) this] show ?thesis using assms(1) by (auto simp: ReserveBundle)
next
  case (ResizeBundle cs)
  have "\<forall>c \<in> set cs. \<forall>i. rz_allocation c = Some i \<longrightarrow> i < length (ks_allocs s)"
    using assms(2) by (auto simp: ResizeBundle list_all_iff split: option.splits)
  from resize_cases [OF assms(1) this] show ?thesis using assms(1) by (auto simp: ResizeBundle)
qed (use assms in \<open>auto simp: materialize_tokens_def trim_tokens_def intro: kv_op_keeps\<close>)

lemma kv_init_inv:
  assumes "kv_init s"
  shows "kv_inv s"
proof -
  have "pool_inv [] pid p" if p: "p \<in> set (ks_pools s)" for pid p
  proof -
    obtain b spec l b' backing where mk: "plan_paged_kv_pool b spec = Inr (l, b')" "make_pool backing l = Inr p"
      using assms p by (auto simp: kv_init_def)
    note f = make_pool_planned [OF mk]
    have "sorted (map int [0..<n])" for n by (simp add: sorted_map)
    then show ?thesis using f by (simp add: pool_inv_def)
  qed
  then show ?thesis using assms by (simp add: kv_inv_def kv_init_def)
qed

interpretation kv: invariant_system kv_init kv_step kv_inv
  by unfold_locales (auto intro: kv_init_inv kv_exec_keeps elim: kv_stepE)


section \<open>Theorems\<close>

text \<open>
  C21. In every reachable state the pages of each pool are partitioned: the free ids are sorted and
  distinct, no two allocations and no allocation and the free list share a page, every page of the pool
  is free or owned, and the two counters are the sums over the live allocations, within the
  page count.
\<close>

theorem pages_partitioned:
  assumes "reachable kv_init kv_step s" "pid < length (ks_pools s)"
  shows "sorted (kp_free (ks_pools s ! pid)) \<and>
    distinct (kp_free (ks_pools s ! pid) @ concat (map al_page_ids (filter (\<lambda>a. belongs_to a pid) (ks_allocs s)))) \<and>
    set (kp_free (ks_pools s ! pid) @ concat (map al_page_ids (filter (\<lambda>a. belongs_to a pid) (ks_allocs s)))) =
      {0..<uint (page_group_count (ks_pools s ! pid))} \<and>
    unat (kp_entitled (ks_pools s ! pid)) =
      sum_list (map ent_len (filter (\<lambda>a. belongs_to a pid) (ks_allocs s))) \<and>
    unat (kp_mapped (ks_pools s ! pid)) =
      sum_list (map page_len (filter (\<lambda>a. belongs_to a pid) (ks_allocs s))) \<and>
    kp_mapped (ks_pools s ! pid) \<le> kp_entitled (ks_pools s ! pid) \<and>
    kp_entitled (ks_pools s ! pid) \<le> page_group_count (ks_pools s ! pid)"
proof -
  let ?p = "ks_pools s ! pid" and ?own = "filter (\<lambda>a. belongs_to a pid) (ks_allocs s)"
  have inv: "kv_inv s" using assms(1) by (rule kv.inv_reachable)
  then have "pool_inv (ks_allocs s) pid ?p" using assms(2) by (simp add: kv_inv_def)
  note pi = pool_invD [OF this]
  have ms: "owned pid page_mset allocs = mset (concat (map al_page_ids (filter (\<lambda>a. belongs_to a pid) allocs)))" for allocs
    by (induction allocs) (auto simp: contrib_def belongs_to_def)
  have nat: "owned pid f allocs = sum_list (map f (filter (\<lambda>a. belongs_to a pid) allocs))"
    for f :: "allocation \<Rightarrow> nat" and allocs
    by (induction allocs) (auto simp: contrib_def belongs_to_def)
  have eq: "mset (kp_free ?p @ concat (map al_page_ids ?own)) = mset (map int [0..<unat (page_group_count ?p)])"
    using pi(3) by (simp only: ms mset_append)
  have "distinct (map int [0..<unat (page_group_count ?p)])" by (simp add: distinct_map)
  then have d: "distinct (kp_free ?p @ concat (map al_page_ids ?own))"
    using eq by (metis mset_eq_imp_distinct_iff)
  have "set (kp_free ?p @ concat (map al_page_ids ?own)) = set (map int [0..<unat (page_group_count ?p)])"
    using eq by (rule mset_eq_setD)
  also have "\<dots> = {0..<uint (page_group_count ?p)}"
    using set_map_upt_int [of 0 "unat (page_group_count ?p)"] by simp
  finally have st: "set (kp_free ?p @ concat (map al_page_ids ?own)) = {0..<uint (page_group_count ?p)}" .
  have "page_len a \<le> ent_len a" if "a \<in> set (ks_allocs s)" for a
    using inv that by (auto simp: kv_inv_def alloc_inv_def empty_allocation_def split: option.splits)
  then have "sum_list (map page_len ?own) \<le> sum_list (map ent_len ?own)" by (intro sum_list_mono) auto
  then have "kp_mapped ?p \<le> kp_entitled ?p" using pi(4,5) by (simp add: nat word_le_nat_alt)
  moreover have "kp_entitled ?p \<le> page_group_count ?p" using pi(6) by (simp add: word_le_nat_alt)
  ultimately show ?thesis using pi(2,4,5) d st nat by (simp only: simp_thms)
qed

text \<open>
  C22. An entitlement is a guarantee: in every reachable state, an allocation may materialize any extent
  between its mapped pages and its entitlement; the call returns, the mapping has that
  extent, and the pages mapped before keep their positions.
\<close>

theorem entitlement_materializes:
  assumes "reachable kv_init kv_step s" "i < length (ks_allocs s)" "belongs_to (ks_allocs s ! i) pid"
    and "mapped_page_count (ks_allocs s ! i) \<le> pages" "pages \<le> al_entitlement (ks_allocs s ! i)"
  shows "\<exists>s'. materialize_pages i pages s = (Inr (), s') \<and>
    mapped_page_count (ks_allocs s' ! i) = pages \<and>
    take (page_len (ks_allocs s ! i)) (al_page_ids (ks_allocs s' ! i)) = al_page_ids (ks_allocs s ! i) \<and>
    (\<forall>j < length (ks_allocs s). j \<noteq> i \<longrightarrow> ks_allocs s' ! j = ks_allocs s ! j)"
proof -
  have inv: "kv_inv s" using assms(1) by (rule kv.inv_reachable)
  have own: "al_pool (ks_allocs s ! i) = Some pid" using assms(3) by (simp add: belongs_to_def)
  have "page_len (ks_allocs s ! i) \<le> unat pages"
    using assms(4) kv_inv_live(3) [OF inv assms(2) own] by (simp add: word_le_nat_alt)
  from materialize_pages_ok [OF inv assms(2) own this assms(5)] obtain s' where
    s': "materialize_pages i pages s = (Inr (), s')" "page_len (ks_allocs s' ! i) = unat pages"
    "ks_allocs s' = (ks_allocs s)[i := (ks_allocs s ! i)\<lparr>al_page_ids := al_page_ids (ks_allocs s' ! i)\<rparr>]"
    "take (page_len (ks_allocs s ! i)) (al_page_ids (ks_allocs s' ! i)) = al_page_ids (ks_allocs s ! i)" by blast
  have "ks_allocs s' ! j = ks_allocs s ! j" if "j \<noteq> i" for j
    using s'(3) that by (metis nth_list_update_neq)
  then show ?thesis using s'(1,2,4) by (auto simp: mapped_page_count_def)
qed

text \<open>
  C23. In every reachable state the device block table of a bound allocation lists its pages in order, its row is
  marked in use, and no other allocation of the pool is bound to that row.
\<close>

theorem block_table_published:
  assumes "reachable kv_init kv_step s" "i < length (ks_allocs s)" "belongs_to (ks_allocs s ! i) pid"
    and "0 \<le> al_bound_row (ks_allocs s ! i)"
  shows "kp_rows (ks_pools s ! pid) ! nat (al_bound_row (ks_allocs s ! i)) \<and>
    (\<forall>k < length (al_page_ids (ks_allocs s ! i)).
       kp_table (ks_pools s ! pid) (nat (al_bound_row (ks_allocs s ! i))) k = al_page_ids (ks_allocs s ! i) ! k) \<and>
    (\<forall>j < length (ks_allocs s). j \<noteq> i \<longrightarrow> belongs_to (ks_allocs s ! j) pid \<longrightarrow>
       al_bound_row (ks_allocs s ! j) \<noteq> al_bound_row (ks_allocs s ! i))"
proof -
  let ?a = "ks_allocs s ! i" and ?p = "ks_pools s ! pid"
  have inv: "kv_inv s" using assms(1) by (rule kv.inv_reachable)
  have own: "al_pool ?a = Some pid" using assms(3) by (simp add: belongs_to_def)
  have ok: "alloc_inv (ks_pools s) ?a" using inv assms(2) by (simp add: kv_inv_def)
  define r where "r = nat (al_bound_row ?a)"
  have pi: "pool_inv (ks_allocs s) pid ?p" by (rule kv_inv_live(5) [OF inv assms(2) own])
  have "r < length (kp_rows ?p)"
    using ok own assms(4) pool_invD(1) [OF pi] by (auto simp: alloc_inv_def pool_static_def r_def)
  then have row: "owned pid (at_row r) (ks_allocs s) = of_bool (kp_rows ?p ! r)"
    using pi unfolding pool_inv_def by blast
  have one: "contrib pid (at_row r) ?a = 1" using own assms(4) by (simp add: contrib_def r_def)
  have used: "kp_rows ?p ! r"
    using member_le_sum_list [of "contrib pid (at_row r) ?a" "map (contrib pid (at_row r)) (ks_allocs s)"]
      assms(2) one row by (cases "kp_rows ?p ! r") auto
  moreover have "al_bound_row (ks_allocs s ! j) \<noteq> al_bound_row ?a"
    if "j < length (ks_allocs s)" "j \<noteq> i" "belongs_to (ks_allocs s ! j) pid" for j
    using sum_list_two [OF assms(2) that(1) that(2) [symmetric], of "contrib pid (at_row r)"] row used one that
      assms(4) by (auto simp: contrib_def belongs_to_def r_def)
  ultimately show ?thesis using ok own assms(4) by (auto simp: alloc_inv_def r_def)
qed

text \<open>
  C25. A bundle reservation is all or nothing: when it throws, no pool and no allocation has changed; when it
  returns, every requested pool granted its entitlement to a fresh allocation.
\<close>

theorem reserve_bundle_atomic:
  assumes "reachable kv_init kv_step s" "kv_handles (ReserveBundle rs) s"
  shows "case reserve_paged_kv_bundle rs s of
      (Inl e, s') \<Rightarrow> s' = s
    | (Inr ids, s') \<Rightarrow> map (\<lambda>i. ks_allocs s' ! i) ids = map (\<lambda>r. make_allocation (the (rv_pool r)) (rv_pages r)) rs \<and>
        take (length (ks_allocs s)) (ks_allocs s') = ks_allocs s"
proof -
  have inv: "kv_inv s" using assms(1) by (rule kv.inv_reachable)
  have "\<forall>r \<in> set rs. \<forall>pid. rv_pool r = Some pid \<longrightarrow> pid < length (ks_pools s)"
    using assms(2) by (auto simp: list_all_iff split: option.splits)
  from bundle_cases [OF inv this] show ?thesis
    by (auto simp: nth_append intro!: nth_equalityI)
qed

text \<open>
  C24. A bundle resize is all or nothing: when it throws, the state is unchanged; when it returns, every named
  allocation keeps exactly the requested prefix of its pages with the requested entitlement, and every other
  allocation is as before.
\<close>

theorem resize_bundle_atomic:
  assumes "reachable kv_init kv_step s" "kv_handles (ResizeBundle cs) s"
  shows "case resize_paged_kv_bundle cs s of
      (Inl e, s') \<Rightarrow> s' = s
    | (Inr _, s') \<Rightarrow>
       (\<forall>c \<in> set cs. let a = ks_allocs s ! the (rz_allocation c); a' = ks_allocs s' ! the (rz_allocation c)
          in al_page_ids a' = take (unat (rz_mapped_pages c)) (al_page_ids a) \<and>
             al_entitlement a' = rz_page_entitlement c \<and> al_bound_row a' = al_bound_row a) \<and>
       (\<forall>i. Some i \<notin> rz_allocation ` set cs \<longrightarrow> ks_allocs s' ! i = ks_allocs s ! i)"
proof -
  have inv: "kv_inv s" using assms(1) by (rule kv.inv_reachable)
  have "\<forall>c \<in> set cs. \<forall>i. rz_allocation c = Some i \<longrightarrow> i < length (ks_allocs s)"
    using assms(2) by (auto simp: list_all_iff split: option.splits)
  from resize_cases [OF inv this] show ?thesis
    by (auto simp: Let_def resized_def)
qed

section \<open>A concrete run\<close>

text \<open>
  A planned and constructed pool of four pages, after a reservation of three pages, the
  materialization of two and the binding of row 1.
\<close>

definition sample_spec :: pool_spec where
  "sample_spec = \<lparr>sp_page_group_count = 4, sp_logical_page_capacity = 4, sp_table_rows = 2,
     sp_plane_order = PageMajor,
     sp_planes = [\<lparr>pl_dtype = BF16, pl_leading_extent = 2, pl_head_extent = 1, pl_alignment = 256\<rparr>]\<rparr>"

definition sample_layout :: pool_layout where
  "sample_layout = fst (projr (plan_paged_kv_pool empty_builder sample_spec))"

definition sample_constructed :: kv_pool where
  "sample_constructed = \<lparr>kp_spec = sample_spec,
     kp_planes = [\<lparr>t_data = 4096, t_dtype = BF16, t_ne = [2, 64, 1, 4], t_nb = [2, 4, 256, 256]\<rparr>],
     kp_block_tables = \<lparr>t_data = 5120, t_dtype = I32, t_ne = [4, 2, 1, 1], t_nb = [4, 16, 32, 32]\<rparr>,
     kp_free = [0, 1, 2, 3], kp_rows = [False, False], kp_entitled = 0, kp_mapped = 0, kp_table = (\<lambda>_ _. - 1)\<rparr>"

lemmas pool_eval = plan_paged_kv_pool_def checked_i32_def throw_if_def sample_spec_def
  layout_add_tensor_def plane_shape_def make_tensor_def normalize_shape_def set_contiguous_strides_def
  checked_mul_i64_def tensor_bytes_def numel_def shape_numel_def layout_add_def align_up_def
  is_power_of_two_def checked_add_def empty_builder_def make_pool_def tensor_region_bind_def region_bind_def
  Let_def string_of_nat.simps replicate_small

lemma sample_plan: "\<exists>b'. plan_paged_kv_pool empty_builder sample_spec = Inr (sample_layout, b')"
  unfolding sample_layout_def by (simp add: pool_eval)


lemma sample_ids: "initial_page_ids 4 = [0, 1, 2, 3]"
  using initial_page_ids_eq [of 4] by (simp add: upt_rec)

lemma sample_make: "make_pool \<lparr>ds_data = 4096, ds_bytes = 4096\<rparr> sample_layout = Inr sample_constructed"
  unfolding sample_layout_def sample_constructed_def by (simp add: pool_eval sample_ids)

definition sample_start :: kv_state where
  "sample_start = \<lparr>ks_pools = [sample_constructed], ks_allocs = []\<rparr>"

definition sample_bound :: kv_state where
  "sample_bound = kv_exec (BindRow 0 1) (kv_exec (MaterializePages 0 2) (kv_exec (Reserve 0 3) sample_start))"

lemma sample_bound_eq: 
  "sample_bound = \<lparr>ks_pools = [sample_constructed\<lparr>kp_free := [2, 3], kp_rows := [False, True],
      kp_entitled := 3, kp_mapped := 2, kp_table := kp_table (hd (ks_pools sample_bound))\<rparr>],
     ks_allocs = [\<lparr>al_pool = Some 0, al_page_ids = [0, 1], al_entitlement = 3, al_bound_row = 1\<rparr>]\<rparr>"
proof -
  have 1: "kv_exec (Reserve 0 3) sample_start = \<lparr>ks_pools = [sample_constructed\<lparr>kp_entitled := 3\<rparr>],
     ks_allocs = [\<lparr>al_pool = Some 0, al_page_ids = [], al_entitlement = 3, al_bound_row = - 1\<rparr>]\<rparr>"
    by (simp add: sample_start_def pool_reserve_def can_reserve_def sample_constructed_def sample_spec_def
        logical_page_capacity_def page_group_count_def add_entitlement_def make_allocation_def)
  have r: "run_at [0, 1, 2, 3] 2 0" by (simp add: run_at_def upt_rec)
  have "first_run [0, 1, 2, 3] 2 = 0" by (simp add: first_run_def upt_rec r)
  then have t: "take_pages (sample_constructed\<lparr>kp_entitled := 3\<rparr>) 2 (- 1) = Inr ([0, 1],
      sample_constructed\<lparr>kp_entitled := 3, kp_free := [2, 3], kp_mapped := 2\<rparr>)"
    by (simp add: take_pages_def preferred_run_def sample_constructed_def)
  have 2: "kv_exec (MaterializePages 0 2) (kv_exec (Reserve 0 3) sample_start) =
     \<lparr>ks_pools = [sample_constructed\<lparr>kp_entitled := 3, kp_free := [2, 3], kp_mapped := 2\<rparr>],
     ks_allocs = [\<lparr>al_pool = Some 0, al_page_ids = [0, 1], al_entitlement = 3, al_bound_row = - 1\<rparr>]\<rparr>"
    unfolding 1 by (simp add: materialize_pages_def mapped_page_count_def t kv_write_def)
  show ?thesis unfolding sample_bound_def 2
    by (simp add: bind_row_def acquire_row_def table_row_count_def sample_constructed_def sample_spec_def
        throw_if_def publish_mapping_def publish_range_def block_table_row_def slice_def view_def
        is_contiguous_def logical_page_capacity_def pool_eval kv_write_def mapped_page_count_def)
qed

lemma sample_reachable: "reachable kv_init kv_step sample_bound"
proof -
  have "kv_init sample_start"
    using sample_plan sample_make by (auto simp: kv_init_def sample_start_def)
  then have 0: "reachable kv_init kv_step sample_start" by (rule reachable.start)
  have 1: "reachable kv_init kv_step (kv_exec (Reserve 0 3) sample_start)"
    by (rule reachable.extend [OF 0 kv_step.call]) (simp add: sample_start_def)
  have len: "length (ks_allocs (kv_exec (Reserve 0 3) sample_start)) = 1"
    by (simp add: sample_start_def pool_reserve_def can_reserve_def sample_constructed_def sample_spec_def
        logical_page_capacity_def page_group_count_def)
  have 2: "reachable kv_init kv_step (kv_exec (MaterializePages 0 2) (kv_exec (Reserve 0 3) sample_start))"
    by (rule reachable.extend [OF 1 kv_step.call]) (use len in simp)
  have "length (ks_allocs (kv_exec (MaterializePages 0 2) (kv_exec (Reserve 0 3) sample_start))) = 1"
    using len by (simp add: materialize_pages_def Let_def kv_write_def split: option.splits sum.splits)
  then have "reachable kv_init kv_step (kv_exec (BindRow 0 1) (kv_exec (MaterializePages 0 2) (kv_exec (Reserve 0 3) sample_start)))"
    by (intro reachable.extend [OF 2 kv_step.call]) simp
  then show ?thesis by (simp only: sample_bound_def)
qed

lemma sample_bound_facts:
  "ks_allocs sample_bound = [\<lparr>al_pool = Some 0, al_page_ids = [0, 1], al_entitlement = 3, al_bound_row = 1\<rparr>]"
  "length (ks_pools sample_bound) = 1" "page_group_count (ks_pools sample_bound ! 0) = 4"
  "logical_page_capacity (ks_pools sample_bound ! 0) = 4" "kp_entitled (ks_pools sample_bound ! 0) = 3"
  by (subst sample_bound_eq; simp add: page_group_count_def logical_page_capacity_def sample_constructed_def
      sample_spec_def)+

theorem pages_partitioned_witness:
  "set (kp_free (ks_pools sample_bound ! 0) @ concat (map al_page_ids (filter (\<lambda>a. belongs_to a 0) (ks_allocs sample_bound))))
     = {0..<4}"
  using pages_partitioned [OF sample_reachable, of 0] by (simp add: sample_bound_facts(2,3))

theorem entitlement_materializes_witness:
  "\<exists>s'. materialize_pages 0 3 sample_bound = (Inr (), s') \<and> mapped_page_count (ks_allocs s' ! 0) = 3"
  using entitlement_materializes [OF sample_reachable, of 0 0 3]
  by (auto simp: belongs_to_def mapped_page_count_def sample_bound_facts)

theorem block_table_published_witness:
  "al_bound_row (ks_allocs sample_bound ! 0) = 1 \<and> kp_table (ks_pools sample_bound ! 0) 1 1 = 1"
  using block_table_published [OF sample_reachable, of 0 0]
  by (auto simp: belongs_to_def sample_bound_facts)

theorem reserve_bundle_atomic_witness:
  "snd (reserve_paged_kv_bundle [\<lparr>rv_pool = Some 0, rv_pages = 2\<rparr>] sample_bound) = sample_bound"
proof -
  have "fst (reserve_paged_kv_bundle [\<lparr>rv_pool = Some 0, rv_pages = 2\<rparr>] sample_bound) = Inl bad_alloc"
    by (simp add: reserve_paged_kv_bundle_def can_reserve_def sample_bound_facts throw_if_def word_le_nat_alt)
  then show ?thesis
    using reserve_bundle_atomic [OF sample_reachable, of "[\<lparr>rv_pool = Some 0, rv_pages = 2\<rparr>]"]
    by (auto simp: sample_bound_facts split: prod.splits sum.splits)
qed

theorem resize_bundle_atomic_witness:
  "\<exists>s'. resize_paged_kv_bundle [\<lparr>rz_allocation = Some 0, rz_mapped_pages = 1, rz_page_entitlement = 4\<rparr>] sample_bound
     = (Inr (), s') \<and> al_page_ids (ks_allocs s' ! 0) = [0] \<and> al_entitlement (ks_allocs s' ! 0) = 4"
proof -
  let ?cs = "[\<lparr>rz_allocation = Some 0, rz_mapped_pages = 1, rz_page_entitlement = 4\<rparr>]"
  have "\<exists>s'. resize_paged_kv_bundle ?cs sample_bound = (Inr (), s')"
    using sample_bound_facts by (auto simp: resize_paged_kv_bundle_def can_replace_entitlement_def
        mapped_page_count_def trim_pages_def set_page_entitlement_def kv_write_def return_pages_def sbind_def
        page_group_count_def logical_page_capacity_def)
  then obtain s' where s': "resize_paged_kv_bundle ?cs sample_bound = (Inr (), s')" by blast
  have "al_page_ids (ks_allocs s' ! 0) = [0] \<and> al_entitlement (ks_allocs s' ! 0) = 4"
    using resize_bundle_atomic [OF sample_reachable, of ?cs] s' by (simp add: sample_bound_facts Let_def)
  then show ?thesis using s' by blast
qed

end
