(* ===== verification/Admission.thy ===== *)
theory Admission
  imports Prelude "HOL-Library.Product_Lexorder"
begin

text \<open>
  The admission policy of the request scheduler (\<open>src/runtime/engine/admission_policy.*\<close>): when
  the head of the queue does not fit beside the active requests, the policy freezes those
  requests as incumbents, selects the earliest finishing ones whose release makes room (the
  donors), and lets later requests overtake only as long as the head still fits once the donors
  are gone.

  \<open>ResourceTotals\<close> are 64-bit sums of at most \<open>kMaximumConcurrency + 2\<close> 32-bit values, so they
  never wrap; they are natural numbers here.
\<close>

section \<open>Resources\<close>

abbreviation kMaximumConcurrency :: nat where "kMaximumConcurrency \<equiv> 8"

record admission_resources =
  active_lanes :: u32
  main_kv_pages :: u32
  backend_kv_pages :: u32

record resource_totals =
  rt_active_lanes :: nat
  rt_main_kv_pages :: nat
  rt_backend_kv_pages :: nat

definition zero_totals :: resource_totals where
  "zero_totals = \<lparr>rt_active_lanes = 0, rt_main_kv_pages = 0, rt_backend_kv_pages = 0\<rparr>"

definition add_resources :: "resource_totals \<Rightarrow> admission_resources \<Rightarrow> resource_totals" where
  "add_resources t r = \<lparr>rt_active_lanes = rt_active_lanes t + unat (active_lanes r),
     rt_main_kv_pages = rt_main_kv_pages t + unat (main_kv_pages r),
     rt_backend_kv_pages = rt_backend_kv_pages t + unat (backend_kv_pages r)\<rparr>"

definition subtract_resources :: "resource_totals \<Rightarrow> admission_resources \<Rightarrow> resource_totals result" where
  "subtract_resources t r =
     rbind (throw_if (unat (active_lanes r) > rt_active_lanes t \<or>
                      unat (main_kv_pages r) > rt_main_kv_pages t \<or>
                      unat (backend_kv_pages r) > rt_backend_kv_pages t)
              (logic_error ''admission resource subtraction underflow'')) (\<lambda>_.
     Inr \<lparr>rt_active_lanes = rt_active_lanes t - unat (active_lanes r),
          rt_main_kv_pages = rt_main_kv_pages t - unat (main_kv_pages r),
          rt_backend_kv_pages = rt_backend_kv_pages t - unat (backend_kv_pages r)\<rparr>)"

definition fits :: "resource_totals \<Rightarrow> admission_resources \<Rightarrow> bool" where
  "fits used cap = (rt_active_lanes used \<le> unat (active_lanes cap) \<and>
     rt_main_kv_pages used \<le> unat (main_kv_pages cap) \<and>
     rt_backend_kv_pages used \<le> unat (backend_kv_pages cap))"

definition admission_resources_fit :: "admission_resources \<Rightarrow> admission_resources \<Rightarrow> bool" where
  "admission_resources_fit used cap = fits (add_resources zero_totals used) cap"

section \<open>Protection of the queue head\<close>

datatype backfill_class = NoBackfill | Persistent | Temporal

datatype protection_phase = Open | Drain

record active_snapshot =
  as_request_id :: u64
  as_resources :: admission_resources
  as_remaining_work_quanta :: u64
  as_backfill_epoch :: u64
  as_backfill_class :: backfill_class

record admission_protection =
  ap_epoch_id :: u64
  ap_head_request_id :: u64
  ap_head_resources :: admission_resources
  ap_incumbent_ids :: "u64 list"
  ap_donor_ids :: "u64 list"
  ap_temporal_credit :: u64
  ap_phase :: protection_phase

definition is_incumbent :: "admission_protection \<Rightarrow> u64 \<Rightarrow> bool" where
  "is_incumbent p i = (i \<in> set (ap_incumbent_ids p))"

definition is_donor :: "admission_protection \<Rightarrow> u64 \<Rightarrow> bool" where
  "is_donor p i = (i \<in> set (ap_donor_ids p))"

text \<open>The order in which the incumbents are expected to finish.\<close>

definition completion_order :: "active_snapshot list \<Rightarrow> active_snapshot list" where
  "completion_order active = sort_key (\<lambda>a. (as_remaining_work_quanta a, as_request_id a)) active"

text \<open>The releasing loop over the sorted incumbents.\<close>

fun select_donors :: "resource_totals \<Rightarrow> admission_resources \<Rightarrow> active_snapshot list \<Rightarrow>
    admission_protection \<Rightarrow> admission_protection result" where
  "select_donors survivors cap [] out =
     Inl (logic_error ''exclusive-feasible head has no releasing incumbent frontier'')"
| "select_donors survivors cap (donor # rest) out =
     rbind (subtract_resources survivors (as_resources donor)) (\<lambda>survivors'.
     let out' = out\<lparr>ap_donor_ids := ap_donor_ids out @ [as_request_id donor],
                    ap_temporal_credit := as_remaining_work_quanta donor\<rparr>
     in if fits survivors' cap then Inr out' else select_donors survivors' cap rest out')"

definition make_admission_protection ::
  "u64 \<Rightarrow> u64 \<Rightarrow> admission_resources \<Rightarrow> active_snapshot list \<Rightarrow> admission_resources \<Rightarrow>
   admission_protection result" where
  "make_admission_protection epoch_id head_request_id head_resources active cap =
     rbind (throw_if (epoch_id = 0 \<or> head_request_id = 0 \<or> active = [] \<or>
                      length active > kMaximumConcurrency \<or> active_lanes head_resources = 0 \<or>
                      \<not> admission_resources_fit head_resources cap)
              (invalid_argument ''invalid protected-admission frontier'')) (\<lambda>_.
     rbind (rfold (\<lambda>survivors a.
              rbind (throw_if (as_request_id a = 0 \<or> as_remaining_work_quanta a = 0)
                       (invalid_argument ''protected incumbent has invalid progress state'')) (\<lambda>_.
              Inr (add_resources survivors (as_resources a)))) zero_totals active) (\<lambda>incumbents.
     let survivors = add_resources incumbents head_resources
     in rbind (throw_if (fits survivors cap)
                 (invalid_argument ''protected head is not blocked by frozen incumbents'')) (\<lambda>_.
        select_donors survivors cap (completion_order active)
          \<lparr>ap_epoch_id = epoch_id, ap_head_request_id = head_request_id,
           ap_head_resources = head_resources, ap_incumbent_ids = map as_request_id active,
           ap_donor_ids = [], ap_temporal_credit = 0, ap_phase = Open\<rparr>)))"

definition persistent_backfill_is_safe ::
  "admission_protection \<Rightarrow> active_snapshot list \<Rightarrow> admission_resources \<Rightarrow> admission_resources \<Rightarrow> bool" where
  "persistent_backfill_is_safe p active candidate cap =
     (let future = foldl (\<lambda>t r.
            if is_incumbent p (as_request_id r) then
              (if \<not> is_donor p (as_request_id r) then add_resources t (as_resources r) else t)
            else if as_backfill_epoch r = ap_epoch_id p \<and> as_backfill_class r = Persistent
            then add_resources t (as_resources r) else t)
          (add_resources zero_totals (ap_head_resources p)) active
      in fits (add_resources future candidate) cap)"

definition protection_frontier_distance :: "admission_protection \<Rightarrow> active_snapshot list \<Rightarrow> u64" where
  "protection_frontier_distance p active =
     foldl (\<lambda>d r. if is_donor p (as_request_id r) then max d (as_remaining_work_quanta r) else d) 0 active"

definition protected_head_safe_without_temporal ::
  "admission_protection \<Rightarrow> active_snapshot list \<Rightarrow> admission_resources \<Rightarrow> bool" where
  "protected_head_safe_without_temporal p active cap =
     fits (foldl (\<lambda>t r.
        if is_incumbent p (as_request_id r) \<or> as_backfill_epoch r \<noteq> ap_epoch_id p \<or>
           as_backfill_class r \<noteq> Temporal
        then add_resources t (as_resources r) else t)
       (add_resources zero_totals (ap_head_resources p)) active) cap"

section \<open>Demands as sums\<close>

text \<open>The abstract demand of a list of requests, one sum per admission domain.\<close>

definition demand :: "admission_resources list \<Rightarrow> resource_totals" where
  "demand rs = \<lparr>rt_active_lanes = sum_list (map (\<lambda>r. unat (active_lanes r)) rs),
     rt_main_kv_pages = sum_list (map (\<lambda>r. unat (main_kv_pages r)) rs),
     rt_backend_kv_pages = sum_list (map (\<lambda>r. unat (backend_kv_pages r)) rs)\<rparr>"

lemma demand_Nil [simp]: "demand [] = zero_totals"
  by (simp add: demand_def zero_totals_def)

lemma add_resources_demand [simp]: "add_resources (demand rs) r = demand (r # rs)"
  by (simp add: demand_def add_resources_def ac_simps)

lemma demand_perm: "mset rs = mset rs' \<Longrightarrow> demand rs = demand rs'"
  unfolding demand_def by (metis (no_types, lifting) mset_map sum_mset_sum_list)

lemma demand_snoc: "demand (rs @ [r]) = demand (r # rs)"
  by (rule demand_perm) simp

lemma foldl_add_resources:
  "foldl (\<lambda>t r. if P r then add_resources t (f r) else t) (demand rs) xs = demand (rev (map f (filter P xs)) @ rs)"
proof (induction xs arbitrary: rs)
  case (Cons x xs)
  then show ?case using Cons.IH [of "f x # rs"] Cons.IH [of rs] by (cases "P x") simp_all
qed simp

lemma fits_mono:
  assumes "fits (demand rs) cap" "mset rs' \<subseteq># mset rs"
  shows "fits (demand rs') cap"
proof -
  have "sum_list (map g rs') \<le> sum_list (map g rs)" for g :: "admission_resources \<Rightarrow> nat"
  proof -
    obtain ds where "mset rs = mset rs' + ds" using assms(2) by (metis subset_mset.add_diff_inverse)
    then have "sum_mset (image_mset g (mset rs)) = sum_mset (image_mset g (mset rs')) + sum_mset (image_mset g ds)"
      by simp
    then show ?thesis by (simp add: sum_mset_sum_list flip: mset_map)
  qed
  then show ?thesis using assms(1) unfolding fits_def demand_def by (auto intro: order_trans)
qed

lemma subtract_resources_demand: "subtract_resources (demand (r # rs)) r = Inr (demand rs)"
  by (simp add: subtract_resources_def demand_def)

lemma incumbents_demand:
  "rfold (\<lambda>survivors a.
     rbind (throw_if (as_request_id a = 0 \<or> as_remaining_work_quanta a = 0) e) (\<lambda>_.
     Inr (add_resources survivors (as_resources a)))) (demand rs) active =
   (if \<forall>a \<in> set active. as_request_id a \<noteq> 0 \<and> as_remaining_work_quanta a \<noteq> 0
    then Inr (demand (rev (map as_resources active) @ rs)) else Inl e)"
proof (induction active arbitrary: rs)
  case (Cons a active)
  then show ?case using Cons.IH [of "as_resources a # rs"] by (auto simp: throw_if_def)
qed simp


section \<open>The donor frontier\<close>

lemma select_donors_spec:
  assumes "ds \<noteq> []" "fits (demand base) cap"
  shows "\<exists>k. 0 < k \<and> k \<le> length ds \<and>
    select_donors (demand (map as_resources ds @ base)) cap ds out =
      Inr (out\<lparr>ap_donor_ids := ap_donor_ids out @ map as_request_id (take k ds),
               ap_temporal_credit := as_remaining_work_quanta (ds ! (k - 1))\<rparr>) \<and>
    fits (demand (map as_resources (drop k ds) @ base)) cap \<and>
    (\<forall>j. 0 < j \<and> j < k \<longrightarrow> \<not> fits (demand (map as_resources (drop j ds) @ base)) cap)"
  using assms(1)
proof (induction ds arbitrary: out)
  case (Cons d ds)
  let ?out = "out\<lparr>ap_donor_ids := ap_donor_ids out @ [as_request_id d],
      ap_temporal_credit := as_remaining_work_quanta d\<rparr>"
  have sub: "subtract_resources (demand (map as_resources (d # ds) @ base)) (as_resources d) =
      Inr (demand (map as_resources ds @ base))"
    using subtract_resources_demand [of "as_resources d" "map as_resources ds @ base"] by simp
  show ?case
  proof (cases "fits (demand (map as_resources ds @ base)) cap")
    case True
    then show ?thesis using sub by (intro exI [of _ 1]) simp
  next
    case False
    then have "ds \<noteq> []" using assms(2) by auto
    from Cons.IH [OF this, of ?out] obtain k where k: "0 < k" "k \<le> length ds"
      "select_donors (demand (map as_resources ds @ base)) cap ds ?out =
        Inr (?out\<lparr>ap_donor_ids := ap_donor_ids ?out @ map as_request_id (take k ds),
               ap_temporal_credit := as_remaining_work_quanta (ds ! (k - 1))\<rparr>)"
      "fits (demand (map as_resources (drop k ds) @ base)) cap"
      "\<forall>j. 0 < j \<and> j < k \<longrightarrow> \<not> fits (demand (map as_resources (drop j ds) @ base)) cap" by blast
    have "\<not> fits (demand (map as_resources (drop j (d # ds)) @ base)) cap" if "0 < j" "j < Suc k" for j
      using k(5) False that by (cases j; cases "j = 1") auto
    then show ?thesis using sub False k(1-4)
      by (intro exI [of _ "Suc k"]) (simp add: nth_Cons split: nat.splits)
  qed
qed simp

lemma completion_order_props:
  "mset (completion_order active) = mset active"
  "sorted (map as_remaining_work_quanta (completion_order active))"
proof -
  show "mset (completion_order active) = mset active" by (simp add: completion_order_def)
  have "sorted (map (\<lambda>a. (as_remaining_work_quanta a, as_request_id a)) (completion_order active))"
    by (simp add: completion_order_def)
  then show "sorted (map as_remaining_work_quanta (completion_order active))"
    unfolding sorted_map by (rule sorted_wrt_mono_rel [rotated]) (auto simp: less_eq_prod_def)
qed

text \<open>Everything \<open>make_admission_protection\<close> decides, on valid arguments.\<close>

definition protection_args :: "u64 \<Rightarrow> u64 \<Rightarrow> admission_resources \<Rightarrow> active_snapshot list \<Rightarrow> admission_resources \<Rightarrow> bool" where
  "protection_args epoch_id head_id hr active cap =
     (epoch_id \<noteq> 0 \<and> head_id \<noteq> 0 \<and> active \<noteq> [] \<and> length active \<le> kMaximumConcurrency \<and>
      active_lanes hr \<noteq> 0 \<and> admission_resources_fit hr cap \<and>
      (\<forall>a \<in> set active. as_request_id a \<noteq> 0 \<and> as_remaining_work_quanta a \<noteq> 0) \<and>
      \<not> fits (demand (hr # map as_resources active)) cap)"

lemma make_protection_guards:
  "make_admission_protection epoch_id head_id hr active cap =
     (if protection_args epoch_id head_id hr active cap
      then select_donors (demand (map as_resources (completion_order active) @ [hr])) cap (completion_order active)
        \<lparr>ap_epoch_id = epoch_id, ap_head_request_id = head_id, ap_head_resources = hr,
         ap_incumbent_ids = map as_request_id active, ap_donor_ids = [], ap_temporal_credit = 0, ap_phase = Open\<rparr>
      else Inl (invalid_argument
        (if epoch_id = 0 \<or> head_id = 0 \<or> active = [] \<or> length active > kMaximumConcurrency \<or>
            active_lanes hr = 0 \<or> \<not> admission_resources_fit hr cap
         then ''invalid protected-admission frontier''
         else if \<exists>a \<in> set active. as_request_id a = 0 \<or> as_remaining_work_quanta a = 0
         then ''protected incumbent has invalid progress state''
         else ''protected head is not blocked by frozen incumbents'')))"
proof -
  have 1: "demand (hr # rev (map as_resources active)) = demand (hr # map as_resources active)"
    by (rule demand_perm) simp
  have 2: "demand (map as_resources (completion_order active) @ [hr]) = demand (hr # map as_resources active)"
    by (rule demand_perm) (simp add: completion_order_props)
  show ?thesis
    using incumbents_demand [of "invalid_argument ''protected incumbent has invalid progress state''" "[]" active]
    by (auto simp: make_admission_protection_def protection_args_def Let_def throw_if_def 1 2)
qed

lemma make_protection_spec:
  assumes "protection_args epoch_id head_id hr active cap"
  obtains k p where "0 < k" "k \<le> length active" "make_admission_protection epoch_id head_id hr active cap = Inr p"
    "ap_epoch_id p = epoch_id" "ap_head_resources p = hr" "ap_incumbent_ids p = map as_request_id active"
    "ap_donor_ids p = map as_request_id (take k (completion_order active))"
    "ap_temporal_credit p = as_remaining_work_quanta (completion_order active ! (k - 1))"
    "fits (demand (hr # map as_resources (drop k (completion_order active)))) cap"
    "\<forall>j < k. \<not> fits (demand (hr # map as_resources (drop j (completion_order active)))) cap"
proof -
  let ?o = "completion_order active"
  have ne: "?o \<noteq> []" using assms completion_order_props(1) [of active]
    by (metis mset_zero_iff protection_args_def)
  have "fits (demand [hr]) cap"
    using assms by (simp add: protection_args_def admission_resources_fit_def flip: demand_Nil)
  from select_donors_spec [OF ne this, of "\<lparr>ap_epoch_id = epoch_id, ap_head_request_id = head_id, ap_head_resources = hr,
         ap_incumbent_ids = map as_request_id active, ap_donor_ids = [], ap_temporal_credit = 0, ap_phase = Open\<rparr>"]
  obtain k where k: "0 < k" "k \<le> length ?o"
    "select_donors (demand (map as_resources ?o @ [hr])) cap ?o \<lparr>ap_epoch_id = epoch_id, ap_head_request_id = head_id, ap_head_resources = hr,
         ap_incumbent_ids = map as_request_id active, ap_donor_ids = [], ap_temporal_credit = 0, ap_phase = Open\<rparr> =
      Inr \<lparr>ap_epoch_id = epoch_id, ap_head_request_id = head_id, ap_head_resources = hr,
         ap_incumbent_ids = map as_request_id active, ap_donor_ids = map as_request_id (take k ?o),
         ap_temporal_credit = as_remaining_work_quanta (?o ! (k - 1)), ap_phase = Open\<rparr>"
    "fits (demand (map as_resources (drop k ?o) @ [hr])) cap"
    "\<forall>j. 0 < j \<and> j < k \<longrightarrow> \<not> fits (demand (map as_resources (drop j ?o) @ [hr])) cap" by auto
  have sw: "demand (hr # map as_resources ?o) = demand (hr # map as_resources active)"
    by (rule demand_perm) (simp add: completion_order_props)
  have "\<not> fits (demand (hr # map as_resources (drop j ?o))) cap" if "j < k" for j
    using k(5) that sw assms by (cases "j = 0") (auto simp: demand_snoc protection_args_def)
  moreover have "length ?o = length active" using completion_order_props(1) by (metis size_mset)
  ultimately show ?thesis
    using that k assms by (simp add: make_protection_guards demand_snoc)
qed

text \<open>
  C30. Protection is total and exact on valid arguments: \<open>make_admission_protection\<close> never reports an internal
  error; it fails only by rejecting its arguments, and it returns a protection whenever they are
  valid and the head is blocked although it would fit alone.
\<close>

theorem protection_never_internal_error:
  "(protection_args epoch_id head_id hr active cap \<longrightarrow>
      (\<exists>p. make_admission_protection epoch_id head_id hr active cap = Inr p)) \<and>
   (\<not> protection_args epoch_id head_id hr active cap \<longrightarrow>
      (\<exists>msg. make_admission_protection epoch_id head_id hr active cap = Inl (invalid_argument msg)))"
  using make_protection_spec [of epoch_id head_id hr active cap]
  by (auto simp: make_protection_guards)

lemma foldl_max_filter:
  fixes f :: "'a \<Rightarrow> 'b :: linorder"
  shows "foldl (\<lambda>d r. if P r then max d (f r) else d) d xs = Max (insert d (f ` set (filter P xs)))"
proof (induction xs arbitrary: d)
  case (Cons x xs)
  have "Max (insert (max a b) S) = Max (insert a (insert b S))" if "finite S" for a b and S :: "'b set"
    using that by (cases "S = {}") (auto simp: max.assoc)
  then show ?case using Cons.IH by simp
qed simp

text \<open>
  C28. The donors are the earliest possible frontier: they are the first \<open>k\<close> incumbents in completion order, the head
  fits beside the remaining ones and would not fit had one donor fewer been chosen; no donor
  needs more work than the credit, no survivor less, and the credit is the distance to the
  frontier at that moment.
\<close>

theorem donors_are_earliest_frontier:
  assumes mk: "make_admission_protection epoch_id head_id hr active cap = Inr p"
    and ids: "distinct (map as_request_id active)"
  shows "\<exists>k. 0 < k \<and> k \<le> length active \<and>
    ap_donor_ids p = map as_request_id (take k (completion_order active)) \<and>
    fits (demand (hr # map as_resources (drop k (completion_order active)))) cap \<and>
    (\<forall>j < k. \<not> fits (demand (hr # map as_resources (drop j (completion_order active)))) cap) \<and>
    (\<forall>a \<in> set (take k (completion_order active)). as_remaining_work_quanta a \<le> ap_temporal_credit p) \<and>
    (\<forall>a \<in> set (drop k (completion_order active)). ap_temporal_credit p \<le> as_remaining_work_quanta a) \<and>
    protection_frontier_distance p active = ap_temporal_credit p"
proof -
  let ?o = "completion_order active"
  have args: "protection_args epoch_id head_id hr active cap"
    using mk by (auto simp: make_protection_guards split: if_splits)
  obtain k q where q: "make_admission_protection epoch_id head_id hr active cap = Inr q" and k: "0 < k" "k \<le> length active"
    "ap_donor_ids q = map as_request_id (take k ?o)"
    "ap_temporal_credit q = as_remaining_work_quanta (?o ! (k - 1))"
    "fits (demand (hr # map as_resources (drop k ?o))) cap"
    "\<forall>j < k. \<not> fits (demand (hr # map as_resources (drop j ?o))) cap"
    by (rule make_protection_spec [OF args])
  have "q = p" using q mk by simp
  note k = k [unfolded this]
  note srt = completion_order_props(2) [of active]
  have len: "length ?o = length active" using completion_order_props(1) by (metis size_mset)
  have mono: "as_remaining_work_quanta (?o ! x) \<le> as_remaining_work_quanta (?o ! y)"
    if "x \<le> y" "y < length ?o" for x y
    using sorted_nth_mono [OF srt, of x y] that by simp
  have don: "\<forall>a \<in> set (take k ?o). as_remaining_work_quanta a \<le> ap_temporal_credit p"
    using mono k(1,2,4) len by (auto simp: in_set_conv_nth)
  have sur: "\<forall>a \<in> set (drop k ?o). ap_temporal_credit p \<le> as_remaining_work_quanta a"
    using mono k(1,2,4) len by (auto simp: in_set_conv_nth)
  have set_o: "set ?o = set active" using completion_order_props(1) by (rule mset_eq_setD)
  have donor: "is_donor p (as_request_id a) \<longleftrightarrow> a \<in> set (take k ?o)" if "a \<in> set active" for a
  proof -
    have "inj_on as_request_id (set active)" using ids by (simp add: distinct_map)
    then show ?thesis using that k(3) set_o set_take_subset [of k ?o]
      by (auto simp: is_donor_def inj_on_def)
  qed
  let ?last = "?o ! (k - 1)"
  have last: "?last \<in> set (take k ?o)" using k(1,2) len by (auto simp: in_set_conv_nth intro!: exI [of _ "k - 1"])
  then have last': "?last \<in> set active" using set_o set_take_subset [of k ?o] by auto
  let ?D = "as_remaining_work_quanta ` set (filter (\<lambda>r. is_donor p (as_request_id r)) active)"
  have "Max (insert 0 ?D) = ap_temporal_credit p"
    using don donor last last' k(4) by (intro Max_eqI) auto
  then have "protection_frontier_distance p active = ap_temporal_credit p"
    by (simp only: protection_frontier_distance_def foldl_max_filter)
  then show ?thesis using k don sur by blast
qed


section \<open>Backfill never delays the head\<close>

definition stays :: "admission_protection \<Rightarrow> active_snapshot \<Rightarrow> bool" where
  "stays p r = (if is_incumbent p (as_request_id r) then \<not> is_donor p (as_request_id r)
     else as_backfill_epoch r = ap_epoch_id p \<and> as_backfill_class r = Persistent)"

lemma head_demand: "add_resources zero_totals r = demand [r]"
  using add_resources_demand [of "[]" r] by simp

lemma persistent_backfill_demand:
  "persistent_backfill_is_safe p active candidate cap \<longleftrightarrow>
     fits (demand (candidate # ap_head_resources p # map as_resources (filter (stays p) active))) cap"
proof -
  have "(\<lambda>t r. if is_incumbent p (as_request_id r) then
              (if \<not> is_donor p (as_request_id r) then add_resources t (as_resources r) else t)
            else if as_backfill_epoch r = ap_epoch_id p \<and> as_backfill_class r = Persistent
            then add_resources t (as_resources r) else t) =
      (\<lambda>t r. if stays p r then add_resources t (as_resources r) else t)"
    by (intro ext) (simp add: stays_def)
  moreover have "demand (candidate # rev (map as_resources (filter (stays p) active)) @ [ap_head_resources p]) =
      demand (candidate # ap_head_resources p # map as_resources (filter (stays p) active))"
    by (rule demand_perm) simp
  ultimately show ?thesis
    by (simp add: persistent_backfill_is_safe_def head_demand foldl_add_resources Let_def)
qed

lemma head_safe_demand:
  "protected_head_safe_without_temporal p active cap \<longleftrightarrow>
     fits (demand (ap_head_resources p # map as_resources (filter (\<lambda>r. is_incumbent p (as_request_id r) \<or>
       as_backfill_epoch r \<noteq> ap_epoch_id p \<or> as_backfill_class r \<noteq> Temporal) active))) cap"
proof -
  have "demand (rev (map as_resources (filter P active)) @ [ap_head_resources p]) =
      demand (ap_head_resources p # map as_resources (filter P active))" for P
    by (rule demand_perm) simp
  then show ?thesis
    by (simp add: protected_head_safe_without_temporal_def head_demand foldl_add_resources)
qed

text \<open>
  C29. A persistent backfill never delays the protected head: if the policy accepts a candidate, then in every
  later situation in which the donors have finished, whichever of the other requests
  are still active, the head fits as soon as the temporal borrowers are disregarded.
\<close>

theorem persistent_backfill_keeps_frontier:
  assumes safe: "persistent_backfill_is_safe p active candidate cap"
    and epoch: "\<forall>r \<in> set active. is_incumbent p (as_request_id r) \<or>
      as_backfill_epoch r = ap_epoch_id p \<and> as_backfill_class r \<noteq> NoBackfill"
    and new: "as_resources c = candidate" "as_backfill_epoch c = ap_epoch_id p" "as_backfill_class c = Persistent"
      "\<not> is_incumbent p (as_request_id c)"
    and later: "mset later \<subseteq># mset (active @ [c])"
    and donors: "\<forall>r \<in> set later. \<not> is_donor p (as_request_id r)"
  shows "protected_head_safe_without_temporal p later cap"
proof -
  let ?Q = "\<lambda>r. is_incumbent p (as_request_id r) \<or> as_backfill_epoch r \<noteq> ap_epoch_id p \<or> as_backfill_class r \<noteq> Temporal"
  have mem: "r \<in> set active \<or> r = c" if "r \<in> set later" for r
    using mset_subset_eqD [OF later, of r] that by auto
  have "?Q r \<longleftrightarrow> stays p r" if "r \<in> set later" for r
    using mem [OF that] epoch new donors that by (cases "as_backfill_class r") (auto simp: stays_def)
  then have q: "filter ?Q later = filter (stays p) later" by (simp cong: filter_cong)
  have "mset (filter (stays p) later) \<subseteq># mset (filter (stays p) (active @ [c]))"
    using multiset_filter_mono [OF later, of "stays p"] by (simp only: mset_filter)
  also have "\<dots> = mset (c # filter (stays p) active)" using new by (simp add: stays_def)
  finally have "mset (map as_resources (filter (stays p) later)) \<subseteq>#
      mset (map as_resources (c # filter (stays p) active))"
    unfolding mset_map by (rule image_mset_subseteq_mono)
  then have "mset (ap_head_resources p # map as_resources (filter (stays p) later)) \<subseteq>#
      mset (candidate # ap_head_resources p # map as_resources (filter (stays p) active))"
    using new(1) by (simp add: add_mset_commute)
  then show ?thesis
    unfolding head_safe_demand q
    using fits_mono safe [unfolded persistent_backfill_demand] by blast
qed

section \<open>A concrete frontier\<close>

definition sample_request :: "u64 \<Rightarrow> u32 \<Rightarrow> u64 \<Rightarrow> active_snapshot" where
  "sample_request rid pages work = \<lparr>as_request_id = rid,
     as_resources = \<lparr>active_lanes = 1, main_kv_pages = pages, backend_kv_pages = 0\<rparr>,
     as_remaining_work_quanta = work, as_backfill_epoch = 0, as_backfill_class = NoBackfill\<rparr>"

definition sample_active :: "active_snapshot list" where
  "sample_active = [sample_request 1 40 90, sample_request 2 30 10, sample_request 3 20 50]"

definition sample_cap :: admission_resources where
  "sample_cap = \<lparr>active_lanes = 4, main_kv_pages = 100, backend_kv_pages = 0\<rparr>"

definition sample_head :: admission_resources where
  "sample_head = \<lparr>active_lanes = 1, main_kv_pages = 50, backend_kv_pages = 0\<rparr>"

definition sample_protection :: admission_protection where
  "sample_protection = \<lparr>ap_epoch_id = 7, ap_head_request_id = 4, ap_head_resources = sample_head,
     ap_incumbent_ids = [1, 2, 3], ap_donor_ids = [2, 3], ap_temporal_credit = 50, ap_phase = Open\<rparr>"

lemma sample_protection_made:
  "make_admission_protection 7 4 sample_head sample_active sample_cap = Inr sample_protection"
  by (simp add: make_admission_protection_def admission_resources_fit_def fits_def add_resources_def
      zero_totals_def sample_head_def sample_active_def sample_cap_def sample_request_def
      completion_order_def subtract_resources_def sample_protection_def throw_if_def Let_def less_eq_prod_def)

theorem protection_never_internal_error_witness:
  "\<exists>p. make_admission_protection 7 4 sample_head sample_active sample_cap = Inr p"
proof -
  have "protection_args 7 4 sample_head sample_active sample_cap"
    using sample_protection_made by (auto simp: make_protection_guards split: if_splits)
  then show ?thesis
    using protection_never_internal_error [of 7 4 sample_head sample_active sample_cap] by blast
qed

theorem donors_are_earliest_frontier_witness:
  "protection_frontier_distance sample_protection sample_active = 50"
proof -
  have "distinct (map as_request_id sample_active)" by (simp add: sample_active_def sample_request_def)
  from donors_are_earliest_frontier [OF sample_protection_made this] show ?thesis
    by (auto simp: sample_protection_def)
qed

theorem persistent_backfill_keeps_frontier_witness:
  "protected_head_safe_without_temporal sample_protection
     [sample_request 1 40 90, (sample_request 5 10 30)\<lparr>as_backfill_epoch := 7, as_backfill_class := Persistent\<rparr>] sample_cap"
proof (rule persistent_backfill_keeps_frontier)
  let ?c = "(sample_request 5 10 30)\<lparr>as_backfill_epoch := 7, as_backfill_class := Persistent\<rparr>"
  show "persistent_backfill_is_safe sample_protection sample_active (as_resources ?c) sample_cap"
    by (simp add: persistent_backfill_is_safe_def sample_protection_def sample_active_def sample_request_def
        is_incumbent_def is_donor_def add_resources_def zero_totals_def sample_head_def sample_cap_def fits_def)
  show "as_resources ?c = as_resources ?c" by simp
  show "mset [sample_request 1 40 90, ?c] \<subseteq># mset (sample_active @ [?c])"
    by (simp add: sample_active_def)
qed (auto simp: sample_active_def sample_protection_def sample_request_def is_incumbent_def is_donor_def)

end
