(* ===== verification/Runtime_Config.thy ===== *)
theory Runtime_Config
  imports Arena Transitions Complex_Main
begin

text \<open>
  The decisions the engine takes once at startup or once per request: the K/V capacity the device
  can hold (\<open>src/runtime/engine/kv_capacity.cpp\<close>), the frozen transient memory of a request
  (\<open>request_memory.cpp\<close>), its generation budget (\<open>runtime/generation/generation_budget.h\<close>) and its
  sampling parameters (\<open>runtime/contract/sampling.cpp\<close>).
\<close>

section \<open>K/V capacity\<close>

datatype kv_capacity_mode = Explicit | Automatic

record kv_capacity_policy =
  kc_mode :: kv_capacity_mode
  kc_explicit_tokens :: u32
  kc_automatic_headroom_bytes :: u64

record capacity_curve =
  cc_main_page_tokens :: u32
  cc_minimum_main_page_groups :: u32
  cc_maximum_main_page_groups :: u32
  cc_minimum_device_reservation_bytes :: u64
  cc_bytes_per_additional_main_page_group :: u64

record kv_capacity_resolution =
  kr_mode :: kv_capacity_mode
  kr_main_page_groups :: u32
  kr_maximum_main_page_groups :: u32
  kr_resolved_tokens :: u32
  kr_minimum_runtime_reservation_bytes :: u64
  kr_bytes_per_additional_main_page_group :: u64
  kr_runtime_reservation_bytes :: u64
  kr_available_after_weights_bytes :: u64
  kr_available_after_startup_bytes :: u64
  kr_automatic_headroom_bytes :: u64
  kr_planned_slack_bytes :: u64

definition validate_curve :: "capacity_curve \<Rightarrow> unit result" where
  "validate_curve curve =
     rbind (throw_if (cc_main_page_tokens curve = 0 \<or> cc_minimum_main_page_groups curve = 0 \<or>
                      cc_minimum_main_page_groups curve > cc_maximum_main_page_groups curve \<or>
                      cc_minimum_device_reservation_bytes curve = 0)
              (invalid_argument ''sequence capacity curve is invalid'')) (\<lambda>_.
     throw_if (cc_minimum_main_page_groups curve < cc_maximum_main_page_groups curve \<and>
               cc_bytes_per_additional_main_page_group curve = 0)
       (invalid_argument ''expandable sequence capacity curve has zero byte stride''))"

definition explicit_page_groups :: "kv_capacity_policy \<Rightarrow> capacity_curve \<Rightarrow> u32 result" where
  "explicit_page_groups policy curve =
     rbind (throw_if (kc_explicit_tokens policy = 0)
              (invalid_argument ''explicit KV capacity must be positive'')) (\<lambda>_.
     let pages = 1 + ((ucast (kc_explicit_tokens policy) :: u64) - 1) div ucast (cc_main_page_tokens curve)
     in rbind (throw_if (pages > word_of_nat u32_max)
                 (overflow_error ''explicit KV page count exceeds uint32'')) (\<lambda>_.
        Inr (ucast pages)))"

definition reservation_bytes :: "capacity_curve \<Rightarrow> u32 \<Rightarrow> u64 result" where
  "reservation_bytes curve main_page_groups =
     rbind (validate_curve curve) (\<lambda>_.
     rbind (throw_if (main_page_groups < cc_minimum_main_page_groups curve \<or>
                      main_page_groups > cc_maximum_main_page_groups curve)
              (invalid_argument ''Main KV page count is outside the target capacity curve'')) (\<lambda>_.
     let additional = (ucast (main_page_groups - cc_minimum_main_page_groups curve) :: u64)
     in rbind (checked_mul additional (cc_bytes_per_additional_main_page_group curve)
                 (overflow_error ''sequence capacity increment overflows size_t'')) (\<lambda>increment.
        checked_add (cc_minimum_device_reservation_bytes curve) increment
          (overflow_error ''sequence capacity reservation overflows size_t''))))"

definition resolved_tokens :: "capacity_curve \<Rightarrow> u32 \<Rightarrow> u32 result" where
  "resolved_tokens curve main_page_groups =
     rbind (validate_curve curve) (\<lambda>_.
     rbind (throw_if (main_page_groups < cc_minimum_main_page_groups curve \<or>
                      main_page_groups > cc_maximum_main_page_groups curve)
              (invalid_argument ''Main KV page count is outside the target capacity curve'')) (\<lambda>_.
     let tokens = (ucast main_page_groups :: u64) * ucast (cc_main_page_tokens curve)
     in rbind (throw_if (tokens > word_of_nat u32_max)
                 (overflow_error ''resolved KV token capacity exceeds uint32'')) (\<lambda>_.
        Inr (ucast tokens))))"

text \<open>The automatic branch: the page count that the remaining budget pays for, capped at the maximum.\<close>

definition automatic_page_groups :: "capacity_curve \<Rightarrow> u64 \<Rightarrow> u32" where
  "automatic_page_groups curve capacity_budget =
     (if cc_minimum_main_page_groups curve < cc_maximum_main_page_groups curve then
        let additional = (capacity_budget - cc_minimum_device_reservation_bytes curve) div
              cc_bytes_per_additional_main_page_group curve;
            candidate = (ucast (cc_minimum_main_page_groups curve) :: u64) + additional
        in ucast (min candidate (ucast (cc_maximum_main_page_groups curve)))
      else cc_minimum_main_page_groups curve)"

definition resolve_kv_capacity ::
  "kv_capacity_policy \<Rightarrow> capacity_curve \<Rightarrow> u64 \<Rightarrow> kv_capacity_resolution result" where
  "resolve_kv_capacity policy curve available =
     rbind (validate_curve curve) (\<lambda>_.
     rbind (case kc_mode policy of
         Explicit \<Rightarrow>
           rbind (throw_if (kc_automatic_headroom_bytes policy \<noteq> 0)
                    (invalid_argument ''explicit KV capacity must not carry automatic headroom'')) (\<lambda>_.
           rbind (explicit_page_groups policy curve) (\<lambda>pages. Inr (pages, available)))
       | Automatic \<Rightarrow>
           rbind (throw_if (available < kc_automatic_headroom_bytes policy)
                    (invalid_argument (''automatic KV headroom requires '' @
                       string_of_nat (unat (kc_automatic_headroom_bytes policy)) @ '' bytes, but only '' @
                       string_of_nat (unat available) @ '' bytes are available after weights''))) (\<lambda>_.
           let capacity_budget = available - kc_automatic_headroom_bytes policy
           in rbind (throw_if (capacity_budget < cc_minimum_device_reservation_bytes curve)
                       (invalid_argument (''minimum Engine runtime reservation requires '' @
                          string_of_nat (unat (cc_minimum_device_reservation_bytes curve)) @
                          '' bytes in addition to '' @
                          string_of_nat (unat (kc_automatic_headroom_bytes policy)) @
                          '' bytes of automatic headroom, but only '' @
                          string_of_nat (unat available) @ '' bytes are available after weights''))) (\<lambda>_.
              Inr (automatic_page_groups curve capacity_budget, capacity_budget))))
       (\<lambda>(pages, capacity_budget).
     rbind (reservation_bytes curve pages) (\<lambda>reservation.
     rbind (throw_if (reservation > capacity_budget)
              (invalid_argument (''requested Engine runtime reservation requires '' @
                 string_of_nat (unat reservation) @ '' bytes, but only '' @
                 string_of_nat (unat capacity_budget) @ '' bytes are available for runtime capacity''))) (\<lambda>_.
     rbind (resolved_tokens curve pages) (\<lambda>tokens.
     Inr \<lparr>kr_mode = kc_mode policy, kr_main_page_groups = pages,
          kr_maximum_main_page_groups = cc_maximum_main_page_groups curve,
          kr_resolved_tokens = tokens,
          kr_minimum_runtime_reservation_bytes = cc_minimum_device_reservation_bytes curve,
          kr_bytes_per_additional_main_page_group = cc_bytes_per_additional_main_page_group curve,
          kr_runtime_reservation_bytes = reservation,
          kr_available_after_weights_bytes = available,
          kr_available_after_startup_bytes = 0,
          kr_automatic_headroom_bytes = kc_automatic_headroom_bytes policy,
          kr_planned_slack_bytes = available - reservation\<rparr>)))))"

section \<open>Request memory\<close>

abbreviation kDeviceAllocationAlignment :: u64 where "kDeviceAllocationAlignment \<equiv> 256"

record request_memory =
  rm_arena :: "arena option"
  rm_active_bytes :: u64
  rm_active_alignment :: u64
  rm_peak_bytes :: u64

record transient_region =
  tg_data :: u64
  tg_size :: u64
  tg_alignment :: u64

record arena_memory_summary =
  sm_capacity_bytes :: u64
  sm_used_bytes :: u64
  sm_peak_used_bytes :: u64

text \<open>The device allocation of \<open>capacity\<close> bytes is the argument \<open>base\<close>; zero capacity allocates nothing.\<close>

definition make_request_memory :: "u64 \<Rightarrow> u64 \<Rightarrow> request_memory" where
  "make_request_memory base cap = \<lparr>rm_arena = (if cap \<noteq> 0
       then Some \<lparr>ar_base = base, ar_cap = cap, ar_off = 0, ar_peak = 0\<rparr> else None),
     rm_active_bytes = 0, rm_active_alignment = 1, rm_peak_bytes = 0\<rparr>"

definition rm_deactivate :: "request_memory \<Rightarrow> request_memory" where
  "rm_deactivate m = m\<lparr>rm_active_bytes := 0, rm_active_alignment := 1\<rparr>"

definition rm_activate :: "u64 \<Rightarrow> u64 \<Rightarrow> (request_memory, unit) prog" where
  "rm_activate bytes alignment m =
     (if bytes = 0 then
        (if alignment \<noteq> 1
         then (Inl (invalid_argument ''an empty transient region must use alignment one''), m)
         else (Inr (), rm_deactivate m))
      else if \<not> is_power_of_two alignment \<or> alignment > kDeviceAllocationAlignment
      then (Inl (invalid_argument ''unsupported transient region alignment''), m)
      else if (case rm_arena m of None \<Rightarrow> True | Some a \<Rightarrow> bytes > ar_cap a)
      then (Inl (invalid_argument ''request transient exceeds its frozen startup capacity''), m)
      else (Inr (), m\<lparr>rm_active_bytes := bytes, rm_active_alignment := alignment,
                      rm_peak_bytes := max (rm_peak_bytes m) bytes\<rparr>))"

definition rm_region :: "request_memory \<Rightarrow> transient_region" where
  "rm_region m =
     (if rm_active_bytes m = 0 then \<lparr>tg_data = 0, tg_size = 0, tg_alignment = 1\<rparr>
      else \<lparr>tg_data = ar_base (the (rm_arena m)), tg_size = rm_active_bytes m,
            tg_alignment = rm_active_alignment m\<rparr>)"

definition rm_summary :: "request_memory \<Rightarrow> arena_memory_summary" where
  "rm_summary m = \<lparr>sm_capacity_bytes = (case rm_arena m of Some a \<Rightarrow> ar_cap a | None \<Rightarrow> 0),
     sm_used_bytes = rm_active_bytes m, sm_peak_used_bytes = rm_peak_bytes m\<rparr>"

definition rm_reset_peak :: "request_memory \<Rightarrow> request_memory" where
  "rm_reset_peak m = m\<lparr>rm_peak_bytes := rm_active_bytes m\<rparr>"

section \<open>Generation budget\<close>

datatype finish_reason = NoFinish | OutputLimit | ContextCapacity | StopToken | StopString | Cancelled

record generation_budget =
  gb_remaining :: u32
  gb_limit_reason :: finish_reason

text \<open>\<open>None\<close> is \<open>std::abort\<close>.\<close>

definition make_generation_budget :: "u32 \<Rightarrow> finish_reason \<Rightarrow> generation_budget option" where
  "make_generation_budget effective_tokens limit_reason =
     (if limit_reason \<noteq> OutputLimit \<and> limit_reason \<noteq> ContextCapacity then None
      else Some \<lparr>gb_remaining = effective_tokens, gb_limit_reason = limit_reason\<rparr>)"

definition gb_commit :: "generation_budget \<Rightarrow> u32 \<Rightarrow> generation_budget option" where
  "gb_commit b tokens =
     (if tokens > gb_remaining b then None else Some (b\<lparr>gb_remaining := gb_remaining b - tokens\<rparr>))"

section \<open>Sampling parameters\<close>

text \<open>A \<open>float\<close> is a finite value or one of the special values; only comparisons are used here.\<close>

datatype f32 = Finite rat | Infinite bool | NotANumber

fun isfinite :: "f32 \<Rightarrow> bool" where
  "isfinite (Finite q) = True"
| "isfinite (Infinite _) = False"
| "isfinite NotANumber = False"

fun f32_less :: "f32 \<Rightarrow> f32 \<Rightarrow> bool" where
  "f32_less (Finite x) (Finite y) = (x < y)"
| "f32_less (Finite x) (Infinite positive) = positive"
| "f32_less (Infinite positive) (Finite y) = (\<not> positive)"
| "f32_less (Infinite p) (Infinite q) = (\<not> p \<and> q)"
| "f32_less NotANumber y = False"
| "f32_less (Finite v) NotANumber = False"
| "f32_less (Infinite v) NotANumber = False"

datatype sampling_mode = Thinking | NonThinking

record sampling_preset =
  pr_temperature :: f32
  pr_top_k :: int
  pr_top_p :: f32
  pr_min_p :: f32
  pr_presence_penalty :: f32
  pr_frequency_penalty :: f32

record sampling_defaults =
  sd_thinking :: sampling_preset
  sd_non_thinking :: sampling_preset

record sampling_overrides =
  so_temperature :: "f32 option"
  so_top_k :: "int option"
  so_top_p :: "f32 option"
  so_min_p :: "f32 option"
  so_presence_penalty :: "f32 option"
  so_frequency_penalty :: "f32 option"
  so_seed :: "u64 option"

record sampling_parameters =
  sp_temperature :: f32
  sp_top_k :: int
  sp_top_p :: f32
  sp_min_p :: f32
  sp_presence_penalty :: f32
  sp_frequency_penalty :: f32
  sp_seed :: u64

definition outside :: "f32 \<Rightarrow> rat \<Rightarrow> rat \<Rightarrow> bool" where
  "outside x lo hi = (f32_less x (Finite lo) \<or> f32_less (Finite hi) x)"

definition validate_sampling :: "sampling_parameters \<Rightarrow> unit result" where
  "validate_sampling s =
     rbind (throw_if (\<not> isfinite (sp_temperature s) \<or> \<not> isfinite (sp_top_p s) \<or> \<not> isfinite (sp_min_p s) \<or>
                      \<not> isfinite (sp_presence_penalty s) \<or> \<not> isfinite (sp_frequency_penalty s))
              (invalid_argument ''sampling parameters must be finite'')) (\<lambda>_.
     rbind (throw_if (outside (sp_temperature s) 0 2) (invalid_argument ''temperature must be in [0,2]'')) (\<lambda>_.
     rbind (throw_if (sp_top_k s < 0) (invalid_argument ''top_k must be nonnegative'')) (\<lambda>_.
     rbind (throw_if (outside (sp_top_p s) 0 1) (invalid_argument ''top_p must be in [0,1]'')) (\<lambda>_.
     rbind (throw_if (outside (sp_min_p s) 0 1) (invalid_argument ''min_p must be in [0,1]'')) (\<lambda>_.
     rbind (throw_if (outside (sp_presence_penalty s) (- 2) 2)
              (invalid_argument ''presence_penalty must be in [-2,2]'')) (\<lambda>_.
     throw_if (outside (sp_frequency_penalty s) (- 2) 2)
       (invalid_argument ''frequency_penalty must be in [-2,2]'')))))))"

definition for_mode :: "sampling_defaults \<Rightarrow> sampling_mode \<Rightarrow> sampling_preset" where
  "for_mode d mode = (if mode = Thinking then sd_thinking d else sd_non_thinking d)"

definition value_or :: "'a option \<Rightarrow> 'a \<Rightarrow> 'a" where
  "value_or v d = (case v of Some x \<Rightarrow> x | None \<Rightarrow> d)"

definition resolve_sampling ::
  "sampling_defaults \<Rightarrow> sampling_mode \<Rightarrow> sampling_overrides \<Rightarrow> sampling_parameters result" where
  "resolve_sampling d mode ov =
     (let preset = for_mode d mode;
          resolved = \<lparr>sp_temperature = value_or (so_temperature ov) (pr_temperature preset),
            sp_top_k = value_or (so_top_k ov) (pr_top_k preset),
            sp_top_p = value_or (so_top_p ov) (pr_top_p preset),
            sp_min_p = value_or (so_min_p ov) (pr_min_p preset),
            sp_presence_penalty = value_or (so_presence_penalty ov) (pr_presence_penalty preset),
            sp_frequency_penalty = value_or (so_frequency_penalty ov) (pr_frequency_penalty preset),
            sp_seed = value_or (so_seed ov) 0\<rparr>
      in rbind (validate_sampling resolved) (\<lambda>_. Inr resolved))"


section \<open>Capacity arithmetic\<close>

lemma unat_widen: "unat (ucast (x :: u32) :: u64) = unat x"
  using unat_u32_le [of x] by (simp add: unsigned_ucast_eq take_bit_nat_eq_self)

lemma unat_narrow: "unat y \<le> u32_max \<Longrightarrow> unat (ucast (y :: u64) :: u32) = unat y"
  by (simp add: unsigned_ucast_eq take_bit_nat_eq_self)

lemma validate_curve_Inr:
  "validate_curve curve = Inr u \<longleftrightarrow> cc_main_page_tokens curve \<noteq> 0 \<and> cc_minimum_main_page_groups curve \<noteq> 0 \<and>
     cc_minimum_main_page_groups curve \<le> cc_maximum_main_page_groups curve \<and>
     cc_minimum_device_reservation_bytes curve \<noteq> 0 \<and>
     (cc_minimum_main_page_groups curve < cc_maximum_main_page_groups curve \<longrightarrow>
       cc_bytes_per_additional_main_page_group curve \<noteq> 0)"
  by (auto simp: validate_curve_def result_simps not_less)

definition affine_bytes :: "capacity_curve \<Rightarrow> nat \<Rightarrow> nat" where
  "affine_bytes curve pages = unat (cc_minimum_device_reservation_bytes curve) +
     (pages - unat (cc_minimum_main_page_groups curve)) * unat (cc_bytes_per_additional_main_page_group curve)"

lemma reservation_bytes_Inr:
  assumes "reservation_bytes curve pages = Inr n"
  shows "cc_minimum_main_page_groups curve \<le> pages" "pages \<le> cc_maximum_main_page_groups curve"
    "unat n = affine_bytes curve (unat pages)"
proof -
  let ?add = "ucast (pages - cc_minimum_main_page_groups curve) :: u64"
  let ?stride = "cc_bytes_per_additional_main_page_group curve"
  have b: "cc_minimum_main_page_groups curve \<le> pages" "pages \<le> cc_maximum_main_page_groups curve"
    and m: "unat ?add * unat ?stride \<le> u64_max"
    and a: "unat (cc_minimum_device_reservation_bytes curve) + unat (?add * ?stride) \<le> u64_max"
    and n: "n = cc_minimum_device_reservation_bytes curve + ?add * ?stride"
    using assms by (auto simp: reservation_bytes_def Let_def result_simps not_less)
  have "unat ?add = unat pages - unat (cc_minimum_main_page_groups curve)"
    using b(1) by (simp add: unat_widen unat_sub)
  then show "unat n = affine_bytes curve (unat pages)"
    using unat_add_u64 [OF a] unat_mult_u64 [OF m] by (simp add: n affine_bytes_def)
  show "cc_minimum_main_page_groups curve \<le> pages" "pages \<le> cc_maximum_main_page_groups curve"
    by (fact b)+
qed

lemma automatic_page_groups_value:
  assumes v: "validate_curve curve = Inr ()" and lo: "cc_minimum_device_reservation_bytes curve \<le> budget"
    and small: "unat budget \<le> u64_max - u32_max"
  shows "unat (automatic_page_groups curve budget) =
    (if cc_minimum_main_page_groups curve < cc_maximum_main_page_groups curve
     then min (unat (cc_minimum_main_page_groups curve) +
            (unat budget - unat (cc_minimum_device_reservation_bytes curve)) div
              unat (cc_bytes_per_additional_main_page_group curve))
          (unat (cc_maximum_main_page_groups curve))
     else unat (cc_minimum_main_page_groups curve))"
proof (cases "cc_minimum_main_page_groups curve < cc_maximum_main_page_groups curve")
  case True
  let ?q = "(budget - cc_minimum_device_reservation_bytes curve) div cc_bytes_per_additional_main_page_group curve"
  let ?c = "(ucast (cc_minimum_main_page_groups curve) :: u64) + ?q"
  let ?m = "ucast (cc_maximum_main_page_groups curve) :: u64"
  have q: "unat ?q = (unat budget - unat (cc_minimum_device_reservation_bytes curve)) div
      unat (cc_bytes_per_additional_main_page_group curve)"
    using lo by (simp add: unat_div unat_sub)
  have "unat ?q \<le> unat budget" unfolding q by (metis diff_le_self div_le_dividend order_trans)
  then have "unat (ucast (cc_minimum_main_page_groups curve) :: u64) + unat ?q \<le> u64_max"
    using small unat_u32_le [of "cc_minimum_main_page_groups curve"] by (simp add: unat_widen)
  note c = unat_add_u64 [OF this]
  have m: "unat (min ?c ?m) = min (unat ?c) (unat ?m)" by (simp add: min_def word_le_nat_alt)
  have "unat (min ?c ?m) \<le> u32_max"
    using unat_u32_le [of "cc_maximum_main_page_groups curve"] by (simp add: m unat_widen)
  from unat_narrow [OF this] show ?thesis
    using True c q by (simp add: automatic_page_groups_def Let_def m unat_widen)
qed (simp add: automatic_page_groups_def)

text \<open>What a successful resolution guarantees in both modes.\<close>

lemma resolve_kv_capacity_Inr:
  assumes "resolve_kv_capacity policy curve available = Inr r"
  obtains budget where "validate_curve curve = Inr ()"
    "reservation_bytes curve (kr_main_page_groups r) = Inr (kr_runtime_reservation_bytes r)"
    "kr_runtime_reservation_bytes r \<le> budget" "kr_planned_slack_bytes r = available - kr_runtime_reservation_bytes r"
    "resolved_tokens curve (kr_main_page_groups r) = Inr (kr_resolved_tokens r)"
    "kc_mode policy = Explicit \<Longrightarrow> budget = available \<and> explicit_page_groups policy curve = Inr (kr_main_page_groups r)"
    "kc_mode policy = Automatic \<Longrightarrow> kc_automatic_headroom_bytes policy \<le> available \<and>
       budget = available - kc_automatic_headroom_bytes policy \<and>
       cc_minimum_device_reservation_bytes curve \<le> budget \<and>
       kr_main_page_groups r = automatic_page_groups curve budget"
proof (cases "kc_mode policy")
  case Explicit
  then show ?thesis using assms that [of available]
    by (auto simp: resolve_kv_capacity_def result_simps not_less)
next
  case Automatic
  then show ?thesis using assms that [of "available - kc_automatic_headroom_bytes policy"]
    by (auto simp: resolve_kv_capacity_def Let_def result_simps not_less)
qed

text \<open>
  C36. The automatic capacity is the largest that leaves the headroom free: the resolved page count lies on the curve,
  its reservation plus the headroom fits the available bytes, and one more page group would
  not fit unless the curve's maximum is reached. The bound on \<open>available\<close> excludes the
  one case in which the 64-bit sum of the page count could wrap.
\<close>

theorem automatic_capacity_maximal:
  assumes r: "resolve_kv_capacity policy curve available = Inr r" and mode: "kc_mode policy = Automatic"
    and small: "unat available \<le> u64_max - u32_max"
  shows "cc_minimum_main_page_groups curve \<le> kr_main_page_groups r \<and>
    kr_main_page_groups r \<le> cc_maximum_main_page_groups curve \<and>
    unat (kr_runtime_reservation_bytes r) = affine_bytes curve (unat (kr_main_page_groups r)) \<and>
    unat (kr_runtime_reservation_bytes r) + unat (kc_automatic_headroom_bytes policy) \<le> unat available \<and>
    kc_automatic_headroom_bytes policy \<le> kr_planned_slack_bytes r \<and>
    (kr_main_page_groups r = cc_maximum_main_page_groups curve \<or>
     unat available < affine_bytes curve (unat (kr_main_page_groups r) + 1) + unat (kc_automatic_headroom_bytes policy))"
proof -
  obtain budget where v: "validate_curve curve = Inr ()"
    and res: "reservation_bytes curve (kr_main_page_groups r) = Inr (kr_runtime_reservation_bytes r)"
    and le: "kr_runtime_reservation_bytes r \<le> budget"
    and slack: "kr_planned_slack_bytes r = available - kr_runtime_reservation_bytes r"
    and auto: "kc_automatic_headroom_bytes policy \<le> available"
      "budget = available - kc_automatic_headroom_bytes policy"
      "cc_minimum_device_reservation_bytes curve \<le> budget"
      "kr_main_page_groups r = automatic_page_groups curve budget"
    by (rule resolve_kv_capacity_Inr [OF r]) (use mode in blast)
  note rb = reservation_bytes_Inr [OF res]
  have bud: "unat budget = unat available - unat (kc_automatic_headroom_bytes policy)"
    using auto(1,2) by (simp add: unat_sub)
  have fit: "unat (kr_runtime_reservation_bytes r) + unat (kc_automatic_headroom_bytes policy) \<le> unat available"
    using le bud auto(1) by (simp add: word_le_nat_alt)
  then have "unat (kr_planned_slack_bytes r) = unat available - unat (kr_runtime_reservation_bytes r)"
    by (simp add: slack unat_sub word_le_nat_alt)
  then have sl: "kc_automatic_headroom_bytes policy \<le> kr_planned_slack_bytes r"
    using fit by (simp add: word_le_nat_alt)
  have "unat budget \<le> u64_max - u32_max" using bud small by linarith
  note val = automatic_page_groups_value [OF v auto(3) this]
  let ?min = "unat (cc_minimum_main_page_groups curve)" and ?b0 = "unat (cc_minimum_device_reservation_bytes curve)"
  let ?st = "unat (cc_bytes_per_additional_main_page_group curve)"
  have max: "kr_main_page_groups r = cc_maximum_main_page_groups curve \<or>
     unat available < affine_bytes curve (unat (kr_main_page_groups r) + 1) + unat (kc_automatic_headroom_bytes policy)"
  proof (rule disjCI)
    assume "\<not> unat available < affine_bytes curve (unat (kr_main_page_groups r) + 1) + unat (kc_automatic_headroom_bytes policy)"
    then have fits: "affine_bytes curve (unat (kr_main_page_groups r) + 1) \<le> unat budget" using bud by linarith
    show "kr_main_page_groups r = cc_maximum_main_page_groups curve"
    proof (cases "cc_minimum_main_page_groups curve < cc_maximum_main_page_groups curve")
      case False
      then show ?thesis using rb(1,2) by simp
    next
      case True
      have "0 < ?st" using v True by (simp add: validate_curve_Inr unat_gt_0)
      define x where "x = unat (kr_main_page_groups r) - ?min"
      have x: "unat (kr_main_page_groups r) = ?min + x" using rb(1) by (simp add: x_def word_le_nat_alt)
      have "(x + 1) * ?st \<le> unat budget - ?b0" using fits x by (simp add: affine_bytes_def)
      then have "x + 1 \<le> (unat budget - ?b0) div ?st" using \<open>0 < ?st\<close> by (simp add: less_eq_div_iff_mult_less_eq)
      then have "unat (kr_main_page_groups r) = unat (cc_maximum_main_page_groups curve)"
        using val True x auto(4) by simp
      then show ?thesis by (simp add: word_unat_eq_iff)
    qed
  qed
  show ?thesis using rb fit sl max by blast
qed

text \<open>
  An explicit capacity is met tightly: the resolved tokens cover the requested tokens by less than one page, and
  the reservation fits the available bytes.
\<close>

theorem explicit_capacity_covers:
  assumes r: "resolve_kv_capacity policy curve available = Inr r" and mode: "kc_mode policy = Explicit"
  shows "unat (kc_explicit_tokens policy) \<le> unat (kr_resolved_tokens r) \<and>
    unat (kr_resolved_tokens r) < unat (kc_explicit_tokens policy) + unat (cc_main_page_tokens curve) \<and>
    unat (kr_resolved_tokens r) = unat (kr_main_page_groups r) * unat (cc_main_page_tokens curve) \<and>
    kr_runtime_reservation_bytes r \<le> available"
proof -
  obtain budget where v: "validate_curve curve = Inr ()"
    and le: "kr_runtime_reservation_bytes r \<le> budget"
    and tok: "resolved_tokens curve (kr_main_page_groups r) = Inr (kr_resolved_tokens r)"
    and ex: "budget = available" "explicit_page_groups policy curve = Inr (kr_main_page_groups r)"
    by (rule resolve_kv_capacity_Inr [OF r]) (use mode in blast)
  let ?t = "unat (kc_explicit_tokens policy)" and ?m = "unat (cc_main_page_tokens curve)"
  let ?w = "(ucast (kr_main_page_groups r) :: u64) * ucast (cc_main_page_tokens curve)"
  have mpos: "0 < ?m" using v by (simp add: validate_curve_Inr unat_gt_0)
  have "unat (kr_main_page_groups r) * ?m \<le> u32_max * u32_max"
    using unat_u32_le by (intro mult_le_mono) auto
  then have w: "unat ?w = unat (kr_main_page_groups r) * ?m"
    using unat_mult_u64 [of "ucast (kr_main_page_groups r)" "ucast (cc_main_page_tokens curve)"]
    by (simp add: unat_widen)
  have "unat ?w \<le> u32_max" and "kr_resolved_tokens r = ucast ?w"
    using tok by (auto simp: resolved_tokens_def Let_def result_simps not_less word_le_nat_alt)
  then have res: "unat (kr_resolved_tokens r) = unat (kr_main_page_groups r) * ?m"
    using unat_narrow w by simp
  let ?p = "1 + ((ucast (kc_explicit_tokens policy) :: u64) - 1) div ucast (cc_main_page_tokens curve)"
  have nz: "kc_explicit_tokens policy \<noteq> 0" and "?p \<le> word_of_nat u32_max"
    and pg: "kr_main_page_groups r = ucast ?p"
    using ex(2) by (auto simp: explicit_page_groups_def Let_def result_simps not_less)
  have tpos: "0 < ?t" using nz by (simp add: unat_gt_0)
  have "(ucast (kc_explicit_tokens policy) :: u64) \<noteq> 0" using tpos unat_widen by (metis less_irrefl unat_0)
  then have "unat ((ucast (kc_explicit_tokens policy) :: u64) - 1) = ?t - 1"
    by (simp add: unat_minus_one unat_widen)
  then have d: "unat (((ucast (kc_explicit_tokens policy) :: u64) - 1) div ucast (cc_main_page_tokens curve)) = (?t - 1) div ?m"
    by (simp add: unat_div unat_widen)
  have "1 + (?t - 1) div ?m \<le> u64_max"
    using div_le_dividend [of "?t - 1" ?m] unat_u32_le [of "kc_explicit_tokens policy"] by linarith
  then have "unat ?p = 1 + (?t - 1) div ?m" using unat_add_u64 [of 1] d by simp
  then have pages: "unat (kr_main_page_groups r) = 1 + (?t - 1) div ?m"
    using unat_narrow [of ?p] \<open>?p \<le> word_of_nat u32_max\<close> pg by (simp add: word_le_nat_alt)
  define q where "q = (?t - 1) div ?m"
  have "q * ?m \<le> ?t - 1" by (simp add: q_def)
  moreover have "?t - 1 < q * ?m + ?m" 
    using mod_less_divisor [OF mpos, of "?t - 1"] div_mult_mod_eq [of "?t - 1" ?m] unfolding q_def by linarith
  moreover have "unat (kr_main_page_groups r) * ?m = q * ?m + ?m" by (simp add: pages q_def algebra_simps)
  ultimately have "?t \<le> unat (kr_main_page_groups r) * ?m" "unat (kr_main_page_groups r) * ?m < ?t + ?m"
    using tpos by linarith+
  then show ?thesis using res le ex(1) by simp
qed


definition sample_curve :: capacity_curve where
  "sample_curve = \<lparr>cc_main_page_tokens = 64, cc_minimum_main_page_groups = 4, cc_maximum_main_page_groups = 100,
     cc_minimum_device_reservation_bytes = 1000, cc_bytes_per_additional_main_page_group = 30\<rparr>"

lemmas capacity_eval = resolve_kv_capacity_def validate_curve_def explicit_page_groups_def reservation_bytes_def
  resolved_tokens_def automatic_page_groups_def checked_add_def checked_mul_def throw_if_def sample_curve_def Let_def

theorem automatic_capacity_maximal_witness:
  "\<exists>r. resolve_kv_capacity \<lparr>kc_mode = Automatic, kc_explicit_tokens = 0, kc_automatic_headroom_bytes = 500\<rparr>
      sample_curve 2000 = Inr r \<and> 2000 < affine_bytes sample_curve (unat (kr_main_page_groups r) + 1) + 500 \<and>
      unat (kr_runtime_reservation_bytes r) + 500 \<le> 2000"
proof -
  let ?p = "\<lparr>kc_mode = Automatic, kc_explicit_tokens = 0, kc_automatic_headroom_bytes = 500\<rparr>"
  obtain r where r: "resolve_kv_capacity ?p sample_curve 2000 = Inr r" and n: "kr_main_page_groups r = 20"
    by (simp add: capacity_eval min_def)
  from automatic_capacity_maximal [OF r] r n show ?thesis by (auto simp: sample_curve_def)
qed

theorem explicit_capacity_covers_witness:
  "\<exists>r. resolve_kv_capacity \<lparr>kc_mode = Explicit, kc_explicit_tokens = 1000, kc_automatic_headroom_bytes = 0\<rparr>
      sample_curve 2000 = Inr r \<and> 1000 \<le> unat (kr_resolved_tokens r) \<and> unat (kr_resolved_tokens r) < 1064"
proof -
  let ?p = "\<lparr>kc_mode = Explicit, kc_explicit_tokens = 1000, kc_automatic_headroom_bytes = 0\<rparr>"
  obtain r where r: "resolve_kv_capacity ?p sample_curve 2000 = Inr r"
    by (simp add: capacity_eval)
  from explicit_capacity_covers [OF r] r show ?thesis by (auto simp: sample_curve_def)
qed

section \<open>Request memory stays inside its frozen allocation\<close>

inductive rm_step :: "request_memory \<Rightarrow> request_memory \<Rightarrow> bool" where
  activate: "rm_step m (snd (rm_activate bytes alignment m))"
| deactivate: "rm_step m (rm_deactivate m)"
| reset_peak: "rm_step m (rm_reset_peak m)"

inductive_cases rm_stepE: "rm_step m m'"

definition rm_init :: "u64 \<Rightarrow> u64 \<Rightarrow> request_memory \<Rightarrow> bool" where
  "rm_init base cap m = (m = make_request_memory base cap)"

definition rm_inv :: "u64 \<Rightarrow> u64 \<Rightarrow> request_memory \<Rightarrow> bool" where
  "rm_inv base cap m = (rm_arena m = rm_arena (make_request_memory base cap) \<and>
     rm_active_bytes m \<le> cap \<and> rm_active_bytes m \<le> rm_peak_bytes m \<and> rm_peak_bytes m \<le> cap \<and>
     is_power_of_two (rm_active_alignment m) \<and> rm_active_alignment m \<le> kDeviceAllocationAlignment)"

lemma one_le_alignment: "(1 :: u64) \<le> kDeviceAllocationAlignment"
  by (simp add: word_le_nat_alt)

lemma rm_activate_keeps: "rm_inv base cap m \<Longrightarrow> rm_inv base cap (snd (rm_activate bytes alignment m))"
  using one_le_alignment by (auto simp: rm_activate_def rm_deactivate_def rm_inv_def make_request_memory_def
      is_power_of_two_def not_less le_max_iff_disj split: option.splits if_splits)

interpretation rm: invariant_system "rm_init base cap" rm_step "rm_inv base cap" for base cap
proof
  show "rm_inv base cap m" if "rm_init base cap m" for m
    using that by (simp add: rm_init_def rm_inv_def make_request_memory_def is_power_of_two_def word_le_nat_alt)
  show "rm_inv base cap m'" if "rm_inv base cap m" "rm_step m m'" for m m'
    using that(2)
  proof cases
    case (activate bytes alignment)
    then show ?thesis using rm_activate_keeps [OF that(1)] by simp
  qed (use that(1) in \<open>auto simp: rm_deactivate_def rm_reset_peak_def rm_inv_def is_power_of_two_def word_le_nat_alt\<close>)
qed

text \<open>
  C37. Whatever the sequence of activations, a request never sees memory outside the allocation frozen at
  startup: the region starts at its base and ends within its capacity, and the reported peak bounds
  the bytes in use.
\<close>

theorem request_memory_bounded:
  assumes "reachable (rm_init base cap) rm_step m"
  shows "tg_size (rm_region m) \<le> cap \<and> (tg_size (rm_region m) \<noteq> 0 \<longrightarrow> tg_data (rm_region m) = base) \<and>
    is_power_of_two (tg_alignment (rm_region m)) \<and> tg_alignment (rm_region m) \<le> kDeviceAllocationAlignment \<and>
    sm_used_bytes (rm_summary m) \<le> sm_peak_used_bytes (rm_summary m) \<and>
    sm_peak_used_bytes (rm_summary m) \<le> sm_capacity_bytes (rm_summary m)"
  using rm.inv_reachable [OF assms]
  by (auto simp: rm_inv_def rm_region_def rm_summary_def make_request_memory_def is_power_of_two_def
      word_le_nat_alt unat_eq_0 split: if_splits)

theorem request_memory_bounded_witness:
  "tg_size (rm_region (snd (rm_activate 100 16 (make_request_memory 4096 512)))) \<le> 512"
proof -
  have "reachable (rm_init 4096 512) rm_step (snd (rm_activate 100 16 (make_request_memory 4096 512)))"
    using reachable.extend [OF reachable.start, of "rm_init 4096 512" "make_request_memory 4096 512" rm_step]
      rm_step.activate by (simp add: rm_init_def)
  from request_memory_bounded [OF this] show ?thesis by blast
qed

section \<open>Resolved sampling parameters\<close>

lemma outside_iff: "outside (Finite x) lo hi \<longleftrightarrow> \<not> (lo \<le> x \<and> x \<le> hi)"
  by (auto simp: outside_def)

lemma isfinite_iff: "isfinite x \<longleftrightarrow> (\<exists>q. x = Finite q)"
  by (cases x) auto

text \<open>
  Sampling resolution accepts exactly the admissible parameters: the result takes every override, falls back to the
  preset of the mode, and is returned if and only if all values are finite and inside
  their documented ranges.
\<close>

theorem sampling_accepts_exactly_ranges:
  "(\<exists>p. resolve_sampling d mode ov = Inr p) \<longleftrightarrow>
   (\<exists>t tp mp pp fp. value_or (so_temperature ov) (pr_temperature (for_mode d mode)) = Finite t \<and>
      value_or (so_top_p ov) (pr_top_p (for_mode d mode)) = Finite tp \<and>
      value_or (so_min_p ov) (pr_min_p (for_mode d mode)) = Finite mp \<and>
      value_or (so_presence_penalty ov) (pr_presence_penalty (for_mode d mode)) = Finite pp \<and>
      value_or (so_frequency_penalty ov) (pr_frequency_penalty (for_mode d mode)) = Finite fp \<and>
      0 \<le> t \<and> t \<le> 2 \<and> 0 \<le> tp \<and> tp \<le> 1 \<and> 0 \<le> mp \<and> mp \<le> 1 \<and> - 2 \<le> pp \<and> pp \<le> 2 \<and> - 2 \<le> fp \<and> fp \<le> 2 \<and>
      0 \<le> value_or (so_top_k ov) (pr_top_k (for_mode d mode)))"
  by (auto simp: resolve_sampling_def validate_sampling_def Let_def result_simps isfinite_iff outside_iff not_less)

end
