(* ===== verification/Executor.thy ===== *)
theory Executor
  imports Admission Runtime_Config
begin

text \<open>
  The request scheduler (\<open>ConcurrentExecutor\<close> of \<open>src/runtime/engine/concurrent_executor.h\<close>):
  bounded submission, admission of queued requests to lanes under the admission policy, staged
  prefill, batched decode, cancellation, expiry, completion and failure.

  The class is a template over its target. The target's program and output session are the
  record \<open>target\<close> of operations over opaque states, with \<open>'g\<close> the program and device state,
  \<open>'p\<close> a prepared prompt with its options, \<open>'l\<close> a request plan and \<open>'o\<close> an output session.

  The worker thread runs concurrently with submitting and waiting threads. Their critical
  sections are the events of \<open>env_event\<close>; \<open>interleave\<close> stands before every lock, atomic load
  and clock reading of the worker and lets the next batch of such events happen there. The
  batches are an arbitrary input, so every interleaving of critical sections is covered.
\<close>

section \<open>Data\<close>

datatype output_channel = Content | Reasoning

record output_delta =
  od_channel :: output_channel
  od_text :: string

datatype prefix_reuse_path = FullReset | AppendAtFrontier | RestoreTurnCheckpoint | RestoreResponseCheckpoint

record begin_summary =
  bs_prompt_tokens :: u32
  bs_reused_prompt_tokens :: u32
  bs_prefix_reuse_path :: prefix_reuse_path

record plan_summary =
  ps_prompt_tokens :: u32
  ps_reusable_prompt_tokens :: u32
  ps_requested_output_tokens :: u32
  ps_effective_output_tokens :: u32
  ps_effective_limit_reason :: finish_reason
  ps_transient_bytes :: u64
  ps_transient_alignment :: u64
  ps_admission :: admission_resources
  ps_service_work_quanta :: u64

record prefill_result =
  pf_summary :: begin_summary
  pf_tokens :: "int list"
  pf_processed_prompt_tokens :: u32
  pf_complete :: bool

record batched_round =
  br_tokens :: "int list"
  br_row_counts :: "int list"
  br_row_stride :: u32

record output_decision =
  dc_accepted_tokens :: u32
  dc_finish_reason :: finish_reason

definition finished :: "output_decision \<Rightarrow> bool" where
  "finished d = (dc_finish_reason d \<noteq> NoFinish)"

text \<open>The result a waiting thread receives; wall-clock timings and speculation statistics are left out.\<close>

record generation_result =
  gr_generated_token_ids :: "int list"
  gr_content :: string
  gr_reasoning :: string
  gr_reasoning_tokens :: u32
  gr_finish_reason :: finish_reason
  gr_reused_prompt_tokens :: u32
  gr_prefix_reuse_path :: prefix_reuse_path

record runtime_stats =
  st_computed_prefill_tokens :: u64
  st_committed_decode_tokens :: u64
  st_decode_rounds :: u64
  st_decode_row_rounds :: u64
  st_running_requests :: nat
  st_prefilling_requests :: nat
  st_decode_ready_requests :: nat
  st_waiting_requests :: nat

record ('p, 'l, 'o) request =
  rq_id :: u64
  rq_prompt :: "'p option"
  rq_output :: 'o
  rq_deadline :: nat
  rq_submitted :: nat
  rq_first_token :: "nat option"
  rq_budget :: "generation_budget option"
  rq_begin :: "begin_summary option"
  rq_generated :: "int list"
  rq_content :: string
  rq_reasoning :: string
  rq_lane :: "nat option"
  rq_cancelled :: bool
  rq_decode_ready :: bool
  rq_base_plan :: "'l option"
  rq_lane_plans :: "nat \<Rightarrow> 'l option"
  rq_lane_plan_versions :: "nat \<Rightarrow> u64"
  rq_admission_resources :: admission_resources
  rq_remaining_service_work :: u64
  rq_backfill_epoch :: u64
  rq_backfill_class :: backfill_class
  rq_events :: "output_delta list"
  rq_result :: "generation_result option"
  rq_error :: "exn option"
  rq_done :: bool
  rq_consumer_released :: bool
  rq_capacity_released :: bool
  rq_caller_error :: "exn option"

text \<open>
  The operations of the target. Those the target declares \<open>noexcept\<close> are functions; the
  others may throw and leave a changed state behind.
\<close>

record ('g, 'p, 'l, 'o) target =
  tg_plan_request_base :: "'p \<Rightarrow> ('g, 'l) prog"
  tg_plan_request_for_lane :: "nat \<Rightarrow> 'p \<Rightarrow> 'l \<Rightarrow> ('g, 'l) prog"
  tg_summary :: "'l \<Rightarrow> plan_summary"
  tg_can_admit_lane :: "'g \<Rightarrow> nat \<Rightarrow> 'l \<Rightarrow> bool"
  tg_can_admit_lane_after_retained_eviction :: "'g \<Rightarrow> nat \<Rightarrow> 'l \<Rightarrow> bool"
  tg_has_retained_lane :: "'g \<Rightarrow> nat \<Rightarrow> bool"
  tg_evict_retained_lane :: "nat \<Rightarrow> 'g \<Rightarrow> 'g"
  tg_start_prefill_lane :: "nat \<Rightarrow> 'p \<Rightarrow> 'l \<Rightarrow> transient_region \<Rightarrow> ('g, prefill_result) prog"
  tg_advance_prefill_lane :: "nat \<Rightarrow> ('g, prefill_result) prog"
  tg_decode_batch :: "nat list \<Rightarrow> u32 list \<Rightarrow> ('g, batched_round) prog"
  tg_resolve_prefill_lane :: "nat \<Rightarrow> bool \<Rightarrow> ('g, unit) prog"
  tg_resolve_pending_batch :: "nat list \<Rightarrow> u32 list \<Rightarrow> bool list \<Rightarrow> bool list \<Rightarrow> ('g, unit) prog"
  tg_abort_lane :: "nat \<Rightarrow> 'g \<Rightarrow> 'g"
  tg_preview :: "int list \<Rightarrow> u32 \<Rightarrow> finish_reason \<Rightarrow> ('o, output_decision) prog"
  tg_preview_terminal :: "finish_reason \<Rightarrow> ('o, unit) prog"
  tg_commit_preview :: "('o, output_delta list) prog"
  tg_reasoning_tokens :: "'o \<Rightarrow> u32"

text \<open>
  The critical sections of other threads: the two halves of a submission (or its abort when
  the output session cannot be made), cancellation, one round of a waiting thread with the
  behaviour of its sink and cancellation callback, the two halves of a consumer's release,
  the clock, and the destructor's stop flag.
\<close>

datatype ('p, 'o) env_event =
    SubmitReserve nat
  | SubmitAbort
  | SubmitPush 'p 'o nat nat
  | CancelRequest nat
  | WaitRound nat "output_delta list \<Rightarrow> exn option" "bool result"
  | ReleaseConsumer nat
  | ReleaseCapacity
  | AdvanceClock nat
  | StopEngine

record ('g, 'p, 'l, 'o) executor =
  ex_max_concurrency :: nat
  ex_max_outstanding :: nat
  ex_pending_timeout :: nat
  ex_admission_capacity :: admission_resources
  ex_requests :: "('p, 'l, 'o) request list"
  ex_pending :: "nat list"
  ex_outstanding :: nat
  ex_next_request_id :: u64
  ex_slots :: "nat option list"
  ex_prefill_lane :: "nat option"
  ex_lane_plan_versions :: "nat \<Rightarrow> u64"
  ex_protection :: "admission_protection option"
  ex_next_protection_epoch :: u64
  ex_cumulative_stats :: runtime_stats
  ex_published_stats :: runtime_stats
  ex_stopping :: bool
  ex_failed :: bool
  ex_memory :: request_memory
  ex_target :: 'g
  ex_clock :: nat
  ex_env :: "('p, 'o) env_event list list"
  ex_submitting :: "u64 list"
  ex_releasing :: nat
  ex_previous_unit_was_decode :: bool
  ex_worker_running :: bool

datatype admission_progress = NoProgress | ControlProgress | RanGpuUnit

record lane_choice =
  lc_lane :: nat
  lc_evict_retained :: bool

type_synonym ('g, 'p, 'l, 'o, 'a) exec = "(('g, 'p, 'l, 'o) executor, 'a) prog"

section \<open>Construction\<close>

definition zero_stats :: runtime_stats where
  "zero_stats = \<lparr>st_computed_prefill_tokens = 0, st_committed_decode_tokens = 0, st_decode_rounds = 0,
     st_decode_row_rounds = 0, st_running_requests = 0, st_prefilling_requests = 0,
     st_decode_ready_requests = 0, st_waiting_requests = 0\<rparr>"

definition make_executor ::
  "nat \<Rightarrow> nat \<Rightarrow> nat \<Rightarrow> admission_resources \<Rightarrow> request_memory \<Rightarrow> 'g \<Rightarrow> ('g, 'p, 'l, 'o) executor result" where
  "make_executor max_concurrency max_pending_requests pending_timeout_ms cap memory g =
     rbind (throw_if (max_concurrency = 0 \<or> max_concurrency > kMaximumConcurrency \<or>
                      max_pending_requests = 0 \<or> pending_timeout_ms = 0)
              (invalid_argument ''concurrent executor bounds are invalid'')) (\<lambda>_.
     rbind (throw_if (unat (active_lanes cap) \<noteq> max_concurrency \<or> main_kv_pages cap = 0)
              (logic_error ''target admission capacity does not match the Engine'')) (\<lambda>_.
     Inr \<lparr>ex_max_concurrency = max_concurrency,
          ex_max_outstanding = max_concurrency + max_pending_requests,
          ex_pending_timeout = pending_timeout_ms, ex_admission_capacity = cap,
          ex_requests = [], ex_pending = [], ex_outstanding = 0, ex_next_request_id = 1,
          ex_slots = replicate kMaximumConcurrency None, ex_prefill_lane = None,
          ex_lane_plan_versions = (\<lambda>_. 0), ex_protection = None, ex_next_protection_epoch = 1,
          ex_cumulative_stats = zero_stats, ex_published_stats = zero_stats,
          ex_stopping = False, ex_failed = False, ex_memory = memory, ex_target = g,
          ex_clock = 1, ex_env = [], ex_submitting = [], ex_releasing = 0,
          ex_previous_unit_was_decode = False, ex_worker_running = True\<rparr>))"

definition make_request :: "u64 \<Rightarrow> 'p \<Rightarrow> 'o \<Rightarrow> nat \<Rightarrow> nat \<Rightarrow> ('p, 'l, 'o) request" where
  "make_request identity prompt out limit submit_time =
     \<lparr>rq_id = identity, rq_prompt = Some prompt, rq_output = out, rq_deadline = limit,
      rq_submitted = submit_time, rq_first_token = None, rq_budget = None, rq_begin = None,
      rq_generated = [], rq_content = [], rq_reasoning = [], rq_lane = None, rq_cancelled = False,
      rq_decode_ready = False, rq_base_plan = None, rq_lane_plans = (\<lambda>_. None),
      rq_lane_plan_versions = (\<lambda>_. 0),
      rq_admission_resources = \<lparr>active_lanes = 0, main_kv_pages = 0, backend_kv_pages = 0\<rparr>,
      rq_remaining_service_work = 0, rq_backfill_epoch = 0, rq_backfill_class = NoBackfill,
      rq_events = [], rq_result = None, rq_error = None, rq_done = False,
      rq_consumer_released = False, rq_capacity_released = False, rq_caller_error = None\<rparr>"

section \<open>Other threads\<close>

definition request_at :: "('g, 'p, 'l, 'o) executor \<Rightarrow> nat \<Rightarrow> ('p, 'l, 'o) request" where
  "request_at s i = ex_requests s ! i"

definition update_request ::
  "nat \<Rightarrow> (('p, 'l, 'o) request \<Rightarrow> ('p, 'l, 'o) request) \<Rightarrow> ('g, 'p, 'l, 'o) executor \<Rightarrow>
   ('g, 'p, 'l, 'o) executor" where
  "update_request i f s = s\<lparr>ex_requests := (ex_requests s)[i := f (ex_requests s ! i)]\<rparr>"

definition submit_reserve :: "nat \<Rightarrow> ('g, 'p, 'l, 'o, u64) exec" where
  "submit_reserve pending_deadline s =
     (let submitted = ex_clock s;
          deadline = (if pending_deadline = 0 then submitted + ex_pending_timeout s else pending_deadline) in
      if submitted \<ge> deadline
      then (Inl (request_error ''QueueTimeout'' ''inference request expired before submission''), s)
      else if ex_stopping s \<or> ex_failed s
      then (Inl (request_error ''Unavailable'' ''inference engine is unavailable''), s)
      else if ex_outstanding s \<ge> ex_max_outstanding s
      then (Inl (request_error ''Overloaded'' ''inference request queue is full''), s)
      else (Inr (ex_next_request_id s),
            s\<lparr>ex_outstanding := ex_outstanding s + 1, ex_next_request_id := ex_next_request_id s + 1,
              ex_submitting := ex_submitting s @ [ex_next_request_id s]\<rparr>))"

definition release_reserved_capacity :: "('g, 'p, 'l, 'o) executor \<Rightarrow> ('g, 'p, 'l, 'o) executor" where
  "release_reserved_capacity s =
     (if ex_outstanding s \<noteq> 0 then s\<lparr>ex_outstanding := ex_outstanding s - 1\<rparr> else s)"

definition submit_abort :: "('g, 'p, 'l, 'o) executor \<Rightarrow> ('g, 'p, 'l, 'o) executor" where
  "submit_abort s =
     (case ex_submitting s of
        [] \<Rightarrow> s
      | _ # rest \<Rightarrow> release_reserved_capacity (s\<lparr>ex_submitting := rest\<rparr>))"

definition submit_push :: "'p \<Rightarrow> 'o \<Rightarrow> nat \<Rightarrow> nat \<Rightarrow> ('g, 'p, 'l, 'o) executor \<Rightarrow> ('g, 'p, 'l, 'o) executor" where
  "submit_push prompt out deadline submitted s =
     (case ex_submitting s of
        [] \<Rightarrow> s
      | identity # rest \<Rightarrow>
         if ex_stopping s \<or> ex_failed s
         then s\<lparr>ex_submitting := rest, ex_outstanding := ex_outstanding s - 1\<rparr>
         else s\<lparr>ex_submitting := rest,
                ex_requests := ex_requests s @ [make_request identity prompt out deadline submitted],
                ex_pending := ex_pending s @ [length (ex_requests s)]\<rparr>)"

text \<open>
  One round of \<open>wait_for_request\<close>: take the events, publish them, poll the cancellation. The
  exception of a caller's sink is kept until the request is done; \<open>wait_outcome\<close> is what the
  waiting thread then returns or throws.
\<close>

definition wait_round ::
  "nat \<Rightarrow> (output_delta list \<Rightarrow> exn option) \<Rightarrow> bool result \<Rightarrow> ('g, 'p, 'l, 'o) executor \<Rightarrow>
   ('g, 'p, 'l, 'o) executor" where
  "wait_round i publish requested s =
     update_request i (\<lambda>r.
       let events = rq_events r; r1 = r\<lparr>rq_events := []\<rparr>;
           r2 = (case rq_caller_error r1 of
                   Some _ \<Rightarrow> r1
                 | None \<Rightarrow> (case publish events of None \<Rightarrow> r1
                            | Some e \<Rightarrow> r1\<lparr>rq_caller_error := Some e, rq_cancelled := True\<rparr>))
       in case rq_caller_error r2 of
            Some _ \<Rightarrow> r2
          | None \<Rightarrow> (case requested of
                       Inl e \<Rightarrow> r2\<lparr>rq_caller_error := Some e, rq_cancelled := True\<rparr>
                     | Inr c \<Rightarrow> if c then r2\<lparr>rq_cancelled := True\<rparr> else r2)) s"

definition wait_outcome :: "('p, 'l, 'o) request \<Rightarrow> (exn + generation_result option) option" where
  "wait_outcome r =
     (if \<not> rq_done r then None
      else Some (case rq_caller_error r of Some e \<Rightarrow> Inl e
        | None \<Rightarrow> (case rq_error r of Some e \<Rightarrow> Inl e | None \<Rightarrow> Inr (rq_result r))))"

definition release_consumer :: "nat \<Rightarrow> ('g, 'p, 'l, 'o) executor \<Rightarrow> ('g, 'p, 'l, 'o) executor" where
  "release_consumer i s =
     (let r = request_at s i; release = rq_done r \<and> \<not> rq_capacity_released r;
          s' = update_request i (\<lambda>r. r\<lparr>rq_consumer_released := True,
                 rq_capacity_released := rq_capacity_released r \<or> release\<rparr>) s
      in if release then s'\<lparr>ex_releasing := ex_releasing s' + 1\<rparr> else s')"

definition finish_release :: "('g, 'p, 'l, 'o) executor \<Rightarrow> ('g, 'p, 'l, 'o) executor" where
  "finish_release s = release_reserved_capacity (s\<lparr>ex_releasing := ex_releasing s - 1\<rparr>)"

text \<open>A submission handle is waited for or abandoned once, so its consumer is released once.\<close>

fun env_exec :: "('p, 'o) env_event \<Rightarrow> ('g, 'p, 'l, 'o) executor \<Rightarrow> ('g, 'p, 'l, 'o) executor" where
  "env_exec (SubmitReserve deadline) s = snd (submit_reserve deadline s)"
| "env_exec SubmitAbort s = submit_abort s"
| "env_exec (SubmitPush prompt out deadline submitted) s = submit_push prompt out deadline submitted s"
| "env_exec (CancelRequest i) s =
     (if i < length (ex_requests s) then update_request i (\<lambda>r. r\<lparr>rq_cancelled := True\<rparr>) s else s)"
| "env_exec (WaitRound i publish requested) s =
     (if i < length (ex_requests s) \<and> \<not> rq_consumer_released (request_at s i)
      then wait_round i publish requested s else s)"
| "env_exec (ReleaseConsumer i) s =
     (if i < length (ex_requests s) \<and> \<not> rq_consumer_released (request_at s i) then release_consumer i s else s)"
| "env_exec ReleaseCapacity s = (if ex_releasing s > 0 then finish_release s else s)"
| "env_exec (AdvanceClock d) s = s\<lparr>ex_clock := ex_clock s + d\<rparr>"
| "env_exec StopEngine s = s\<lparr>ex_stopping := True\<rparr>"

definition interleave :: "('g, 'p, 'l, 'o, unit) exec" where
  "interleave s = (case ex_env s of
     [] \<Rightarrow> (Inr (), s) | batch # rest \<Rightarrow> (Inr (), fold env_exec batch (s\<lparr>ex_env := rest\<rparr>)))"

section \<open>Primitive actions of the worker\<close>

definition atomically :: "('g, 'p, 'l, 'o, 'a) exec \<Rightarrow> ('g, 'p, 'l, 'o, 'a) exec" where
  "atomically m = sbind interleave (\<lambda>_. m)"

definition now :: "('g, 'p, 'l, 'o, nat) exec" where
  "now = atomically (gets ex_clock)"

definition load_cancelled :: "nat \<Rightarrow> ('g, 'p, 'l, 'o, bool) exec" where
  "load_cancelled i = atomically (gets (\<lambda>s. rq_cancelled (request_at s i)))"

definition on_request :: "nat \<Rightarrow> (('p, 'l, 'o) request \<Rightarrow> ('p, 'l, 'o) request) \<Rightarrow> ('g, 'p, 'l, 'o, unit) exec" where
  "on_request i f = modify (update_request i f)"

definition on_target :: "('g, 'a) prog \<Rightarrow> ('g, 'p, 'l, 'o, 'a) exec" where
  "on_target m s = (case m (ex_target s) of (r, g) \<Rightarrow> (r, s\<lparr>ex_target := g\<rparr>))"

definition on_output :: "nat \<Rightarrow> ('o, 'a) prog \<Rightarrow> ('g, 'p, 'l, 'o, 'a) exec" where
  "on_output i m s = (case m (rq_output (request_at s i)) of
     (r, out) \<Rightarrow> (r, update_request i (\<lambda>q. q\<lparr>rq_output := out\<rparr>) s))"

definition abort_lane :: "('g, 'p, 'l, 'o) target \<Rightarrow> nat \<Rightarrow> ('g, 'p, 'l, 'o, unit) exec" where
  "abort_lane tg lane = modify (\<lambda>s. s\<lparr>ex_target := tg_abort_lane tg lane (ex_target s)\<rparr>)"

definition deactivate_memory :: "('g, 'p, 'l, 'o, unit) exec" where
  "deactivate_memory = modify (\<lambda>s. s\<lparr>ex_memory := rm_deactivate (ex_memory s)\<rparr>)"

definition activate_memory :: "u64 \<Rightarrow> u64 \<Rightarrow> ('g, 'p, 'l, 'o, unit) exec" where
  "activate_memory bytes alignment s =
     (case rm_activate bytes alignment (ex_memory s) of (r, m) \<Rightarrow> (r, s\<lparr>ex_memory := m\<rparr>))"

definition lanes_of :: "('g, 'p, 'l, 'o) executor \<Rightarrow> nat list" where
  "lanes_of s = [0..<ex_max_concurrency s]"

definition publish_runtime_stats :: "('g, 'p, 'l, 'o, unit) exec" where
  "publish_runtime_stats = atomically (modify (\<lambda>s.
     let running = filter (\<lambda>lane. ex_slots s ! lane \<noteq> None) (lanes_of s);
         ready = filter (\<lambda>lane. rq_decode_ready (request_at s (the (ex_slots s ! lane)))) running
     in s\<lparr>ex_published_stats := (ex_cumulative_stats s)\<lparr>
            st_waiting_requests := length (ex_pending s),
            st_prefilling_requests := (if ex_prefill_lane s = None then 0 else 1),
            st_running_requests := length running, st_decode_ready_requests := length ready\<rparr>\<rparr>))"

section \<open>Completion\<close>

definition channel_text :: "output_channel \<Rightarrow> output_delta list \<Rightarrow> string" where
  "channel_text c ds = concat (map od_text (filter (\<lambda>d. od_channel d = c) ds))"

definition append_output :: "nat \<Rightarrow> output_delta list \<Rightarrow> ('g, 'p, 'l, 'o, unit) exec" where
  "append_output i out =
     (if out = [] then sret ()
      else atomically (on_request i (\<lambda>r. r\<lparr>
        rq_reasoning := rq_reasoning r @ channel_text Reasoning out,
        rq_content := rq_content r @ channel_text Content out,
        rq_events := rq_events r @ out\<rparr>)))"

definition mark_completed :: "nat \<Rightarrow> ('g, 'p, 'l, 'o, bool) exec" where
  "mark_completed i = atomically (\<lambda>s.
     let r = request_at s i; release = rq_consumer_released r \<and> \<not> rq_capacity_released r
     in if release
        then (Inr True, (update_request i (\<lambda>r. r\<lparr>rq_capacity_released := True\<rparr>) s)
                \<lparr>ex_releasing := ex_releasing s + 1\<rparr>)
        else (Inr False, s))"

definition release_completed :: "nat \<Rightarrow> ('g, 'p, 'l, 'o, unit) exec" where
  "release_completed i = sbind (mark_completed i) (\<lambda>release.
     swhen release (atomically (modify (\<lambda>s. if ex_releasing s > 0 then finish_release s else s))))"

definition release_planning_state :: "nat \<Rightarrow> ('g, 'p, 'l, 'o, unit) exec" where
  "release_planning_state i = on_request i (\<lambda>r. r\<lparr>rq_base_plan := None, rq_lane_plans := (\<lambda>_. None)\<rparr>)"

definition complete_error :: "nat \<Rightarrow> exn \<Rightarrow> ('g, 'p, 'l, 'o, unit) exec" where
  "complete_error i e =
     sbind (release_planning_state i) (\<lambda>_.
     sbind (on_request i (\<lambda>r. r\<lparr>rq_prompt := None\<rparr>)) (\<lambda>_.
     sbind (atomically (\<lambda>s. if rq_done (request_at s i) then (Inr False, s)
              else (Inr True, update_request i (\<lambda>r. r\<lparr>rq_error := Some e, rq_done := True\<rparr>) s))) (\<lambda>completed.
     swhen completed (release_completed i))))"

definition request_result ::
  "('g, 'p, 'l, 'o) target \<Rightarrow> ('p, 'l, 'o) request \<Rightarrow> finish_reason \<Rightarrow> generation_result" where
  "request_result tg r reason =
     \<lparr>gr_generated_token_ids = rq_generated r, gr_content = rq_content r, gr_reasoning = rq_reasoning r,
      gr_reasoning_tokens = tg_reasoning_tokens tg (rq_output r), gr_finish_reason = reason,
      gr_reused_prompt_tokens = (case rq_begin r of Some b \<Rightarrow> bs_reused_prompt_tokens b | None \<Rightarrow> 0),
      gr_prefix_reuse_path = (case rq_begin r of Some b \<Rightarrow> bs_prefix_reuse_path b | None \<Rightarrow> FullReset)\<rparr>"

definition complete_success ::
  "('g, 'p, 'l, 'o) target \<Rightarrow> nat \<Rightarrow> finish_reason \<Rightarrow> ('g, 'p, 'l, 'o, unit) exec" where
  "complete_success tg i reason =
     sbind (release_planning_state i) (\<lambda>_.
     sbind (on_request i (\<lambda>r. r\<lparr>rq_prompt := None\<rparr>)) (\<lambda>_.
     sbind (gets (\<lambda>s. request_result tg (request_at s i) reason)) (\<lambda>result.
     sbind (on_request i (\<lambda>r. r\<lparr>rq_generated := [], rq_content := [], rq_reasoning := []\<rparr>)) (\<lambda>_.
     sbind (atomically (\<lambda>s. if rq_done (request_at s i) then (Inr False, s)
              else (Inr True, update_request i (\<lambda>r. r\<lparr>rq_result := Some result, rq_done := True\<rparr>) s))) (\<lambda>completed.
     swhen completed (release_completed i))))))"

definition complete_cancelled :: "('g, 'p, 'l, 'o) target \<Rightarrow> nat \<Rightarrow> ('g, 'p, 'l, 'o, unit) exec" where
  "complete_cancelled tg i =
     sbind (on_output i (tg_preview_terminal tg Cancelled)) (\<lambda>_.
     sbind (on_output i (tg_commit_preview tg)) (\<lambda>out.
     sbind (append_output i out) (\<lambda>_.
     complete_success tg i Cancelled)))"


section \<open>Round resolution and slots\<close>

definition commit_budget :: "nat \<Rightarrow> u32 \<Rightarrow> ('g, 'p, 'l, 'o, unit) exec" where
  "commit_budget i tokens s =
     (case gb_commit (the (rq_budget (request_at s i))) tokens of
        None \<Rightarrow> (Inl process_abort, s)
      | Some b \<Rightarrow> (Inr (), update_request i (\<lambda>r. r\<lparr>rq_budget := Some b\<rparr>) s))"

definition set_first_token :: "nat \<Rightarrow> ('g, 'p, 'l, 'o, unit) exec" where
  "set_first_token i = sbind (gets (\<lambda>s. rq_first_token (request_at s i))) (\<lambda>first.
     swhen (first = None) (sbind now (\<lambda>t. on_request i (\<lambda>r. r\<lparr>rq_first_token := Some t\<rparr>))))"

definition resolve_round ::
  "('g, 'p, 'l, 'o) target \<Rightarrow> nat \<Rightarrow> int \<Rightarrow> bool \<Rightarrow> ('g, 'p, 'l, 'o, bool) exec" where
  "resolve_round tg i token cancel_at_boundary =
     sbind (gets (\<lambda>s. the (rq_lane (request_at s i)))) (\<lambda>lane.
     if cancel_at_boundary then
       sbind (on_output i (tg_preview_terminal tg Cancelled)) (\<lambda>_.
       sbind (abort_lane tg lane) (\<lambda>_.
       sbind (on_output i (tg_commit_preview tg)) (\<lambda>out.
       sbind (append_output i out) (\<lambda>_.
       sbind (complete_success tg i Cancelled) (\<lambda>_. sret True)))))
     else
       sbind (gets (\<lambda>s. the (rq_budget (request_at s i)))) (\<lambda>budget.
       sbind (on_output i (tg_preview tg [token] (gb_remaining budget) (gb_limit_reason budget))) (\<lambda>decision.
       if dc_accepted_tokens decision \<noteq> 1
       then sthrow (logic_error ''prefill output policy did not accept its licensed token'')
       else
         sbind (on_request i (\<lambda>r. r\<lparr>rq_generated := rq_generated r @ [token]\<rparr>)) (\<lambda>_.
         sbind (on_target (tg_resolve_prefill_lane tg lane (finished decision))) (\<lambda>_.
         sbind (commit_budget i 1) (\<lambda>_.
         sbind (on_output i (tg_commit_preview tg)) (\<lambda>published.
         sbind (set_first_token i) (\<lambda>_.
         sbind (append_output i published) (\<lambda>_.
         if finished decision
         then sbind (complete_success tg i (dc_finish_reason decision)) (\<lambda>_. sret True)
         else sret False)))))))))"

definition invalidate_lane_plans :: "nat \<Rightarrow> ('g, 'p, 'l, 'o, unit) exec" where
  "invalidate_lane_plans lane = modify (\<lambda>s.
     s\<lparr>ex_lane_plan_versions := (ex_lane_plan_versions s)(lane := ex_lane_plan_versions s lane + 1)\<rparr>)"

definition clear_slot :: "nat \<Rightarrow> ('g, 'p, 'l, 'o, unit) exec" where
  "clear_slot lane = modify (\<lambda>s. s\<lparr>ex_slots := (ex_slots s)[lane := None]\<rparr>)"

definition remove_completed_slot :: "nat \<Rightarrow> ('g, 'p, 'l, 'o, unit) exec" where
  "remove_completed_slot lane = sbind (clear_slot lane) (\<lambda>_. invalidate_lane_plans lane)"

definition clear_prefill_of :: "nat \<Rightarrow> ('g, 'p, 'l, 'o, unit) exec" where
  "clear_prefill_of lane = sbind (gets ex_prefill_lane) (\<lambda>prefill.
     swhen (prefill = Some lane)
       (sbind deactivate_memory (\<lambda>_. modify (\<lambda>s. s\<lparr>ex_prefill_lane := None\<rparr>))))"

definition consume_service_work :: "nat \<Rightarrow> u64 \<Rightarrow> ('g, 'p, 'l, 'o, unit) exec" where
  "consume_service_work i work s =
     (let remaining = rq_remaining_service_work (request_at s i) in
      if work = 0 \<or> work > remaining
      then (Inl (logic_error (''request service projection consumed '' @ string_of_nat (unat work) @
              '' quanta with '' @ string_of_nat (unat remaining) @ '' remaining'')), s)
      else (Inr (), update_request i (\<lambda>r. r\<lparr>rq_remaining_service_work := remaining - work\<rparr>) s))"

definition snapshot_cancellations :: "('g, 'p, 'l, 'o, (nat \<times> bool) list) exec" where
  "snapshot_cancellations = sbind (gets lanes_of) (\<lambda>lanes.
     smap (\<lambda>lane. sbind (gets (\<lambda>s. ex_slots s ! lane)) (\<lambda>slot.
       case slot of None \<Rightarrow> sret (lane, False)
       | Some i \<Rightarrow> sbind (load_cancelled i) (\<lambda>c. sret (lane, c)))) lanes)"

definition cancel_active_requests ::
  "('g, 'p, 'l, 'o) target \<Rightarrow> (nat \<times> bool) list \<Rightarrow> ('g, 'p, 'l, 'o, unit) exec" where
  "cancel_active_requests tg cancelled_at_boundary =
     sbind (smap (\<lambda>(lane, cancelled). sbind (gets (\<lambda>s. ex_slots s ! lane)) (\<lambda>slot.
       case slot of
         None \<Rightarrow> sret False
       | Some i \<Rightarrow>
          if \<not> cancelled then sret False
          else sbind (abort_lane tg lane) (\<lambda>_.
               sbind (clear_prefill_of lane) (\<lambda>_.
               sbind (complete_cancelled tg i) (\<lambda>_.
               sbind (remove_completed_slot lane) (\<lambda>_. sret True)))))) cancelled_at_boundary) (\<lambda>changed.
     swhen (True \<in> set changed) publish_runtime_stats)"

section \<open>The pending queue\<close>

definition timeout_error :: exn where
  "timeout_error = request_error ''QueueTimeout'' ''inference request expired while waiting for admission''"

definition pending_snapshot :: "('g, 'p, 'l, 'o, nat list) exec" where
  "pending_snapshot = atomically (gets ex_pending)"

definition erase_pending :: "nat \<Rightarrow> ('g, 'p, 'l, 'o, bool) exec" where
  "erase_pending i = atomically (\<lambda>s.
     if i \<in> set (ex_pending s) then (Inr True, s\<lparr>ex_pending := remove1 i (ex_pending s)\<rparr>) else (Inr False, s))"

definition clear_protection_if_head :: "nat \<Rightarrow> ('g, 'p, 'l, 'o, unit) exec" where
  "clear_protection_if_head i = modify (\<lambda>s.
     case ex_protection s of
       None \<Rightarrow> s
     | Some p \<Rightarrow> if ap_head_request_id p = rq_id (request_at s i) then s\<lparr>ex_protection := None\<rparr> else s)"

text \<open>
  The scan of \<open>expire_pending_requests\<close> holds the queue lock, so the queue it walks is the
  snapshot taken under the lock and submissions append behind it; each flag is loaded as the
  scan reaches its request.
\<close>

datatype expiry = Keep | IsCancelled | IsExpired

definition classify_pending :: "nat \<Rightarrow> nat \<Rightarrow> ('g, 'p, 'l, 'o, nat \<times> expiry) exec" where
  "classify_pending t i = sbind (load_cancelled i) (\<lambda>c. sbind (gets (\<lambda>s. rq_deadline (request_at s i))) (\<lambda>deadline.
     sret (i, if c then IsCancelled else if t \<ge> deadline then IsExpired else Keep)))"

definition expire_pending_requests :: "('g, 'p, 'l, 'o) target \<Rightarrow> ('g, 'p, 'l, 'o, bool) exec" where
  "expire_pending_requests tg =
     sbind pending_snapshot (\<lambda>queued.
     sbind now (\<lambda>t.
     sbind (smap (classify_pending t) queued) (\<lambda>classes.
     let cancelled = map fst (filter (\<lambda>(i, c). c = IsCancelled) classes);
         expired = map fst (filter (\<lambda>(i, c). c = IsExpired) classes);
         kept = map fst (filter (\<lambda>(i, c). c = Keep) classes)
     in sbind (modify (\<lambda>s. s\<lparr>ex_pending := kept @ drop (length queued) (ex_pending s)\<rparr>)) (\<lambda>_.
        sbind (modify (\<lambda>s. case ex_protection s of
            None \<Rightarrow> s
          | Some p \<Rightarrow> if list_ex (\<lambda>i. rq_id (request_at s i) = ap_head_request_id p) (cancelled @ expired)
                      then s\<lparr>ex_protection := None\<rparr> else s)) (\<lambda>_.
        sbind (siter (complete_cancelled tg) cancelled) (\<lambda>_.
        sbind (siter (\<lambda>i. complete_error i timeout_error) expired) (\<lambda>_.
        sbind (swhen (cancelled \<noteq> [] \<or> expired \<noteq> []) publish_runtime_stats) (\<lambda>_.
        sret (kept \<noteq> []))))))))) "

definition build_round_membership :: "('g, 'p, 'l, 'o, (nat \<times> u32) list) exec" where
  "build_round_membership s =
     (rfold (\<lambda>membership lane.
        case ex_slots s ! lane of
          None \<Rightarrow> Inr membership
        | Some i \<Rightarrow>
           (let r = request_at s i in
            if \<not> rq_decode_ready r then Inr membership
            else case rq_budget r of
                None \<Rightarrow> Inl (logic_error ''decode-ready request has no generation budget'')
              | Some b \<Rightarrow> Inr (membership @ [(lane, gb_remaining b)]))) [] (lanes_of s), s)"

definition active_admission_set :: "('g, 'p, 'l, 'o, active_snapshot list) exec" where
  "active_admission_set s =
     (rfold (\<lambda>active lane.
        case ex_slots s ! lane of
          None \<Rightarrow> Inr active
        | Some i \<Rightarrow>
           (let r = request_at s i in
            if active_lanes (rq_admission_resources r) = 0 \<or> rq_remaining_service_work r = 0
            then Inl (logic_error ''active request has no admission accounting'')
            else Inr (active @ [\<lparr>as_request_id = rq_id r, as_resources = rq_admission_resources r,
                   as_remaining_work_quanta = rq_remaining_service_work r,
                   as_backfill_epoch = rq_backfill_epoch r, as_backfill_class = rq_backfill_class r\<rparr>])))
        [] (lanes_of s), s)"

section \<open>Prefill\<close>

definition resolve_prefill_step ::
  "('g, 'p, 'l, 'o) target \<Rightarrow> nat \<Rightarrow> prefill_result \<Rightarrow> bool \<Rightarrow> ('g, 'p, 'l, 'o, unit) exec" where
  "resolve_prefill_step tg i step cancel_at_boundary =
     sbind (modify (\<lambda>s. s\<lparr>ex_cumulative_stats := (ex_cumulative_stats s)\<lparr>st_computed_prefill_tokens :=
        st_computed_prefill_tokens (ex_cumulative_stats s) + ucast (pf_processed_prompt_tokens step)\<rparr>\<rparr>)) (\<lambda>_.
     sbind (consume_service_work i 1) (\<lambda>_.
     sbind (gets (\<lambda>s. rq_lane (request_at s i))) (\<lambda>owner.
     if cancel_at_boundary then
       (case owner of
          None \<Rightarrow> sthrow (logic_error ''cancelled prefill has no request lane'')
        | Some lane \<Rightarrow>
            sbind (clear_prefill_of lane) (\<lambda>_.
            sbind (abort_lane tg lane) (\<lambda>_.
            sbind (complete_cancelled tg i) (\<lambda>_.
            remove_completed_slot lane))))
     else if \<not> pf_complete step then sret ()
     else
       (case owner of
          None \<Rightarrow> sthrow (logic_error ''completed prefill has no request lane'')
        | Some lane \<Rightarrow>
            sbind (clear_prefill_of lane) (\<lambda>_.
            sbind (on_request i (\<lambda>r. r\<lparr>rq_begin := Some (pf_summary step)\<rparr>)) (\<lambda>_.
            if length (pf_tokens step) \<noteq> 1
            then sthrow (logic_error ''prefill did not license exactly one token'')
            else sbind (resolve_round tg i (hd (pf_tokens step)) False) (\<lambda>completed.
              if completed then remove_completed_slot lane
              else on_request i (\<lambda>r. r\<lparr>rq_decode_ready := True\<rparr>))))))))"

definition run_prefill_step :: "('g, 'p, 'l, 'o) target \<Rightarrow> ('g, 'p, 'l, 'o, unit) exec" where
  "run_prefill_step tg =
     sbind (gets ex_prefill_lane) (\<lambda>prefill.
     case prefill of
       None \<Rightarrow> sthrow (logic_error ''no request owns staged prefill'')
     | Some lane \<Rightarrow>
        sbind (gets (\<lambda>s. ex_slots s ! lane)) (\<lambda>slot.
        sbind (gets (\<lambda>s. case slot of None \<Rightarrow> True | Some i \<Rightarrow> rq_decode_ready (request_at s i))) (\<lambda>bad.
        if bad then sthrow (logic_error ''staged prefill lane has invalid request state'')
        else
          sbind (on_target (tg_advance_prefill_lane tg lane)) (\<lambda>step.
          sbind (load_cancelled (the slot)) (\<lambda>cancel_at_boundary.
          sbind (resolve_prefill_step tg (the slot) step cancel_at_boundary) (\<lambda>_.
          publish_runtime_stats))))))"

section \<open>Admission\<close>

definition ensure_base_plan :: "('g, 'p, 'l, 'o) target \<Rightarrow> nat \<Rightarrow> ('g, 'p, 'l, 'o, unit) exec" where
  "ensure_base_plan tg i =
     sbind (gets (\<lambda>s. request_at s i)) (\<lambda>r.
     sbind (case rq_base_plan r of
         Some plan \<Rightarrow> sret plan
       | None \<Rightarrow> sbind (on_target (tg_plan_request_base tg (the (rq_prompt r)))) (\<lambda>plan.
           sbind (on_request i (\<lambda>r. r\<lparr>rq_base_plan := Some plan\<rparr>)) (\<lambda>_. sret plan))) (\<lambda>plan.
     if active_lanes (ps_admission (tg_summary tg plan)) \<noteq> 1 \<or> ps_service_work_quanta (tg_summary tg plan) = 0
     then sthrow (logic_error ''target request plan has invalid admission accounting'')
     else sret ()))"

definition ensure_lane_plan :: "('g, 'p, 'l, 'o) target \<Rightarrow> nat \<Rightarrow> nat \<Rightarrow> ('g, 'p, 'l, 'o, unit) exec" where
  "ensure_lane_plan tg i lane =
     sbind (gets (\<lambda>s. (request_at s i, ex_slots s ! lane, ex_lane_plan_versions s lane))) (\<lambda>(r, slot, version).
     if slot \<noteq> None then sret ()
     else if rq_lane_plan_versions r lane = version \<and> rq_lane_plans r lane \<noteq> None then sret ()
     else
       sbind (on_request i (\<lambda>r. r\<lparr>rq_lane_plans := (rq_lane_plans r)(lane := None)\<rparr>)) (\<lambda>_.
       sbind (on_target (tg_plan_request_for_lane tg lane (the (rq_prompt r)) (the (rq_base_plan r)))) (\<lambda>plan.
       on_request i (\<lambda>r. r\<lparr>rq_lane_plans := (rq_lane_plans r)(lane := Some plan),
         rq_lane_plan_versions := (rq_lane_plan_versions r)(lane := version)\<rparr>))))"

text \<open>One pass over the free lanes; the second pass uses the eviction test.\<close>

definition scan_lanes ::
  "('g, 'p, 'l, 'o) target \<Rightarrow> nat \<Rightarrow> ('g \<Rightarrow> nat \<Rightarrow> 'l \<Rightarrow> bool) \<Rightarrow> bool \<Rightarrow>
   ('g, 'p, 'l, 'o, lane_choice option) exec" where
  "scan_lanes tg i test evict =
     sbind (gets lanes_of) (\<lambda>lanes.
     sbind (smap (\<lambda>lane. sbind (gets (\<lambda>s. ex_slots s ! lane)) (\<lambda>slot.
         if slot \<noteq> None then sret None
         else sbind (ensure_lane_plan tg i lane) (\<lambda>_.
           gets (\<lambda>s. let plan = the (rq_lane_plans (request_at s i) lane)
             in if test (ex_target s) lane plan
                then Some (lane, ps_reusable_prompt_tokens (tg_summary tg plan)) else None)))) lanes) (\<lambda>found.
     sret (case foldl (\<lambda>best c. case c of None \<Rightarrow> best | Some (lane, reuse) \<Rightarrow>
               (case best of None \<Rightarrow> Some (lane, reuse)
                | Some (l, b) \<Rightarrow> if reuse > b then Some (lane, reuse) else Some (l, b))) None found of
             None \<Rightarrow> None | Some (lane, _) \<Rightarrow> Some \<lparr>lc_lane = lane, lc_evict_retained = evict\<rparr>)))"

definition find_admission_lane ::
  "('g, 'p, 'l, 'o) target \<Rightarrow> nat \<Rightarrow> ('g, 'p, 'l, 'o, lane_choice option) exec" where
  "find_admission_lane tg i =
     sbind (scan_lanes tg i (tg_can_admit_lane tg) False) (\<lambda>selected.
     if selected \<noteq> None then sret selected
     else scan_lanes tg i (tg_can_admit_lane_after_retained_eviction tg) True)"

definition remove_pending_error :: "nat \<Rightarrow> exn \<Rightarrow> ('g, 'p, 'l, 'o, admission_progress) exec" where
  "remove_pending_error i e =
     sbind (erase_pending i) (\<lambda>erased.
     if \<not> erased then sret NoProgress
     else sbind (clear_protection_if_head i) (\<lambda>_.
          sbind (complete_error i e) (\<lambda>_.
          sbind publish_runtime_stats (\<lambda>_. sret ControlProgress))))"

definition evict_retained_for :: "('g, 'p, 'l, 'o) target \<Rightarrow> nat \<Rightarrow> 'l \<Rightarrow> ('g, 'p, 'l, 'o, unit) exec" where
  "evict_retained_for tg lane plan =
     sbind (gets lanes_of) (\<lambda>lanes.
     sbind (siter (\<lambda>retained. sbind (gets (\<lambda>s. \<not> tg_can_admit_lane tg (ex_target s) lane plan \<and>
           retained \<noteq> lane \<and> ex_slots s ! retained = None \<and> tg_has_retained_lane tg (ex_target s) retained)) (\<lambda>evict.
         swhen evict (sbind (modify (\<lambda>s. s\<lparr>ex_target := tg_evict_retained_lane tg retained (ex_target s)\<rparr>)) (\<lambda>_.
           invalidate_lane_plans retained)))) lanes) (\<lambda>_.
     sbind (gets (\<lambda>s. tg_can_admit_lane tg (ex_target s) lane plan)) (\<lambda>feasible.
     if \<not> feasible then sthrow (logic_error ''retained eviction did not make admission feasible'')
     else sret ())))"

text \<open>
  The guarded part of \<open>admit_planned_request\<close>: installing the request in its lane, then its
  first prefill step. Only a throw of the second part has to abort the target's lane.
\<close>

definition install_admitted ::
  "('g, 'p, 'l, 'o) target \<Rightarrow> nat \<Rightarrow> nat \<Rightarrow> 'l \<Rightarrow> backfill_class \<Rightarrow> u64 \<Rightarrow> ('g, 'p, 'l, 'o, transient_region) exec" where
  "install_admitted tg i lane plan bclass epoch =
     (let summary = tg_summary tg plan;
          needs_prefill = ps_reusable_prompt_tokens summary < ps_prompt_tokens summary in
      case make_generation_budget (ps_effective_output_tokens summary) (ps_effective_limit_reason summary) of
        None \<Rightarrow> sthrow process_abort
      | Some budget \<Rightarrow>
        sbind (on_request i (\<lambda>r. r\<lparr>rq_budget := Some budget, rq_lane := Some lane,
            rq_admission_resources := ps_admission summary,
            rq_remaining_service_work := ps_service_work_quanta summary,
            rq_backfill_epoch := epoch, rq_backfill_class := bclass\<rparr>)) (\<lambda>_.
        sbind (modify (\<lambda>s. s\<lparr>ex_slots := (ex_slots s)[lane := Some i]\<rparr>)) (\<lambda>_.
        sbind (invalidate_lane_plans lane) (\<lambda>_.
        sbind (if needs_prefill
          then sbind (activate_memory (ps_transient_bytes summary) (ps_transient_alignment summary)) (\<lambda>_.
               sbind (modify (\<lambda>s. s\<lparr>ex_prefill_lane := Some lane\<rparr>)) (\<lambda>_.
               gets (\<lambda>s. rm_region (ex_memory s))))
          else sret \<lparr>tg_data = 0, tg_size = 0, tg_alignment = 1\<rparr>) (\<lambda>transient.
        sbind publish_runtime_stats (\<lambda>_. sret transient))))))"

definition start_admitted ::
  "('g, 'p, 'l, 'o) target \<Rightarrow> nat \<Rightarrow> nat \<Rightarrow> 'l \<Rightarrow> transient_region \<Rightarrow> ('g, 'p, 'l, 'o, unit) exec" where
  "start_admitted tg i lane plan transient =
     sbind (gets (\<lambda>s. the (rq_prompt (request_at s i)))) (\<lambda>prompt.
     sbind (on_request i (\<lambda>r. r\<lparr>rq_prompt := None\<rparr>)) (\<lambda>_.
     sbind (on_target (tg_start_prefill_lane tg lane prompt plan transient)) (\<lambda>first.
     sbind (gets ex_prefill_lane) (\<lambda>prefill.
     if \<not> pf_complete first \<and> prefill \<noteq> Some lane
     then sthrow (logic_error ''partial prefill did not retain its execution owner'')
     else
       sbind (load_cancelled i) (\<lambda>cancel_at_boundary.
       sbind (resolve_prefill_step tg i first cancel_at_boundary) (\<lambda>_.
       publish_runtime_stats))))))"

definition admission_failed ::
  "('g, 'p, 'l, 'o) target \<Rightarrow> nat \<Rightarrow> nat \<Rightarrow> bool \<Rightarrow> exn \<Rightarrow> ('g, 'p, 'l, 'o, 'a) exec" where
  "admission_failed tg i lane target_started e =
     sbind (swhen target_started (abort_lane tg lane)) (\<lambda>_.
     sbind (clear_prefill_of lane) (\<lambda>_.
     sbind (clear_slot lane) (\<lambda>_.
     sbind (invalidate_lane_plans lane) (\<lambda>_.
     sbind (complete_error i e) (\<lambda>_.
     sthrow e)))))"

text \<open>The debit of a temporal borrower against the protection's credit.\<close>

definition debit_temporal :: "u64 \<Rightarrow> u64 \<Rightarrow> ('g, 'p, 'l, 'o, unit) exec" where
  "debit_temporal epoch work s =
     (case ex_protection s of
        None \<Rightarrow> (Inl (logic_error ''temporal backfill lost its protected credit''), s)
      | Some p \<Rightarrow>
         if ap_epoch_id p \<noteq> epoch \<or> work > ap_temporal_credit p
         then (Inl (logic_error ''temporal backfill lost its protected credit''), s)
         else (Inr (), s\<lparr>ex_protection := Some (p\<lparr>ap_temporal_credit := ap_temporal_credit p - work\<rparr>)\<rparr>))"

definition admit_planned_request ::
  "('g, 'p, 'l, 'o) target \<Rightarrow> nat \<Rightarrow> lane_choice \<Rightarrow> backfill_class \<Rightarrow> u64 \<Rightarrow>
   ('g, 'p, 'l, 'o, admission_progress) exec" where
  "admit_planned_request tg i choice bclass epoch =
     sbind now (\<lambda>t.
     sbind (gets (\<lambda>s. rq_deadline (request_at s i))) (\<lambda>deadline.
     if t \<ge> deadline then remove_pending_error i timeout_error
     else
       sbind (load_cancelled i) (\<lambda>cancelled.
       if cancelled then
         sbind (erase_pending i) (\<lambda>erased.
         if \<not> erased then sret NoProgress
         else sbind (clear_protection_if_head i) (\<lambda>_.
              sbind (complete_cancelled tg i) (\<lambda>_.
              sbind publish_runtime_stats (\<lambda>_. sret ControlProgress))))
       else
         sbind (gets (\<lambda>s. rq_lane_plans (request_at s i) (lc_lane choice))) (\<lambda>selected.
         case selected of
           None \<Rightarrow> sthrow (logic_error ''selected admission lane has no request plan'')
         | Some plan \<Rightarrow>
             sbind (swhen (lc_evict_retained choice) (evict_retained_for tg (lc_lane choice) plan)) (\<lambda>_.
             sbind (on_request i (\<lambda>r. r\<lparr>rq_lane_plans := (rq_lane_plans r)(lc_lane choice := None)\<rparr>)) (\<lambda>_.
             sbind (erase_pending i) (\<lambda>erased.
             if \<not> erased then sret NoProgress
             else
               sbind (release_planning_state i) (\<lambda>_.
               sbind (swhen (bclass = Temporal)
                 (debit_temporal epoch (ps_service_work_quanta (tg_summary tg plan)))) (\<lambda>_.
               sbind (clear_protection_if_head i) (\<lambda>_.
               sbind (scatch (install_admitted tg i (lc_lane choice) plan bclass epoch)
                        (admission_failed tg i (lc_lane choice) False)) (\<lambda>transient.
               sbind (scatch (start_admitted tg i (lc_lane choice) plan transient)
                        (admission_failed tg i (lc_lane choice) True)) (\<lambda>_.
               sret RanGpuUnit))))))))))))"

definition progress_of :: "bool \<Rightarrow> admission_progress" where
  "progress_of control_progress = (if control_progress then ControlProgress else NoProgress)"

definition capacity_error :: exn where
  "capacity_error = request_error ''ContextLengthExceeded'' ''request reservation exceeds Engine shared KV capacity''"

text \<open>
  The checks every queued request passes before it may be placed: not cancelled, not expired,
  planned, exclusively feasible, with a lane found. \<open>Removed\<close> is a request taken out of the
  queue on the way (the flag: whether the source counts it as control progress), \<open>Blocked\<close> one
  without a lane now.
\<close>

datatype screening = Removed bool | Blocked | Placeable lane_choice

definition plan_base_or_remove :: "('g, 'p, 'l, 'o) target \<Rightarrow> nat \<Rightarrow> ('g, 'p, 'l, 'o, bool) exec" where
  "plan_base_or_remove tg i = scatch (sbind (ensure_base_plan tg i) (\<lambda>_. sret True))
     (\<lambda>e. sbind (remove_pending_error i e) (\<lambda>_. sret False))"

definition find_lane_or_remove :: "('g, 'p, 'l, 'o) target \<Rightarrow> nat \<Rightarrow> ('g, 'p, 'l, 'o, screening) exec" where
  "find_lane_or_remove tg i =
     scatch (sbind (find_admission_lane tg i) (\<lambda>choice.
               sret (case choice of None \<Rightarrow> Blocked | Some c \<Rightarrow> Placeable c)))
       (\<lambda>e. sbind (remove_pending_error i e) (\<lambda>_. sret (Removed True)))"

definition screen_request :: "('g, 'p, 'l, 'o) target \<Rightarrow> bool \<Rightarrow> nat \<Rightarrow> ('g, 'p, 'l, 'o, screening) exec" where
  "screen_request tg is_head i =
     sbind (load_cancelled i) (\<lambda>cancelled.
     if cancelled then
       sbind (erase_pending i) (\<lambda>erased.
       if \<not> erased then sret (Removed False)
       else sbind (swhen is_head (clear_protection_if_head i)) (\<lambda>_.
            sbind (complete_cancelled tg i) (\<lambda>_.
            sbind publish_runtime_stats (\<lambda>_. sret (Removed True)))))
     else
       sbind now (\<lambda>t.
       sbind (gets (\<lambda>s. rq_deadline (request_at s i))) (\<lambda>deadline.
       if t \<ge> deadline then sbind (remove_pending_error i timeout_error) (\<lambda>_. sret (Removed True))
       else
         sbind (plan_base_or_remove tg i) (\<lambda>planned.
         if \<not> planned then sret (Removed True)
         else
           sbind (gets (\<lambda>s. admission_resources_fit
               (ps_admission (tg_summary tg (the (rq_base_plan (request_at s i))))) (ex_admission_capacity s))) (\<lambda>fit.
           if \<not> fit then sbind (remove_pending_error i capacity_error) (\<lambda>_. sret (Removed True))
           else find_lane_or_remove tg i)))))"

text \<open>
  The backfill loop over the requests behind the protected head. Reading \<open>*protection_\<close> when it is
  empty is undefined in C++; the model ends the process there.
\<close>

fun try_backfill ::
  "('g, 'p, 'l, 'o) target \<Rightarrow> active_snapshot list \<Rightarrow> u64 \<Rightarrow> nat list \<Rightarrow> bool \<Rightarrow>
   ('g, 'p, 'l, 'o, admission_progress) exec" where
  "try_backfill tg active frontier [] control = sret (progress_of control)"
| "try_backfill tg active frontier (i # rest) control =
     sbind (screen_request tg False i) (\<lambda>verdict.
     case verdict of
       Removed counted \<Rightarrow> try_backfill tg active frontier rest (control \<or> counted)
     | Blocked \<Rightarrow> try_backfill tg active frontier rest control
     | Placeable choice \<Rightarrow>
         sbind (gets (\<lambda>s. (tg_summary tg (the (rq_lane_plans (request_at s i) (lc_lane choice))),
              ex_protection s, ex_admission_capacity s))) (\<lambda>(plan, head_protection, cap).
         case head_protection of
           None \<Rightarrow> sthrow process_abort
         | Some protection \<Rightarrow>
            (let bclass = (if persistent_backfill_is_safe protection active (ps_admission plan) cap then Persistent
                  else if ps_service_work_quanta plan \<le> frontier \<and>
                          ps_service_work_quanta plan \<le> ap_temporal_credit protection then Temporal
                  else NoBackfill)
             in if bclass \<noteq> NoBackfill then admit_planned_request tg i choice bclass (ap_epoch_id protection)
                else try_backfill tg active frontier rest control)))"

text \<open>The part of \<open>try_admit_one\<close> after the head was found to be blocked.\<close>

definition protect_head ::
  "('g, 'p, 'l, 'o) target \<Rightarrow> nat \<Rightarrow> nat list \<Rightarrow> bool \<Rightarrow> ('g, 'p, 'l, 'o, admission_progress) exec" where
  "protect_head tg head rest control =
     sbind active_admission_set (\<lambda>active.
     if active = [] then sthrow (logic_error ''exclusive-feasible request cannot enter an idle Engine'')
     else
       sbind (gets (\<lambda>s. (ex_protection s, ex_next_protection_epoch s, request_at s head, ex_admission_capacity s)))
         (\<lambda>(existing, epoch, r, cap).
       sbind (case existing of
           Some p \<Rightarrow> sret p
         | None \<Rightarrow>
             sbind (modify (\<lambda>s. s\<lparr>ex_next_protection_epoch := epoch + 1\<rparr>)) (\<lambda>_.
             slift (make_admission_protection epoch (rq_id r)
               (ps_admission (tg_summary tg (the (rq_base_plan r)))) active cap))) (\<lambda>p0.
       let p = (if protected_head_safe_without_temporal p0 active cap then p0\<lparr>ap_phase := Drain\<rparr> else p0)
       in sbind (modify (\<lambda>s. s\<lparr>ex_protection := Some p\<rparr>)) (\<lambda>_.
          if ap_phase p = Drain then sret (progress_of control)
          else try_backfill tg active (protection_frontier_distance p active) rest control))))"

definition drop_stale_protection :: "nat \<Rightarrow> ('g, 'p, 'l, 'o, unit) exec" where
  "drop_stale_protection head = modify (\<lambda>s. case ex_protection s of
     None \<Rightarrow> s
   | Some p \<Rightarrow> if ap_head_request_id p \<noteq> rq_id (request_at s head) then s\<lparr>ex_protection := None\<rparr> else s)"

text \<open>One round of the loop of \<open>try_admit_one\<close>: it asks for another round only after it removed the head.\<close>

datatype admit_step = Again bool | Answer admission_progress

definition admit_round :: "('g, 'p, 'l, 'o) target \<Rightarrow> bool \<Rightarrow> ('g, 'p, 'l, 'o, admit_step) exec" where
  "admit_round tg control =
     sbind pending_snapshot (\<lambda>queued.
     case queued of
       [] \<Rightarrow> sbind (modify (\<lambda>s. s\<lparr>ex_protection := None\<rparr>)) (\<lambda>_. sret (Answer (progress_of control)))
     | head # rest \<Rightarrow>
         sbind (drop_stale_protection head) (\<lambda>_.
         sbind (screen_request tg True head) (\<lambda>verdict.
         case verdict of
           Removed counted \<Rightarrow> sret (Again (control \<or> counted))
         | Blocked \<Rightarrow> sbind (protect_head tg head rest control) (\<lambda>p. sret (Answer p))
         | Placeable choice \<Rightarrow> sbind (admit_planned_request tg head choice NoBackfill 0) (\<lambda>p. sret (Answer p)))))"

end
