(* ===== verification/Hoare.thy ===== *)
theory Hoare
  imports Prelude
begin

text \<open>
  Weakest preconditions for stateful code that may throw: \<open>wp m Q E s\<close> says that \<open>m\<close> started in
  \<open>s\<close> either returns a value and state satisfying \<open>Q\<close> or throws with the state satisfying \<open>E\<close>.
  The equations compute the weakest precondition of every combinator; an operation with its
  own contract is used through the consequence rule.
\<close>

definition wp :: "('s, 'a) prog \<Rightarrow> ('a \<Rightarrow> 's \<Rightarrow> bool) \<Rightarrow> (exn \<Rightarrow> 's \<Rightarrow> bool) \<Rightarrow> 's \<Rightarrow> bool" where
  "wp m Q E s = (case m s of (Inr x, s') \<Rightarrow> Q x s' | (Inl e, s') \<Rightarrow> E e s')"

lemma wp_sret [simp]: "wp (sret x) Q E = Q x"
  by (rule ext) (simp add: wp_def)

lemma wp_sthrow [simp]: "wp (sthrow e) Q E = E e"
  by (rule ext) (simp add: wp_def)

lemma wp_sbind [simp]: "wp (sbind m f) Q E = wp m (\<lambda>x. wp (f x) Q E) E"
  by (rule ext) (auto simp: wp_def sbind_def split: prod.splits sum.splits)

lemma wp_gets [simp]: "wp (gets f) Q E = (\<lambda>s. Q (f s) s)"
  by (rule ext) (simp add: wp_def gets_def)

lemma wp_modify [simp]: "wp (modify f) Q E = (\<lambda>s. Q () (f s))"
  by (rule ext) (simp add: wp_def modify_def)

lemma wp_slift [simp]: "wp (slift r) Q E = (\<lambda>s. case r of Inr x \<Rightarrow> Q x s | Inl e \<Rightarrow> E e s)"
  by (rule ext) (simp add: wp_def slift_def split: sum.splits)

lemma wp_swhen [simp]: "wp (swhen b m) Q E = (\<lambda>s. if b then wp m Q E s else Q () s)"
  by (rule ext) (simp add: swhen_def)

lemma wp_scatch [simp]:
  "wp (scatch m h) Q E = wp m Q (\<lambda>e s'. if e = process_abort then E e s' else wp (h e) Q E s')"
  by (rule ext) (auto simp: wp_def scatch_def split: prod.splits sum.splits)

lemma wp_True: "wp m (\<lambda>_ _. True) (\<lambda>_ _. True) s"
  by (simp add: wp_def split: prod.splits sum.splits)

lemma wp_mono:
  assumes "wp m Q E s" "\<And>x s'. Q x s' \<Longrightarrow> Q' x s'" "\<And>e s'. E e s' \<Longrightarrow> E' e s'"
  shows "wp m Q' E' s"
  using assms by (auto simp: wp_def split: prod.splits sum.splits)

lemma wp_if: "(b \<Longrightarrow> wp m Q E s) \<Longrightarrow> (\<not> b \<Longrightarrow> wp n Q E s) \<Longrightarrow> wp (if b then m else n) Q E s"
  by simp

lemma wp_throw: "E e s \<Longrightarrow> wp (sthrow e) Q E s"
  by simp

lemma wp_conj:
  assumes "wp m Q E s" "wp m Q' E' s"
  shows "wp m (\<lambda>x s. Q x s \<and> Q' x s) (\<lambda>e s. E e s \<and> E' e s) s"
  using assms by (auto simp: wp_def split: prod.splits sum.splits)

lemma wp_fst_snd:
  "wp m Q E s \<longleftrightarrow> (case fst (m s) of Inr x \<Rightarrow> Q x (snd (m s)) | Inl e \<Rightarrow> E e (snd (m s)))"
  by (auto simp: wp_def split: prod.splits sum.splits)

text \<open>Loops over lists: an invariant indexed by what is still to do.\<close>

lemma wp_siter:
  assumes "I xs s"
    and "\<And>x rest s. I (x # rest) s \<Longrightarrow> set (x # rest) \<subseteq> set xs \<Longrightarrow> wp (f x) (\<lambda>_. I rest) E s"
  shows "wp (siter f xs) (\<lambda>_. I []) E s"
  using assms
proof (induction xs arbitrary: s)
  case (Cons x xs)
  have "wp (f x) (\<lambda>_. I xs) E s"
    by (rule Cons.prems(2) [OF Cons.prems(1)]) auto
  then have "wp (f x) (\<lambda>_. wp (siter f xs) (\<lambda>_. I []) E) E s"
  proof (rule wp_mono)
    fix s' assume "I xs s'"
    then show "wp (siter f xs) (\<lambda>_. I []) E s'"
      by (rule Cons.IH) (use Cons.prems(2) in auto)
  qed
  then show ?case by simp
qed simp

lemma wp_smap:
  assumes "I xs [] s"
    and "\<And>x rest ys s. I (x # rest) ys s \<Longrightarrow> set (x # rest) \<subseteq> set xs \<Longrightarrow>
      wp (f x) (\<lambda>y. I rest (ys @ [y])) E s"
  shows "wp (smap f xs) (\<lambda>ys. I [] ys) E s"
proof -
  have "wp (smap f zs) (\<lambda>ys'. I [] (ys @ ys')) E s"
    if "I zs ys s" "set zs \<subseteq> set xs" for zs ys s
    using that
  proof (induction zs arbitrary: ys s)
    case (Cons x zs)
    have "wp (f x) (\<lambda>y. I zs (ys @ [y])) E s" using Cons.prems assms(2) by blast
    then have "wp (f x) (\<lambda>y. wp (smap f zs) (\<lambda>ys'. I [] (ys @ y # ys')) E) E s"
    proof (rule wp_mono)
      fix y s' assume "I zs (ys @ [y]) s'"
      from Cons.IH [OF this] Cons.prems(2) show "wp (smap f zs) (\<lambda>ys'. I [] (ys @ y # ys')) E s'" by simp
    qed
    then show ?case by simp
  qed simp
  from this [OF assms(1)] show ?thesis by simp
qed

section \<open>Relations kept by a program\<close>

text \<open>
  \<open>preserves R m\<close>: however \<open>m\<close> ends, its final state is related to its initial one. For a
  preorder the property is compositional, and one rule per combinator reduces an operation
  to its primitive actions.
\<close>

definition preserves :: "('s \<Rightarrow> 's \<Rightarrow> bool) \<Rightarrow> ('s, 'a) prog \<Rightarrow> bool" where
  "preserves R m = (\<forall>s. R s (snd (m s)))"

lemma preservesD: "preserves R m \<Longrightarrow> R s (snd (m s))"
  by (simp add: preserves_def)

lemma preserves_wp: "preserves R m \<Longrightarrow> wp m (\<lambda>_. R s) (\<lambda>_. R s) s"
  by (auto simp: wp_fst_snd preserves_def split: sum.splits)

text \<open>A step known only by its relation, and one known by its contract, followed by a continuation.\<close>

lemma wp_kept:
  assumes "preserves R m" and "\<And>x s'. R s s' \<Longrightarrow> Q x s'" and "\<And>e s'. R s s' \<Longrightarrow> E e s'"
  shows "wp m Q E s"
  by (rule wp_mono [OF preserves_wp [OF assms(1)]]) (use assms in auto)

lemma wp_seq:
  assumes "wp m P E s" and "\<And>x s'. P x s' \<Longrightarrow> wp (f x) Q E s'"
  shows "wp (sbind m f) Q E s"
  unfolding wp_sbind by (rule wp_mono [OF assms(1)]) (use assms in auto)

lemma wp_seq_kept:
  assumes "preserves R m" and "\<And>x s'. R s s' \<Longrightarrow> wp (f x) Q E s'" and "\<And>e s'. R s s' \<Longrightarrow> E e s'"
  shows "wp (sbind m f) Q E s"
  unfolding wp_sbind by (rule wp_kept [OF assms(1)]) (use assms in auto)

subsection \<open>Programs that do not throw\<close>

definition no_throw :: "('s, 'a) prog \<Rightarrow> bool" where
  "no_throw m = (\<forall>s. \<exists>x. fst (m s) = Inr x)"

lemma no_throw_sbind:
  assumes "no_throw m" and "\<And>x. no_throw (f x)"
  shows "no_throw (sbind m f)"
  unfolding no_throw_def
proof
  fix s show "\<exists>x. fst (sbind m f s) = Inr x"
  proof -
    obtain x where "fst (m s) = Inr x" using assms(1) by (auto simp: no_throw_def)
    then show ?thesis using assms(2) [of x] by (cases "m s") (simp add: no_throw_def sbind_def)
  qed
qed

lemma no_throw_basic: "no_throw (sret x)" "no_throw (gets f)" "no_throw (modify g)"
  by (simp_all add: no_throw_def sret_def gets_def modify_def)

lemma no_throw_swhen: "no_throw m \<Longrightarrow> no_throw (swhen b m)"
  by (simp add: swhen_def no_throw_basic)

lemma no_throw_if: "no_throw m \<Longrightarrow> no_throw n \<Longrightarrow> no_throw (if b then m else n)"
  by simp

lemma no_throw_option: "no_throw m \<Longrightarrow> (\<And>y. no_throw (f y)) \<Longrightarrow> no_throw (case x of None \<Rightarrow> m | Some y \<Rightarrow> f y)"
  by (cases x) simp_all

lemma no_throw_smap: "(\<And>x. no_throw (f x)) \<Longrightarrow> no_throw (smap f xs)"
  by (induction xs) (auto intro!: no_throw_sbind no_throw_basic)

lemmas no_throw_intros = no_throw_sbind no_throw_basic no_throw_swhen no_throw_if no_throw_option no_throw_smap

lemma wp_kept_no_throw:
  assumes "preserves R m" "no_throw m" and "\<And>x s'. R s s' \<Longrightarrow> Q x s'"
  shows "wp m Q E s"
proof -
  obtain x where "fst (m s) = Inr x" using assms(2) by (auto simp: no_throw_def)
  then show ?thesis unfolding wp_fst_snd using assms(3) preservesD [OF assms(1), of s] by simp
qed

lemma wp_seq_no_throw:
  assumes "preserves R m" "no_throw m" and "\<And>x s'. R s s' \<Longrightarrow> wp (f x) Q E s'"
  shows "wp (sbind m f) Q E s"
  unfolding wp_sbind by (rule wp_kept_no_throw [OF assms])

subsection \<open>Kept preorders\<close>

locale kept_relation =
  fixes R :: "'s \<Rightarrow> 's \<Rightarrow> bool"
  assumes R_refl: "R s s"
    and R_trans: "R s t \<Longrightarrow> R t u \<Longrightarrow> R s u"
begin

lemma preserves_sret: "preserves R (sret x)"
  by (simp add: preserves_def sret_def R_refl)

lemma preserves_sthrow: "preserves R (sthrow e)"
  by (simp add: preserves_def sthrow_def R_refl)

lemma preserves_gets: "preserves R (gets f)"
  by (simp add: preserves_def gets_def R_refl)

lemma preserves_slift: "preserves R (slift r)"
  by (simp add: preserves_def slift_def R_refl split: sum.splits)

lemma preserves_sbind:
  assumes "preserves R m" and "\<And>x. preserves R (f x)"
  shows "preserves R (sbind m f)"
  unfolding preserves_def
proof
  fix s show "R s (snd (sbind m f s))"
    using preservesD [OF assms(1), of s] preservesD [OF assms(2)]
    by (cases "m s"; cases "fst (m s)") (auto simp: sbind_def intro: R_trans)
qed

lemma preserves_swhen: "preserves R m \<Longrightarrow> preserves R (swhen b m)"
  by (simp add: swhen_def preserves_sret)

lemma preserves_scatch:
  assumes "preserves R m" and "\<And>e. preserves R (h e)"
  shows "preserves R (scatch m h)"
  unfolding preserves_def
proof
  fix s show "R s (snd (scatch m h s))"
    using preservesD [OF assms(1), of s] preservesD [OF assms(2)]
    by (cases "m s"; cases "fst (m s)") (auto simp: scatch_def intro: R_trans)
qed

lemma preserves_smap: "(\<And>x. preserves R (f x)) \<Longrightarrow> preserves R (smap f xs)"
  by (induction xs) (auto intro!: preserves_sret preserves_sbind)

lemma preserves_siter: "(\<And>x. preserves R (f x)) \<Longrightarrow> preserves R (siter f xs)"
  by (induction xs) (auto intro!: preserves_sret preserves_sbind)

lemma preserves_if: "(b \<Longrightarrow> preserves R m) \<Longrightarrow> (\<not> b \<Longrightarrow> preserves R n) \<Longrightarrow> preserves R (if b then m else n)"
  by simp

lemma preserves_option:
  "preserves R m \<Longrightarrow> (\<And>y. preserves R (f y)) \<Longrightarrow> preserves R (case x of None \<Rightarrow> m | Some y \<Rightarrow> f y)"
  by (cases x) simp_all

lemma preserves_list:
  "preserves R m \<Longrightarrow> (\<And>y ys. preserves R (f y ys)) \<Longrightarrow> preserves R (case x of [] \<Rightarrow> m | y # ys \<Rightarrow> f y ys)"
  by (cases x) simp_all

lemma preserves_prod: "(\<And>a b. preserves R (f a b)) \<Longrightarrow> preserves R (case x of (a, b) \<Rightarrow> f a b)"
  by (cases x) simp

lemmas preserves_intros =
  preserves_sret preserves_sthrow preserves_gets preserves_slift preserves_sbind preserves_swhen
  preserves_scatch preserves_smap preserves_siter preserves_if preserves_option preserves_list
  preserves_prod

end

end
