(* ===== verification/Executor_Frame.thy ===== *)
theory Executor_Frame
  imports Executor Hoare
begin

text \<open>
  What no step of the executor takes back. \<open>completion_final\<close> relates an earlier to a later
  state: requests keep their identity, the flags set by other threads stay set, and the
  outcome of a completed request does not change. Every operation of the worker and every
  critical section of another thread keeps it.
\<close>

definition settled :: "('p, 'l, 'o) request \<Rightarrow> ('p, 'l, 'o) request \<Rightarrow> bool" where
  "settled r r' = (rq_id r' = rq_id r \<and> rq_deadline r' = rq_deadline r \<and>
     (rq_done r \<longrightarrow> rq_done r' \<and> rq_result r' = rq_result r \<and> rq_error r' = rq_error r) \<and>
     (rq_cancelled r \<longrightarrow> rq_cancelled r') \<and>
     (rq_consumer_released r \<longrightarrow> rq_consumer_released r') \<and>
     (rq_capacity_released r \<longrightarrow> rq_capacity_released r'))"

definition completion_final :: "('g, 'p, 'l, 'o) executor \<Rightarrow> ('g, 'p, 'l, 'o) executor \<Rightarrow> bool" where
  "completion_final s s' = (length (ex_requests s) \<le> length (ex_requests s') \<and>
     (\<forall>i < length (ex_requests s). settled (request_at s i) (request_at s' i)))"

text \<open>The operations other than stopping also leave the worker running and a failure in place.\<close>

definition worker_kept :: "('g, 'p, 'l, 'o) executor \<Rightarrow> ('g, 'p, 'l, 'o) executor \<Rightarrow> bool" where
  "worker_kept s s' = (completion_final s s' \<and> ex_worker_running s' = ex_worker_running s \<and>
     (ex_failed s \<longrightarrow> ex_failed s'))"

lemma settled_refl [simp]: "settled r r"
  by (simp add: settled_def)

lemma settled_trans: "settled r q \<Longrightarrow> settled q p \<Longrightarrow> settled r p"
  by (auto simp: settled_def)

lemma completion_final_refl [simp]: "completion_final s s"
  by (simp add: completion_final_def)

lemma completion_final_trans: "completion_final s t \<Longrightarrow> completion_final t u \<Longrightarrow> completion_final s u"
  unfolding completion_final_def by (meson le_trans less_le_trans settled_trans)

interpretation fin: kept_relation worker_kept
  by unfold_locales (auto simp: worker_kept_def intro: completion_final_trans)

subsection \<open>Primitive actions\<close>

lemma request_at_update [simp]:
  "i < length (ex_requests s) \<Longrightarrow>
   request_at (update_request j f s) i = (if i = j then f (request_at s i) else request_at s i)"
  by (simp add: request_at_def update_request_def)

lemma length_update_request [simp]:
  "length (ex_requests (update_request j f s)) = length (ex_requests s)"
  by (simp add: update_request_def)

lemma request_at_other [simp]:
  "request_at (s\<lparr>ex_pending := v0\<rparr>) = request_at s"
  "request_at (s\<lparr>ex_outstanding := v1\<rparr>) = request_at s"
  "request_at (s\<lparr>ex_next_request_id := v2\<rparr>) = request_at s"
  "request_at (s\<lparr>ex_slots := v3\<rparr>) = request_at s"
  "request_at (s\<lparr>ex_prefill_lane := v4\<rparr>) = request_at s"
  "request_at (s\<lparr>ex_lane_plan_versions := v5\<rparr>) = request_at s"
  "request_at (s\<lparr>ex_protection := v6\<rparr>) = request_at s"
  "request_at (s\<lparr>ex_next_protection_epoch := v7\<rparr>) = request_at s"
  "request_at (s\<lparr>ex_cumulative_stats := v8\<rparr>) = request_at s"
  "request_at (s\<lparr>ex_published_stats := v9\<rparr>) = request_at s"
  "request_at (s\<lparr>ex_stopping := v10\<rparr>) = request_at s"
  "request_at (s\<lparr>ex_failed := v11\<rparr>) = request_at s"
  "request_at (s\<lparr>ex_memory := v12\<rparr>) = request_at s"
  "request_at (s\<lparr>ex_target := v13\<rparr>) = request_at s"
  "request_at (s\<lparr>ex_clock := v14\<rparr>) = request_at s"
  "request_at (s\<lparr>ex_env := v15\<rparr>) = request_at s"
  "request_at (s\<lparr>ex_submitting := v16\<rparr>) = request_at s"
  "request_at (s\<lparr>ex_releasing := v17\<rparr>) = request_at s"
  "request_at (s\<lparr>ex_previous_unit_was_decode := v18\<rparr>) = request_at s"
  "request_at (s\<lparr>ex_worker_running := v19\<rparr>) = request_at s"
  by (simp_all add: request_at_def fun_eq_iff)

lemma request_at_cong: "ex_requests s' = ex_requests s \<Longrightarrow> request_at s' = request_at s"
  by (rule ext) (simp add: request_at_def)

lemma update_request_worker [simp]:
  "ex_worker_running (update_request i f s) = ex_worker_running s" "ex_failed (update_request i f s) = ex_failed s"
  by (simp_all add: update_request_def)

lemma final_same_requests:
  "ex_requests s' = ex_requests s \<Longrightarrow> ex_worker_running s' = ex_worker_running s \<Longrightarrow>
   (ex_failed s \<Longrightarrow> ex_failed s') \<Longrightarrow> worker_kept s s'"
  by (simp add: worker_kept_def completion_final_def request_at_def)

lemma final_update: "(\<And>r. settled r (f r)) \<Longrightarrow> worker_kept s (update_request i f s)"
  by (simp add: worker_kept_def completion_final_def)

lemma final_modify:
  "(\<And>s. ex_requests (f s) = ex_requests s \<and> ex_worker_running (f s) = ex_worker_running s \<and>
     (ex_failed s \<longrightarrow> ex_failed (f s))) \<Longrightarrow> preserves worker_kept (modify f)"
  by (simp add: preserves_def modify_def final_same_requests)

lemma final_on_request: "(\<And>r. settled r (f r)) \<Longrightarrow> preserves worker_kept (on_request i f)"
  by (simp add: preserves_def on_request_def modify_def final_update)

lemma final_on_target: "preserves worker_kept (on_target m)"
  by (auto simp: preserves_def on_target_def final_same_requests split: prod.splits)

lemma final_on_output: "preserves worker_kept (on_output i m)"
  by (auto simp: preserves_def on_output_def settled_def intro!: final_update split: prod.splits)

lemma final_release_reserved: "ex_requests (release_reserved_capacity s) = ex_requests s"
  by (simp add: release_reserved_capacity_def)

lemma settled_wait:
  "settled r
     (let events = rq_events r; r1 = r\<lparr>rq_events := []\<rparr>;
           r2 = (case rq_caller_error r1 of
                   Some _ \<Rightarrow> r1
                 | None \<Rightarrow> (case publish events of None \<Rightarrow> r1
                            | Some e \<Rightarrow> r1\<lparr>rq_caller_error := Some e, rq_cancelled := True\<rparr>))
       in case rq_caller_error r2 of
            Some _ \<Rightarrow> r2
          | None \<Rightarrow> (case requested of
                       Inl e \<Rightarrow> r2\<lparr>rq_caller_error := Some e, rq_cancelled := True\<rparr>
                     | Inr c \<Rightarrow> if c then r2\<lparr>rq_cancelled := True\<rparr> else r2))"
  by (auto simp: Let_def settled_def split: option.split sum.split)

lemma final_env_exec: "worker_kept s (env_exec e s)"
proof (cases e)
  case (SubmitPush prompt out deadline submitted)
  then show ?thesis
    by (auto simp: submit_push_def worker_kept_def completion_final_def request_at_def nth_append split: list.split)
next
  case (ReleaseConsumer i)
  have "worker_kept s (release_consumer i s)"
    by (auto simp: release_consumer_def Let_def worker_kept_def completion_final_def settled_def)
  then show ?thesis using ReleaseConsumer by (simp add: fin.R_refl)
next
  case (WaitRound i publish requested)
  have "worker_kept s (wait_round i publish requested s)"
    unfolding wait_round_def by (rule final_update) (rule settled_wait)
  then show ?thesis using WaitRound by (simp add: fin.R_refl)
qed (auto simp: submit_reserve_def submit_abort_def Let_def release_reserved_capacity_def finish_release_def
      settled_def intro!: final_same_requests final_update fin.R_refl split: list.split)

lemma final_env_batch: "worker_kept s (fold env_exec batch s)"
  by (induction batch arbitrary: s) (auto intro: fin.R_refl fin.R_trans final_env_exec)

lemma final_interleave: "preserves worker_kept interleave"
  unfolding preserves_def
proof
  fix s :: "('g, 'p, 'l, 'o) executor"
  show "worker_kept s (snd (interleave s))"
    unfolding interleave_def
    by (cases "ex_env s")
      (auto intro: fin.R_refl fin.R_trans [OF final_same_requests final_env_batch])
qed

lemma final_atomically: "preserves worker_kept m \<Longrightarrow> preserves worker_kept (atomically m)"
  unfolding atomically_def by (intro fin.preserves_sbind final_interleave)

lemmas final_prims = fin.preserves_intros final_modify final_on_request final_on_target final_on_output
  final_atomically


named_theorems final_ops

subsection \<open>Operations\<close>

lemma final_small [final_ops]:
  "preserves worker_kept now" "preserves worker_kept (load_cancelled i)"
  "preserves worker_kept (abort_lane tg lane)" "preserves worker_kept deactivate_memory"
  "preserves worker_kept publish_runtime_stats" "preserves worker_kept (append_output i out)"
  "preserves worker_kept (release_planning_state i)" "preserves worker_kept (invalidate_lane_plans lane)"
  "preserves worker_kept (clear_slot lane)" "preserves worker_kept pending_snapshot"
  "preserves worker_kept (drop_stale_protection i)"
  "preserves worker_kept (clear_protection_if_head i)"
  by (auto simp: now_def load_cancelled_def abort_lane_def deactivate_memory_def publish_runtime_stats_def
      append_output_def release_planning_state_def invalidate_lane_plans_def clear_slot_def
      pending_snapshot_def drop_stale_protection_def clear_protection_if_head_def
      settled_def Let_def intro!: final_prims split: option.splits if_splits)

lemma final_state_actions [final_ops]:
  "preserves worker_kept (activate_memory bytes alignment)"
  "preserves worker_kept (commit_budget i tokens)"
  "preserves worker_kept (consume_service_work i work)"
  "preserves worker_kept (debit_temporal epoch quanta)"
  "preserves worker_kept build_round_membership"
  "preserves worker_kept active_admission_set"
  by (auto simp: preserves_def activate_memory_def commit_budget_def consume_service_work_def
      debit_temporal_def build_round_membership_def active_admission_set_def Let_def settled_def fin.R_refl
      intro!: final_same_requests final_update split: prod.split option.split)

lemma final_erase_pending [final_ops]: "preserves worker_kept (erase_pending i)"
  unfolding erase_pending_def
  by (rule final_atomically) (auto simp: preserves_def fin.R_refl intro: final_same_requests)

lemma final_release_completed [final_ops]: "preserves worker_kept (release_completed i)"
  unfolding release_completed_def mark_completed_def
  by (intro fin.preserves_sbind fin.preserves_swhen final_atomically final_modify)
    (auto simp: preserves_def worker_kept_def completion_final_def Let_def settled_def finish_release_def
      release_reserved_capacity_def)

lemma final_complete_error [final_ops]: "preserves worker_kept (complete_error i e)"
  unfolding complete_error_def
  by (intro final_prims final_ops) (auto simp: preserves_def worker_kept_def completion_final_def settled_def)

lemma final_complete_success [final_ops]: "preserves worker_kept (complete_success tg i reason)"
  unfolding complete_success_def
  by (intro final_prims final_ops) (auto simp: preserves_def worker_kept_def completion_final_def settled_def)

lemma final_complete_cancelled [final_ops]: "preserves worker_kept (complete_cancelled tg i)"
  unfolding complete_cancelled_def by (intro final_prims final_ops)

lemma final_set_first_token [final_ops]: "preserves worker_kept (set_first_token i)"
  unfolding set_first_token_def by (intro final_prims final_ops) (simp add: settled_def)

lemma final_resolve_round [final_ops]: "preserves worker_kept (resolve_round tg i token cancel)"
  unfolding resolve_round_def by (intro final_prims final_ops) (simp add: settled_def)

lemma final_slots [final_ops]:
  "preserves worker_kept (remove_completed_slot lane)" "preserves worker_kept (clear_prefill_of lane)"
  unfolding remove_completed_slot_def clear_prefill_of_def by (intro final_prims final_ops; simp)+

lemma final_snapshot_cancellations [final_ops]: "preserves worker_kept snapshot_cancellations"
  unfolding snapshot_cancellations_def by (intro final_prims final_ops)

lemma final_cancel_active [final_ops]: "preserves worker_kept (cancel_active_requests tg flags)"
  unfolding cancel_active_requests_def by (intro final_prims final_ops)

lemma final_expire [final_ops]: "preserves worker_kept (expire_pending_requests tg)"
  unfolding expire_pending_requests_def classify_pending_def Let_def
  by (intro final_prims final_ops) (auto split: option.split)

lemma final_resolve_prefill [final_ops]: "preserves worker_kept (resolve_prefill_step tg i step cancel)"
  unfolding resolve_prefill_step_def by (intro final_prims final_ops) (simp_all add: settled_def)

lemma final_run_prefill [final_ops]: "preserves worker_kept (run_prefill_step tg)"
  unfolding run_prefill_step_def by (intro final_prims final_ops)

lemma final_plans [final_ops]:
  "preserves worker_kept (ensure_base_plan tg i)" "preserves worker_kept (ensure_lane_plan tg i lane)"
  unfolding ensure_base_plan_def ensure_lane_plan_def by (intro final_prims final_ops; simp add: settled_def)+

lemma final_find_lane [final_ops]: "preserves worker_kept (find_admission_lane tg i)"
  unfolding find_admission_lane_def scan_lanes_def by (intro final_prims final_ops)

lemma final_remove_pending [final_ops]: "preserves worker_kept (remove_pending_error i e)"
  unfolding remove_pending_error_def by (intro final_prims final_ops)

lemma final_evict [final_ops]: "preserves worker_kept (evict_retained_for tg lane plan)"
  unfolding evict_retained_for_def by (intro final_prims final_ops) simp

lemma final_admission_parts [final_ops]:
  "preserves worker_kept (install_admitted tg i lane plan bclass epoch)"
  "preserves worker_kept (start_admitted tg i lane plan transient)"
  "preserves worker_kept (admission_failed tg i lane started e)"
  unfolding install_admitted_def start_admitted_def admission_failed_def Let_def
  by (intro final_prims final_ops; simp add: settled_def)+

lemma final_admit [final_ops]: "preserves worker_kept (admit_planned_request tg i choice bclass epoch)"
  unfolding admit_planned_request_def by (intro final_prims final_ops) (simp add: settled_def)

lemma final_screen [final_ops]: "preserves worker_kept (screen_request tg is_head i)"
  unfolding screen_request_def plan_base_or_remove_def find_lane_or_remove_def
  by (intro final_prims final_ops)

lemma preserves_screening:
  assumes "\<And>c. preserves R (f c)" "preserves R m" "\<And>c. preserves R (h c)"
  shows "preserves R (case v of Removed c \<Rightarrow> f c | Blocked \<Rightarrow> m | Placeable c \<Rightarrow> h c)"
  using assms by (cases v) simp_all

lemma final_backfill [final_ops]: "preserves worker_kept (try_backfill tg active frontier rest control)"
  by (induction rest arbitrary: control)
    (auto simp: Let_def intro!: final_prims final_ops preserves_screening)

lemma final_protect_head [final_ops]: "preserves worker_kept (protect_head tg head rest control)"
  unfolding protect_head_def Let_def by (intro final_prims final_ops) simp_all

lemma final_admit_round [final_ops]: "preserves worker_kept (admit_round tg control)"
  unfolding admit_round_def by (intro final_prims final_ops preserves_screening) simp

end
