(* ===== verification/Worker.thy ===== *)
theory Worker
  imports Executor_Frame
begin

text \<open>
  The worker thread of the executor: the admission loop with its termination, the batched
  decode round, failure of all requests, and one iteration of the worker loop with its
  choice between prefill, admission and decoding.
\<close>

section \<open>The admission loop\<close>

text \<open>
  Every further round follows the removal of a queued request. The measure counts the
  requests that are queued or can still be submitted by the remaining events of other threads.
\<close>

fun is_push :: "('p, 'o) env_event \<Rightarrow> bool" where
  "is_push (SubmitPush v va vb vc) = True"
| "is_push e = False"

definition pending_bound :: "('g, 'p, 'l, 'o) executor \<Rightarrow> nat" where
  "pending_bound s = length (ex_pending s) + length (filter is_push (concat (ex_env s)))"

definition queue_kept :: "('g, 'p, 'l, 'o) executor \<Rightarrow> ('g, 'p, 'l, 'o) executor \<Rightarrow> bool" where
  "queue_kept s s' = (pending_bound s' \<le> pending_bound s \<and> set (ex_pending s) \<subseteq> set (ex_pending s'))"

interpretation qk: kept_relation queue_kept
  by unfold_locales (auto simp: queue_kept_def)

lemma queue_kept_same: "ex_pending s' = ex_pending s \<Longrightarrow> ex_env s' = ex_env s \<Longrightarrow> queue_kept s s'"
  by (simp add: queue_kept_def pending_bound_def)

lemma queue_kept_modify:
  "(\<And>s. ex_pending (f s) = ex_pending s \<and> ex_env (f s) = ex_env s) \<Longrightarrow> preserves queue_kept (modify f)"
  by (simp add: preserves_def modify_def queue_kept_same)

lemma queue_update_request [simp]:
  "ex_pending (update_request i f s) = ex_pending s" "ex_env (update_request i f s) = ex_env s"
  by (simp_all add: update_request_def)

lemma queue_kept_on_request: "preserves queue_kept (on_request i f)"
  unfolding on_request_def by (rule queue_kept_modify) simp

lemma queue_kept_on_target: "preserves queue_kept (on_target m)"
  by (auto simp: preserves_def on_target_def intro!: queue_kept_same split: prod.splits)

lemma queue_kept_on_output: "preserves queue_kept (on_output i m)"
  by (auto simp: preserves_def on_output_def intro!: queue_kept_same split: prod.splits)

lemma queue_env_exec:
  "ex_env (env_exec e s) = ex_env s \<and> set (ex_pending s) \<subseteq> set (ex_pending (env_exec e s)) \<and>
   length (ex_pending (env_exec e s)) \<le> length (ex_pending s) + (if is_push e then 1 else 0)"
  by (cases e) (auto simp: submit_reserve_def submit_abort_def submit_push_def wait_round_def release_consumer_def
      Let_def release_reserved_capacity_def finish_release_def split: list.split)

lemma queue_env_batch:
  "ex_env (fold env_exec batch s) = ex_env s \<and> set (ex_pending s) \<subseteq> set (ex_pending (fold env_exec batch s)) \<and>
   length (ex_pending (fold env_exec batch s)) \<le> length (ex_pending s) + length (filter is_push batch)"
proof (induction batch arbitrary: s)
  case (Cons e batch)
  show ?case using Cons [of "env_exec e s"] queue_env_exec [of e s] by auto
qed simp

lemma queue_kept_interleave: "preserves queue_kept interleave"
  unfolding preserves_def
proof
  fix s :: "('g, 'p, 'l, 'o) executor"
  show "queue_kept s (snd (interleave s))"
  proof (cases "ex_env s")
    case (Cons batch rest)
    then show ?thesis
      using queue_env_batch [of batch "s\<lparr>ex_env := rest\<rparr>"]
      by (auto simp: interleave_def queue_kept_def pending_bound_def)
  qed (simp add: interleave_def qk.R_refl)
qed

lemma queue_kept_atomically: "preserves queue_kept m \<Longrightarrow> preserves queue_kept (atomically m)"
  unfolding atomically_def by (intro qk.preserves_sbind queue_kept_interleave)

lemmas queue_prims = qk.preserves_intros queue_kept_modify queue_kept_on_request queue_kept_on_target
  queue_kept_on_output queue_kept_atomically

named_theorems queue_ops

lemma queue_small [queue_ops]:
  "preserves queue_kept now" "preserves queue_kept (load_cancelled i)"
  "preserves queue_kept publish_runtime_stats" "preserves queue_kept (append_output i out)"
  "preserves queue_kept (release_planning_state i)"
  "preserves queue_kept pending_snapshot" "preserves queue_kept (drop_stale_protection i)"
  "preserves queue_kept (clear_protection_if_head i)"
  by (auto simp: now_def load_cancelled_def publish_runtime_stats_def append_output_def
      release_planning_state_def pending_snapshot_def drop_stale_protection_def clear_protection_if_head_def
      Let_def intro!: queue_prims split: option.split)

lemma queue_release_completed [queue_ops]: "preserves queue_kept (release_completed i)"
  unfolding release_completed_def mark_completed_def
  by (intro qk.preserves_sbind qk.preserves_swhen queue_kept_atomically queue_kept_modify)
    (auto simp: preserves_def Let_def finish_release_def release_reserved_capacity_def intro!: queue_kept_same)

lemma queue_completion [queue_ops]:
  "preserves queue_kept (complete_error i e)" "preserves queue_kept (complete_success tg i reason)"
  unfolding complete_error_def complete_success_def
  by (intro queue_prims queue_ops; auto simp: preserves_def intro!: queue_kept_same)+

lemma queue_complete_cancelled [queue_ops]: "preserves queue_kept (complete_cancelled tg i)"
  unfolding complete_cancelled_def by (intro queue_prims queue_ops)

lemma queue_plans [queue_ops]:
  "preserves queue_kept (ensure_base_plan tg i)" "preserves queue_kept (ensure_lane_plan tg i lane)"
  unfolding ensure_base_plan_def ensure_lane_plan_def by (intro queue_prims queue_ops)+

lemma queue_find_lane [queue_ops]: "preserves queue_kept (find_admission_lane tg i)"
  unfolding find_admission_lane_def scan_lanes_def by (intro queue_prims queue_ops)

lemma erase_shrinks:
  assumes "i \<in> set (ex_pending s)"
  shows "wp (erase_pending i) (\<lambda>erased s'. erased \<and> pending_bound s' < pending_bound s) (\<lambda>_ _. True) s"
  unfolding erase_pending_def atomically_def wp_sbind
proof (rule wp_kept [OF queue_kept_interleave])
  fix s' assume "queue_kept s s'"
  then have "i \<in> set (ex_pending s')" and bound: "pending_bound s' \<le> pending_bound s"
    using assms by (auto simp: queue_kept_def)
  moreover from this obtain n where "length (ex_pending s') = Suc n" by (cases "ex_pending s'") auto
  ultimately show "wp (\<lambda>s. if i \<in> set (ex_pending s) then (Inr True, s\<lparr>ex_pending := remove1 i (ex_pending s)\<rparr>)
      else (Inr False, s)) (\<lambda>erased s'. erased \<and> pending_bound s' < pending_bound s) (\<lambda>_ _. True) s'"
    by (simp add: wp_def pending_bound_def length_remove1)
qed simp

text \<open>What follows an erasure does not lengthen the queue.\<close>

lemma erase_then_shrinks:
  fixes s :: "('g, 'p, 'l, 'o) executor"
  assumes "i \<in> set (ex_pending s)" and "\<And>b. preserves queue_kept (k b)"
  shows "wp (sbind (erase_pending i) k) (\<lambda>_ s'. pending_bound s' < pending_bound s) (\<lambda>_ _. True) s"
proof (rule wp_seq [OF erase_shrinks [OF assms(1)]])
  fix b and s' :: "('g, 'p, 'l, 'o) executor" assume "b \<and> pending_bound s' < pending_bound s"
  then show "wp (k b) (\<lambda>_ s'. pending_bound s' < pending_bound s) (\<lambda>_ _. True) s'"
    by (intro wp_kept [OF assms(2)]) (auto simp: queue_kept_def)
qed

lemma remove_shrinks:
  assumes "i \<in> set (ex_pending s)"
  shows "wp (remove_pending_error i e) (\<lambda>_ s'. pending_bound s' < pending_bound s) (\<lambda>_ _. True) s"
  unfolding remove_pending_error_def
  by (rule erase_then_shrinks [OF assms]) (intro queue_prims queue_ops)

definition screened :: "('g, 'p, 'l, 'o) executor \<Rightarrow> screening \<Rightarrow> ('g, 'p, 'l, 'o) executor \<Rightarrow> bool" where
  "screened s verdict s' = ((\<exists>counted. verdict = Removed counted) \<longrightarrow> pending_bound s' < pending_bound s)"

lemma screened_trans: "queue_kept s t \<Longrightarrow> screened t v u \<Longrightarrow> screened s v u"
  by (auto simp: screened_def queue_kept_def)

lemma screened_removed: "pending_bound s' < pending_bound s \<Longrightarrow> screened s (Removed c) s'"
  by (simp add: screened_def)

lemma find_lane_shrinks:
  assumes "i \<in> set (ex_pending s)"
  shows "wp (find_lane_or_remove tg i) (screened s) (\<lambda>_ _. True) s"
  unfolding find_lane_or_remove_def wp_scatch wp_sbind
proof (rule wp_kept [OF queue_find_lane])
  fix e s' assume "queue_kept s s'"
  then have "i \<in> set (ex_pending s')" and "pending_bound s' \<le> pending_bound s"
    using assms by (auto simp: queue_kept_def)
  then have "wp (remove_pending_error i e) (\<lambda>_. screened s (Removed True)) (\<lambda>_ _. True) s'"
    by (intro wp_mono [OF remove_shrinks]) (auto simp: screened_def)
  then show "if e = process_abort then True
    else wp (remove_pending_error i e) (\<lambda>x. wp (sret (Removed True)) (screened s) (\<lambda>_ _. True)) (\<lambda>_ _. True) s'"
    by simp
qed (auto simp: screened_def split: option.split)

lemma plan_base_shrinks:
  assumes "i \<in> set (ex_pending s)"
  shows "wp (plan_base_or_remove tg i)
    (\<lambda>planned s'. if planned then queue_kept s s' else pending_bound s' < pending_bound s) (\<lambda>_ _. True) s"
  unfolding plan_base_or_remove_def wp_scatch wp_sbind
proof (rule wp_kept [OF queue_plans(1)])
  fix e s' assume "queue_kept s s'"
  then have "i \<in> set (ex_pending s')" and "pending_bound s' \<le> pending_bound s"
    using assms by (auto simp: queue_kept_def)
  then have "wp (remove_pending_error i e) (\<lambda>_ s'. pending_bound s' < pending_bound s) (\<lambda>_ _. True) s'"
    by (intro wp_mono [OF remove_shrinks]) auto
  then show "if e = process_abort then True
    else wp (remove_pending_error i e) (\<lambda>x. wp (sret False) (\<lambda>planned s'. if planned then queue_kept s s'
      else pending_bound s' < pending_bound s) (\<lambda>_ _. True)) (\<lambda>_ _. True) s'"
    by simp
qed simp

lemma screen_shrinks:
  fixes s :: "('g, 'p, 'l, 'o) executor"
  assumes pending: "i \<in> set (ex_pending s)"
  shows "wp (screen_request tg is_head i) (screened s) (\<lambda>_ _. True) s"
proof -
  have erase: "wp (sbind (erase_pending i) (\<lambda>erased. if \<not> erased then sret (Removed False)
       else sbind (swhen is_head (clear_protection_if_head i)) (\<lambda>_. sbind (complete_cancelled tg i) (\<lambda>_.
            sbind publish_runtime_stats (\<lambda>_. sret (Removed True)))))) (screened s) (\<lambda>_ _. True) t"
    if "queue_kept s t" for t
    using that pending
    by (intro wp_mono [OF erase_then_shrinks] qk.preserves_intros queue_ops)
      (auto simp: queue_kept_def screened_def)
  have remove: "wp (remove_pending_error i e) (\<lambda>_. screened s (Removed True)) (\<lambda>_ _. True) t"
    if "queue_kept s t" for e t
    using that pending by (intro wp_mono [OF remove_shrinks]) (auto simp: queue_kept_def screened_def)
  have place: "wp (find_lane_or_remove tg i) (screened s) (\<lambda>_ _. True) t" if "queue_kept s t" for t
    using that pending by (intro wp_mono [OF find_lane_shrinks]) (auto simp: queue_kept_def screened_def)
  have plan: "wp (plan_base_or_remove tg i) (\<lambda>planned s'. if planned then queue_kept s s'
      else pending_bound s' < pending_bound s) (\<lambda>_ _. True) t" if "queue_kept s t" for t
    using that pending by (intro wp_mono [OF plan_base_shrinks]) (auto simp: queue_kept_def split: if_splits)
  show ?thesis
    unfolding screen_request_def
  proof (rule wp_seq_kept [OF queue_small(2)])
    fix cancelled and t :: "('g, 'p, 'l, 'o) executor"
    assume t: "queue_kept s t"
    have rest: "wp (sbind (gets (\<lambda>s. rq_deadline (request_at s i))) (\<lambda>deadline.
       if now_value \<ge> deadline then sbind (remove_pending_error i timeout_error) (\<lambda>_. sret (Removed True))
       else sbind (plan_base_or_remove tg i) (\<lambda>planned.
         if \<not> planned then sret (Removed True)
         else sbind (gets (\<lambda>s. admission_resources_fit
               (ps_admission (tg_summary tg (the (rq_base_plan (request_at s i))))) (ex_admission_capacity s))) (\<lambda>fit.
           if \<not> fit then sbind (remove_pending_error i capacity_error) (\<lambda>_. sret (Removed True))
           else find_lane_or_remove tg i)))) (screened s) (\<lambda>_ _. True) u"
      if u: "queue_kept s u" for u now_value
      using remove [OF u, of timeout_error]
      by (auto intro!: wp_mono [OF plan [OF u]] simp: remove place screened_removed split: if_splits)
    show "wp (if cancelled then sbind (erase_pending i) (\<lambda>erased. if \<not> erased then sret (Removed False)
       else sbind (swhen is_head (clear_protection_if_head i)) (\<lambda>_. sbind (complete_cancelled tg i) (\<lambda>_.
            sbind publish_runtime_stats (\<lambda>_. sret (Removed True)))))
     else sbind now (\<lambda>t. sbind (gets (\<lambda>s. rq_deadline (request_at s i))) (\<lambda>deadline.
       if t \<ge> deadline then sbind (remove_pending_error i timeout_error) (\<lambda>_. sret (Removed True))
       else sbind (plan_base_or_remove tg i) (\<lambda>planned.
         if \<not> planned then sret (Removed True)
         else sbind (gets (\<lambda>s. admission_resources_fit
               (ps_admission (tg_summary tg (the (rq_base_plan (request_at s i))))) (ex_admission_capacity s))) (\<lambda>fit.
           if \<not> fit then sbind (remove_pending_error i capacity_error) (\<lambda>_. sret (Removed True))
           else find_lane_or_remove tg i))))) (screened s) (\<lambda>_ _. True) t"
      by (cases cancelled, simp_all only: if_True if_False, rule erase [OF t])
        (rule wp_seq_kept [OF queue_small(1)], rule rest, erule qk.R_trans [OF t], simp)
  qed simp
qed

lemma admit_round_shrinks:
  fixes s :: "('g, 'p, 'l, 'o) executor"
  shows "wp (admit_round tg control)
    (\<lambda>step s'. (\<exists>c. step = Again c) \<longrightarrow> pending_bound s' < pending_bound s) (\<lambda>_ _. True) s"
proof -
  have "wp (sbind pending_snapshot (\<lambda>queued. sret queued)) (\<lambda>queued s'. queue_kept s s' \<and> queued = ex_pending s') (\<lambda>_ _. True) s"
    unfolding pending_snapshot_def atomically_def wp_sbind
    by (rule wp_kept [OF queue_kept_interleave]) simp_all
  then have snap: "wp pending_snapshot (\<lambda>queued s'. queue_kept s s' \<and> queued = ex_pending s') (\<lambda>_ _. True) s"
    by simp
  show ?thesis
    unfolding admit_round_def
  proof (rule wp_seq [OF snap])
    fix queued and t :: "('g, 'p, 'l, 'o) executor"
    assume t: "queue_kept s t \<and> queued = ex_pending t"
    show "wp (case queued of
       [] \<Rightarrow> sbind (modify (\<lambda>s. s\<lparr>ex_protection := None\<rparr>)) (\<lambda>_. sret (Answer (progress_of control)))
     | head # rest \<Rightarrow>
         sbind (drop_stale_protection head) (\<lambda>_.
         sbind (screen_request tg True head) (\<lambda>verdict.
         case verdict of
           Removed counted \<Rightarrow> sret (Again (control \<or> counted))
         | Blocked \<Rightarrow> sbind (protect_head tg head rest control) (\<lambda>p. sret (Answer p))
         | Placeable choice \<Rightarrow> sbind (admit_planned_request tg head choice NoBackfill 0) (\<lambda>p. sret (Answer p)))))
      (\<lambda>step s'. (\<exists>c. step = Again c) \<longrightarrow> pending_bound s' < pending_bound s) (\<lambda>_ _. True) t"
    proof (cases queued)
      case (Cons head rest)
      have "wp (sbind (screen_request tg True head) (\<lambda>verdict.
         case verdict of
           Removed counted \<Rightarrow> sret (Again (control \<or> counted))
         | Blocked \<Rightarrow> sbind (protect_head tg head rest control) (\<lambda>p. sret (Answer p))
         | Placeable choice \<Rightarrow> sbind (admit_planned_request tg head choice NoBackfill 0) (\<lambda>p. sret (Answer p))))
         (\<lambda>step s'. (\<exists>c. step = Again c) \<longrightarrow> pending_bound s' < pending_bound s) (\<lambda>_ _. True) u"
        if "queue_kept t u" for u
      proof (rule wp_seq [OF screen_shrinks])
        have "head \<in> set (ex_pending t)" using t Cons by (metis list.set_intros(1))
        then show "head \<in> set (ex_pending u)" using that by (auto simp: queue_kept_def)
        fix verdict v assume "screened u verdict v"
        moreover have "pending_bound u \<le> pending_bound s" using that t by (auto simp: queue_kept_def)
        ultimately show "wp (case verdict of
           Removed counted \<Rightarrow> sret (Again (control \<or> counted))
         | Blocked \<Rightarrow> sbind (protect_head tg head rest control) (\<lambda>p. sret (Answer p))
         | Placeable choice \<Rightarrow> sbind (admit_planned_request tg head choice NoBackfill 0) (\<lambda>p. sret (Answer p)))
         (\<lambda>step s'. (\<exists>c. step = Again c) \<longrightarrow> pending_bound s' < pending_bound s) (\<lambda>_ _. True) v"
          by (cases verdict) (auto simp: screened_def wp_True)
      qed
      then show ?thesis unfolding Cons list.case by (intro wp_seq_kept [OF queue_small(7)]) simp_all
    qed simp
  qed
qed

function try_admit_loop ::
  "('g, 'p, 'l, 'o) target \<Rightarrow> bool \<Rightarrow> ('g, 'p, 'l, 'o, admission_progress) exec" where
  "try_admit_loop tg control s =
     (case admit_round tg control s of
        (Inl e, s') \<Rightarrow> (Inl e, s')
      | (Inr (Answer progress), s') \<Rightarrow> (Inr progress, s')
      | (Inr (Again control'), s') \<Rightarrow> try_admit_loop tg control' s')"
  by pat_completeness auto

termination
proof (relation "measure (\<lambda>(tg, control, s). pending_bound s)")
  fix tg :: "('g, 'p, 'l, 'o) target" and control s r s' step control'
  assume "(r, s') = admit_round tg control s" "r = Inr step" "step = Again control'"
  then show "((tg, control', s'), (tg, control, s)) \<in> measure (\<lambda>(tg, control, s). pending_bound s)"
    using admit_round_shrinks [of tg control s] by (simp add: wp_def split: prod.splits)
qed simp

declare try_admit_loop.simps [simp del]

definition try_admit_one :: "('g, 'p, 'l, 'o) target \<Rightarrow> ('g, 'p, 'l, 'o, admission_progress) exec" where
  "try_admit_one tg = try_admit_loop tg False"

section \<open>Decode rounds\<close>

record row_outcome =
  ro_lane :: nat
  ro_request :: nat
  ro_tokens :: "int list"
  ro_cancelled :: bool
  ro_accepted :: u32
  ro_terminal :: bool
  ro_reason :: finish_reason

text \<open>The preview of one row: the licensed tokens and what the output policy accepts of them.\<close>

definition preview_row ::
  "('g, 'p, 'l, 'o) target \<Rightarrow> batched_round \<Rightarrow> nat \<times> nat \<times> bool \<Rightarrow> ('g, 'p, 'l, 'o, row_outcome) exec" where
  "preview_row tg rnd row_lane_cancelled =
     (case row_lane_cancelled of (row, lane, cancelled) \<Rightarrow>
      sbind (gets (\<lambda>s. the (ex_slots s ! lane))) (\<lambda>i.
      let cnt = (if br_row_counts rnd = [] then 1 else (word_of_int (br_row_counts rnd ! row) :: u32));
          stride = unat (br_row_stride rnd);
          row_tokens = take (unat cnt) (drop (row * stride) (br_tokens rnd)) in
      if cnt = 0 \<or> cnt > br_row_stride rnd
      then sthrow (logic_error ''decode batch returned an invalid licensed row extent'')
      else if cancelled then
        sbind (on_output i (tg_preview_terminal tg Cancelled)) (\<lambda>_.
        sret \<lparr>ro_lane = lane, ro_request = i, ro_tokens = [], ro_cancelled = True, ro_accepted = 0,
              ro_terminal = True, ro_reason = Cancelled\<rparr>)
      else
        sbind (gets (\<lambda>s. the (rq_budget (request_at s i)))) (\<lambda>budget.
        sbind (on_output i (tg_preview tg row_tokens (gb_remaining budget) (gb_limit_reason budget))) (\<lambda>decision.
        if dc_accepted_tokens decision = 0 \<or> dc_accepted_tokens decision > cnt \<or>
           (\<not> finished decision \<and> dc_accepted_tokens decision \<noteq> cnt)
        then sthrow (logic_error ''output policy returned an invalid licensed prefix'')
        else sret \<lparr>ro_lane = lane, ro_request = i,
               ro_tokens = take (unat (dc_accepted_tokens decision)) row_tokens, ro_cancelled = False,
               ro_accepted = dc_accepted_tokens decision, ro_terminal = finished decision,
               ro_reason = dc_finish_reason decision\<rparr>))))"

definition commit_row :: "('g, 'p, 'l, 'o) target \<Rightarrow> row_outcome \<Rightarrow> ('g, 'p, 'l, 'o, unit) exec" where
  "commit_row tg row =
     (let i = ro_request row in
      sbind (swhen (\<not> ro_cancelled row)
        (sbind (on_request i (\<lambda>r. r\<lparr>rq_generated := rq_generated r @ ro_tokens row\<rparr>)) (\<lambda>_.
         sbind (commit_budget i (ro_accepted row)) (\<lambda>_.
         consume_service_work i (ucast (ro_accepted row)))))) (\<lambda>_.
      sbind (on_output i (tg_commit_preview tg)) (\<lambda>published.
      sbind (swhen (ro_accepted row \<noteq> 0) (set_first_token i)) (\<lambda>_.
      sbind (append_output i published) (\<lambda>_.
      swhen (ro_terminal row)
        (sbind (complete_success tg i (ro_reason row)) (\<lambda>_. remove_completed_slot (ro_lane row))))))))"

definition run_decode_round ::
  "('g, 'p, 'l, 'o) target \<Rightarrow> (nat \<times> u32) list \<Rightarrow> ('g, 'p, 'l, 'o, unit) exec" where
  "run_decode_round tg membership =
     (let lanes = map fst membership in
      sbind (on_target (tg_decode_batch tg lanes (map snd membership))) (\<lambda>rnd.
      sbind (smap (\<lambda>lane. sbind (gets (\<lambda>s. the (ex_slots s ! lane))) load_cancelled) lanes) (\<lambda>cancelled.
      if br_row_stride rnd = 0 \<or>
         (br_row_counts rnd \<noteq> [] \<and> length (br_row_counts rnd) \<noteq> length lanes) \<or>
         length (br_tokens rnd) < unat (br_row_stride rnd) * length lanes
      then sthrow (logic_error ''decode batch returned an invalid ragged layout'')
      else
        sbind (smap (preview_row tg rnd) (zip [0..<length lanes] (zip lanes cancelled))) (\<lambda>rows.
        sbind (on_target (tg_resolve_pending_batch tg lanes (map ro_accepted rows) (map ro_terminal rows) cancelled)) (\<lambda>_.
        sbind (siter (commit_row tg) rows) (\<lambda>_.
        sbind (modify (\<lambda>s. let c = ex_cumulative_stats s in s\<lparr>ex_cumulative_stats := c\<lparr>
            st_decode_rounds := st_decode_rounds c + 1,
            st_decode_row_rounds := st_decode_row_rounds c + word_of_nat (length lanes),
            st_committed_decode_tokens := st_committed_decode_tokens c +
              word_of_nat (sum_list (map (\<lambda>row. if ro_cancelled row then 0 else unat (ro_accepted row)) rows))\<rparr>\<rparr>)) (\<lambda>_.
        publish_runtime_stats)))))))"

section \<open>Failure and the worker loop\<close>

definition fail_all :: "('g, 'p, 'l, 'o) target \<Rightarrow> exn \<Rightarrow> ('g, 'p, 'l, 'o, unit) exec" where
  "fail_all tg e =
     sbind (atomically (\<lambda>s. (Inr (ex_pending s), s\<lparr>ex_failed := True, ex_pending := []\<rparr>))) (\<lambda>pending.
     sbind (gets ex_prefill_lane) (\<lambda>prefill.
     sbind (swhen (prefill \<noteq> None) (sbind deactivate_memory (\<lambda>_. modify (\<lambda>s. s\<lparr>ex_prefill_lane := None\<rparr>)))) (\<lambda>_.
     sbind (modify (\<lambda>s. s\<lparr>ex_protection := None\<rparr>)) (\<lambda>_.
     sbind (gets lanes_of) (\<lambda>lanes.
     sbind (siter (\<lambda>lane. sbind (gets (\<lambda>s. ex_slots s ! lane)) (\<lambda>slot.
        case slot of
          None \<Rightarrow> sret ()
        | Some i \<Rightarrow>
            sbind (abort_lane tg lane) (\<lambda>_.
            sbind (complete_error i e) (\<lambda>_.
            clear_slot lane)))) lanes) (\<lambda>_.
     sbind (siter (\<lambda>i. complete_error i e) pending) (\<lambda>_.
     publish_runtime_stats)))))))"

definition idle :: "('g, 'p, 'l, 'o) executor \<Rightarrow> bool" where
  "idle s = (\<not> ex_stopping s \<and> ex_pending s = [] \<and> list_all (\<lambda>lane. ex_slots s ! lane = None) (lanes_of s))"

definition set_previous :: "bool \<Rightarrow> ('g, 'p, 'l, 'o, unit) exec" where
  "set_previous decode = modify (\<lambda>s. s\<lparr>ex_previous_unit_was_decode := decode\<rparr>)"

definition decode_unit :: "('g, 'p, 'l, 'o) target \<Rightarrow> (nat \<times> u32) list \<Rightarrow> ('g, 'p, 'l, 'o, unit) exec" where
  "decode_unit tg membership = sbind (run_decode_round tg membership) (\<lambda>_. set_previous True)"

text \<open>The guarded body of one iteration: expire, cancel, then one unit of work.\<close>

definition schedule_unit :: "('g, 'p, 'l, 'o) target \<Rightarrow> ('g, 'p, 'l, 'o, unit) exec" where
  "schedule_unit tg =
     sbind (expire_pending_requests tg) (\<lambda>have_pending.
     sbind snapshot_cancellations (\<lambda>cancelled_at_boundary.
     sbind (cancel_active_requests tg cancelled_at_boundary) (\<lambda>_.
     sbind build_round_membership (\<lambda>membership.
     sbind (gets (\<lambda>s. (ex_prefill_lane s, ex_previous_unit_was_decode s))) (\<lambda>(prefill, previous_decode).
     if prefill \<noteq> None then
       (if membership \<noteq> [] \<and> \<not> previous_decode then decode_unit tg membership
        else sbind (run_prefill_step tg) (\<lambda>_. set_previous False))
     else if have_pending \<and> (membership = [] \<or> previous_decode) then
       sbind (try_admit_one tg) (\<lambda>progress.
       if progress = RanGpuUnit then set_previous False
       else if progress = ControlProgress \<and> membership = [] then sret ()
       else if membership \<noteq> [] then decode_unit tg membership
       else sret ())
     else if membership \<noteq> [] then decode_unit tg membership
     else sret ())))))"

definition stop_worker :: "('g, 'p, 'l, 'o) target \<Rightarrow> exn \<Rightarrow> ('g, 'p, 'l, 'o, unit) exec" where
  "stop_worker tg e = sbind (fail_all tg e) (\<lambda>_. modify (\<lambda>s. s\<lparr>ex_worker_running := False\<rparr>))"

definition worker_iteration :: "('g, 'p, 'l, 'o) target \<Rightarrow> ('g, 'p, 'l, 'o, unit) exec" where
  "worker_iteration tg =
     sbind (atomically (gets ex_stopping)) (\<lambda>stopping.
     if stopping
     then stop_worker tg (request_error ''Unavailable'' ''inference engine is shutting down'')
     else scatch (schedule_unit tg) (stop_worker tg))"

section \<open>Completion is final\<close>

lemma final_try_admit_loop:
  fixes tg :: "('g, 'p, 'l, 'o) target"
  shows "preserves worker_kept (try_admit_loop tg control)"
proof -
  have "worker_kept s (snd (try_admit_loop tg control s))" for s :: "('g, 'p, 'l, 'o) executor"
  proof (induction tg control s rule: try_admit_loop.induct)
    case (1 tg control s)
    have "worker_kept s (snd (admit_round tg control s))"
      by (rule preservesD) (rule final_ops)
    with 1 show ?case
      by (subst try_admit_loop.simps)
        (auto split: prod.split sum.split admit_step.split intro: fin.R_trans)
  qed
  then show ?thesis unfolding preserves_def by blast
qed

lemma final_try_admit_one [final_ops]: "preserves worker_kept (try_admit_one tg)"
  unfolding try_admit_one_def by (rule final_try_admit_loop)

lemma final_set_previous [final_ops]: "preserves worker_kept (set_previous b)"
  unfolding set_previous_def by (rule final_modify) simp

lemma final_decode [final_ops]: "preserves worker_kept (run_decode_round tg membership)"
  unfolding run_decode_round_def preview_row_def commit_row_def Let_def
  by (intro final_prims final_ops) (simp_all add: settled_def)

lemma final_fail_all [final_ops]: "preserves worker_kept (fail_all tg e)"
  unfolding fail_all_def by (intro final_prims final_ops) (auto simp: preserves_def intro: final_same_requests)

lemma final_schedule_unit [final_ops]: "preserves worker_kept (schedule_unit tg)"
  unfolding schedule_unit_def decode_unit_def by (intro final_prims final_ops)

lemma final_stop_worker: "completion_final s (snd (stop_worker tg e s))"
proof -
  have "completion_final t (snd (fail_all tg e t))" for t
    using preservesD [OF final_fail_all, of t] by (simp add: worker_kept_def)
  from this [of s] show ?thesis
    by (auto simp: stop_worker_def sbind_def modify_def completion_final_def split: prod.split sum.split)
qed

lemma final_worker: "completion_final s (snd (worker_iteration tg s))"
proof -
  have start: "completion_final s (snd (atomically (gets ex_stopping) s))"
    using preservesD [OF final_atomically [OF fin.preserves_gets], of s ex_stopping] by (simp add: worker_kept_def)
  have unit: "completion_final t (snd (scatch (schedule_unit tg) (stop_worker tg) t))" for t
    using preservesD [OF final_schedule_unit, of t tg]
    by (auto simp: scatch_def worker_kept_def intro: completion_final_trans [OF _ final_stop_worker]
        split: prod.split sum.split)
  show ?thesis
    using start unfolding worker_iteration_def sbind_def
    by (auto intro: completion_final_trans [OF _ final_stop_worker] completion_final_trans [OF _ unit]
        split: prod.split sum.split)
qed

end
