(* ===== verification/Executor_Inv.thy ===== *)
theory Executor_Inv
  imports Worker Transitions
begin

text \<open>
  The invariant of the executor. Every accepted request is in exactly one place: in the
  queue, in one lane, or completed; a set \<open>F\<close> names the requests the worker holds only in a
  local variable at this moment. Every unit of \<open>outstanding_\<close> belongs to a submission in
  progress, a release in progress or a request whose capacity was not given back.
\<close>

definition req_core :: "('p, 'l, 'o) request \<Rightarrow> bool \<times> bool \<times> bool \<times> nat option \<times> bool \<times> bool" where
  "req_core r = (rq_done r, rq_consumer_released r, rq_capacity_released r, rq_lane r, rq_decode_ready r,
     rq_budget r = None)"

definition charged :: "('g, 'p, 'l, 'o) executor \<Rightarrow> nat set" where
  "charged s = {i. i < length (ex_requests s) \<and> \<not> rq_capacity_released (request_at s i)}"

definition capacity_inv :: "nat set \<Rightarrow> ('g, 'p, 'l, 'o) executor \<Rightarrow> bool" where
  "capacity_inv F s = (
     ex_outstanding s = length (ex_submitting s) + ex_releasing s + card (charged s) \<and>
     ex_outstanding s \<le> ex_max_outstanding s \<and>
     (\<forall>i < length (ex_requests s). rq_capacity_released (request_at s i) \<longrightarrow>
        rq_done (request_at s i) \<and> rq_consumer_released (request_at s i)) \<and>
     (\<forall>i < length (ex_requests s). i \<notin> F \<longrightarrow> rq_done (request_at s i) \<longrightarrow>
        rq_consumer_released (request_at s i) \<longrightarrow> rq_capacity_released (request_at s i)))"

definition queue_inv :: "nat set \<Rightarrow> ('g, 'p, 'l, 'o) executor \<Rightarrow> bool" where
  "queue_inv F s = (distinct (ex_pending s) \<and>
     (\<forall>i \<in> set (ex_pending s). i < length (ex_requests s) \<and> i \<notin> F \<and> \<not> rq_done (request_at s i) \<and>
        \<not> rq_decode_ready (request_at s i)))"

definition lane_inv :: "nat set \<Rightarrow> ('g, 'p, 'l, 'o) executor \<Rightarrow> bool" where
  "lane_inv F s = (length (ex_slots s) = kMaximumConcurrency \<and> ex_max_concurrency s \<le> kMaximumConcurrency \<and>
     (\<forall>lane < kMaximumConcurrency. \<forall>i. ex_slots s ! lane = Some i \<longrightarrow>
        lane < ex_max_concurrency s \<and> i < length (ex_requests s) \<and> i \<notin> set (ex_pending s) \<and>
        rq_lane (request_at s i) = Some lane \<and> rq_budget (request_at s i) \<noteq> None \<and>
        (i \<notin> F \<longrightarrow> \<not> rq_done (request_at s i))) \<and>
     (\<forall>lane. ex_prefill_lane s = Some lane \<longrightarrow> lane < ex_max_concurrency s \<and>
        (\<exists>i. ex_slots s ! lane = Some i \<and> \<not> rq_decode_ready (request_at s i))))"

definition placed_inv :: "nat set \<Rightarrow> ('g, 'p, 'l, 'o) executor \<Rightarrow> bool" where
  "placed_inv F s = (F \<subseteq> {..<length (ex_requests s)} \<and>
     (\<forall>i < length (ex_requests s). rq_done (request_at s i) \<or> i \<in> set (ex_pending s) \<or> i \<in> F \<or>
        Some i \<in> set (ex_slots s)))"

definition exec_inv :: "nat set \<Rightarrow> ('g, 'p, 'l, 'o) executor \<Rightarrow> bool" where
  "exec_inv F s = (capacity_inv F s \<and> queue_inv F s \<and> lane_inv F s \<and> placed_inv F s)"

lemmas exec_inv_defs = exec_inv_def capacity_inv_def queue_inv_def lane_inv_def placed_inv_def

text \<open>\<open>closed i s\<close>: the request is completed and its capacity, if its consumer is gone, given back.\<close>

definition closed :: "nat \<Rightarrow> ('g, 'p, 'l, 'o) executor \<Rightarrow> bool" where
  "closed i s = (rq_done (request_at s i) \<and>
     (rq_consumer_released (request_at s i) \<longrightarrow> rq_capacity_released (request_at s i)))"

text \<open>\<open>in_flight i s\<close>: an incomplete request the worker has taken out of the queue.\<close>

definition in_flight :: "nat \<Rightarrow> ('g, 'p, 'l, 'o) executor \<Rightarrow> bool" where
  "in_flight i s = (i < length (ex_requests s) \<and> i \<notin> set (ex_pending s) \<and> \<not> rq_done (request_at s i) \<and>
     \<not> rq_decode_ready (request_at s i) \<and> Some i \<notin> set (ex_slots s))"

text \<open>
  \<open>evolves D L s s'\<close>: from \<open>s\<close> to \<open>s'\<close> only the requests in \<open>D\<close> and the lanes in \<open>L\<close> changed,
  new requests came in at the end of the queue, and closed requests stayed closed.
\<close>

definition evolves :: "nat set \<Rightarrow> nat set \<Rightarrow> ('g, 'p, 'l, 'o) executor \<Rightarrow> ('g, 'p, 'l, 'o) executor \<Rightarrow> bool" where
  "evolves D L s s' = (
     length (ex_requests s) \<le> length (ex_requests s') \<and>
     ex_max_concurrency s' = ex_max_concurrency s \<and>
     length (ex_slots s') = length (ex_slots s) \<and>
     (\<forall>lane. lane \<notin> L \<longrightarrow> ex_slots s' ! lane = ex_slots s ! lane) \<and>
     (\<forall>lane. lane \<notin> L \<longrightarrow> (ex_prefill_lane s' = Some lane) = (ex_prefill_lane s = Some lane)) \<and>
     (\<exists>new. (\<forall>i \<in> set new. length (ex_requests s) \<le> i) \<and> set (ex_pending s') \<subseteq> set (ex_pending s @ new) \<and>
        filter (\<lambda>i. i \<notin> D) (ex_pending s') = filter (\<lambda>i. i \<notin> D) (ex_pending s @ new)) \<and>
     (\<forall>i < length (ex_requests s). closed i s \<longrightarrow> closed i s') \<and>
     (\<forall>i < length (ex_requests s). i \<notin> D \<longrightarrow>
        rq_done (request_at s' i) = rq_done (request_at s i) \<and>
        rq_lane (request_at s' i) = rq_lane (request_at s i) \<and>
        rq_decode_ready (request_at s' i) = rq_decode_ready (request_at s i) \<and>
        (rq_budget (request_at s' i) = None) = (rq_budget (request_at s i) = None)))"

lemma evolves_refl [simp]: "evolves D L s s"
  unfolding evolves_def by (auto intro: exI [of _ "[]"])

lemma filter_notin_mono:
  assumes "filter (\<lambda>i. i \<notin> A) xs = filter (\<lambda>i. i \<notin> A) ys" "A \<subseteq> D"
  shows "filter (\<lambda>i. i \<notin> D) xs = filter (\<lambda>i. i \<notin> D) ys"
proof -
  have "filter (\<lambda>i. i \<notin> D) zs = filter (\<lambda>i. i \<notin> D) (filter (\<lambda>i. i \<notin> A) zs)" for zs
    using assms(2) by (auto intro!: filter_cong)
  then show ?thesis using assms(1) by metis
qed

lemma evolves_comp:
  assumes "evolves D1 L1 s t" "evolves D2 L2 t u" "D1 \<union> D2 \<subseteq> D" "L1 \<union> L2 \<subseteq> L"
  shows "evolves D L s u"
proof -
  from assms(1) obtain n1 where n1: "\<forall>i \<in> set n1. length (ex_requests s) \<le> i"
    "set (ex_pending t) \<subseteq> set (ex_pending s @ n1)"
    "filter (\<lambda>i. i \<notin> D1) (ex_pending t) = filter (\<lambda>i. i \<notin> D1) (ex_pending s @ n1)"
    unfolding evolves_def by blast
  from assms(2) obtain n2 where n2: "\<forall>i \<in> set n2. length (ex_requests t) \<le> i"
    "set (ex_pending u) \<subseteq> set (ex_pending t @ n2)"
    "filter (\<lambda>i. i \<notin> D2) (ex_pending u) = filter (\<lambda>i. i \<notin> D2) (ex_pending t @ n2)"
    unfolding evolves_def by blast
  have le: "length (ex_requests s) \<le> length (ex_requests t)" using assms(1) by (simp add: evolves_def)
  have D: "D1 \<subseteq> D" "D2 \<subseteq> D" using assms(3) by auto
  have "filter (\<lambda>i. i \<notin> D) (ex_pending u) = filter (\<lambda>i. i \<notin> D) (ex_pending t @ n2)"
    by (rule filter_notin_mono [OF n2(3) D(2)])
  also have "\<dots> = filter (\<lambda>i. i \<notin> D) (ex_pending s @ n1 @ n2)"
    using filter_notin_mono [OF n1(3) D(1)] by simp
  finally have "filter (\<lambda>i. i \<notin> D) (ex_pending u) = filter (\<lambda>i. i \<notin> D) (ex_pending s @ n1 @ n2)" .
  moreover have "\<forall>i \<in> set (n1 @ n2). length (ex_requests s) \<le> i" using n1(1) n2(1) le by fastforce
  moreover have "set (ex_pending u) \<subseteq> set (ex_pending s @ n1 @ n2)" using n1(2) n2(2) by auto
  ultimately have "\<exists>new. (\<forall>i \<in> set new. length (ex_requests s) \<le> i) \<and> set (ex_pending u) \<subseteq> set (ex_pending s @ new) \<and>
      filter (\<lambda>i. i \<notin> D) (ex_pending u) = filter (\<lambda>i. i \<notin> D) (ex_pending s @ new)"
    by blast
  moreover have "length (ex_requests s) \<le> length (ex_requests u)" "i < length (ex_requests t)"
    if "i < length (ex_requests s)" for i
    using that assms(1,2) by (auto simp: evolves_def)
  moreover have "lane \<notin> L1" "lane \<notin> L2" if "lane \<notin> L" for lane using that assms(4) by auto
  moreover have "i \<notin> D1" "i \<notin> D2" if "i \<notin> D" for i using that assms(3) by auto
  ultimately show ?thesis
    using assms(1,2) unfolding evolves_def by auto
qed

lemma evolves_mono: "evolves D1 L1 s t \<Longrightarrow> D1 \<subseteq> D \<Longrightarrow> L1 \<subseteq> L \<Longrightarrow> evolves D L s t"
  by (rule evolves_comp [OF _ evolves_refl [of "{}" "{}"]]) auto

lemma evolves_request:
  assumes "evolves D L s t" "i < length (ex_requests s)"
  shows "i < length (ex_requests t)"
    and "closed i s \<Longrightarrow> closed i t"
    and "i \<notin> D \<Longrightarrow> rq_done (request_at t i) = rq_done (request_at s i)"
    and "i \<notin> D \<Longrightarrow> rq_lane (request_at t i) = rq_lane (request_at s i)"
    and "i \<notin> D \<Longrightarrow> rq_decode_ready (request_at t i) = rq_decode_ready (request_at s i)"
    and "i \<notin> D \<Longrightarrow> (rq_budget (request_at t i) = None) = (rq_budget (request_at s i) = None)"
  using assms by (simp_all add: evolves_def)

lemma evolves_lanes:
  assumes "evolves D L s t"
  shows "ex_max_concurrency t = ex_max_concurrency s" and "length (ex_slots t) = length (ex_slots s)"
    and "lane \<notin> L \<Longrightarrow> ex_slots t ! lane = ex_slots s ! lane"
    and "lane \<notin> L \<Longrightarrow> (ex_prefill_lane t = Some lane) = (ex_prefill_lane s = Some lane)"
  using assms by (simp_all add: evolves_def)

lemma evolves_no_lanes:
  assumes "evolves D {} s t"
  shows "ex_slots t = ex_slots s" and "ex_prefill_lane t = ex_prefill_lane s"
  using evolves_lanes [OF assms] by (auto intro: nth_equalityI) (metis not_Some_eq)

lemma evolves_queue:
  assumes "evolves D L s t"
  shows "i \<in> set (ex_pending s) \<Longrightarrow> i \<notin> D \<Longrightarrow> i \<in> set (ex_pending t)"
    and "i < length (ex_requests s) \<Longrightarrow> i \<notin> set (ex_pending s) \<Longrightarrow> i \<notin> set (ex_pending t)"
proof -
  from assms obtain new where new: "\<forall>i \<in> set new. length (ex_requests s) \<le> i"
    "set (ex_pending t) \<subseteq> set (ex_pending s @ new)"
    "filter (\<lambda>i. i \<notin> D) (ex_pending t) = filter (\<lambda>i. i \<notin> D) (ex_pending s @ new)"
    unfolding evolves_def by blast
  from arg_cong [OF new(3), of set] show "i \<in> set (ex_pending s) \<Longrightarrow> i \<notin> D \<Longrightarrow> i \<in> set (ex_pending t)"
    by auto
  from new(1,2) show "i < length (ex_requests s) \<Longrightarrow> i \<notin> set (ex_pending s) \<Longrightarrow> i \<notin> set (ex_pending t)"
    by fastforce
qed

lemma evolves_in_flight:
  "evolves D {} s t \<Longrightarrow> i \<notin> D \<Longrightarrow> in_flight i s \<Longrightarrow> in_flight i t"
  using evolves_queue(2) [of D "{}" s t i] evolves_request [of D "{}" s t i] evolves_no_lanes(1) [of D s t]
  by (simp add: in_flight_def)

subsection \<open>The invariant and the requests in flight\<close>

lemma inv_insert:
  assumes "exec_inv F s" "i < length (ex_requests s)" "i \<notin> set (ex_pending s)"
  shows "exec_inv (insert i F) s"
  using assms by (auto simp: exec_inv_defs)

lemma inv_remove:
  assumes "exec_inv (insert i F) s" "closed i s" "Some i \<notin> set (ex_slots s)"
  shows "exec_inv F s"
proof -
  have other: "j \<noteq> i" if "lane < kMaximumConcurrency" "ex_slots s ! lane = Some j" for lane j
    using that assms(1,3) nth_mem [of lane "ex_slots s"] by (auto simp: exec_inv_def lane_inv_def)
  have "capacity_inv F s" using assms(1,2) by (auto simp: exec_inv_def capacity_inv_def closed_def)
  moreover have "queue_inv F s" using assms(1) by (auto simp: exec_inv_def queue_inv_def)
  moreover have "lane_inv F s"
    using assms(1) other unfolding exec_inv_def lane_inv_def by blast
  moreover have "placed_inv F s" using assms(1,2) by (auto simp: exec_inv_def placed_inv_def closed_def)
  ultimately show ?thesis by (simp add: exec_inv_def)
qed

lemma inv_slot:
  assumes "exec_inv F s" "ex_slots s ! lane = Some i" "lane < kMaximumConcurrency"
  shows "lane < ex_max_concurrency s" "i < length (ex_requests s)" "i \<notin> set (ex_pending s)"
    "rq_lane (request_at s i) = Some lane" "rq_budget (request_at s i) \<noteq> None"
    "i \<notin> F \<Longrightarrow> \<not> rq_done (request_at s i)" "Some i \<in> set (ex_slots s)"
  using assms nth_mem [of lane "ex_slots s"] by (auto simp: exec_inv_def lane_inv_def)

lemma inv_lane_unique:
  assumes "exec_inv F s" "ex_slots s ! lane = Some i" "ex_slots s ! lane' = Some i"
    "lane < kMaximumConcurrency" "lane' < kMaximumConcurrency"
  shows "lane = lane'"
  using inv_slot(4) [OF assms(1,2,4)] inv_slot(4) [OF assms(1,3,5)] by simp

lemma inv_lengths:
  assumes "exec_inv F s"
  shows "length (ex_slots s) = kMaximumConcurrency" "ex_max_concurrency s \<le> kMaximumConcurrency"
    "F \<subseteq> {..<length (ex_requests s)}" "distinct (ex_pending s)"
  using assms by (auto simp: exec_inv_defs)

lemma inv_pending:
  assumes "exec_inv F s" "i \<in> set (ex_pending s)"
  shows "i < length (ex_requests s)" "i \<notin> F" "\<not> rq_done (request_at s i)" "\<not> rq_decode_ready (request_at s i)"
    "Some i \<notin> set (ex_slots s)"
proof -
  show "i < length (ex_requests s)" "i \<notin> F" "\<not> rq_done (request_at s i)" "\<not> rq_decode_ready (request_at s i)"
    using assms by (auto simp: exec_inv_def queue_inv_def)
  show "Some i \<notin> set (ex_slots s)"
  proof
    assume "Some i \<in> set (ex_slots s)"
    then obtain lane where "lane < kMaximumConcurrency" "ex_slots s ! lane = Some i"
      using inv_lengths(1) [OF assms(1)] by (auto simp: in_set_conv_nth)
    then show False using inv_slot(3) [OF assms(1)] assms(2) by blast
  qed
qed

lemma inv_prefill:
  assumes "exec_inv F s" "ex_prefill_lane s = Some lane"
  obtains i where "lane < ex_max_concurrency s" "lane < kMaximumConcurrency" "ex_slots s ! lane = Some i"
    "i < length (ex_requests s)" "\<not> rq_decode_ready (request_at s i)"
proof -
  from assms obtain i where i: "lane < ex_max_concurrency s" "ex_slots s ! lane = Some i"
      "\<not> rq_decode_ready (request_at s i)"
    by (auto simp: exec_inv_def lane_inv_def)
  moreover have lane: "lane < kMaximumConcurrency" using i(1) inv_lengths(2) [OF assms(1)] by simp
  ultimately show thesis using that inv_slot(2) [OF assms(1) i(2) lane] by blast
qed

lemma lane_invI:
  assumes "length (ex_slots s) = kMaximumConcurrency" "ex_max_concurrency s \<le> kMaximumConcurrency"
    and "\<And>lane i. lane < kMaximumConcurrency \<Longrightarrow> ex_slots s ! lane = Some i \<Longrightarrow>
        lane < ex_max_concurrency s \<and> i < length (ex_requests s) \<and> i \<notin> set (ex_pending s) \<and>
        rq_lane (request_at s i) = Some lane \<and> rq_budget (request_at s i) \<noteq> None \<and>
        (i \<notin> F \<longrightarrow> \<not> rq_done (request_at s i))"
    and "\<And>lane. ex_prefill_lane s = Some lane \<Longrightarrow> lane < ex_max_concurrency s \<and>
        (\<exists>i. ex_slots s ! lane = Some i \<and> \<not> rq_decode_ready (request_at s i))"
  shows "lane_inv F s"
  using assms unfolding lane_inv_def by blast

subsection \<open>Steps that leave the invariant's part of the state alone\<close>

definition same_core :: "('g, 'p, 'l, 'o) executor \<Rightarrow> ('g, 'p, 'l, 'o) executor \<Rightarrow> bool" where
  "same_core s s' = (ex_max_concurrency s' = ex_max_concurrency s \<and> ex_max_outstanding s' = ex_max_outstanding s \<and>
     ex_pending s' = ex_pending s \<and> ex_outstanding s' = ex_outstanding s \<and> ex_slots s' = ex_slots s \<and>
     ex_prefill_lane s' = ex_prefill_lane s \<and> ex_submitting s' = ex_submitting s \<and>
     ex_releasing s' = ex_releasing s \<and> length (ex_requests s') = length (ex_requests s) \<and>
     (\<forall>i < length (ex_requests s). req_core (request_at s' i) = req_core (request_at s i)))"

definition calm :: "('g, 'p, 'l, 'o) executor \<Rightarrow> ('g, 'p, 'l, 'o) executor \<Rightarrow> bool" where
  "calm s s' = (evolves {} {} s s' \<and> (\<forall>F. exec_inv F s \<longrightarrow> exec_inv F s'))"

interpretation cm: kept_relation calm
  by unfold_locales (auto simp: calm_def intro: evolves_comp)

lemma same_core_charged: "same_core s s' \<Longrightarrow> charged s' = charged s"
  by (auto simp: same_core_def charged_def req_core_def)

lemma same_core_calm:
  assumes "same_core s s'"
  shows "calm s s'"
proof -
  have "evolves {} {} s s'"
    using assms by (auto simp: same_core_def evolves_def closed_def req_core_def intro: exI [of _ "[]"])
  moreover have "exec_inv F s'" if inv: "exec_inv F s" for F
  proof -
    have core: "rq_done (request_at s' i) = rq_done (request_at s i)"
      "rq_consumer_released (request_at s' i) = rq_consumer_released (request_at s i)"
      "rq_capacity_released (request_at s' i) = rq_capacity_released (request_at s i)"
      "rq_lane (request_at s' i) = rq_lane (request_at s i)"
      "rq_decode_ready (request_at s' i) = rq_decode_ready (request_at s i)"
      "(rq_budget (request_at s' i) = None) = (rq_budget (request_at s i) = None)"
      if "i < length (ex_requests s)" for i
      using assms that by (simp_all add: same_core_def req_core_def)
    note fields = assms [unfolded same_core_def] same_core_charged [OF assms] core
    have "capacity_inv F s'" using inv fields by (simp add: exec_inv_def capacity_inv_def)
    moreover have "queue_inv F s'" using inv fields by (simp add: exec_inv_def queue_inv_def)
    moreover have "placed_inv F s'" using inv fields by (simp add: exec_inv_def placed_inv_def)
    moreover have "lane_inv F s'"
    proof (rule lane_invI)
      fix lane i assume "lane < kMaximumConcurrency" "ex_slots s' ! lane = Some i"
      then show "lane < ex_max_concurrency s' \<and> i < length (ex_requests s') \<and> i \<notin> set (ex_pending s') \<and>
        rq_lane (request_at s' i) = Some lane \<and> rq_budget (request_at s' i) \<noteq> None \<and>
        (i \<notin> F \<longrightarrow> \<not> rq_done (request_at s' i))"
        using inv_slot [OF inv, of lane i] fields by simp
    next
      fix lane assume "ex_prefill_lane s' = Some lane"
      then have "ex_prefill_lane s = Some lane" using fields by simp
      from inv_prefill [OF inv this] show "lane < ex_max_concurrency s' \<and>
          (\<exists>i. ex_slots s' ! lane = Some i \<and> \<not> rq_decode_ready (request_at s' i))"
        using fields by metis
    qed (use inv_lengths [OF inv] fields in simp_all)
    ultimately show ?thesis by (simp add: exec_inv_def)
  qed
  ultimately show ?thesis by (simp add: calm_def)
qed

subsection \<open>Other threads keep the invariant\<close>

lemma update_request_other [simp]:
  "ex_max_concurrency (update_request i f s) = ex_max_concurrency s"
  "ex_max_outstanding (update_request i f s) = ex_max_outstanding s"
  "ex_admission_capacity (update_request i f s) = ex_admission_capacity s"
  "ex_outstanding (update_request i f s) = ex_outstanding s"
  "ex_slots (update_request i f s) = ex_slots s"
  "ex_prefill_lane (update_request i f s) = ex_prefill_lane s"
  "ex_lane_plan_versions (update_request i f s) = ex_lane_plan_versions s"
  "ex_protection (update_request i f s) = ex_protection s"
  "ex_failed (update_request i f s) = ex_failed s"
  "ex_stopping (update_request i f s) = ex_stopping s"
  "ex_submitting (update_request i f s) = ex_submitting s"
  "ex_releasing (update_request i f s) = ex_releasing s"
  "ex_worker_running (update_request i f s) = ex_worker_running s"
  "ex_memory (update_request i f s) = ex_memory s"
  "ex_target (update_request i f s) = ex_target s"
  by (simp_all add: update_request_def)

lemma same_core_update:
  "(\<And>r. req_core (f r) = req_core r) \<Longrightarrow> same_core s (update_request i f s)"
  by (simp add: same_core_def)

text \<open>A change of the counters only.\<close>

lemma counters_calm:
  assumes "ex_requests s' = ex_requests s" "ex_pending s' = ex_pending s" "ex_slots s' = ex_slots s"
    "ex_prefill_lane s' = ex_prefill_lane s" "ex_max_concurrency s' = ex_max_concurrency s"
    and "\<And>F. capacity_inv F s \<Longrightarrow> capacity_inv F s'"
  shows "calm s s'"
proof -
  have at: "request_at s' = request_at s" using assms(1) by (rule request_at_cong)
  have "evolves {} {} s s'" using assms at by (auto simp: evolves_def closed_def intro: exI [of _ "[]"])
  then show ?thesis
    using assms at by (simp add: calm_def exec_inv_def queue_inv_def lane_inv_def placed_inv_def)
qed

lemma calm_reserve: "calm s (snd (submit_reserve deadline s))"
  by (rule counters_calm) (auto simp: submit_reserve_def Let_def capacity_inv_def charged_def)

lemma calm_abort: "calm s (submit_abort s)"
  by (rule counters_calm)
    (auto simp: submit_abort_def release_reserved_capacity_def capacity_inv_def charged_def split: list.split)

lemma calm_finish_release: "ex_releasing s > 0 \<Longrightarrow> calm s (finish_release s)"
  by (rule counters_calm)
    (auto simp: finish_release_def release_reserved_capacity_def capacity_inv_def charged_def)

lemma charged_append:
  "\<not> rq_capacity_released r \<Longrightarrow>
   charged (s\<lparr>ex_submitting := v, ex_requests := ex_requests s @ [r], ex_pending := p\<rparr>)
     = insert (length (ex_requests s)) (charged s)"
  by (auto simp: charged_def request_at_def nth_append)

lemma finite_charged [simp]: "finite (charged s)"
  by (simp add: charged_def)

lemma calm_push_new:
  assumes "ex_submitting s = identity # rest"
  shows "calm s (s\<lparr>ex_submitting := rest,
      ex_requests := ex_requests s @ [make_request identity prompt out deadline submitted],
      ex_pending := ex_pending s @ [length (ex_requests s)]\<rparr>)" (is "calm s ?t")
proof -
  have old: "request_at ?t i = request_at s i" if "i < length (ex_requests s)" for i
    using that by (simp add: request_at_def nth_append)
  have new: "request_at ?t (length (ex_requests s)) = make_request identity prompt out deadline submitted"
    by (simp add: request_at_def nth_append)
  have len: "length (ex_requests ?t) = Suc (length (ex_requests s))" by simp
  have fresh: "length (ex_requests s) \<notin> charged s" by (simp add: charged_def)
  have "evolves {} {} s ?t"
    using old by (auto simp: evolves_def closed_def intro!: exI [of _ "[length (ex_requests s)]"])
  moreover have "exec_inv F ?t" if inv: "exec_inv F s" for F
  proof -
    have F: "length (ex_requests s) \<notin> F" using inv_lengths(3) [OF inv] by auto
    have "capacity_inv F ?t"
      using inv old new fresh assms unfolding exec_inv_def capacity_inv_def len less_Suc_eq
      by (auto simp: charged_append make_request_def)
    moreover have "queue_inv F ?t"
      using inv old new F unfolding exec_inv_def queue_inv_def
      by (auto simp: make_request_def)
    moreover have "placed_inv F ?t"
      using inv old new unfolding exec_inv_def placed_inv_def len less_Suc_eq by auto
    moreover have "lane_inv F ?t"
    proof (rule lane_invI)
      fix lane i assume "lane < kMaximumConcurrency" "ex_slots ?t ! lane = Some i"
      then show "lane < ex_max_concurrency ?t \<and> i < length (ex_requests ?t) \<and> i \<notin> set (ex_pending ?t) \<and>
        rq_lane (request_at ?t i) = Some lane \<and> rq_budget (request_at ?t i) \<noteq> None \<and>
        (i \<notin> F \<longrightarrow> \<not> rq_done (request_at ?t i))"
        using inv_slot [OF inv, of lane i] old by auto
    next
      fix lane assume "ex_prefill_lane ?t = Some lane"
      then have "ex_prefill_lane s = Some lane" by simp
      from inv_prefill [OF inv this] obtain i where "lane < ex_max_concurrency s" "ex_slots s ! lane = Some i"
        "i < length (ex_requests s)" "\<not> rq_decode_ready (request_at s i)" by blast
      then show "lane < ex_max_concurrency ?t \<and>
          (\<exists>i. ex_slots ?t ! lane = Some i \<and> \<not> rq_decode_ready (request_at ?t i))"
        using old [of i] by auto
    qed (use inv_lengths [OF inv] in simp_all)
    ultimately show ?thesis by (simp add: exec_inv_def)
  qed
  ultimately show ?thesis by (simp add: calm_def)
qed

lemma calm_push: "calm s (submit_push prompt out deadline submitted s)"
proof (cases "ex_submitting s")
  case (Cons identity rest)
  show ?thesis
  proof (cases "ex_stopping s \<or> ex_failed s")
    case True
    then show ?thesis using Cons
      by (intro counters_calm) (auto simp: submit_push_def capacity_inv_def charged_def)
  next
    case False
    then show ?thesis using Cons calm_push_new [OF Cons] by (simp add: submit_push_def)
  qed
qed (simp add: submit_push_def cm.R_refl)

lemma calm_update: "(\<And>r. req_core (f r) = req_core r) \<Longrightarrow> calm s (update_request i f s)"
  by (rule same_core_calm) (rule same_core_update)

text \<open>A change of one request's release flags, with the charge moved to a release in progress.\<close>

lemma calm_release:
  assumes i: "i < length (ex_requests s)"
    and f: "\<And>r. rq_done (f r) = rq_done r" "\<And>r. rq_lane (f r) = rq_lane r"
      "\<And>r. rq_decode_ready (f r) = rq_decode_ready r" "\<And>r. rq_budget (f r) = rq_budget r"
    and t: "t = (update_request i f s)\<lparr>ex_releasing := ex_releasing s + k\<rparr>"
    and k: "k = (if rq_capacity_released (f (request_at s i)) \<and> \<not> rq_capacity_released (request_at s i) then 1 else 0)"
    and mono: "rq_capacity_released (request_at s i) \<Longrightarrow> rq_capacity_released (f (request_at s i))"
      "rq_consumer_released (request_at s i) \<Longrightarrow> rq_consumer_released (f (request_at s i))"
    and rel: "rq_capacity_released (f (request_at s i)) \<Longrightarrow> rq_capacity_released (request_at s i) \<or>
      (rq_done (request_at s i) \<and> rq_consumer_released (f (request_at s i)))"
    and full: "rq_done (request_at s i) \<Longrightarrow> rq_consumer_released (f (request_at s i)) \<Longrightarrow>
      (rq_consumer_released (request_at s i) \<Longrightarrow> rq_capacity_released (request_at s i)) \<Longrightarrow>
      rq_capacity_released (f (request_at s i))"
  shows "calm s t"
proof -
  have at: "request_at t j = (if j = i then f (request_at s j) else request_at s j)"
    if "j < length (ex_requests s)" for j using that t by simp
  have len: "length (ex_requests t) = length (ex_requests s)" using t by simp
  have other: "ex_pending t = ex_pending s" "ex_slots t = ex_slots s" "ex_prefill_lane t = ex_prefill_lane s"
    "ex_max_concurrency t = ex_max_concurrency s" "ex_outstanding t = ex_outstanding s"
    "ex_submitting t = ex_submitting s" "ex_max_outstanding t = ex_max_outstanding s"
    "ex_releasing t = ex_releasing s + k"
    using t by simp_all
  have ev: "evolves {} {} s t"
    unfolding evolves_def using other len at f mono full by (auto simp: closed_def intro: exI [of _ "[]"])
  have charged: "card (charged t) + k = card (charged s)"
  proof (cases "rq_capacity_released (f (request_at s i)) \<and> \<not> rq_capacity_released (request_at s i)")
    case True
    have "j \<in> charged t \<longleftrightarrow> j \<in> charged s - {i}" for j
      using at [of j] True by (cases "j = i") (auto simp: charged_def len)
    then have "charged t = charged s - {i}" by blast
    moreover have "i \<in> charged s" using i True by (simp add: charged_def)
    then have "card (charged s) = Suc (card (charged s - {i}))" by (rule card.remove [OF finite_charged])
    ultimately show ?thesis using True k by simp
  next
    case False
    have "j \<in> charged t \<longleftrightarrow> j \<in> charged s" for j
      using at [of j] False mono(1) by (cases "j = i") (auto simp: charged_def len)
    then have "charged t = charged s" by blast
    then show ?thesis using False k by simp
  qed
  have "exec_inv F t" if inv: "exec_inv F s" for F
  proof -
    have cap: "capacity_inv F s" using inv by (simp add: exec_inv_def)
    have before: "rq_capacity_released (request_at s j) \<Longrightarrow> rq_done (request_at s j) \<and> rq_consumer_released (request_at s j)"
      "j \<notin> F \<Longrightarrow> rq_done (request_at s j) \<Longrightarrow> rq_consumer_released (request_at s j) \<Longrightarrow> rq_capacity_released (request_at s j)"
      if "j < length (ex_requests s)" for j
      using that cap by (simp_all add: capacity_inv_def)
    have released: "rq_done (request_at t j) \<and> rq_consumer_released (request_at t j)"
      if j: "j < length (ex_requests s)" and c: "rq_capacity_released (request_at t j)" for j
    proof (cases "j = i")
      case True
      then show ?thesis using c at [OF i] rel mono(2) before(1) [OF i] by (auto simp: f(1))
    next
      case False
      then show ?thesis using c at [OF j] before(1) [OF j] by simp
    qed
    have given_back: "rq_capacity_released (request_at t j)"
      if j: "j < length (ex_requests s)" and F: "j \<notin> F" and c: "rq_done (request_at t j)"
        "rq_consumer_released (request_at t j)" for j
    proof (cases "j = i")
      case True
      then have "rq_done (request_at s i)" "rq_consumer_released (f (request_at s i))"
        using c at [OF i] by (simp_all add: f(1))
      then show ?thesis using True F full before(2) [OF i] at [OF i] by simp
    next
      case False
      then show ?thesis using c F at [OF j] before(2) [OF j] by simp
    qed
    have "ex_outstanding t = length (ex_submitting t) + ex_releasing t + card (charged t)"
      "ex_outstanding t \<le> ex_max_outstanding t"
      using cap charged other unfolding capacity_inv_def by simp_all
    with released given_back len have "capacity_inv F t" unfolding capacity_inv_def by simp
    moreover have "queue_inv F t" using inv other len at f by (auto simp: exec_inv_def queue_inv_def)
    moreover have "placed_inv F t" using inv other len at f by (auto simp: exec_inv_def placed_inv_def)
    moreover have "lane_inv F t"
    proof (rule lane_invI)
      fix lane j assume "lane < kMaximumConcurrency" "ex_slots t ! lane = Some j"
      then show "lane < ex_max_concurrency t \<and> j < length (ex_requests t) \<and> j \<notin> set (ex_pending t) \<and>
        rq_lane (request_at t j) = Some lane \<and> rq_budget (request_at t j) \<noteq> None \<and>
        (j \<notin> F \<longrightarrow> \<not> rq_done (request_at t j))"
        using inv_slot [OF inv, of lane j] other len at f by auto
    next
      fix lane assume "ex_prefill_lane t = Some lane"
      then have "ex_prefill_lane s = Some lane" using other by simp
      from inv_prefill [OF inv this] obtain j where "lane < ex_max_concurrency s" "ex_slots s ! lane = Some j"
        "j < length (ex_requests s)" "\<not> rq_decode_ready (request_at s j)" by blast
      then show "lane < ex_max_concurrency t \<and>
          (\<exists>i. ex_slots t ! lane = Some i \<and> \<not> rq_decode_ready (request_at t i))"
        using other at f by auto
    qed (use inv_lengths [OF inv] other in simp_all)
    ultimately show ?thesis by (simp add: exec_inv_def)
  qed
  with ev show ?thesis by (simp add: calm_def)
qed

lemma calm_release_consumer:
  assumes "i < length (ex_requests s)"
  shows "calm s (release_consumer i s)"
proof -
  let ?release = "rq_done (request_at s i) \<and> \<not> rq_capacity_released (request_at s i)"
  let ?f = "\<lambda>r. r\<lparr>rq_consumer_released := True, rq_capacity_released := rq_capacity_released r \<or> ?release\<rparr>"
  have "release_consumer i s = (update_request i ?f s)\<lparr>ex_releasing := ex_releasing s + (if ?release then 1 else 0)\<rparr>"
    by (auto simp: release_consumer_def Let_def)
  then show ?thesis
    by (intro calm_release [OF assms, where f = ?f and k = "if ?release then 1 else 0"]) auto
qed

lemma req_core_wait:
  "req_core
     (let events = rq_events r; r1 = r\<lparr>rq_events := []\<rparr>;
           r2 = (case rq_caller_error r1 of
                   Some _ \<Rightarrow> r1
                 | None \<Rightarrow> (case publish events of None \<Rightarrow> r1
                            | Some e \<Rightarrow> r1\<lparr>rq_caller_error := Some e, rq_cancelled := True\<rparr>))
       in case rq_caller_error r2 of
            Some _ \<Rightarrow> r2
          | None \<Rightarrow> (case requested of
                       Inl e \<Rightarrow> r2\<lparr>rq_caller_error := Some e, rq_cancelled := True\<rparr>
                     | Inr c \<Rightarrow> if c then r2\<lparr>rq_cancelled := True\<rparr> else r2)) = req_core r"
  by (auto simp: Let_def req_core_def split: option.split sum.split)

lemma calm_env_exec: "calm s (env_exec e s)"
proof (cases e)
  case (WaitRound i publish requested)
  have "calm s (wait_round i publish requested s)"
    unfolding wait_round_def by (rule calm_update) (rule req_core_wait)
  then show ?thesis using WaitRound by (simp add: cm.R_refl)
qed (auto simp: calm_reserve calm_abort calm_push calm_finish_release calm_release_consumer cm.R_refl req_core_def
      same_core_def intro: calm_update same_core_calm)

lemma calm_interleave: "preserves calm interleave"
  unfolding preserves_def
proof
  fix s :: "('g, 'p, 'l, 'o) executor"
  have batch: "calm t (fold env_exec batch t)" for batch and t :: "('g, 'p, 'l, 'o) executor"
    by (induction batch arbitrary: t) (auto intro: cm.R_refl cm.R_trans calm_env_exec)
  show "calm s (snd (interleave s))"
  proof (cases "ex_env s")
    case (Cons events rest)
    have "calm s (s\<lparr>ex_env := rest\<rparr>)" by (rule same_core_calm) (simp add: same_core_def)
    then show ?thesis using Cons batch by (auto simp: interleave_def intro: cm.R_trans)
  qed (simp add: interleave_def cm.R_refl)
qed

lemma calm_atomically: "preserves calm m \<Longrightarrow> preserves calm (atomically m)"
  unfolding atomically_def by (intro cm.preserves_sbind calm_interleave)

subsection \<open>Calm operations of the worker\<close>

lemma calm_modify: "(\<And>s. same_core s (f s)) \<Longrightarrow> preserves calm (modify f)"
  by (simp add: preserves_def modify_def same_core_calm)

lemma calm_on_request: "(\<And>r. req_core (f r) = req_core r) \<Longrightarrow> preserves calm (on_request i f)"
  by (simp add: preserves_def on_request_def modify_def calm_update)

lemma calm_on_target: "preserves calm (on_target m)"
  by (auto simp: preserves_def on_target_def same_core_def intro!: same_core_calm split: prod.splits)

lemma calm_on_output: "preserves calm (on_output i m)"
  by (auto simp: preserves_def on_output_def req_core_def intro!: calm_update split: prod.splits)

lemmas calm_prims = cm.preserves_intros calm_modify calm_on_request calm_on_target calm_on_output calm_atomically

named_theorems calm_ops

lemma calm_small [calm_ops]:
  "preserves calm now" "preserves calm (load_cancelled i)" "preserves calm (abort_lane tg lane)"
  "preserves calm deactivate_memory" "preserves calm publish_runtime_stats" "preserves calm (append_output i out)"
  "preserves calm (release_planning_state i)" "preserves calm (invalidate_lane_plans lane)"
  "preserves calm pending_snapshot" "preserves calm (set_previous b)" "preserves calm (drop_stale_protection i)"
  "preserves calm (clear_protection_if_head i)"
  by (auto simp: now_def load_cancelled_def abort_lane_def deactivate_memory_def publish_runtime_stats_def
      append_output_def release_planning_state_def invalidate_lane_plans_def
      pending_snapshot_def set_previous_def drop_stale_protection_def clear_protection_if_head_def
      req_core_def same_core_def Let_def intro!: calm_prims split: option.split)

lemma calm_state_actions [calm_ops]:
  "preserves calm (activate_memory bytes alignment)"
  "preserves calm (consume_service_work i work)"
  "preserves calm (debit_temporal epoch quanta)"
  "preserves calm build_round_membership"
  "preserves calm active_admission_set"
  by (auto simp: preserves_def activate_memory_def consume_service_work_def
      debit_temporal_def build_round_membership_def active_admission_set_def Let_def req_core_def cm.R_refl
      same_core_def intro!: same_core_calm split: prod.split option.split)

lemma calm_set_first_token [calm_ops]: "preserves calm (set_first_token i)"
  unfolding set_first_token_def by (intro calm_prims calm_ops) (simp add: req_core_def)

lemma calm_snapshot_cancellations [calm_ops]: "preserves calm snapshot_cancellations"
  unfolding snapshot_cancellations_def by (intro calm_prims calm_ops)

lemma calm_plans [calm_ops]:
  "preserves calm (ensure_base_plan tg i)" "preserves calm (ensure_lane_plan tg i lane)"
  unfolding ensure_base_plan_def ensure_lane_plan_def by (intro calm_prims calm_ops; simp add: req_core_def)+

lemma calm_scan_lanes [calm_ops]: "preserves calm (scan_lanes tg i test evict)"
  unfolding scan_lanes_def by (intro calm_prims calm_ops)

lemma calm_find_lane [calm_ops]: "preserves calm (find_admission_lane tg i)"
  unfolding find_admission_lane_def by (intro calm_prims calm_ops)

lemma calm_evict [calm_ops]: "preserves calm (evict_retained_for tg lane plan)"
  unfolding evict_retained_for_def by (intro calm_prims calm_ops) (simp add: same_core_def)

lemma calm_preview_row [calm_ops]: "preserves calm (preview_row tg rnd row)"
  unfolding preview_row_def Let_def by (intro calm_prims calm_ops)

lemma calm_commit_budget:
  assumes "i < length (ex_requests s)" "rq_budget (request_at s i) \<noteq> None"
  shows "calm s (snd (commit_budget i tokens s))"
proof (cases "gb_commit (the (rq_budget (request_at s i))) tokens")
  case (Some b)
  have "same_core s (update_request i (\<lambda>r. r\<lparr>rq_budget := Some b\<rparr>) s)"
    using assms by (auto simp: same_core_def req_core_def)
  then show ?thesis using Some by (simp add: commit_budget_def same_core_calm)
qed (simp add: commit_budget_def cm.R_refl)

lemma calmD:
  assumes "calm s t"
  shows "evolves {} {} s t" "exec_inv F s \<Longrightarrow> exec_inv F t"
  using assms by (simp_all add: calm_def)

lemma calm_pending:
  assumes "calm s t"
  obtains new where "ex_pending t = ex_pending s @ new" "\<forall>i \<in> set new. length (ex_requests s) \<le> i"
  using assms unfolding calm_def evolves_def by force

end
