(* ===== verification/Executor_Safety.thy ===== *)
theory Executor_Safety
  imports Executor_Inv
begin

text \<open>
  Contracts of the worker's operations over the executor invariant: completion, the queue,
  prefill, admission, decode rounds and failure; then the step relation of the whole executor
  and the theorems about its reachable states.
\<close>

section \<open>Completion\<close>

lemma no_throw_interleave: "no_throw interleave"
  by (simp add: no_throw_def interleave_def split: list.split)

lemma no_throw_atomically: "no_throw m \<Longrightarrow> no_throw (atomically m)"
  unfolding atomically_def by (intro no_throw_sbind no_throw_interleave)

lemma no_throw_on_output: "no_throw m \<Longrightarrow> no_throw (on_output i m)"
  by (auto simp: no_throw_def on_output_def split: prod.split) (metis fst_conv)

lemma no_throw_ops:
  "no_throw now" "no_throw (load_cancelled i)" "no_throw (abort_lane tg lane)" "no_throw deactivate_memory"
  "no_throw publish_runtime_stats" "no_throw (append_output i out)" "no_throw (release_planning_state i)"
  "no_throw (invalidate_lane_plans lane)" "no_throw pending_snapshot" "no_throw (drop_stale_protection i)"
  "no_throw (clear_protection_if_head i)" "no_throw (on_request i f)" "no_throw (set_previous b)"
  unfolding now_def load_cancelled_def abort_lane_def deactivate_memory_def publish_runtime_stats_def
    append_output_def release_planning_state_def invalidate_lane_plans_def pending_snapshot_def
    drop_stale_protection_def clear_protection_if_head_def on_request_def set_previous_def
  by (intro no_throw_intros no_throw_atomically)+

text \<open>A step that is calm and does not throw, followed by a continuation.\<close>

lemma wp_calm:
  assumes "preserves calm m" "no_throw m" "\<And>x s'. calm s s' \<Longrightarrow> wp (f x) Q E s'"
  shows "wp (sbind m f) Q E s"
  by (rule wp_seq_no_throw [OF assms])

lemma mark_done:
  assumes inv: "exec_inv (insert i F) s" and i: "i < length (ex_requests s)" "i \<notin> set (ex_pending s)"
    and f: "\<And>r. rq_done (f r)" "\<And>r. rq_consumer_released (f r) = rq_consumer_released r"
      "\<And>r. rq_capacity_released (f r) = rq_capacity_released r" "\<And>r. rq_lane (f r) = rq_lane r"
      "\<And>r. rq_decode_ready (f r) = rq_decode_ready r" "\<And>r. rq_budget (f r) = rq_budget r"
  shows "exec_inv (insert i F) (update_request i f s)" "evolves {i} {} s (update_request i f s)"
proof -
  let ?t = "update_request i f s"
  have flags: "rq_capacity_released (request_at ?t j) = rq_capacity_released (request_at s j)"
    "rq_consumer_released (request_at ?t j) = rq_consumer_released (request_at s j)"
    "rq_done (request_at ?t j) = (j = i \<or> rq_done (request_at s j))" if "j < length (ex_requests s)" for j
    using that by (simp_all add: f)
  then have charged: "charged ?t = charged s" by (auto simp: charged_def)
  have "capacity_inv (insert i F) s" using inv by (simp add: exec_inv_def)
  then have "capacity_inv (insert i F) ?t"
    unfolding capacity_inv_def charged length_update_request update_request_other
    by (simp add: flags del: request_at_update)
  moreover have "queue_inv (insert i F) ?t"
    using inv i(2) f unfolding exec_inv_def queue_inv_def by auto
  moreover have "placed_inv (insert i F) ?t"
    using inv f(1) unfolding exec_inv_def placed_inv_def by auto
  moreover have "lane_inv (insert i F) ?t"
  proof (rule lane_invI)
    fix lane j assume "lane < kMaximumConcurrency" "ex_slots ?t ! lane = Some j"
    then show "lane < ex_max_concurrency ?t \<and> j < length (ex_requests ?t) \<and> j \<notin> set (ex_pending ?t) \<and>
        rq_lane (request_at ?t j) = Some lane \<and> rq_budget (request_at ?t j) \<noteq> None \<and>
        (j \<notin> insert i F \<longrightarrow> \<not> rq_done (request_at ?t j))"
      using inv_slot [OF inv, of lane j] f by auto
  next
    fix lane assume "ex_prefill_lane ?t = Some lane"
    then have "ex_prefill_lane s = Some lane" by simp
    from inv_prefill [OF inv this] obtain j where "lane < ex_max_concurrency s" "ex_slots s ! lane = Some j"
      "j < length (ex_requests s)" "\<not> rq_decode_ready (request_at s j)" by blast
    then show "lane < ex_max_concurrency ?t \<and> (\<exists>i. ex_slots ?t ! lane = Some i \<and> \<not> rq_decode_ready (request_at ?t i))"
      using f(5) by auto
  qed (use inv_lengths [OF inv] in simp_all)
  ultimately show "exec_inv (insert i F) ?t" by (simp add: exec_inv_def)
  show "evolves {i} {} s ?t"
    using f by (auto simp: evolves_def closed_def intro: exI [of _ "[]"])
qed

lemma release_completed_contract:
  assumes inv: "exec_inv F s" and i: "i < length (ex_requests s)" and d: "rq_done (request_at s i)"
  shows "wp (release_completed i) (\<lambda>_ s'. calm s s' \<and> closed i s') E s"
proof -
  have mark: "wp (mark_completed i) (\<lambda>_ s'. calm s s' \<and> closed i s') E s"
    unfolding mark_completed_def atomically_def
  proof (rule wp_seq_no_throw [OF calm_interleave no_throw_interleave])
    fix t :: "('a, 'b, 'c, 'd) executor" assume t: "calm s t"
    have it: "i < length (ex_requests t)" and dt: "rq_done (request_at t i)"
      using evolves_request [OF calmD(1) [OF t] i] d by auto
    let ?f = "\<lambda>r :: ('b, 'c, 'd) request. r\<lparr>rq_capacity_released := True\<rparr>"
    have "calm t ((update_request i ?f t)\<lparr>ex_releasing := ex_releasing t + 1\<rparr>)"
      if "rq_consumer_released (request_at t i)" "\<not> rq_capacity_released (request_at t i)"
      using that dt by (intro calm_release [OF it, where f = ?f and k = 1]) auto
    then show "wp (\<lambda>s. let r = request_at s i; release = rq_consumer_released r \<and> \<not> rq_capacity_released r
         in if release
            then (Inr True, (update_request i (\<lambda>r. r\<lparr>rq_capacity_released := True\<rparr>) s)
                \<lparr>ex_releasing := ex_releasing s + 1\<rparr>)
            else (Inr False, s)) (\<lambda>_ s'. calm s s' \<and> closed i s') E t"
      using t dt it by (auto simp: wp_def Let_def closed_def intro: cm.R_trans)
  qed
  have finish: "preserves calm (atomically (modify (\<lambda>s. if ex_releasing s > 0 then finish_release s else s)))"
    by (rule calm_atomically) (simp add: preserves_def modify_def calm_finish_release cm.R_refl)
  show ?thesis
    unfolding release_completed_def
  proof (rule wp_seq [OF mark])
    fix release t assume t: "calm s t \<and> closed i t"
    then have it: "i < length (ex_requests t)" using evolves_request(1) [OF calmD(1) i] by auto
    show "wp (swhen release (atomically (modify (\<lambda>s. if ex_releasing s > 0 then finish_release s else s))))
        (\<lambda>_ s'. calm s s' \<and> closed i s') E t"
      by (rule wp_kept_no_throw [OF cm.preserves_swhen [OF finish]])
        (use t it in \<open>auto intro!: no_throw_intros no_throw_atomically
           intro: cm.R_trans evolves_request(2) [OF calmD(1)]\<close>)
  qed
qed

text \<open>What completing request \<open>i\<close> needs and achieves.\<close>

definition completable :: "nat set \<Rightarrow> nat \<Rightarrow> ('g, 'p, 'l, 'o) executor \<Rightarrow> bool" where
  "completable F i s = (exec_inv (insert i F) s \<and> i < length (ex_requests s) \<and> i \<notin> set (ex_pending s) \<and>
     \<not> rq_done (request_at s i))"

definition completed_from :: "nat set \<Rightarrow> nat \<Rightarrow> ('g, 'p, 'l, 'o) executor \<Rightarrow> ('g, 'p, 'l, 'o) executor \<Rightarrow> bool" where
  "completed_from F i s s' = (exec_inv (insert i F) s' \<and> evolves {i} {} s s' \<and> closed i s')"

lemma completable_calm: "completable F i s \<Longrightarrow> calm s t \<Longrightarrow> completable F i t"
  using evolves_request [of "{}" "{}" s t i] evolves_queue(2) [of "{}" "{}" s t i] calmD [of s t]
  by (auto simp: completable_def)

lemma completed_from_calm: "calm s t \<Longrightarrow> completed_from F i t u \<Longrightarrow> completed_from F i s u"
  by (auto simp: completed_from_def calm_def intro: evolves_comp)

lemma completed_then_calm:
  "completed_from F i s t \<Longrightarrow> i < length (ex_requests t) \<Longrightarrow> calm t u \<Longrightarrow> completed_from F i s u"
  by (auto simp: completed_from_def calm_def intro: evolves_comp dest: evolves_request(2))

lemma finish_completion:
  fixes s :: "('g, 'p, 'l, 'o) executor"
  assumes s: "completable F i s"
    and f: "\<And>r. rq_done (f r)" "\<And>r. rq_consumer_released (f r) = rq_consumer_released r"
      "\<And>r. rq_capacity_released (f r) = rq_capacity_released r" "\<And>r. rq_lane (f r) = rq_lane r"
      "\<And>r. rq_decode_ready (f r) = rq_decode_ready r" "\<And>r. rq_budget (f r) = rq_budget r"
  shows "wp (sbind (atomically (\<lambda>s. if rq_done (request_at s i) then (Inr False, s)
      else (Inr True, update_request i f s))) (\<lambda>completed. swhen completed (release_completed i)))
    (\<lambda>_. completed_from F i s) E s"
proof -
  have set: "wp (atomically (\<lambda>s. if rq_done (request_at s i) then (Inr False, s)
      else (Inr True, update_request i f s)))
      (\<lambda>c t. c \<and> exec_inv (insert i F) t \<and> evolves {i} {} s t \<and> i < length (ex_requests t) \<and> rq_done (request_at t i)) E s"
    unfolding atomically_def
  proof (rule wp_seq_no_throw [OF calm_interleave no_throw_interleave])
    fix t :: "('g, 'p, 'l, 'o) executor" assume t: "calm s t"
    have ct: "completable F i t" by (rule completable_calm [OF s t])
    then have "exec_inv (insert i F) (update_request i f t)" "evolves {i} {} t (update_request i f t)"
      using mark_done [OF _ _ _ f] by (auto simp: completable_def)
    moreover from this(2) have "evolves {i} {} s (update_request i f t)"
      by (rule evolves_comp [OF calmD(1) [OF t]]) auto
    ultimately show "wp (\<lambda>s. if rq_done (request_at s i) then (Inr False, s)
      else (Inr True, update_request i f s))
      (\<lambda>c t. c \<and> exec_inv (insert i F) t \<and> evolves {i} {} s t \<and> i < length (ex_requests t) \<and> rq_done (request_at t i)) E t"
      using ct by (simp add: wp_def completable_def f(1))
  qed
  show ?thesis
  proof (rule wp_seq [OF set])
    fix c and t :: "('g, 'p, 'l, 'o) executor"
    assume t: "c \<and> exec_inv (insert i F) t \<and> evolves {i} {} s t \<and> i < length (ex_requests t) \<and> rq_done (request_at t i)"
    then have "wp (release_completed i) (\<lambda>_ u. calm t u \<and> closed i u) E t"
      by (intro release_completed_contract) auto
    then show "wp (swhen c (release_completed i)) (\<lambda>_. completed_from F i s) E t"
      using t by (auto elim!: wp_mono simp: completed_from_def calm_def intro: evolves_comp)
  qed
qed

lemma complete_error_contract:
  fixes s :: "('g, 'p, 'l, 'o) executor"
  assumes s: "completable F i s"
  shows "wp (complete_error i e) (\<lambda>_. completed_from F i s) E s"
  unfolding complete_error_def
proof (rule wp_calm [OF calm_small(7) no_throw_ops(7)],
    rule wp_calm [OF calm_on_request no_throw_ops(12)])
  fix t u :: "('g, 'p, 'l, 'o) executor" assume "calm s t" "calm t u"
  then have u: "calm s u" by (rule cm.R_trans)
  show "wp (sbind (atomically (\<lambda>s. if rq_done (request_at s i) then (Inr False, s)
        else (Inr True, update_request i (\<lambda>r. r\<lparr>rq_error := Some e, rq_done := True\<rparr>) s)))
       (\<lambda>completed. swhen completed (release_completed i))) (\<lambda>_. completed_from F i s) E u"
    by (rule wp_mono [OF finish_completion [OF completable_calm [OF s u]]])
      (auto intro: completed_from_calm [OF u])
qed (simp add: req_core_def)

lemma complete_success_contract:
  fixes s :: "('g, 'p, 'l, 'o) executor"
  assumes s: "completable F i s"
  shows "wp (complete_success tg i reason) (\<lambda>_. completed_from F i s) E s"
  unfolding complete_success_def
proof (rule wp_calm [OF calm_small(7) no_throw_ops(7)], rule wp_calm [OF calm_on_request no_throw_ops(12)],
    simp add: req_core_def, rule wp_calm [OF cm.preserves_gets no_throw_basic(2)],
    rule wp_calm [OF calm_on_request no_throw_ops(12)])
  fix t1 t2 t3 result u
  assume "calm s t1" "calm t1 t2" "calm t2 t3" "calm t3 u"
  then have u: "calm s u" by (blast intro: cm.R_trans)
  show "wp (sbind (atomically (\<lambda>s. if rq_done (request_at s i) then (Inr False, s)
        else (Inr True, update_request i (\<lambda>r. r\<lparr>rq_result := Some result, rq_done := True\<rparr>) s)))
       (\<lambda>completed. swhen completed (release_completed i))) (\<lambda>_. completed_from F i s) E u"
    by (rule wp_mono [OF finish_completion [OF completable_calm [OF s u]]])
      (auto intro: completed_from_calm [OF u])
qed (simp add: req_core_def)

text \<open>
  The terminal preview of a cancelled request and its publication do not throw: what the
  target's output session promises for the terminal marker.
\<close>

definition output_total :: "('g, 'p, 'l, 'o) target \<Rightarrow> bool" where
  "output_total tg = (no_throw (tg_preview_terminal tg Cancelled) \<and> no_throw (tg_commit_preview tg))"

lemma complete_cancelled_contract:
  fixes s :: "('g, 'p, 'l, 'o) executor"
  assumes tg: "output_total tg" and s: "completable F i s"
  shows "wp (complete_cancelled tg i) (\<lambda>_. completed_from F i s) E s"
  unfolding complete_cancelled_def
proof (rule wp_calm [OF calm_on_output no_throw_on_output], simp add: tg [unfolded output_total_def],
    rule wp_calm [OF calm_on_output no_throw_on_output], simp add: tg [unfolded output_total_def],
    rule wp_calm [OF calm_small(6) no_throw_ops(6)])
  fix t1 t2 u :: "('g, 'p, 'l, 'o) executor" assume "calm s t1" "calm t1 t2" "calm t2 u"
  then have u: "calm s u" by (blast intro: cm.R_trans)
  show "wp (complete_success tg i Cancelled) (\<lambda>_. completed_from F i s) E u"
    by (rule wp_mono [OF complete_success_contract [OF completable_calm [OF s u]]])
      (auto intro: completed_from_calm [OF u])
qed

section \<open>The pending queue\<close>

lemma erased_state:
  assumes inv: "exec_inv F s" and i: "i \<in> set (ex_pending s)"
  shows "completable F i (s\<lparr>ex_pending := remove1 i (ex_pending s)\<rparr>)" (is "completable F i ?t")
    and "in_flight i (s\<lparr>ex_pending := remove1 i (ex_pending s)\<rparr>)"
    and "evolves {i} {} s (s\<lparr>ex_pending := remove1 i (ex_pending s)\<rparr>)"
proof -
  have d: "distinct (ex_pending s)" by (rule inv_lengths(4) [OF inv])
  have set: "set (remove1 i (ex_pending s)) = set (ex_pending s) - {i}" using d by (rule set_remove1_eq)
  have "charged ?t = charged s" by (simp add: charged_def)
  then have "capacity_inv (insert i F) ?t" using inv by (simp add: exec_inv_def capacity_inv_def)
  moreover have "queue_inv (insert i F) ?t" using inv set d by (auto simp: exec_inv_def queue_inv_def)
  moreover have "placed_inv (insert i F) ?t"
    using inv set inv_pending(1) [OF inv i] by (auto simp: exec_inv_def placed_inv_def)
  moreover have "lane_inv (insert i F) ?t" using inv set by (auto simp: exec_inv_def lane_inv_def)
  ultimately have "exec_inv (insert i F) ?t" by (simp add: exec_inv_def)
  then show "completable F i ?t" using inv_pending [OF inv i] set by (simp add: completable_def)
  show "in_flight i ?t" using inv_pending [OF inv i] set by (simp add: in_flight_def)
  have "filter (\<lambda>j. j \<notin> {i}) (remove1 i (ex_pending s)) = filter (\<lambda>j. j \<notin> {i}) (ex_pending s)"
    using filter_remove1 [of "\<lambda>j. j \<notin> {i}" i "ex_pending s"] by (simp add: remove1_idem)
  then show "evolves {i} {} s ?t"
    using set by (auto simp: evolves_def closed_def intro: exI [of _ "[]"])
qed

lemma erase_contract:
  fixes s :: "('g, 'p, 'l, 'o) executor"
  assumes inv: "exec_inv F s" and i: "i \<in> set (ex_pending s)"
  shows "wp (erase_pending i) (\<lambda>erased t. erased \<and> completable F i t \<and> in_flight i t \<and> evolves {i} {} s t) E s"
  unfolding erase_pending_def atomically_def
proof (rule wp_seq_no_throw [OF calm_interleave no_throw_interleave])
  fix t :: "('g, 'p, 'l, 'o) executor" assume t: "calm s t"
  have it: "i \<in> set (ex_pending t)" using evolves_queue(1) [OF calmD(1) [OF t] i] by simp
  note erased = erased_state [OF calmD(2) [OF t inv] it]
  have "evolves {i} {} s (t\<lparr>ex_pending := remove1 i (ex_pending t)\<rparr>)"
    by (rule evolves_comp [OF calmD(1) [OF t] erased(3)]) auto
  then show "wp (\<lambda>s. if i \<in> set (ex_pending s) then (Inr True, s\<lparr>ex_pending := remove1 i (ex_pending s)\<rparr>)
      else (Inr False, s)) (\<lambda>erased t. erased \<and> completable F i t \<and> in_flight i t \<and> evolves {i} {} s t) E t"
    using it erased(1,2) by (simp add: wp_def)
qed

text \<open>Closing a request that is in no lane takes it out of the requests in flight.\<close>

lemma completed_in_flight:
  assumes "completed_from F i s t" "in_flight i s"
  shows "exec_inv F t" "evolves {i} {} s t"
  using assms inv_remove [of i F t] evolves_no_lanes(1) [of "{i}" s t]
  by (auto simp: completed_from_def in_flight_def)

lemma erase_and_complete:
  fixes s :: "('g, 'p, 'l, 'o) executor"
  assumes inv: "exec_inv F s" and i: "i \<in> set (ex_pending s)"
    and pre: "preserves calm pre" "no_throw pre"
    and settle: "\<And>t. completable F i t \<Longrightarrow> wp settle (\<lambda>_. completed_from F i t) E t"
  shows "wp (sbind (erase_pending i) (\<lambda>erased. if \<not> erased then sret a
      else sbind pre (\<lambda>_. sbind settle (\<lambda>_. sbind publish_runtime_stats (\<lambda>_. sret b)))))
    (\<lambda>x t. x = b \<and> exec_inv F t \<and> evolves {i} {} s t) E s"
proof (rule wp_seq [OF erase_contract [OF inv i]])
  fix erased and t :: "('g, 'p, 'l, 'o) executor"
  assume t: "erased \<and> completable F i t \<and> in_flight i t \<and> evolves {i} {} s t"
  have "wp (sbind pre (\<lambda>_. sbind settle (\<lambda>_. sbind publish_runtime_stats (\<lambda>_. sret b))))
    (\<lambda>x t. x = b \<and> exec_inv F t \<and> evolves {i} {} s t) E t"
  proof (rule wp_calm [OF pre])
    fix u :: "('g, 'p, 'l, 'o) executor" assume u: "calm t u"
    have cu: "completable F i u" and fu: "in_flight i u" and eu: "evolves {i} {} s u"
      using t completable_calm [OF _ u] evolves_in_flight [OF calmD(1) [OF u]] evolves_comp [OF _ calmD(1) [OF u]]
      by auto
    show "wp (sbind settle (\<lambda>_. sbind publish_runtime_stats (\<lambda>_. sret b)))
      (\<lambda>x t. x = b \<and> exec_inv F t \<and> evolves {i} {} s t) E u"
    proof (rule wp_seq [OF settle [OF cu]], rule wp_calm [OF calm_small(5) no_throw_ops(5)])
      fix v w :: "('g, 'p, 'l, 'o) executor" assume v: "completed_from F i u v" and w: "calm v w"
      have "exec_inv F w" using calmD(2) [OF w] completed_in_flight(1) [OF v fu] by simp
      moreover have "evolves {i} {} s w"
        using evolves_comp [OF eu completed_in_flight(2) [OF v fu], of "{i}" "{}"] evolves_comp [OF _ calmD(1) [OF w], of "{i}" "{}" s]
        by simp
      ultimately show "wp (sret b) (\<lambda>x t. x = b \<and> exec_inv F t \<and> evolves {i} {} s t) E w" by simp
    qed
  qed
  then show "wp (if \<not> erased then sret a else sbind pre (\<lambda>_. sbind settle (\<lambda>_. sbind publish_runtime_stats (\<lambda>_. sret b))))
    (\<lambda>x t. x = b \<and> exec_inv F t \<and> evolves {i} {} s t) E t" using t by simp
qed

lemma remove_pending_contract:
  assumes "exec_inv F s" "i \<in> set (ex_pending s)"
  shows "wp (remove_pending_error i e) (\<lambda>_ t. exec_inv F t \<and> evolves {i} {} s t) E s"
  unfolding remove_pending_error_def
  by (rule wp_mono [OF erase_and_complete [OF assms calm_small(12) no_throw_ops(11) complete_error_contract]]) auto

text \<open>The loops that complete a list of requests in flight.\<close>

definition all_in_flight :: "nat set \<Rightarrow> nat list \<Rightarrow> ('g, 'p, 'l, 'o) executor \<Rightarrow> bool" where
  "all_in_flight F ids s = (exec_inv (set ids \<union> F) s \<and> distinct ids \<and> set ids \<inter> F = {} \<and> (\<forall>i \<in> set ids. in_flight i s))"

lemma complete_all_contract:
  fixes s :: "('g, 'p, 'l, 'o) executor"
  assumes "all_in_flight F ids s"
    and settle: "\<And>F i t. completable F i t \<Longrightarrow> wp (settle i) (\<lambda>_. completed_from F i t) E t"
  shows "wp (siter settle ids) (\<lambda>_ t. exec_inv F t \<and> evolves (set ids) {} s t) E s"
  using assms(1)
proof (induction ids arbitrary: s)
  case (Cons i ids)
  have "completable (set ids \<union> F) i s" using Cons.prems by (auto simp: all_in_flight_def completable_def in_flight_def)
  then have "wp (settle i) (\<lambda>_. completed_from (set ids \<union> F) i s) E s" by (rule settle)
  moreover have "wp (siter settle ids) (\<lambda>_ u. exec_inv F u \<and> evolves (set (i # ids)) {} s u) E t"
    if t: "completed_from (set ids \<union> F) i s t" for t
  proof -
    have i: "in_flight i s" and other: "\<And>j. j \<in> set ids \<Longrightarrow> in_flight j s \<and> j \<noteq> i"
      using Cons.prems by (auto simp: all_in_flight_def)
    note closing = completed_in_flight [OF t i]
    have "all_in_flight F ids t"
      using Cons.prems closing(1) other evolves_in_flight [OF closing(2)] by (auto simp: all_in_flight_def)
    from Cons.IH [OF this] show ?thesis
      by (rule wp_mono) (auto intro: evolves_comp [OF closing(2)])
  qed
  ultimately have "wp (settle i) (\<lambda>_. wp (siter settle ids) (\<lambda>_ u. exec_inv F u \<and> evolves (set (i # ids)) {} s u) E) E s"
    by (auto elim: wp_mono)
  then show ?case by simp
qed (simp add: all_in_flight_def)

text \<open>Taking several requests out of the queue at once.\<close>

lemma take_out:
  assumes inv: "exec_inv F s" and sub: "set kept \<subseteq> set (ex_pending s)" and d: "distinct kept"
    and out: "out = set (ex_pending s) - set kept"
    and t: "t = s\<lparr>ex_pending := kept, ex_failed := b\<rparr>"
  shows "exec_inv (out \<union> F) t" and "\<And>i. i \<in> out \<Longrightarrow> in_flight i t"
proof -
  have at: "request_at t = request_at s" "ex_requests t = ex_requests s" "ex_pending t = kept"
    "ex_slots t = ex_slots s" "ex_prefill_lane t = ex_prefill_lane s" "ex_max_concurrency t = ex_max_concurrency s"
    using t by simp_all
  have "charged t = charged s" using at by (simp add: charged_def)
  then have "capacity_inv (out \<union> F) t" using inv t by (simp add: exec_inv_def capacity_inv_def)
  moreover have "queue_inv (out \<union> F) t" using inv sub d out at by (auto simp: exec_inv_def queue_inv_def)
  moreover have "placed_inv (out \<union> F) t"
    using inv inv_pending(1) [OF inv] sub out at by (auto simp: exec_inv_def placed_inv_def)
  moreover have "lane_inv (out \<union> F) t" using inv sub at by (auto simp: exec_inv_def lane_inv_def)
  ultimately show "exec_inv (out \<union> F) t" by (simp add: exec_inv_def)
  show "in_flight i t" if "i \<in> out" for i
    using that inv_pending [OF inv, of i] out at by (auto simp: in_flight_def)
qed

lemma classify_all:
  fixes s :: "('g, 'p, 'l, 'o) executor"
  shows "wp (smap (classify_pending now_value) queued) (\<lambda>classes t. map fst classes = queued \<and> calm s t) E s"
proof -
  have "wp (smap (classify_pending now_value) queued) (\<lambda>classes t. map fst classes @ [] = queued \<and> calm s t) E s"
  proof (rule wp_smap [where I = "\<lambda>rest classes t. map fst classes @ rest = queued \<and> calm s t"])
    fix i rest and classes :: "(nat \<times> expiry) list" and t :: "('g, 'p, 'l, 'o) executor"
    assume t: "map fst classes @ i # rest = queued \<and> calm s t"
    show "wp (classify_pending now_value i) (\<lambda>c u. map fst (classes @ [c]) @ rest = queued \<and> calm s u) E t"
      unfolding classify_pending_def
      by (rule wp_calm [OF calm_small(2) no_throw_ops(2)]) (use t in \<open>auto intro: cm.R_trans\<close>)
  qed (simp add: cm.R_refl)
  then show ?thesis by simp
qed

lemma filter_classes:
  "set (map fst (filter (\<lambda>(i, c). c = k) xs)) \<subseteq> set (map fst xs)"
  "distinct (map fst xs) \<Longrightarrow> distinct (map fst (filter (\<lambda>(i, c). c = k) xs))"
  by (auto simp: distinct_map inj_on_def)

lemma classes_partition:
  assumes "distinct (map fst xs)"
  shows "set (map fst xs) - set (map fst (filter (\<lambda>(i, c). c = Keep) xs)) =
      set (map fst (filter (\<lambda>(i, c). c = IsCancelled) xs)) \<union> set (map fst (filter (\<lambda>(i, c). c = IsExpired) xs))"
    and "set (map fst (filter (\<lambda>(i, c). c = IsCancelled) xs)) \<inter> set (map fst (filter (\<lambda>(i, c). c = IsExpired) xs)) = {}"
  using assms by (auto simp: distinct_map inj_on_def image_iff) (metis expiry.exhaust fst_conv)+

lemma expire_contract:
  fixes s :: "('g, 'p, 'l, 'o) executor"
  assumes tg: "output_total tg" and inv: "exec_inv {} s"
  shows "wp (expire_pending_requests tg) (\<lambda>_. exec_inv {}) E s"
proof -
  have snap: "wp pending_snapshot (\<lambda>queued t. calm s t \<and> queued = ex_pending t) E s"
    unfolding pending_snapshot_def atomically_def
    by (rule wp_seq_no_throw [OF calm_interleave no_throw_interleave]) simp
  have finish: "wp (sbind (modify (\<lambda>s. s\<lparr>ex_pending := kept @ drop (length queued) (ex_pending s)\<rparr>)) (\<lambda>_.
        sbind (modify (\<lambda>s. case ex_protection s of
            None \<Rightarrow> s
          | Some p \<Rightarrow> if list_ex (\<lambda>i. rq_id (request_at s i) = ap_head_request_id p) (cancelled @ expired)
                      then s\<lparr>ex_protection := None\<rparr> else s)) (\<lambda>_.
        sbind (siter (complete_cancelled tg) cancelled) (\<lambda>_.
        sbind (siter (\<lambda>i. complete_error i timeout_error) expired) (\<lambda>_.
        sbind (swhen (cancelled \<noteq> [] \<or> expired \<noteq> []) publish_runtime_stats) (\<lambda>_.
        sret (kept \<noteq> []))))))) (\<lambda>_. exec_inv {}) E t"
    if t: "exec_inv {} t" and q: "ex_pending t = queued @ new"
      and classes: "map fst classes = queued"
      and parts: "kept = map fst (filter (\<lambda>(i, c). c = Keep) classes)"
        "cancelled = map fst (filter (\<lambda>(i, c). c = IsCancelled) classes)"
        "expired = map fst (filter (\<lambda>(i, c). c = IsExpired) classes)"
    for t queued new kept cancelled expired classes
  proof -
    let ?u = "t\<lparr>ex_pending := kept @ new\<rparr>"
    have d: "distinct (queued @ new)" using inv_lengths(4) [OF t] q by simp
    then have dc: "distinct (map fst classes)" using classes by simp
    have kq: "set kept \<subseteq> set queued" "distinct kept" using filter_classes(1) [of Keep classes] filter_classes(2) [OF dc, of Keep] classes parts(1) by auto
    have out: "set cancelled \<union> set expired = set (ex_pending t) - set (kept @ new)"
      using classes_partition(1) [OF dc] d q classes parts by auto
    have sub: "set (kept @ new) \<subseteq> set (ex_pending t)" "distinct (kept @ new)" using q kq d by auto
    have "exec_inv ((set cancelled \<union> set expired) \<union> {}) ?u" "\<And>i. i \<in> set cancelled \<union> set expired \<Longrightarrow> in_flight i ?u"
      using take_out [OF t sub out, where t = ?u and b = "ex_failed t"] by simp_all
    moreover have "distinct cancelled" "distinct expired" "set cancelled \<inter> set expired = {}"
      using filter_classes(2) [OF dc] classes_partition(2) [OF dc] parts by auto
    moreover have "calm ?u (case ex_protection ?u of
            None \<Rightarrow> ?u
          | Some p \<Rightarrow> if list_ex (\<lambda>i. rq_id (request_at ?u i) = ap_head_request_id p) (cancelled @ expired)
                      then ?u\<lparr>ex_protection := None\<rparr> else ?u)" (is "calm ?u ?v")
      by (rule same_core_calm) (auto simp: same_core_def split: option.split)
    ultimately have "all_in_flight (set expired) cancelled ?v" and ex: "\<And>i. i \<in> set expired \<Longrightarrow> in_flight i ?v"
      and de: "distinct expired" and disj: "set cancelled \<inter> set expired = {}"
      using calmD [of ?u ?v] evolves_in_flight [of "{}" ?u ?v] by (auto simp: all_in_flight_def)
    then have "wp (siter (complete_cancelled tg) cancelled)
        (\<lambda>_ w. exec_inv (set expired) w \<and> evolves (set cancelled) {} ?v w) E ?v"
      by (intro complete_all_contract complete_cancelled_contract [OF tg])
    moreover have "in_flight i w" if "evolves (set cancelled) {} ?v w" "i \<in> set expired" for i w
      using evolves_in_flight [OF that(1)] ex [OF that(2)] disj that(2) by blast
    ultimately have "wp (siter (complete_cancelled tg) cancelled) (\<lambda>_. all_in_flight {} expired) E ?v"
      by (elim wp_mono) (use de in \<open>auto simp: all_in_flight_def\<close>)
    moreover have "wp (siter (\<lambda>i. complete_error i timeout_error) expired) (\<lambda>_. exec_inv {}) E w"
      if "all_in_flight {} expired w" for w
      using complete_all_contract [OF that complete_error_contract] by (rule wp_mono) auto
    moreover have "wp (swhen (cancelled \<noteq> [] \<or> expired \<noteq> []) publish_runtime_stats) (\<lambda>_. exec_inv {}) E w"
      if "exec_inv {} w" for w
      by (rule wp_kept_no_throw [OF cm.preserves_swhen [OF calm_small(5)] no_throw_swhen [OF no_throw_ops(5)]])
        (use that in \<open>simp add: calmD(2)\<close>)
    ultimately have "wp (sbind (siter (complete_cancelled tg) cancelled) (\<lambda>_.
        sbind (siter (\<lambda>i. complete_error i timeout_error) expired) (\<lambda>_.
        sbind (swhen (cancelled \<noteq> [] \<or> expired \<noteq> []) publish_runtime_stats) (\<lambda>_.
        sret (kept \<noteq> []))))) (\<lambda>_. exec_inv {}) E ?v"
      by (auto intro!: wp_seq simp del: wp_sbind wp_swhen)
    moreover have "drop (length queued) (ex_pending t) = new" using q by simp
    ultimately show ?thesis by (simp only: wp_sbind wp_modify)
  qed
  show ?thesis
    unfolding expire_pending_requests_def Let_def
  proof (rule wp_seq [OF snap], rule wp_calm [OF calm_small(1) no_throw_ops(1)], rule wp_seq [OF classify_all],
      goal_cases)
    case (1 queued t1 now_value t2 classes t3)
    then have "calm t1 t3" by (blast intro: cm.R_trans)
    then obtain new where "ex_pending t3 = queued @ new" using 1(1) by (auto elim: calm_pending)
    moreover have "exec_inv {} t3" using inv 1(1) \<open>calm t1 t3\<close> by (blast intro: calmD(2))
    ultimately show ?case using 1(3) by (intro finish) auto
  qed
qed

section \<open>Lanes\<close>

lemma cleared_slot:
  assumes inv: "exec_inv (insert i F) s" and lane: "lane < kMaximumConcurrency" "ex_slots s ! lane = Some i"
    and p: "ex_prefill_lane s \<noteq> Some lane"
    and t: "t = s\<lparr>ex_slots := (ex_slots s)[lane := None]\<rparr>"
  shows "exec_inv (insert i F) t" "Some i \<notin> set (ex_slots t)" "evolves {} {lane} s t"
proof -
  have len: "length (ex_slots s) = kMaximumConcurrency" by (rule inv_lengths(1) [OF inv])
  have at: "request_at t = request_at s" "ex_requests t = ex_requests s" "ex_pending t = ex_pending s"
    "ex_prefill_lane t = ex_prefill_lane s" "ex_max_concurrency t = ex_max_concurrency s"
    "\<And>l. ex_slots t ! l = (if l = lane then None else ex_slots s ! l)"
    using t lane(1) len by simp_all
  have others: "Some j \<in> set (ex_slots t)" if j: "Some j \<in> set (ex_slots s)" "j \<noteq> i" for j
  proof -
    from j(1) obtain l where l: "l < kMaximumConcurrency" "ex_slots s ! l = Some j" using len by (auto simp: in_set_conv_nth)
    then have "l \<noteq> lane" using lane j(2) by auto
    then have "ex_slots t ! l = Some j" using l at(6) by simp
    then show ?thesis using nth_mem [of l "ex_slots t"] l(1) len t by simp
  qed
  have "capacity_inv (insert i F) t"
    using inv t by (simp add: exec_inv_def capacity_inv_def charged_def)
  moreover have "queue_inv (insert i F) t" using inv at by (simp add: exec_inv_def queue_inv_def)
  moreover have "placed_inv (insert i F) t" using inv at others by (auto simp: exec_inv_def placed_inv_def)
  moreover have "lane_inv (insert i F) t"
  proof (rule lane_invI)
    fix l j assume "l < kMaximumConcurrency" "ex_slots t ! l = Some j"
    then show "l < ex_max_concurrency t \<and> j < length (ex_requests t) \<and> j \<notin> set (ex_pending t) \<and>
        rq_lane (request_at t j) = Some l \<and> rq_budget (request_at t j) \<noteq> None \<and>
        (j \<notin> insert i F \<longrightarrow> \<not> rq_done (request_at t j))"
      using inv_slot [OF inv, of l j] at by (auto split: if_splits)
  next
    fix l assume l: "ex_prefill_lane t = Some l"
    then have "ex_prefill_lane s = Some l" "l \<noteq> lane" using at p by auto
    from inv_prefill [OF inv this(1)] this(2) show "l < ex_max_concurrency t \<and>
        (\<exists>i. ex_slots t ! l = Some i \<and> \<not> rq_decode_ready (request_at t i))" using at by auto
  qed (use inv_lengths [OF inv] t in simp_all)
  ultimately show "exec_inv (insert i F) t" by (simp add: exec_inv_def)
  show "Some i \<notin> set (ex_slots t)"
  proof
    assume "Some i \<in> set (ex_slots t)"
    then obtain l where "l < kMaximumConcurrency" "ex_slots t ! l = Some i" using len t by (auto simp: in_set_conv_nth)
    then show False using inv_lane_unique [OF inv _ lane(2) _ lane(1), of l] at(6) by (auto split: if_splits)
  qed
  show "evolves {} {lane} s t" using at t by (auto simp: evolves_def closed_def intro: exI [of _ "[]"])
qed

lemma remove_slot_contract:
  fixes s :: "('g, 'p, 'l, 'o) executor"
  assumes "exec_inv (insert i F) s" "lane < kMaximumConcurrency" "ex_slots s ! lane = Some i" "closed i s"
    "ex_prefill_lane s \<noteq> Some lane"
  shows "wp (remove_completed_slot lane) (\<lambda>_ t. exec_inv F t \<and> evolves {} {lane} s t) E s"
proof -
  let ?t = "s\<lparr>ex_slots := (ex_slots s)[lane := None]\<rparr>"
  note off = cleared_slot [OF assms(1-3,5) refl]
  have "closed i ?t" using assms(4) by (simp add: closed_def)
  then have cleared: "exec_inv F ?t" "evolves {} {lane} s ?t" using inv_remove [OF off(1)] off by auto
  have "wp (invalidate_lane_plans lane) (\<lambda>_ t. exec_inv F t \<and> evolves {} {lane} s t) E
      (s\<lparr>ex_slots := (ex_slots s)[lane := None]\<rparr>)"
    by (rule wp_kept_no_throw [OF calm_small(8) no_throw_ops(8)])
      (use cleared in \<open>auto simp: calm_def intro: evolves_comp\<close>)
  then show ?thesis by (simp add: remove_completed_slot_def clear_slot_def)
qed

text \<open>Completing the owner of a lane and freeing the lane.\<close>

lemma retire_contract:
  fixes s :: "('g, 'p, 'l, 'o) executor"
  assumes inv: "exec_inv {} s" and lane: "lane < kMaximumConcurrency" "ex_slots s ! lane = Some i"
    and p: "ex_prefill_lane s \<noteq> Some lane"
    and settle: "\<And>t. completable {} i t \<Longrightarrow> wp settle (\<lambda>_. completed_from {} i t) E t"
  shows "wp (sbind settle (\<lambda>_. remove_completed_slot lane)) (\<lambda>_ t. exec_inv {} t \<and> evolves {i} {lane} s t) E s"
proof -
  note slot = inv_slot [OF inv lane(2,1)]
  have "completable {} i s" using slot inv_insert [OF inv slot(2,3)] by (simp add: completable_def)
  then show ?thesis
  proof (rule wp_seq [OF settle])
    fix t :: "('g, 'p, 'l, 'o) executor" assume t: "completed_from {} i s t"
    then have ev: "evolves {i} {} s t" by (simp add: completed_from_def)
    then have "ex_slots t ! lane = Some i" "ex_prefill_lane t \<noteq> Some lane"
      using evolves_no_lanes [OF ev] lane(2) p by simp_all
    then have "wp (remove_completed_slot lane) (\<lambda>_ u. exec_inv {} u \<and> evolves {} {lane} t u) E t"
      using t lane(1) by (intro remove_slot_contract) (auto simp: completed_from_def)
    then show "wp (remove_completed_slot lane) (\<lambda>_ u. exec_inv {} u \<and> evolves {i} {lane} s u) E t"
      by (rule wp_mono) (auto intro: evolves_comp [OF ev])
  qed
qed

lemma clear_prefill_contract:
  fixes s :: "('g, 'p, 'l, 'o) executor"
  assumes inv: "exec_inv F s"
  shows "wp (clear_prefill_of lane) (\<lambda>_ t. exec_inv F t \<and> ex_prefill_lane t \<noteq> Some lane \<and>
    ex_slots t = ex_slots s \<and> evolves {} {lane} s t) E s"
proof -
  let ?t = "s\<lparr>ex_memory := rm_deactivate (ex_memory s), ex_prefill_lane := None\<rparr>"
  have "exec_inv F ?t"
    using inv by (simp add: exec_inv_defs charged_def)
  moreover have "evolves {} {lane} s ?t" if "ex_prefill_lane s = Some lane"
    using that by (auto simp: evolves_def closed_def intro: exI [of _ "[]"])
  ultimately show ?thesis
    using inv by (auto simp: clear_prefill_of_def deactivate_memory_def)
qed

lemma lanes_below: "exec_inv F s \<Longrightarrow> lane \<in> set (lanes_of s) \<Longrightarrow> lane < kMaximumConcurrency"
  using inv_lengths(2) [of F s] by (simp add: lanes_of_def)

lemma snapshot_contract:
  fixes s :: "('g, 'p, 'l, 'o) executor"
  shows "wp snapshot_cancellations (\<lambda>flags t. calm s t \<and> (\<forall>x \<in> set flags. fst x \<in> set (lanes_of s))) E s"
  unfolding snapshot_cancellations_def wp_sbind wp_gets
proof (rule wp_smap [where I = "\<lambda>rest flags t. calm s t \<and> (\<forall>x \<in> set flags. fst x \<in> set (lanes_of s))"])
  fix lane rest and flags :: "(nat \<times> bool) list" and t :: "('g, 'p, 'l, 'o) executor"
  assume t: "calm s t \<and> (\<forall>x \<in> set flags. fst x \<in> set (lanes_of s))" and l: "set (lane # rest) \<subseteq> set (lanes_of s)"
  have c: "wp (load_cancelled i) (\<lambda>c u. calm s u) E t" for i
    by (rule wp_kept_no_throw [OF calm_small(2) no_throw_ops(2)]) (use t in \<open>auto intro: cm.R_trans\<close>)
  show "wp (sbind (gets (\<lambda>s. ex_slots s ! lane)) (\<lambda>slot. case slot of None \<Rightarrow> sret (lane, False)
       | Some i \<Rightarrow> sbind (load_cancelled i) (\<lambda>c. sret (lane, c))))
     (\<lambda>y u. calm s u \<and> (\<forall>x \<in> set (flags @ [y]). fst x \<in> set (lanes_of s))) E t"
    using t l by (auto split: option.split intro!: wp_mono [OF c])
qed (simp add: cm.R_refl)

lemma cancel_one_contract:
  fixes s :: "('g, 'p, 'l, 'o) executor"
  assumes tg: "output_total tg" and inv: "exec_inv {} s" and lane: "lane < kMaximumConcurrency" "ex_slots s ! lane = Some i"
  shows "wp (sbind (abort_lane tg lane) (\<lambda>_. sbind (clear_prefill_of lane) (\<lambda>_.
      sbind (complete_cancelled tg i) (\<lambda>_. remove_completed_slot lane)))) (\<lambda>_ t. exec_inv {} t \<and> evolves {i} {lane} s t) E s"
proof (rule wp_calm [OF calm_small(3) no_throw_ops(3)])
  fix t :: "('g, 'p, 'l, 'o) executor" assume t: "calm s t"
  have it: "exec_inv {} t" and slot: "ex_slots t ! lane = Some i"
    using calmD(2) [OF t inv] evolves_no_lanes(1) [OF calmD(1) [OF t]] lane(2) by simp_all
  show "wp (sbind (clear_prefill_of lane) (\<lambda>_. sbind (complete_cancelled tg i) (\<lambda>_. remove_completed_slot lane)))
      (\<lambda>_ t. exec_inv {} t \<and> evolves {i} {lane} s t) E t"
  proof (rule wp_seq [OF clear_prefill_contract [OF it]])
    fix u :: "('g, 'p, 'l, 'o) executor"
    assume u: "exec_inv {} u \<and> ex_prefill_lane u \<noteq> Some lane \<and> ex_slots u = ex_slots t \<and> evolves {} {lane} t u"
    then have su: "evolves {} {lane} s u" by (intro evolves_comp [OF calmD(1) [OF t], of _ "{lane}"]) auto
    have "wp (sbind (complete_cancelled tg i) (\<lambda>_. remove_completed_slot lane)) (\<lambda>_ v. exec_inv {} v \<and> evolves {i} {lane} u v) E u"
      using u slot lane(1) by (intro retire_contract complete_cancelled_contract [OF tg]) auto
    then show "wp (sbind (complete_cancelled tg i) (\<lambda>_. remove_completed_slot lane))
      (\<lambda>_ v. exec_inv {} v \<and> evolves {i} {lane} s v) E u"
      by (rule wp_mono) (auto intro: evolves_comp [OF su])
  qed
qed

lemma cancel_active_contract:
  fixes s :: "('g, 'p, 'l, 'o) executor"
  assumes tg: "output_total tg" and inv: "exec_inv {} s" and flags: "\<forall>x \<in> set flags. fst x < kMaximumConcurrency"
  shows "wp (cancel_active_requests tg flags) (\<lambda>_. exec_inv {}) E s"
proof -
  have "wp (smap (\<lambda>(lane, cancelled). sbind (gets (\<lambda>s. ex_slots s ! lane)) (\<lambda>slot.
       case slot of
         None \<Rightarrow> sret False
       | Some i \<Rightarrow>
          if \<not> cancelled then sret False
          else sbind (abort_lane tg lane) (\<lambda>_.
               sbind (clear_prefill_of lane) (\<lambda>_.
               sbind (complete_cancelled tg i) (\<lambda>_.
               sbind (remove_completed_slot lane) (\<lambda>_. sret True)))))) flags) (\<lambda>_. exec_inv {}) E s"
  proof (rule wp_smap [where I = "\<lambda>_ _. exec_inv {}", OF inv])
    fix x rest and t :: "('g, 'p, 'l, 'o) executor"
    assume t: "exec_inv {} t" and x: "set (x # rest) \<subseteq> set flags"
    obtain lane cancelled where xe: "x = (lane, cancelled)" by (cases x)
    then have lane: "lane < kMaximumConcurrency" using x flags by auto
    show "wp (case x of (lane, cancelled) \<Rightarrow> sbind (gets (\<lambda>s. ex_slots s ! lane)) (\<lambda>slot.
       case slot of
         None \<Rightarrow> sret False
       | Some i \<Rightarrow>
          if \<not> cancelled then sret False
          else sbind (abort_lane tg lane) (\<lambda>_.
               sbind (clear_prefill_of lane) (\<lambda>_.
               sbind (complete_cancelled tg i) (\<lambda>_.
               sbind (remove_completed_slot lane) (\<lambda>_. sret True)))))) (\<lambda>_. exec_inv {}) E t"
    proof (cases "ex_slots t ! lane")
      case (Some i)
      have "wp (sbind (abort_lane tg lane) (\<lambda>_. sbind (clear_prefill_of lane) (\<lambda>_.
          sbind (complete_cancelled tg i) (\<lambda>_. remove_completed_slot lane)))) (\<lambda>_. exec_inv {}) E t"
        by (rule wp_mono [OF cancel_one_contract [OF tg t lane Some]]) auto
      then show ?thesis using Some xe t by simp
    qed (use xe t in simp)
  qed
  then show ?thesis
    unfolding cancel_active_requests_def
    by (rule wp_seq) (rule wp_kept_no_throw [OF cm.preserves_swhen [OF calm_small(5)] no_throw_swhen [OF no_throw_ops(5)]],
        simp add: calmD(2))
qed

section \<open>Prefill\<close>


definition owned :: "nat \<Rightarrow> nat \<Rightarrow> ('g, 'p, 'l, 'o) executor \<Rightarrow> bool" where
  "owned lane i s = (exec_inv {} s \<and> lane < kMaximumConcurrency \<and> ex_slots s ! lane = Some i)"

text \<open>An exception leaves the request in its lane, unless the process is aborted.\<close>

definition still_owned :: "nat \<Rightarrow> nat \<Rightarrow> exn \<Rightarrow> ('g, 'p, 'l, 'o) executor \<Rightarrow> bool" where
  "still_owned lane i e s = (e = process_abort \<or> owned lane i s)"

lemma owned_calm: "owned lane i s \<Longrightarrow> calm s t \<Longrightarrow> owned lane i t"
  using calmD [of s t] evolves_no_lanes(1) [of "{}" s t] by (auto simp: owned_def)

lemma owned_completable: "owned lane i s \<Longrightarrow> completable {} i s"
  using inv_slot [of "{}" s lane i] inv_insert [of "{}" s i] by (auto simp: owned_def completable_def)

lemma calm_prefill: "calm s t \<Longrightarrow> ex_prefill_lane t = ex_prefill_lane s"
  using evolves_no_lanes(2) [of "{}" s t] by (simp add: calm_def)

text \<open>A sequence of calm steps, followed from its first state.\<close>

lemma calm_chain:
  assumes "calm s s'" "preserves calm m" "\<And>x t. calm s t \<Longrightarrow> wp (f x) Q E t" "\<And>e t. calm s t \<Longrightarrow> E e t"
  shows "wp (sbind m f) Q E s'"
  by (rule wp_seq_kept [OF assms(2)]) (use assms in \<open>blast intro: cm.R_trans\<close>)+

lemma calm_chain_budget:
  assumes "calm s s'" "owned lane i s" "\<And>t. calm s t \<Longrightarrow> wp (f ()) Q E t" "\<And>t. E process_abort t"
  shows "wp (sbind (commit_budget i tokens) f) Q E s'"
proof -
  have o: "owned lane i s'" by (rule owned_calm [OF assms(2,1)])
  then have "calm s' (snd (commit_budget i tokens s'))"
    using inv_slot [of "{}" s' lane i] by (intro calm_commit_budget) (auto simp: owned_def)
  then have "calm s (snd (commit_budget i tokens s'))" using assms(1) by (rule cm.R_trans [rotated])
  then show ?thesis
    using assms(3,4) unfolding wp_sbind by (auto simp: wp_def commit_budget_def split: option.splits)
qed

definition resolved :: "nat \<Rightarrow> nat \<Rightarrow> ('g, 'p, 'l, 'o) executor \<Rightarrow> bool \<Rightarrow> ('g, 'p, 'l, 'o) executor \<Rightarrow> bool" where
  "resolved lane i s completed t = (if completed then completed_from {} i s t else calm s t)"

lemma resolve_round_contract:
  fixes s :: "('g, 'p, 'l, 'o) executor"
  assumes o: "owned lane i s"
  shows "wp (resolve_round tg i token False) (resolved lane i s) (still_owned lane i) s"
proof -
  have thrown: "\<And>e t. calm s t \<Longrightarrow> still_owned lane i e t"
    using owned_calm [OF o] by (simp add: still_owned_def)
  have finish: "wp (if finished decision
         then sbind (complete_success tg i (dc_finish_reason decision)) (\<lambda>_. sret True)
         else sret False) (resolved lane i s) (still_owned lane i) t" if "calm s t" for t decision
  proof -
    have "wp (complete_success tg i (dc_finish_reason decision)) (\<lambda>_. completed_from {} i s) (still_owned lane i) t"
      by (rule wp_mono [OF complete_success_contract [OF owned_completable [OF owned_calm [OF o that]]]])
        (auto intro: completed_from_calm [OF that])
    then show ?thesis using that by (auto simp: resolved_def elim: wp_mono)
  qed
  have aborted: "\<And>t. still_owned lane i process_abort t" by (simp add: still_owned_def)
  show ?thesis
    unfolding resolve_round_def if_False
    by (intro calm_chain [of s] calm_chain_budget [OF _ o] finish wp_if wp_throw cm.preserves_gets calm_on_output
        calm_on_request calm_on_target calm_set_first_token calm_small(6) aborted thrown)
      (auto simp: req_core_def cm.R_refl)
qed

lemma capacity_cong:
  assumes "capacity_inv F s" "length (ex_requests t) = length (ex_requests s)"
    "ex_outstanding t = ex_outstanding s" "ex_max_outstanding t = ex_max_outstanding s"
    "ex_submitting t = ex_submitting s" "ex_releasing t = ex_releasing s"
    and flags: "\<And>j. j < length (ex_requests s) \<Longrightarrow> rq_done (request_at t j) = rq_done (request_at s j) \<and>
      rq_consumer_released (request_at t j) = rq_consumer_released (request_at s j) \<and>
      rq_capacity_released (request_at t j) = rq_capacity_released (request_at s j)"
  shows "capacity_inv F t"
proof -
  have "charged t = charged s" using assms(2) flags by (auto simp: charged_def)
  then show ?thesis using assms by (simp add: capacity_inv_def)
qed

lemma decode_ready_inv:
  assumes o: "owned lane i s" and p: "ex_prefill_lane s \<noteq> Some lane"
  shows "exec_inv {} (update_request i (\<lambda>r. r\<lparr>rq_decode_ready := True\<rparr>) s)" (is "exec_inv {} ?t")
proof -
  have inv: "exec_inv {} s" and lane: "lane < kMaximumConcurrency" "ex_slots s ! lane = Some i"
    using o by (simp_all add: owned_def)
  note slot = inv_slot [OF inv lane(2,1)]
  have flags: "rq_done (request_at ?t j) = rq_done (request_at s j)"
    "rq_consumer_released (request_at ?t j) = rq_consumer_released (request_at s j)"
    "rq_capacity_released (request_at ?t j) = rq_capacity_released (request_at s j)"
    "rq_lane (request_at ?t j) = rq_lane (request_at s j)" "rq_budget (request_at ?t j) = rq_budget (request_at s j)"
    "rq_decode_ready (request_at ?t j) = (j = i \<or> rq_decode_ready (request_at s j))"
    if "j < length (ex_requests s)" for j using that by simp_all
  have "capacity_inv {} s" using inv by (simp add: exec_inv_def)
  then have "capacity_inv {} ?t" by (rule capacity_cong) simp_all
  moreover have "queue_inv {} ?t" using inv slot(3) by (auto simp: exec_inv_def queue_inv_def)
  moreover have "placed_inv {} s" using inv by (simp add: exec_inv_def)
  then have "placed_inv {} ?t" by (simp add: placed_inv_def flags del: request_at_update)
  moreover have "lane_inv {} ?t"
  proof (rule lane_invI)
    fix l j assume "l < kMaximumConcurrency" "ex_slots ?t ! l = Some j"
    then show "l < ex_max_concurrency ?t \<and> j < length (ex_requests ?t) \<and> j \<notin> set (ex_pending ?t) \<and>
        rq_lane (request_at ?t j) = Some l \<and> rq_budget (request_at ?t j) \<noteq> None \<and>
        (j \<notin> {} \<longrightarrow> \<not> rq_done (request_at ?t j))"
      using inv_slot [OF inv, of l j] flags [of j] by (simp del: request_at_update)
  next
    fix l assume "ex_prefill_lane ?t = Some l"
    then have l: "ex_prefill_lane s = Some l" by simp
    from inv_prefill [OF inv l] obtain j where j: "l < ex_max_concurrency s" "l < kMaximumConcurrency"
      "ex_slots s ! l = Some j" "j < length (ex_requests s)" "\<not> rq_decode_ready (request_at s j)" by blast
    have "j \<noteq> i" using inv_lane_unique [OF inv _ lane(2) j(2) lane(1)] j(3) l p by auto
    then show "l < ex_max_concurrency ?t \<and> (\<exists>i. ex_slots ?t ! l = Some i \<and> \<not> rq_decode_ready (request_at ?t i))"
      using j flags(6) [OF j(4)] by (simp del: request_at_update)
  qed (use inv_lengths [OF inv] in simp_all)
  ultimately show ?thesis by (simp add: exec_inv_def)
qed

lemma finish_prefill_contract:
  fixes s :: "('g, 'p, 'l, 'o) executor"
  assumes o: "owned lane i s" and p: "ex_prefill_lane s \<noteq> Some lane"
  shows "wp (sbind (resolve_round tg i token False) (\<lambda>completed.
      if completed then remove_completed_slot lane else on_request i (\<lambda>r. r\<lparr>rq_decode_ready := True\<rparr>)))
    (\<lambda>_. exec_inv {}) (still_owned lane i) s"
proof (rule wp_seq [OF resolve_round_contract [OF o]])
  fix completed and t :: "('g, 'p, 'l, 'o) executor"
  assume t: "resolved lane i s completed t"
  show "wp (if completed then remove_completed_slot lane else on_request i (\<lambda>r. r\<lparr>rq_decode_ready := True\<rparr>))
    (\<lambda>_. exec_inv {}) (still_owned lane i) t"
  proof (cases completed)
    case True
    then have c: "completed_from {} i s t" using t by (simp add: resolved_def)
    then have "ex_slots t = ex_slots s" "ex_prefill_lane t = ex_prefill_lane s"
      using evolves_no_lanes [of "{i}" s t] by (auto simp: completed_from_def)
    then have "wp (remove_completed_slot lane) (\<lambda>_ u. exec_inv {} u \<and> evolves {} {lane} t u) (still_owned lane i) t"
      using c o p by (intro remove_slot_contract [of i]) (auto simp: completed_from_def owned_def)
    then show ?thesis using True by (auto elim: wp_mono)
  next
    case False
    then have c: "calm s t" using t by (simp add: resolved_def)
    then show ?thesis using decode_ready_inv [OF owned_calm [OF o c]] calm_prefill [OF c] p False
      by (simp add: on_request_def)
  qed
qed

lemma cancel_prefill_contract:
  fixes s :: "('g, 'p, 'l, 'o) executor"
  assumes tg: "output_total tg" and o: "owned lane i s"
  shows "wp (sbind (clear_prefill_of lane) (\<lambda>_. sbind (abort_lane tg lane) (\<lambda>_.
      sbind (complete_cancelled tg i) (\<lambda>_. remove_completed_slot lane)))) (\<lambda>_. exec_inv {}) E s"
proof -
  have inv: "exec_inv {} s" using o by (simp add: owned_def)
  show ?thesis
proof (rule wp_seq [OF clear_prefill_contract [OF inv]], goal_cases)
  case (1 _ t)
  show ?case
  proof (rule wp_calm [OF calm_small(3) no_throw_ops(3)])
    fix u :: "('g, 'p, 'l, 'o) executor" assume u: "calm t u"
    have "ex_slots u = ex_slots t" "ex_prefill_lane u = ex_prefill_lane t" "exec_inv {} u"
      using 1 evolves_no_lanes [OF calmD(1) [OF u]] calmD(2) [OF u] by auto
    then have "wp (sbind (complete_cancelled tg i) (\<lambda>_. remove_completed_slot lane))
        (\<lambda>_ v. exec_inv {} v \<and> evolves {i} {lane} u v) E u"
      using 1 o by (intro retire_contract complete_cancelled_contract [OF tg]) (auto simp: owned_def)
    then show "wp (sbind (complete_cancelled tg i) (\<lambda>_. remove_completed_slot lane)) (\<lambda>_. exec_inv {}) E u"
      by (rule wp_mono) auto
  qed
qed
qed

lemma resolve_prefill_contract:
  fixes s :: "('g, 'p, 'l, 'o) executor"
  assumes tg: "output_total tg" and o: "owned lane i s"
  shows "wp (resolve_prefill_step tg i step cancel) (\<lambda>_. exec_inv {}) (still_owned lane i) s"
proof -
  have thrown: "\<And>e t. calm s t \<Longrightarrow> still_owned lane i e t"
    using owned_calm [OF o] by (simp add: still_owned_def)
  have complete_step: "wp (sbind (clear_prefill_of lane) (\<lambda>_.
        sbind (on_request i (\<lambda>r. r\<lparr>rq_begin := Some (pf_summary step)\<rparr>)) (\<lambda>_.
            if length (pf_tokens step) \<noteq> 1
            then sthrow (logic_error ''prefill did not license exactly one token'')
            else sbind (resolve_round tg i (hd (pf_tokens step)) False) (\<lambda>completed.
              if completed then remove_completed_slot lane
              else on_request i (\<lambda>r. r\<lparr>rq_decode_ready := True\<rparr>)))))
      (\<lambda>_. exec_inv {}) (still_owned lane i) t" if t: "owned lane i t" for t
  proof (rule wp_seq [OF clear_prefill_contract [of "{}" t]], goal_cases)
    case 1
    show ?case using t by (simp add: owned_def)
  next
    case (2 _ u)
    then have ou: "owned lane i u" using t by (simp add: owned_def)
    show ?case
    proof (rule wp_calm [OF calm_on_request no_throw_ops(12)])
      fix v :: "('g, 'p, 'l, 'o) executor" assume v: "calm u v"
      have "owned lane i v" "ex_prefill_lane v \<noteq> Some lane" using owned_calm [OF ou v] calm_prefill [OF v] 2 by auto
      then show "wp (if length (pf_tokens step) \<noteq> 1
            then sthrow (logic_error ''prefill did not license exactly one token'')
            else sbind (resolve_round tg i (hd (pf_tokens step)) False) (\<lambda>completed.
              if completed then remove_completed_slot lane
              else on_request i (\<lambda>r. r\<lparr>rq_decode_ready := True\<rparr>))) (\<lambda>_. exec_inv {}) (still_owned lane i) v"
        by (intro wp_if wp_throw finish_prefill_contract) (simp add: still_owned_def)
    qed (simp add: req_core_def)
  qed
  show ?thesis
    unfolding resolve_prefill_step_def
  proof (rule calm_chain [OF cm.R_refl calm_modify], simp add: same_core_def,
      rule calm_chain [of s, OF _ calm_state_actions(2)], assumption, goal_cases)
    case (1 _ t1 _ t)
    then have ot: "owned lane i t" by (blast intro: owned_calm [OF o])
    then have "rq_lane (request_at t i) = Some lane" using inv_slot(4) [of "{}" t lane i] by (simp add: owned_def)
    moreover have "exec_inv {} t" using ot by (simp add: owned_def)
    ultimately show ?case
      using complete_step [OF ot] cancel_prefill_contract [OF tg ot]
      by (cases cancel; cases "pf_complete step") (simp_all only: wp_sbind wp_gets option.case if_True if_False not_True_eq_False not_False_eq_True wp_sret)
  qed (auto intro: thrown)
qed

end
