(* ===== verification/Executor_Admit.thy ===== *)
theory Executor_Admit
  imports Executor_Safety
begin

text \<open>
  Contracts of the admission path over the executor invariant: the search for a lane, the
  installation of a request, its first prefill step and the handling of a failure in between,
  and the loops over the head of the queue and the requests behind it.
\<close>

definition ok_exn :: "exn \<Rightarrow> ('g, 'p, 'l, 'o) executor \<Rightarrow> bool" where
  "ok_exn e s = (e = process_abort \<or> exec_inv {} s)"

lemma wp_gets_seq: "wp (sbind (gets f) k) Q E s = wp (k (f s)) Q E s"
  by simp

lemma ok_calm: "exec_inv {} s \<Longrightarrow> calm s t \<Longrightarrow> ok_exn e t"
  by (simp add: ok_exn_def calmD(2))

lemma owned_inv: "owned lane i s \<Longrightarrow> exec_inv {} s"
  by (simp add: owned_def)

lemma run_prefill_contract:
  fixes s :: "('g, 'p, 'l, 'o) executor"
  assumes tg: "output_total tg" and inv: "exec_inv {} s"
  shows "wp (run_prefill_step tg) (\<lambda>_. exec_inv {}) ok_exn s"
proof (cases "ex_prefill_lane s")
  case (Some lane)
  from inv_prefill [OF inv Some] obtain i where i: "lane < kMaximumConcurrency" "ex_slots s ! lane = Some i"
    "\<not> rq_decode_ready (request_at s i)" by blast
  then have o: "owned lane i s" using inv by (simp add: owned_def)
  have step: "wp (sbind (resolve_prefill_step tg i step cancel) (\<lambda>_. publish_runtime_stats)) (\<lambda>_. exec_inv {}) ok_exn t"
    if "calm s t" for t step cancel
  proof (rule wp_seq)
    show "wp (resolve_prefill_step tg i step cancel) (\<lambda>_. exec_inv {}) ok_exn t"
      by (rule wp_mono [OF resolve_prefill_contract [OF tg owned_calm [OF o that]]])
        (auto simp: still_owned_def ok_exn_def owned_inv)
    fix u :: "('g, 'p, 'l, 'o) executor" assume "exec_inv {} u"
    then show "wp publish_runtime_stats (\<lambda>_. exec_inv {}) ok_exn u"
      by (intro wp_kept_no_throw [OF calm_small(5) no_throw_ops(5)]) (simp add: calmD(2))
  qed
  have "wp (sbind (on_target (tg_advance_prefill_lane tg lane)) (\<lambda>step.
          sbind (load_cancelled i) (\<lambda>cancel_at_boundary.
          sbind (resolve_prefill_step tg i step cancel_at_boundary) (\<lambda>_.
          publish_runtime_stats)))) (\<lambda>_. exec_inv {}) ok_exn s"
    by (intro calm_chain [of s] step calm_on_target calm_small(2) cm.R_refl ok_calm [OF inv])
  then show ?thesis
    unfolding run_prefill_step_def using Some i by simp
qed (use inv in \<open>simp add: run_prefill_step_def ok_exn_def\<close>)

section \<open>Finding a lane\<close>

lemma fold_best:
  assumes "foldl (\<lambda>best c. case c of None \<Rightarrow> best | Some (lane, reuse) \<Rightarrow>
      (case best of None \<Rightarrow> Some (lane, reuse)
       | Some (l, b) \<Rightarrow> if reuse > b then Some (lane, reuse) else Some (l, b))) start found = Some (lane, r)"
  shows "start = Some (lane, r) \<or> Some (lane, r) \<in> set found"
  using assms
proof (induction found arbitrary: start)
  case (Cons c found)
  from Cons.IH [OF Cons.prems [unfolded foldl.simps]] show ?case
    by (auto split: option.splits prod.splits if_splits)
qed simp

definition free_choice :: "('g, 'p, 'l, 'o) executor \<Rightarrow> lane_choice option \<Rightarrow> bool" where
  "free_choice s choice = (\<forall>c. choice = Some c \<longrightarrow> lc_lane c < ex_max_concurrency s \<and> ex_slots s ! lc_lane c = None)"

lemma scan_lanes_contract:
  fixes s :: "('g, 'p, 'l, 'o) executor"
  shows "wp (scan_lanes tg i test evict) (\<lambda>choice t. calm s t \<and> free_choice s choice) (\<lambda>_. calm s) s"
proof -
  let ?ok = "\<lambda>found. \<forall>lane r. Some (lane, r) \<in> set found \<longrightarrow> lane < ex_max_concurrency s \<and> ex_slots s ! lane = None"
  have "wp (smap (\<lambda>lane. sbind (gets (\<lambda>s. ex_slots s ! lane)) (\<lambda>slot.
         if slot \<noteq> None then sret None
         else sbind (ensure_lane_plan tg i lane) (\<lambda>_.
           gets (\<lambda>s. let plan = the (rq_lane_plans (request_at s i) lane)
             in if test (ex_target s) lane plan
                then Some (lane, ps_reusable_prompt_tokens (tg_summary tg plan)) else None)))) (lanes_of s))
      (\<lambda>found t. calm s t \<and> ?ok found) (\<lambda>_. calm s) s"
  proof (rule wp_smap [where I = "\<lambda>_ found t. calm s t \<and> ?ok found"])
    fix lane rest and found :: "(nat \<times> u32) option list" and t :: "('g, 'p, 'l, 'o) executor"
    assume t: "calm s t \<and> ?ok found" and "set (lane # rest) \<subseteq> set (lanes_of s)"
    then have lane: "lane < ex_max_concurrency s" by (simp add: lanes_of_def)
    have slots: "ex_slots t = ex_slots s" using t evolves_no_lanes(1) [OF calmD(1)] by blast
    have plan: "wp (ensure_lane_plan tg i lane) (\<lambda>_. calm s) (\<lambda>_. calm s) t"
      by (rule wp_kept [OF calm_plans(2)]) (use t in \<open>auto intro: cm.R_trans\<close>)
    show "wp (sbind (gets (\<lambda>s. ex_slots s ! lane)) (\<lambda>slot.
         if slot \<noteq> None then sret None
         else sbind (ensure_lane_plan tg i lane) (\<lambda>_.
           gets (\<lambda>s. let plan = the (rq_lane_plans (request_at s i) lane)
             in if test (ex_target s) lane plan
                then Some (lane, ps_reusable_prompt_tokens (tg_summary tg plan)) else None))))
       (\<lambda>y u. calm s u \<and> ?ok (found @ [y])) (\<lambda>_. calm s) t"
      using t lane slots by (auto simp: Let_def intro!: wp_mono [OF plan] split: if_splits)
  qed (simp add: cm.R_refl)
  then show ?thesis
    unfolding scan_lanes_def
    by (auto elim!: wp_mono simp: free_choice_def split: option.splits dest!: fold_best) blast+
qed

lemma find_lane_contract:
  fixes s :: "('g, 'p, 'l, 'o) executor"
  shows "wp (find_admission_lane tg i) (\<lambda>choice t. calm s t \<and> free_choice s choice) (\<lambda>_. calm s) s"
  unfolding find_admission_lane_def
proof (rule wp_seq [OF scan_lanes_contract])
  fix selected and t :: "('g, 'p, 'l, 'o) executor" assume t: "calm s t \<and> free_choice s selected"
  then have same: "ex_slots t = ex_slots s" "ex_max_concurrency t = ex_max_concurrency s"
    using evolves_no_lanes(1) [OF calmD(1)] evolves_lanes(1) [OF calmD(1)] by blast+
  have "wp (scan_lanes tg i (tg_can_admit_lane_after_retained_eviction tg) True)
      (\<lambda>choice u. calm s u \<and> free_choice s choice) (\<lambda>_. calm s) t"
    by (rule wp_mono [OF scan_lanes_contract]) (use t same in \<open>auto simp: free_choice_def intro: cm.R_trans\<close>)
  then show "wp (if selected \<noteq> None then sret selected
      else scan_lanes tg i (tg_can_admit_lane_after_retained_eviction tg) True)
      (\<lambda>choice u. calm s u \<and> free_choice s choice) (\<lambda>_. calm s) t"
    using t by simp
qed

section \<open>Screening a queued request\<close>

definition screening_post :: "nat \<Rightarrow> ('g, 'p, 'l, 'o) executor \<Rightarrow> screening \<Rightarrow> ('g, 'p, 'l, 'o) executor \<Rightarrow> bool" where
  "screening_post i s verdict t = (exec_inv {} t \<and> (case verdict of
       Removed _ \<Rightarrow> evolves {i} {} s t
     | Blocked \<Rightarrow> calm s t
     | Placeable c \<Rightarrow> calm s t \<and> free_choice s (Some c)))"

lemma free_choice_calm: "calm s t \<Longrightarrow> free_choice t c = free_choice s c"
  using evolves_no_lanes(1) [of "{}" s t] evolves_lanes(1) [of "{}" "{}" s t] by (simp add: calm_def free_choice_def)

lemma screening_post_calm: "calm s t \<Longrightarrow> screening_post i t v u \<Longrightarrow> screening_post i s v u"
  using free_choice_calm [of s t]
  by (auto simp: screening_post_def calm_def intro: evolves_comp split: screening.splits)

lemma removed_post:
  assumes inv: "exec_inv {} s" and i: "i \<in> set (ex_pending s)" and t: "calm s t"
  shows "wp (remove_pending_error i e) (\<lambda>_. screening_post i s (Removed b)) E t"
proof -
  have "i \<in> set (ex_pending t)" using evolves_queue(1) [OF calmD(1) [OF t] i] by simp
  from remove_pending_contract [OF calmD(2) [OF t inv] this] show ?thesis
    by (rule wp_mono) (auto simp: screening_post_def intro: evolves_comp [OF calmD(1) [OF t]])
qed

lemma find_or_remove_contract:
  fixes s :: "('g, 'p, 'l, 'o) executor"
  assumes inv: "exec_inv {} s" and i: "i \<in> set (ex_pending s)"
  shows "wp (find_lane_or_remove tg i) (screening_post i s) ok_exn s"
  unfolding find_lane_or_remove_def wp_scatch wp_sbind
proof (rule wp_mono [OF find_lane_contract])
  fix choice and t :: "('g, 'p, 'l, 'o) executor" assume t: "calm s t \<and> free_choice s choice"
  then have "exec_inv {} t" using inv by (blast intro: calmD(2))
  then show "wp (sret (case choice of None \<Rightarrow> Blocked | Some c \<Rightarrow> Placeable c)) (screening_post i s)
      (\<lambda>e s'. if e = process_abort then ok_exn e s' else wp (remove_pending_error i e)
         (\<lambda>x. wp (sret (Removed True)) (screening_post i s) ok_exn) ok_exn s') t"
    using t by (auto simp: screening_post_def split: option.split)
next
  fix e and t :: "('g, 'p, 'l, 'o) executor" assume t: "calm s t"
  show "if e = process_abort then ok_exn e t else wp (remove_pending_error i e)
         (\<lambda>x. wp (sret (Removed True)) (screening_post i s) ok_exn) ok_exn t"
    using removed_post [OF inv i t] by (simp add: ok_exn_def)
qed

lemma plan_or_remove_contract:
  fixes s :: "('g, 'p, 'l, 'o) executor"
  assumes inv: "exec_inv {} s" and i: "i \<in> set (ex_pending s)"
  shows "wp (plan_base_or_remove tg i)
    (\<lambda>planned t. if planned then calm s t else screening_post i s (Removed True) t) ok_exn s"
  unfolding plan_base_or_remove_def wp_scatch wp_sbind
proof (rule wp_kept [OF calm_plans(1)])
  fix e and t :: "('g, 'p, 'l, 'o) executor" assume t: "calm s t"
  show "if e = process_abort then ok_exn e t else wp (remove_pending_error i e)
      (\<lambda>x. wp (sret False) (\<lambda>planned t. if planned then calm s t else screening_post i s (Removed True) t) ok_exn) ok_exn t"
    using removed_post [OF inv i t] by (simp add: ok_exn_def)
qed simp

lemma screen_contract:
  fixes s :: "('g, 'p, 'l, 'o) executor"
  assumes tg: "output_total tg" and inv: "exec_inv {} s" and i: "i \<in> set (ex_pending s)"
  shows "wp (screen_request tg is_head i) (screening_post i s) ok_exn s"
proof -
  have it: "i \<in> set (ex_pending t)" and invt: "exec_inv {} t" if "calm s t" for t
    using evolves_queue(1) [OF calmD(1) [OF that] i] calmD(2) [OF that inv] by simp_all
  have cancelled: "wp (sbind (erase_pending i) (\<lambda>erased.
       if \<not> erased then sret (Removed False)
       else sbind (swhen is_head (clear_protection_if_head i)) (\<lambda>_.
            sbind (complete_cancelled tg i) (\<lambda>_.
            sbind publish_runtime_stats (\<lambda>_. sret (Removed True)))))) (screening_post i s) ok_exn t"
    if t: "calm s t" for t
  proof -
    have "wp (sbind (erase_pending i) (\<lambda>erased.
       if \<not> erased then sret (Removed False)
       else sbind (swhen is_head (clear_protection_if_head i)) (\<lambda>_.
            sbind (complete_cancelled tg i) (\<lambda>_.
            sbind publish_runtime_stats (\<lambda>_. sret (Removed True))))))
         (\<lambda>v u. v = Removed True \<and> exec_inv {} u \<and> evolves {i} {} t u) ok_exn t"
      by (rule erase_and_complete [OF invt [OF t] it [OF t] cm.preserves_swhen [OF calm_small(12)]
            no_throw_swhen [OF no_throw_ops(11)] complete_cancelled_contract [OF tg]])
    then show ?thesis
      by (rule wp_mono) (auto simp: screening_post_def intro: evolves_comp [OF calmD(1) [OF t]])
  qed
  have timeout: "wp (sbind (remove_pending_error i e) (\<lambda>_. sret (Removed True))) (screening_post i s) ok_exn t"
    if "calm s t" for t e
    using removed_post [OF inv i that] by simp
  have planned: "wp (sbind (plan_base_or_remove tg i) (\<lambda>planned.
         if \<not> planned then sret (Removed True)
         else
           sbind (gets (\<lambda>s. admission_resources_fit
               (ps_admission (tg_summary tg (the (rq_base_plan (request_at s i))))) (ex_admission_capacity s))) (\<lambda>fit.
           if \<not> fit then sbind (remove_pending_error i capacity_error) (\<lambda>_. sret (Removed True))
           else find_lane_or_remove tg i))) (screening_post i s) ok_exn t" if t: "calm s t" for t
  proof (rule wp_seq [OF plan_or_remove_contract [OF invt [OF t] it [OF t]]])
    fix planned and u :: "('g, 'p, 'l, 'o) executor"
    assume u: "if planned then calm t u else screening_post i t (Removed True) u"
    have "wp (find_lane_or_remove tg i) (screening_post i s) ok_exn u" if "calm s u"
      by (rule wp_mono [OF find_or_remove_contract [OF invt [OF that] it [OF that]]])
        (auto intro: screening_post_calm [OF that])
    moreover have "calm s u" if "planned" using that u t by (auto intro: cm.R_trans)
    ultimately show "wp (if \<not> planned then sret (Removed True)
         else
           sbind (gets (\<lambda>s. admission_resources_fit
               (ps_admission (tg_summary tg (the (rq_base_plan (request_at s i))))) (ex_admission_capacity s))) (\<lambda>fit.
           if \<not> fit then sbind (remove_pending_error i capacity_error) (\<lambda>_. sret (Removed True))
           else find_lane_or_remove tg i)) (screening_post i s) ok_exn u"
      using u screening_post_calm [OF t] timeout [of u] by (cases planned) simp_all
  qed
  show ?thesis
    unfolding screen_request_def
    by (intro calm_chain [of s] wp_if cancelled timeout planned cm.preserves_gets calm_small(1,2) cm.R_refl
        ok_calm [OF inv])
qed

section \<open>Installing a request in a lane\<close>

lemma installed_state:
  assumes inv: "exec_inv {i} s" and fl: "in_flight i s"
    and lane: "lane < ex_max_concurrency s" "ex_slots s ! lane = None" and p: "ex_prefill_lane s = None"
    and f: "\<And>r. rq_done (f r) = rq_done r" "\<And>r. rq_consumer_released (f r) = rq_consumer_released r"
      "\<And>r. rq_capacity_released (f r) = rq_capacity_released r" "\<And>r. rq_lane (f r) = Some lane"
      "\<And>r. rq_decode_ready (f r) = rq_decode_ready r" "\<And>r. rq_budget (f r) \<noteq> None"
    and t: "t = (update_request i f s)\<lparr>ex_slots := (ex_slots s)[lane := Some i]\<rparr>"
  shows "owned lane i t" "ex_prefill_lane t = None" "\<not> rq_decode_ready (request_at t i)"
proof -
  have i: "i < length (ex_requests s)" "i \<notin> set (ex_pending s)" "\<not> rq_done (request_at s i)"
    "\<not> rq_decode_ready (request_at s i)" "Some i \<notin> set (ex_slots s)"
    using fl by (simp_all add: in_flight_def)
  have k: "lane < kMaximumConcurrency" "length (ex_slots s) = kMaximumConcurrency"
    using lane(1) inv_lengths [OF inv] by simp_all
  have same: "length (ex_requests t) = length (ex_requests s)" "ex_pending t = ex_pending s"
    "ex_prefill_lane t = None" "ex_max_concurrency t = ex_max_concurrency s"
    "\<And>l. ex_slots t ! l = (if l = lane then Some i else ex_slots s ! l)" "length (ex_slots t) = kMaximumConcurrency"
    using t p k by simp_all
  have req: "rq_done (request_at t j) = rq_done (request_at s j)"
    "rq_decode_ready (request_at t j) = rq_decode_ready (request_at s j)"
    "j \<noteq> i \<Longrightarrow> request_at t j = request_at s j" if "j < length (ex_requests s)" for j
    using that t by (simp_all add: f)
  have own: "rq_lane (request_at t i) = Some lane" "rq_budget (request_at t i) \<noteq> None"
    using i(1) t f(4,6) by simp_all
  have others: "Some j \<in> set (ex_slots t)" if j: "Some j \<in> set (ex_slots s)" for j
  proof -
    from j obtain l where l: "l < kMaximumConcurrency" "ex_slots s ! l = Some j" using k(2) by (auto simp: in_set_conv_nth)
    then have "ex_slots t ! l = Some j" using lane(2) same(5) [of l] by auto
    then show ?thesis using nth_mem [of l "ex_slots t"] l(1) same(6) by simp
  qed
  have mem: "Some i \<in> set (ex_slots t)" using nth_mem [of lane "ex_slots t"] same(5) [of lane] same(6) k(1) by simp
  have cap: "capacity_inv {i} s" "queue_inv {i} s" "placed_inv {i} s" using inv by (simp_all add: exec_inv_def)
  have "capacity_inv {i} t" by (rule capacity_cong [OF cap(1)]) (use t i in \<open>simp_all add: f\<close>)
  then have "capacity_inv {} t" using req(1) [OF i(1)] i(3) by (auto simp: capacity_inv_def)
  moreover have "queue_inv {} t" using cap(2) same req by (auto simp: queue_inv_def)
  moreover have "placed_inv {} t" using cap(3) same req mem others by (auto simp: placed_inv_def)
  moreover have "lane_inv {} t"
  proof (rule lane_invI)
    fix l j assume l: "l < kMaximumConcurrency" "ex_slots t ! l = Some j"
    show "l < ex_max_concurrency t \<and> j < length (ex_requests t) \<and> j \<notin> set (ex_pending t) \<and>
        rq_lane (request_at t j) = Some l \<and> rq_budget (request_at t j) \<noteq> None \<and>
        (j \<notin> {} \<longrightarrow> \<not> rq_done (request_at t j))"
    proof (cases "l = lane")
      case True
      then have "j = i" using l(2) same(5) by simp
      then show ?thesis using True own same lane(1) i req(1) [OF i(1)] by simp
    next
      case False
      then have sl: "ex_slots s ! l = Some j" using l(2) same(5) by simp
      note slot = inv_slot [OF inv sl l(1)]
      have "j \<noteq> i" using slot(7) i(5) by blast
      then show ?thesis using slot req [OF slot(2)] same by simp
    qed
  qed (use same inv_lengths [OF inv] in simp_all)
  ultimately show "owned lane i t" using k(1) same(5) by (simp add: owned_def exec_inv_def)
  show "ex_prefill_lane t = None" by (rule same(3))
  show "\<not> rq_decode_ready (request_at t i)" using req(2) [OF i(1)] i(4) by simp
qed

lemma prefill_owner:
  assumes o: "owned lane i s" and "\<not> rq_decode_ready (request_at s i)"
  shows "owned lane i (s\<lparr>ex_prefill_lane := Some lane\<rparr>)" (is "owned lane i ?t")
proof -
  have inv: "exec_inv {} s" using o by (rule owned_inv)
  have "capacity_inv {} s" using inv by (simp add: exec_inv_def)
  then have "capacity_inv {} ?t" by (rule capacity_cong) simp_all
  moreover have "queue_inv {} ?t" "placed_inv {} ?t" using inv by (simp_all add: exec_inv_def queue_inv_def placed_inv_def)
  moreover have "lane_inv {} ?t"
    using inv assms inv_slot(1) [OF inv, of lane i] by (auto simp: exec_inv_def lane_inv_def owned_def)
  ultimately show ?thesis using o by (simp add: owned_def exec_inv_def)
qed

lemma install_contract:
  fixes s :: "('g, 'p, 'l, 'o) executor"
  assumes inv: "exec_inv {i} s" and fl: "in_flight i s"
    and lane: "lane < ex_max_concurrency s" "ex_slots s ! lane = None" and p: "ex_prefill_lane s = None"
  shows "wp (install_admitted tg i lane plan bclass epoch) (\<lambda>_. owned lane i) (still_owned lane i) s"
proof (cases "make_generation_budget (ps_effective_output_tokens (tg_summary tg plan))
    (ps_effective_limit_reason (tg_summary tg plan))")
  case (Some budget)
  let ?sum = "tg_summary tg plan"
  let ?f = "\<lambda>r. r\<lparr>rq_budget := Some budget, rq_lane := Some lane, rq_admission_resources := ps_admission ?sum,
      rq_remaining_service_work := ps_service_work_quanta ?sum, rq_backfill_epoch := epoch, rq_backfill_class := bclass\<rparr>"
  let ?t = "(update_request i ?f s)\<lparr>ex_slots := (ex_slots s)[lane := Some i]\<rparr>"
  note t = installed_state [OF inv fl lane p, of ?f ?t, simplified]
  have it: "i < length (ex_requests ?t)" using fl by (simp add: in_flight_def)
  have ot: "owned lane i u" and ready: "\<not> rq_decode_ready (request_at u i)" if "calm ?t u" for u
    using owned_calm [OF t(1) that] evolves_request(5) [OF calmD(1) [OF that] it] t(3) by simp_all
  have publish: "wp (sbind publish_runtime_stats (\<lambda>_. sret transient)) (\<lambda>_. owned lane i) (still_owned lane i) u"
    if "owned lane i u" for transient u
    by (rule wp_calm [OF calm_small(5) no_throw_ops(5)]) (simp add: owned_calm [OF that])
  have "wp (sbind (invalidate_lane_plans lane) (\<lambda>_.
        sbind (if b
          then sbind (activate_memory (ps_transient_bytes ?sum) (ps_transient_alignment ?sum)) (\<lambda>_.
               sbind (modify (\<lambda>s. s\<lparr>ex_prefill_lane := Some lane\<rparr>)) (\<lambda>_.
               gets (\<lambda>s. rm_region (ex_memory s))))
          else sret \<lparr>tg_data = 0, tg_size = 0, tg_alignment = 1\<rparr>) (\<lambda>transient.
        sbind publish_runtime_stats (\<lambda>_. sret transient)))) (\<lambda>_. owned lane i) (still_owned lane i) ?t" for b
  proof (rule calm_chain [OF cm.R_refl calm_small(8)])
    fix u assume u: "calm ?t u"
    have act: "wp (activate_memory (ps_transient_bytes ?sum) (ps_transient_alignment ?sum)) (\<lambda>_. calm ?t) (still_owned lane i) u"
      by (rule wp_kept [OF calm_state_actions(1)]) (use u ot in \<open>auto simp: still_owned_def intro: cm.R_trans\<close>)
    have "wp (if b
          then sbind (activate_memory (ps_transient_bytes ?sum) (ps_transient_alignment ?sum)) (\<lambda>_.
               sbind (modify (\<lambda>s. s\<lparr>ex_prefill_lane := Some lane\<rparr>)) (\<lambda>_.
               gets (\<lambda>s. rm_region (ex_memory s))))
          else sret \<lparr>tg_data = 0, tg_size = 0, tg_alignment = 1\<rparr>) (\<lambda>_. owned lane i) (still_owned lane i) u"
      using ot [OF u] by (auto intro!: wp_mono [OF act] intro: prefill_owner [OF ot ready])
    then show "wp (sbind (if b
          then sbind (activate_memory (ps_transient_bytes ?sum) (ps_transient_alignment ?sum)) (\<lambda>_.
               sbind (modify (\<lambda>s. s\<lparr>ex_prefill_lane := Some lane\<rparr>)) (\<lambda>_.
               gets (\<lambda>s. rm_region (ex_memory s))))
          else sret \<lparr>tg_data = 0, tg_size = 0, tg_alignment = 1\<rparr>) (\<lambda>transient.
        sbind publish_runtime_stats (\<lambda>_. sret transient))) (\<lambda>_. owned lane i) (still_owned lane i) u"
      by (rule wp_seq) (rule publish)
  qed (use ot in \<open>simp add: still_owned_def\<close>)
  then show ?thesis
    unfolding install_admitted_def Let_def Some option.case on_request_def
    by (simp only: wp_sbind [of "modify _"] wp_modify) (simp only: update_request_other)
qed (simp add: install_admitted_def still_owned_def)

section \<open>The first prefill step and its failure\<close>

lemma publish_inv: "exec_inv F s \<Longrightarrow> wp publish_runtime_stats (\<lambda>_. exec_inv F) E s"
  by (rule wp_kept_no_throw [OF calm_small(5) no_throw_ops(5)]) (rule calmD(2))

lemma start_contract:
  fixes s :: "('g, 'p, 'l, 'o) executor"
  assumes tg: "output_total tg" and o: "owned lane i s"
  shows "wp (start_admitted tg i lane plan transient) (\<lambda>_. exec_inv {}) (still_owned lane i) s"
proof -
  have thrown: "\<And>e t. calm s t \<Longrightarrow> still_owned lane i e t"
    using owned_calm [OF o] by (simp add: still_owned_def)
  have step: "wp (sbind (resolve_prefill_step tg i first cancel) (\<lambda>_. publish_runtime_stats)) (\<lambda>_. exec_inv {})
      (still_owned lane i) t" if "calm s t" for t first cancel
    by (rule wp_seq [OF resolve_prefill_contract [OF tg owned_calm [OF o that]] publish_inv])
  show ?thesis
    unfolding start_admitted_def
    by (intro calm_chain [of s] wp_if wp_throw step cm.preserves_gets calm_on_request calm_on_target calm_small(2)
        cm.R_refl thrown) (simp_all add: req_core_def)
qed

lemma completed_off_lane:
  assumes "completed_from F i s t" "Some i \<notin> set (ex_slots s)"
  shows "exec_inv F t"
  using assms inv_remove [of i F t] evolves_no_lanes(1) [of "{i}" s t] by (simp add: completed_from_def)

lemma admission_failed_contract:
  fixes s :: "('g, 'p, 'l, 'o) executor"
  assumes o: "owned lane i s"
  shows "wp (admission_failed tg i lane started e) Q (\<lambda>_. exec_inv {}) s"
  unfolding admission_failed_def
proof (rule wp_calm [OF cm.preserves_swhen [OF calm_small(3)] no_throw_swhen [OF no_throw_ops(3)]])
  fix t :: "('g, 'p, 'l, 'o) executor" assume "calm s t"
  then have ot: "owned lane i t" by (rule owned_calm [OF o])
  show "wp (sbind (clear_prefill_of lane) (\<lambda>_. sbind (clear_slot lane) (\<lambda>_. sbind (invalidate_lane_plans lane) (\<lambda>_.
      sbind (complete_error i e) (\<lambda>_. sthrow e))))) Q (\<lambda>_. exec_inv {}) t"
  proof (rule wp_seq [OF clear_prefill_contract [OF owned_inv [OF ot]]])
    fix u :: "('g, 'p, 'l, 'o) executor"
    assume u: "exec_inv {} u \<and> ex_prefill_lane u \<noteq> Some lane \<and> ex_slots u = ex_slots t \<and> evolves {} {lane} t u"
    then have lane: "lane < kMaximumConcurrency" "ex_slots u ! lane = Some i" using ot by (simp_all add: owned_def)
    have inv: "exec_inv {} u" using u by simp
    note slot = inv_slot [OF inv lane(2,1)]
    let ?v = "u\<lparr>ex_slots := (ex_slots u)[lane := None]\<rparr>"
    note off = cleared_slot [OF inv_insert [OF inv slot(2,3)] lane conjunct1 [OF conjunct2 [OF u]] refl]
    have cv: "completable {} i ?v" using off(1) slot by (simp add: completable_def)
    have "wp (sbind (invalidate_lane_plans lane) (\<lambda>_. sbind (complete_error i e) (\<lambda>_. sthrow e))) Q (\<lambda>_. exec_inv {}) ?v"
    proof (rule wp_calm [OF calm_small(8) no_throw_ops(8)])
      fix w :: "('g, 'p, 'l, 'o) executor" assume w: "calm ?v w"
      have "Some i \<notin> set (ex_slots w)" using off(2) evolves_no_lanes(1) [OF calmD(1) [OF w]] by simp
      then show "wp (sbind (complete_error i e) (\<lambda>_. sthrow e)) Q (\<lambda>_. exec_inv {}) w"
        by (intro wp_seq [OF complete_error_contract [OF completable_calm [OF cv w]]])
          (simp add: completed_off_lane)
    qed
    then show "wp (sbind (clear_slot lane) (\<lambda>_. sbind (invalidate_lane_plans lane) (\<lambda>_.
      sbind (complete_error i e) (\<lambda>_. sthrow e)))) Q (\<lambda>_. exec_inv {}) u"
      by (simp add: clear_slot_def del: wp_sbind) (simp add: wp_sbind)
  qed
qed

section \<open>The credit of a temporal borrower\<close>

text \<open>Other threads and the steps between the choice of a borrower and its debit leave the protection and the chosen plan alone.\<close>

definition credit_kept :: "nat \<Rightarrow> nat \<Rightarrow> ('g, 'p, 'l, 'o) executor \<Rightarrow> ('g, 'p, 'l, 'o) executor \<Rightarrow> bool" where
  "credit_kept i lane s s' = (ex_protection s' = ex_protection s \<and> (i < length (ex_requests s) \<longrightarrow>
     i < length (ex_requests s') \<and> rq_lane_plans (request_at s' i) lane = rq_lane_plans (request_at s i) lane))"

interpretation ck: kept_relation "credit_kept i lane" for i lane
  by unfold_locales (auto simp: credit_kept_def)

lemma credit_same: "ex_protection s' = ex_protection s \<Longrightarrow> ex_requests s' = ex_requests s \<Longrightarrow> credit_kept i lane s s'"
  by (simp add: credit_kept_def request_at_def)

lemma credit_update: "(\<And>r. rq_lane_plans (f r) = rq_lane_plans r) \<Longrightarrow> credit_kept i lane s (update_request j f s)"
  by (simp add: credit_kept_def)

lemma credit_env_exec: "credit_kept i lane s (env_exec e s)"
proof (cases e)
  case (SubmitPush prompt out deadline submitted)
  then show ?thesis
    by (auto simp: submit_push_def credit_kept_def request_at_def nth_append split: list.split)
next
  case (WaitRound j publish requested)
  then show ?thesis
    by (auto simp: wait_round_def Let_def credit_same intro!: credit_update split: option.split sum.split)
qed (auto simp: submit_reserve_def submit_abort_def release_consumer_def Let_def release_reserved_capacity_def
      finish_release_def credit_kept_def split: list.split)

lemma credit_interleave: "preserves (credit_kept i lane) interleave"
  unfolding preserves_def
proof
  fix s :: "('g, 'p, 'l, 'o) executor"
  have batch: "credit_kept i lane t (fold env_exec batch t)" for batch and t :: "('g, 'p, 'l, 'o) executor"
    by (induction batch arbitrary: t) (auto intro: ck.R_refl ck.R_trans credit_env_exec)
  show "credit_kept i lane s (snd (interleave s))"
    by (cases "ex_env s") (auto simp: interleave_def ck.R_refl intro: ck.R_trans [OF credit_same batch])
qed

lemma credit_ops:
  "preserves (credit_kept i lane) now" "preserves (credit_kept i lane) (load_cancelled i)"
  "preserves (credit_kept i lane) (evict_retained_for tg l plan)"
  unfolding now_def load_cancelled_def atomically_def evict_retained_for_def invalidate_lane_plans_def
  by (intro ck.preserves_intros credit_interleave; simp add: preserves_def modify_def credit_same)+

section \<open>Admitting a request\<close>

lemma guarded_contract:
  fixes s :: "('g, 'p, 'l, 'o) executor"
  assumes "wp m Q (still_owned lane i) s"
  shows "wp (scatch m (admission_failed tg i lane started)) Q ok_exn s"
  unfolding wp_scatch
proof (rule wp_mono [OF assms])
  fix e and t :: "('g, 'p, 'l, 'o) executor" assume t: "still_owned lane i e t"
  show "if e = process_abort then ok_exn e t else wp (admission_failed tg i lane started e) Q ok_exn t"
  proof (cases "e = process_abort")
    case False
    then have "wp (admission_failed tg i lane started e) Q (\<lambda>_. exec_inv {}) t"
      using t by (intro admission_failed_contract) (simp add: still_owned_def)
    then show ?thesis using False by (auto simp: ok_exn_def elim: wp_mono)
  qed (simp add: ok_exn_def)
qed

lemma place_contract:
  fixes s :: "('g, 'p, 'l, 'o) executor"
  assumes tg: "output_total tg" and inv: "exec_inv {i} s" and fl: "in_flight i s"
    and lane: "lane < ex_max_concurrency s" "ex_slots s ! lane = None" and p: "ex_prefill_lane s = None"
  shows "wp (sbind (scatch (install_admitted tg i lane plan bclass epoch) (admission_failed tg i lane False)) (\<lambda>transient.
      sbind (scatch (start_admitted tg i lane plan transient) (admission_failed tg i lane True)) (\<lambda>_.
      sret RanGpuUnit))) (\<lambda>p t. p = RanGpuUnit \<and> exec_inv {} t) ok_exn s"
proof (rule wp_seq [OF guarded_contract [OF install_contract [OF inv fl lane p]]])
  fix transient and t :: "('g, 'p, 'l, 'o) executor" assume "owned lane i t"
  from guarded_contract [OF start_contract [OF tg this]]
  show "wp (sbind (scatch (start_admitted tg i lane plan transient) (admission_failed tg i lane True)) (\<lambda>_.
      sret RanGpuUnit)) (\<lambda>p t. p = RanGpuUnit \<and> exec_inv {} t) ok_exn t"
    by (rule wp_seq) simp
qed

definition steady :: "nat \<Rightarrow> nat \<Rightarrow> ('g, 'p, 'l, 'o) executor \<Rightarrow> ('g, 'p, 'l, 'o) executor \<Rightarrow> bool" where
  "steady i lane s t = (calm s t \<and> credit_kept i lane s t)"

interpretation sk: kept_relation "steady i lane" for i lane
  by unfold_locales (auto simp: steady_def intro: cm.R_refl ck.R_refl cm.R_trans ck.R_trans)

lemma steady_preserves: "preserves calm m \<Longrightarrow> preserves (credit_kept i lane) m \<Longrightarrow> preserves (steady i lane) m"
  by (simp add: preserves_def steady_def)

lemma steady_ops:
  "preserves (steady i lane) now" "preserves (steady i lane) (load_cancelled i)"
  "preserves (steady i lane) (swhen b (evict_retained_for tg l plan))"
  by (intro steady_preserves calm_small calm_evict cm.preserves_swhen credit_ops ck.preserves_swhen)+

lemma erase_keeps_protection:
  fixes s :: "('g, 'p, 'l, 'o) executor"
  shows "wp (erase_pending i) (\<lambda>_ t. ex_protection t = ex_protection s) (\<lambda>_ _. True) s"
  unfolding erase_pending_def atomically_def
  by (rule wp_seq_kept [OF credit_interleave]) (auto simp: wp_def credit_kept_def)

definition debit_ok :: "('g, 'p, 'l, 'o) target \<Rightarrow> nat \<Rightarrow> nat \<Rightarrow> backfill_class \<Rightarrow> u64 \<Rightarrow> ('g, 'p, 'l, 'o) executor \<Rightarrow> bool" where
  "debit_ok tg i lane bclass epoch s = (bclass = Temporal \<longrightarrow> (\<exists>p. ex_protection s = Some p \<and> ap_epoch_id p = epoch \<and>
     (\<forall>plan. rq_lane_plans (request_at s i) lane = Some plan \<longrightarrow>
        ps_service_work_quanta (tg_summary tg plan) \<le> ap_temporal_credit p)))"

text \<open>After the request left the queue: the debit succeeds and the request is installed.\<close>

lemma admit_erased_contract:
  fixes s :: "('g, 'p, 'l, 'o) executor"
  assumes tg: "output_total tg" and inv: "exec_inv {i} s" and fl: "in_flight i s"
    and lane: "lane < ex_max_concurrency s" "ex_slots s ! lane = None" and p: "ex_prefill_lane s = None"
    and debit: "bclass = Temporal \<Longrightarrow> \<exists>p. ex_protection s = Some p \<and> ap_epoch_id p = epoch \<and>
        ps_service_work_quanta (tg_summary tg plan) \<le> ap_temporal_credit p"
  shows "wp (sbind (release_planning_state i) (\<lambda>_.
      sbind (swhen (bclass = Temporal) (debit_temporal epoch (ps_service_work_quanta (tg_summary tg plan)))) (\<lambda>_.
      sbind (clear_protection_if_head i) (\<lambda>_.
      sbind (scatch (install_admitted tg i lane plan bclass epoch) (admission_failed tg i lane False)) (\<lambda>transient.
      sbind (scatch (start_admitted tg i lane plan transient) (admission_failed tg i lane True)) (\<lambda>_.
      sret RanGpuUnit)))))) (\<lambda>p t. p = RanGpuUnit \<and> exec_inv {} t) ok_exn s"
proof -
  have place: "wp (sbind (scatch (install_admitted tg i lane plan bclass epoch) (admission_failed tg i lane False)) (\<lambda>transient.
      sbind (scatch (start_admitted tg i lane plan transient) (admission_failed tg i lane True)) (\<lambda>_.
      sret RanGpuUnit))) (\<lambda>p t. p = RanGpuUnit \<and> exec_inv {} t) ok_exn t" if t: "calm s t" for t
    using evolves_no_lanes [OF calmD(1) [OF t]] evolves_lanes(1) [OF calmD(1) [OF t]] evolves_in_flight [OF calmD(1) [OF t] _ fl]
      calmD(2) [OF t inv] lane p by (intro place_contract [OF tg]) simp_all
  have released: "wp (release_planning_state i) (\<lambda>_ t. calm s t \<and> ex_protection t = ex_protection s) ok_exn s"
    using preservesD [OF calm_small(7) [of i], of s]
    by (simp add: release_planning_state_def on_request_def modify_def wp_def)
  show ?thesis
  proof (rule wp_seq [OF released])
    fix t :: "('g, 'p, 'l, 'o) executor" assume t: "calm s t \<and> ex_protection t = ex_protection s"
    have "wp (swhen (bclass = Temporal) (debit_temporal epoch (ps_service_work_quanta (tg_summary tg plan)))) (\<lambda>_. calm s) ok_exn t"
    proof (cases "bclass = Temporal")
      case True
      then obtain p where "ex_protection t = Some p" "ap_epoch_id p = epoch"
        "ps_service_work_quanta (tg_summary tg plan) \<le> ap_temporal_credit p" using debit t by auto
      moreover have "calm s (snd (debit_temporal epoch (ps_service_work_quanta (tg_summary tg plan)) t))"
        using t preservesD [OF calm_state_actions(3)] by (blast intro: cm.R_trans)
      ultimately show ?thesis using True by (auto simp: wp_def debit_temporal_def)
    qed (use t in simp)
    then show "wp (sbind (swhen (bclass = Temporal) (debit_temporal epoch (ps_service_work_quanta (tg_summary tg plan)))) (\<lambda>_.
      sbind (clear_protection_if_head i) (\<lambda>_.
      sbind (scatch (install_admitted tg i lane plan bclass epoch) (admission_failed tg i lane False)) (\<lambda>transient.
      sbind (scatch (start_admitted tg i lane plan transient) (admission_failed tg i lane True)) (\<lambda>_.
      sret RanGpuUnit))))) (\<lambda>p t. p = RanGpuUnit \<and> exec_inv {} t) ok_exn t"
    proof (rule wp_seq)
      fix u :: "('g, 'p, 'l, 'o) executor" assume u: "calm s u"
      show "wp (sbind (clear_protection_if_head i) (\<lambda>_.
      sbind (scatch (install_admitted tg i lane plan bclass epoch) (admission_failed tg i lane False)) (\<lambda>transient.
      sbind (scatch (start_admitted tg i lane plan transient) (admission_failed tg i lane True)) (\<lambda>_.
      sret RanGpuUnit)))) (\<lambda>p t. p = RanGpuUnit \<and> exec_inv {} t) ok_exn u"
        by (rule wp_calm [OF calm_small(12) no_throw_ops(11)], rule place, rule cm.R_trans [OF u])
    qed
  qed
qed

lemma select_contract:
  fixes s :: "('g, 'p, 'l, 'o) executor"
  assumes tg: "output_total tg" and inv: "exec_inv {} s" and i: "i \<in> set (ex_pending s)"
    and lane: "lane < ex_max_concurrency s" "ex_slots s ! lane = None" and p: "ex_prefill_lane s = None"
    and debit: "debit_ok tg i lane bclass epoch s" and plan: "rq_lane_plans (request_at s i) lane = Some plan"
  shows "wp (sbind (swhen evict (evict_retained_for tg lane plan)) (\<lambda>_.
      sbind (on_request i (\<lambda>r. r\<lparr>rq_lane_plans := (rq_lane_plans r)(lane := None)\<rparr>)) (\<lambda>_.
      sbind (erase_pending i) (\<lambda>erased.
      if \<not> erased then sret NoProgress
      else sbind (release_planning_state i) (\<lambda>_.
      sbind (swhen (bclass = Temporal) (debit_temporal epoch (ps_service_work_quanta (tg_summary tg plan)))) (\<lambda>_.
      sbind (clear_protection_if_head i) (\<lambda>_.
      sbind (scatch (install_admitted tg i lane plan bclass epoch) (admission_failed tg i lane False)) (\<lambda>transient.
      sbind (scatch (start_admitted tg i lane plan transient) (admission_failed tg i lane True)) (\<lambda>_.
      sret RanGpuUnit))))))))) (\<lambda>p t. p = RanGpuUnit \<and> exec_inv {} t) ok_exn s"
proof (rule wp_seq_kept [OF steady_ops(3)])
  fix t :: "('g, 'p, 'l, 'o) executor" assume t: "steady i lane s t"
  let ?u = "update_request i (\<lambda>r. r\<lparr>rq_lane_plans := (rq_lane_plans r)(lane := None)\<rparr>) t"
  have u: "calm s ?u" "ex_protection ?u = ex_protection s"
    using t calm_update [of "\<lambda>r. r\<lparr>rq_lane_plans := (rq_lane_plans r)(lane := None)\<rparr>" t i]
    by (auto simp: steady_def credit_kept_def req_core_def intro: cm.R_trans)
  have iu: "i \<in> set (ex_pending ?u)" and inv_u: "exec_inv {} ?u"
    using evolves_queue(1) [OF calmD(1) [OF u(1)] i] calmD(2) [OF u(1) inv] by simp_all
  have "wp (erase_pending i) (\<lambda>erased v. (erased \<and> completable {} i v \<and> in_flight i v \<and> evolves {i} {} ?u v) \<and>
      ex_protection v = ex_protection ?u) (\<lambda>e v. False \<and> True) ?u"
    by (rule wp_conj [OF erase_contract [OF inv_u iu] erase_keeps_protection])
  then have erased: "wp (erase_pending i) (\<lambda>erased v. (erased \<and> completable {} i v \<and> in_flight i v \<and> evolves {i} {} ?u v) \<and>
      ex_protection v = ex_protection ?u) ok_exn ?u"
    by (rule wp_mono) auto
  have "wp (sbind (erase_pending i) (\<lambda>erased.
      if \<not> erased then sret NoProgress
      else sbind (release_planning_state i) (\<lambda>_.
      sbind (swhen (bclass = Temporal) (debit_temporal epoch (ps_service_work_quanta (tg_summary tg plan)))) (\<lambda>_.
      sbind (clear_protection_if_head i) (\<lambda>_.
      sbind (scatch (install_admitted tg i lane plan bclass epoch) (admission_failed tg i lane False)) (\<lambda>transient.
      sbind (scatch (start_admitted tg i lane plan transient) (admission_failed tg i lane True)) (\<lambda>_.
      sret RanGpuUnit))))))) (\<lambda>p t. p = RanGpuUnit \<and> exec_inv {} t) ok_exn ?u"
  proof (rule wp_seq [OF erased], goal_cases)
    case (1 erased v)
    then have ev: "evolves {i} {} s v" by (auto intro: evolves_comp [OF calmD(1) [OF u(1)]])
    have "\<exists>p. ex_protection v = Some p \<and> ap_epoch_id p = epoch \<and>
        ps_service_work_quanta (tg_summary tg plan) \<le> ap_temporal_credit p" if "bclass = Temporal"
      using debit plan that 1 u(2) by (auto simp: debit_ok_def)
    then show ?case
      using 1 evolves_no_lanes [OF ev] evolves_lanes(1) [OF ev] lane p
      by (auto simp: completable_def simp del: wp_sbind wp_swhen wp_scatch intro!: admit_erased_contract [OF tg])
  qed
  then show "wp (sbind (on_request i (\<lambda>r. r\<lparr>rq_lane_plans := (rq_lane_plans r)(lane := None)\<rparr>)) (\<lambda>_.
      sbind (erase_pending i) (\<lambda>erased.
      if \<not> erased then sret NoProgress
      else sbind (release_planning_state i) (\<lambda>_.
      sbind (swhen (bclass = Temporal) (debit_temporal epoch (ps_service_work_quanta (tg_summary tg plan)))) (\<lambda>_.
      sbind (clear_protection_if_head i) (\<lambda>_.
      sbind (scatch (install_admitted tg i lane plan bclass epoch) (admission_failed tg i lane False)) (\<lambda>transient.
      sbind (scatch (start_admitted tg i lane plan transient) (admission_failed tg i lane True)) (\<lambda>_.
      sret RanGpuUnit)))))))) (\<lambda>p t. p = RanGpuUnit \<and> exec_inv {} t) ok_exn t"
    unfolding on_request_def by (simp only: wp_sbind [of "modify _"] wp_modify)
qed (use inv in \<open>auto simp: steady_def intro: ok_calm\<close>)

lemma steady_step:
  assumes t: "steady i lane s t" and inv: "exec_inv {} s" and i: "i \<in> set (ex_pending s)"
    and lane: "lane < ex_max_concurrency s" "ex_slots s ! lane = None" and p: "ex_prefill_lane s = None"
    and debit: "debit_ok tg i lane bclass epoch s"
  shows "exec_inv {} t" "i \<in> set (ex_pending t)" "lane < ex_max_concurrency t" "ex_slots t ! lane = None"
    "ex_prefill_lane t = None" "debit_ok tg i lane bclass epoch t"
proof -
  have c: "calm s t" and k: "credit_kept i lane s t" using t by (simp_all add: steady_def)
  show "exec_inv {} t" "i \<in> set (ex_pending t)" using calmD(2) [OF c inv] evolves_queue(1) [OF calmD(1) [OF c] i] by simp_all
  show "lane < ex_max_concurrency t" "ex_slots t ! lane = None" "ex_prefill_lane t = None"
    using evolves_no_lanes [OF calmD(1) [OF c]] evolves_lanes(1) [OF calmD(1) [OF c]] lane p by simp_all
  show "debit_ok tg i lane bclass epoch t"
    using debit k inv_pending(1) [OF inv i] by (auto simp: debit_ok_def credit_kept_def)
qed

text \<open>Unless a request was admitted, the lanes and the requests in them are as before.\<close>

definition lanes_kept :: "('g, 'p, 'l, 'o) executor \<Rightarrow> ('g, 'p, 'l, 'o) executor \<Rightarrow> bool" where
  "lanes_kept s t = (ex_slots t = ex_slots s \<and> ex_prefill_lane t = ex_prefill_lane s \<and>
     (\<forall>i. Some i \<in> set (ex_slots s) \<longrightarrow> rq_decode_ready (request_at t i) = rq_decode_ready (request_at s i)))"

definition admit_post :: "('g, 'p, 'l, 'o) executor \<Rightarrow> admission_progress \<Rightarrow> ('g, 'p, 'l, 'o) executor \<Rightarrow> bool" where
  "admit_post s p t = (exec_inv {} t \<and> (p \<noteq> RanGpuUnit \<longrightarrow> lanes_kept s t))"

lemma lanes_kept_refl [simp]: "lanes_kept s s"
  by (simp add: lanes_kept_def)

lemma admit_post_trans: "lanes_kept s t \<Longrightarrow> admit_post t p u \<Longrightarrow> admit_post s p u"
  by (auto simp: lanes_kept_def admit_post_def)

lemma lanes_kept_evolves:
  assumes inv: "exec_inv F s" and ev: "evolves D {} s t" and D: "D \<subseteq> set (ex_pending s)"
  shows "lanes_kept s t"
proof -
  have "rq_decode_ready (request_at t i) = rq_decode_ready (request_at s i)" if i: "Some i \<in> set (ex_slots s)" for i
  proof -
    from i obtain lane where "lane < kMaximumConcurrency" "ex_slots s ! lane = Some i"
      using inv_lengths(1) [OF inv] by (auto simp: in_set_conv_nth)
    from inv_slot(2) [OF inv this(2,1)] inv_pending(5) [OF inv, of i] D i show ?thesis
      by (intro evolves_request(5) [OF ev]) auto
  qed
  then show ?thesis using evolves_no_lanes [OF ev] by (simp add: lanes_kept_def)
qed

lemma lanes_kept_calm: "exec_inv F s \<Longrightarrow> calm s t \<Longrightarrow> lanes_kept s t"
  by (rule lanes_kept_evolves [OF _ calmD(1)]) auto

lemma admit_contract:
  fixes s :: "('g, 'p, 'l, 'o) executor"
  assumes tg: "output_total tg" and inv: "exec_inv {} s" and i: "i \<in> set (ex_pending s)"
    and lane: "lc_lane choice < ex_max_concurrency s" "ex_slots s ! lc_lane choice = None" and p: "ex_prefill_lane s = None"
    and debit: "debit_ok tg i (lc_lane choice) bclass epoch s"
  shows "wp (admit_planned_request tg i choice bclass epoch) (admit_post s) ok_exn s"
  unfolding admit_planned_request_def
proof (rule wp_seq_no_throw [OF steady_ops(1) [of i "lc_lane choice"] no_throw_ops(1)], goal_cases)
  case (1 now_value t)
  note t = steady_step [OF 1 inv i lane p debit]
  have removed: "admit_post s q v" if "calm s u" "exec_inv {} v" "evolves {i} {} u v" for u v q
    using that i evolves_comp [OF calmD(1) [OF that(1)] that(3), of "{i}" "{}"]
    by (auto simp: admit_post_def intro: lanes_kept_evolves [OF inv])
  have ct: "calm s t" using 1 by (simp add: steady_def)
  have expired: "wp (remove_pending_error i timeout_error) (admit_post s) ok_exn t"
    by (rule wp_mono [OF remove_pending_contract [OF t(1,2)]]) (auto intro: removed [OF ct])
  have rest: "wp (sbind (load_cancelled i) (\<lambda>cancelled.
       if cancelled then
         sbind (erase_pending i) (\<lambda>erased.
         if \<not> erased then sret NoProgress
         else sbind (clear_protection_if_head i) (\<lambda>_.
              sbind (complete_cancelled tg i) (\<lambda>_.
              sbind publish_runtime_stats (\<lambda>_. sret ControlProgress))))
       else
         sbind (gets (\<lambda>s. rq_lane_plans (request_at s i) (lc_lane choice))) (\<lambda>selected.
         case selected of
           None \<Rightarrow> sthrow (logic_error ''selected admission lane has no request plan'')
         | Some plan \<Rightarrow>
             sbind (swhen (lc_evict_retained choice) (evict_retained_for tg (lc_lane choice) plan)) (\<lambda>_.
             sbind (on_request i (\<lambda>r. r\<lparr>rq_lane_plans := (rq_lane_plans r)(lc_lane choice := None)\<rparr>)) (\<lambda>_.
             sbind (erase_pending i) (\<lambda>erased.
             if \<not> erased then sret NoProgress
             else
               sbind (release_planning_state i) (\<lambda>_.
               sbind (swhen (bclass = Temporal)
                 (debit_temporal epoch (ps_service_work_quanta (tg_summary tg plan)))) (\<lambda>_.
               sbind (clear_protection_if_head i) (\<lambda>_.
               sbind (scatch (install_admitted tg i (lc_lane choice) plan bclass epoch)
                        (admission_failed tg i (lc_lane choice) False)) (\<lambda>transient.
               sbind (scatch (start_admitted tg i (lc_lane choice) plan transient)
                        (admission_failed tg i (lc_lane choice) True)) (\<lambda>_.
               sret RanGpuUnit)))))))))))
       (admit_post s) ok_exn t"
  proof (rule wp_seq_no_throw [OF steady_ops(2) [of i "lc_lane choice"] no_throw_ops(2)], goal_cases)
    case (1 cancelled u)
    note u = steady_step [OF 1 t]
    have cu: "calm s u" using 1 ct by (auto simp: steady_def intro: cm.R_trans)
    have "wp (sbind (erase_pending i) (\<lambda>erased.
         if \<not> erased then sret NoProgress
         else sbind (clear_protection_if_head i) (\<lambda>_.
              sbind (complete_cancelled tg i) (\<lambda>_.
              sbind publish_runtime_stats (\<lambda>_. sret ControlProgress))))) (admit_post s) ok_exn u"
      by (rule wp_mono [OF erase_and_complete [OF u(1,2) calm_small(12) no_throw_ops(11)
              complete_cancelled_contract [OF tg]]]) (auto intro: removed [OF cu])
    moreover note select_contract [OF tg u, of _ "lc_evict_retained choice",
        THEN wp_mono [where Q' = "admit_post s" and E' = ok_exn]]
    ultimately show ?case
      using u(1)
      by (cases cancelled; cases "rq_lane_plans (request_at u i) (lc_lane choice)")
        (simp_all add: ok_exn_def admit_post_def wp_gets_seq del: wp_sbind wp_swhen wp_scatch)
  qed
  show ?case
    unfolding wp_gets_seq by (rule wp_if [OF expired rest])
qed

section \<open>The queue behind a blocked head\<close>

lemma backfill_contract:
  fixes s :: "('g, 'p, 'l, 'o) executor"
  assumes tg: "output_total tg" and "exec_inv {} s" "distinct queue" "set queue \<subseteq> set (ex_pending s)"
    "ex_prefill_lane s = None"
  shows "wp (try_backfill tg active frontier queue control) (admit_post s) ok_exn s"
  using assms(2-)
proof (induction queue arbitrary: s control)
  case (Cons i queue)
  have i: "i \<in> set (ex_pending s)" using Cons.prems by simp
  show ?case
    unfolding try_backfill.simps
  proof (rule wp_seq [OF screen_contract [OF tg Cons.prems(1) i]])
    fix verdict and t :: "('g, 'p, 'l, 'o) executor" assume post: "screening_post i s verdict t"
    have t: "exec_inv {} t" using post by (simp add: screening_post_def)
    have ev: "evolves {i} {} s t"
      using post by (auto simp: screening_post_def calm_def intro: evolves_mono split: screening.splits)
    have queue: "set queue \<subseteq> set (ex_pending t)" using Cons.prems evolves_queue(1) [OF ev] by auto
    have pre: "ex_prefill_lane t = None" using evolves_no_lanes(2) [OF ev] Cons.prems(4) by simp
    have kept: "lanes_kept s t" by (rule lanes_kept_evolves [OF Cons.prems(1) ev]) (use i in simp)
    have again: "wp (try_backfill tg active frontier queue c) (admit_post s) ok_exn t" for c
      by (rule wp_mono [OF Cons.IH [OF t _ queue pre]]) (use Cons.prems(2) in \<open>auto intro: admit_post_trans [OF kept]\<close>)
    show "wp (case verdict of
       Removed counted \<Rightarrow> try_backfill tg active frontier queue (control \<or> counted)
     | Blocked \<Rightarrow> try_backfill tg active frontier queue control
     | Placeable choice \<Rightarrow>
         sbind (gets (\<lambda>s. (tg_summary tg (the (rq_lane_plans (request_at s i) (lc_lane choice))),
              ex_protection s, ex_admission_capacity s))) (\<lambda>(plan, head_protection, cap).
         case head_protection of
           None \<Rightarrow> sthrow process_abort
         | Some protection \<Rightarrow>
            (let bclass = (if persistent_backfill_is_safe protection active (ps_admission plan) cap then Persistent
                  else if ps_service_work_quanta plan \<le> frontier \<and>
                          ps_service_work_quanta plan \<le> ap_temporal_credit protection then Temporal
                  else NoBackfill)
             in if bclass \<noteq> NoBackfill then admit_planned_request tg i choice bclass (ap_epoch_id protection)
                else try_backfill tg active frontier queue control))) (admit_post s) ok_exn t"
    proof (cases verdict)
      case (Placeable choice)
      then have c: "calm s t" and free: "free_choice s (Some choice)" using post by (simp_all add: screening_post_def)
      have it: "i \<in> set (ex_pending t)" using evolves_queue(1) [OF calmD(1) [OF c] i] by simp
      have lane: "lc_lane choice < ex_max_concurrency t" "ex_slots t ! lc_lane choice = None"
        using free free_choice_calm [OF c, of "Some choice"] by (simp_all add: free_choice_def)
      have admit: "wp (admit_planned_request tg i choice bclass epoch) (admit_post s) ok_exn t"
        if "debit_ok tg i (lc_lane choice) bclass epoch t" for bclass epoch
        by (rule wp_mono [OF admit_contract [OF tg t it lane pre that]]) (auto intro: admit_post_trans [OF kept])
      show ?thesis
      proof (cases "ex_protection t")
        case (Some protection)
        let ?plan = "tg_summary tg (the (rq_lane_plans (request_at t i) (lc_lane choice)))"
        let ?kind = "if persistent_backfill_is_safe protection active (ps_admission ?plan) (ex_admission_capacity t) then Persistent
                  else if ps_service_work_quanta ?plan \<le> frontier \<and>
                          ps_service_work_quanta ?plan \<le> ap_temporal_credit protection then Temporal
                  else NoBackfill"
        have "debit_ok tg i (lc_lane choice) ?kind (ap_epoch_id protection) t"
          using Some by (auto simp: debit_ok_def)
        from admit [OF this] again show ?thesis using Placeable Some by (simp add: Let_def)
      qed (use Placeable in \<open>simp add: ok_exn_def\<close>)
    qed (use again in simp_all)
  qed
qed (simp add: admit_post_def)

lemma calm_protection: "calm s (s\<lparr>ex_protection := q\<rparr>)" "calm s (s\<lparr>ex_next_protection_epoch := e\<rparr>)"
  by (simp_all add: same_core_calm same_core_def)

lemma protect_head_contract:
  fixes s :: "('g, 'p, 'l, 'o) executor"
  assumes tg: "output_total tg" and inv: "exec_inv {} s" and d: "distinct queue" "set queue \<subseteq> set (ex_pending s)"
    and p: "ex_prefill_lane s = None"
  shows "wp (protect_head tg head queue control) (admit_post s) ok_exn s"
proof -
  have backfill: "wp (try_backfill tg active frontier queue control) (admit_post s) ok_exn t"
    if t: "calm s t" for active frontier t
  proof -
    have "wp (try_backfill tg active frontier queue control) (admit_post t) ok_exn t"
      using calmD(2) [OF t inv] evolves_queue(1) [OF calmD(1) [OF t]] calm_prefill [OF t] d p
      by (intro backfill_contract [OF tg]) auto
    then show ?thesis by (rule wp_mono) (auto intro: admit_post_trans [OF lanes_kept_calm [OF inv t]])
  qed
  have protected: "calm s (t\<lparr>ex_protection := q\<rparr>)" "calm s (t\<lparr>ex_next_protection_epoch := e\<rparr>)"
    if "calm s t" for t q e
    by (rule cm.R_trans [OF that calm_protection(1)], rule cm.R_trans [OF that calm_protection(2)])
  have rest: "wp (let p = (if protected_head_safe_without_temporal p0 active cap then p0\<lparr>ap_phase := Drain\<rparr> else p0)
       in sbind (modify (\<lambda>s. s\<lparr>ex_protection := Some p\<rparr>)) (\<lambda>_.
          if ap_phase p = Drain then sret (progress_of control)
          else try_backfill tg active (protection_frontier_distance p active) queue control)) (admit_post s) ok_exn t"
    if t: "calm s t" for t p0 active cap
    using backfill [OF protected(1) [OF t]] calmD(2) [OF protected(1) [OF t] inv]
      lanes_kept_calm [OF inv protected(1) [OF t]] by (simp add: Let_def admit_post_def)
  show ?thesis
    unfolding protect_head_def
  proof (intro calm_chain [of s] wp_if wp_throw cm.preserves_gets calm_state_actions(5) cm.R_refl ok_calm [OF inv], goal_cases)
    case (3 active t x u)
    obtain existing epoch r cap where x: "x = (existing, epoch, r, cap)" by (cases x)
    show ?case
    proof (cases existing)
      case None
      have "wp (sbind (modify (\<lambda>s. s\<lparr>ex_next_protection_epoch := epoch + 1\<rparr>)) (\<lambda>_.
             slift (make_admission_protection epoch (rq_id r)
               (ps_admission (tg_summary tg (the (rq_base_plan r)))) active cap))) (\<lambda>_. calm s) ok_exn u"
        using protected(2) [OF 3(3)] calmD(2) [OF protected(2) [OF 3(3)] inv]
        by (simp add: ok_exn_def split: sum.split)
      then show ?thesis unfolding x None prod.case option.case by (rule wp_seq) (rule rest)
    next
      case (Some p0)
      show ?thesis unfolding x Some prod.case option.case using rest [OF 3(3)] by (simp del: Let_def)
    qed
  qed
qed

text \<open>A round that asks for another one has changed no lane.\<close>

definition round_post :: "('g, 'p, 'l, 'o) executor \<Rightarrow> admit_step \<Rightarrow> ('g, 'p, 'l, 'o) executor \<Rightarrow> bool" where
  "round_post s step t = (case step of Again _ \<Rightarrow> exec_inv {} t \<and> lanes_kept s t | Answer p \<Rightarrow> admit_post s p t)"

lemma round_contract:
  fixes s :: "('g, 'p, 'l, 'o) executor"
  assumes tg: "output_total tg" and inv: "exec_inv {} s" and p: "ex_prefill_lane s = None"
  shows "wp (admit_round tg control) (round_post s) ok_exn s"
proof -
  have snap: "wp pending_snapshot (\<lambda>queued t. calm s t \<and> queued = ex_pending t) ok_exn s"
    unfolding pending_snapshot_def atomically_def
    by (rule wp_seq_no_throw [OF calm_interleave no_throw_interleave]) simp
  show ?thesis
    unfolding admit_round_def
  proof (rule wp_seq [OF snap], goal_cases)
    case (1 queued t)
    then have t: "calm s t" and q: "queued = ex_pending t" by simp_all
    have inv_t: "exec_inv {} t" and pt: "ex_prefill_lane t = None"
      using calmD(2) [OF t inv] calm_prefill [OF t] p by simp_all
    show ?case
    proof (cases queued)
      case Nil
      have "exec_inv {} (t\<lparr>ex_protection := None\<rparr>)"
        by (rule calmD(2) [OF calm_protection(1) inv_t])
      moreover have "lanes_kept s (t\<lparr>ex_protection := None\<rparr>)"
        by (rule lanes_kept_calm [OF inv cm.R_trans [OF t calm_protection(1)]])
      ultimately show ?thesis using Nil by (simp add: round_post_def admit_post_def)
    next
      case (Cons head rest)
      show ?thesis
        unfolding Cons list.case
      proof (rule wp_calm [OF calm_small(11) no_throw_ops(10)])
        fix u :: "('g, 'p, 'l, 'o) executor" assume u: "calm t u"
        have inv_u: "exec_inv {} u" and pu: "ex_prefill_lane u = None" using calmD(2) [OF u inv_t] calm_prefill [OF u] pt by simp_all
        have su: "lanes_kept s u" by (rule lanes_kept_calm [OF inv cm.R_trans [OF t u]])
        have d: "distinct (head # rest)" using inv_lengths(4) [OF inv_t] q Cons by simp
        have in_u: "set (head # rest) \<subseteq> set (ex_pending u)" using evolves_queue(1) [OF calmD(1) [OF u]] q Cons by auto
        show "wp (sbind (screen_request tg True head) (\<lambda>verdict.
         case verdict of
           Removed counted \<Rightarrow> sret (Again (control \<or> counted))
         | Blocked \<Rightarrow> sbind (protect_head tg head rest control) (\<lambda>p. sret (Answer p))
         | Placeable choice \<Rightarrow> sbind (admit_planned_request tg head choice NoBackfill 0) (\<lambda>p. sret (Answer p))))
         (round_post s) ok_exn u"
        proof (rule wp_seq [OF screen_contract [OF tg inv_u]])
          show "head \<in> set (ex_pending u)" using in_u by simp
          fix verdict and v :: "('g, 'p, 'l, 'o) executor" assume v: "screening_post head u verdict v"
          have inv_v: "exec_inv {} v" using v by (simp add: screening_post_def)
          show "wp (case verdict of
           Removed counted \<Rightarrow> sret (Again (control \<or> counted))
         | Blocked \<Rightarrow> sbind (protect_head tg head rest control) (\<lambda>p. sret (Answer p))
         | Placeable choice \<Rightarrow> sbind (admit_planned_request tg head choice NoBackfill 0) (\<lambda>p. sret (Answer p)))
         (round_post s) ok_exn v"
          proof (cases verdict)
            case (Removed c)
            then have "evolves {head} {} u v" using v by (simp add: screening_post_def)
            then have "lanes_kept u v" by (rule lanes_kept_evolves [OF inv_u]) (use in_u in simp)
            then show ?thesis using Removed inv_v su by (auto simp: round_post_def lanes_kept_def)
          next
            case Blocked
            then have c: "calm u v" using v by (simp add: screening_post_def)
            have "wp (protect_head tg head rest control) (admit_post v) ok_exn v"
              using d in_u evolves_queue(1) [OF calmD(1) [OF c]] calm_prefill [OF c] pu
              by (intro protect_head_contract [OF tg inv_v]) auto
            then have "wp (protect_head tg head rest control) (admit_post s) ok_exn v"
              by (rule wp_mono) (auto intro: admit_post_trans [OF lanes_kept_calm [OF inv cm.R_trans [OF cm.R_trans [OF t u] c]]])
            then show ?thesis using Blocked by (simp add: round_post_def)
          next
            case (Placeable choice)
            then have c: "calm u v" and free: "free_choice u (Some choice)" using v by (simp_all add: screening_post_def)
            have "wp (admit_planned_request tg head choice NoBackfill 0) (admit_post v) ok_exn v"
              using in_u evolves_queue(1) [OF calmD(1) [OF c]] calm_prefill [OF c] pu free
                free_choice_calm [OF c, of "Some choice"]
              by (intro admit_contract [OF tg inv_v]) (auto simp: free_choice_def debit_ok_def)
            then have "wp (admit_planned_request tg head choice NoBackfill 0) (admit_post s) ok_exn v"
              by (rule wp_mono) (auto intro: admit_post_trans [OF lanes_kept_calm [OF inv cm.R_trans [OF cm.R_trans [OF t u] c]]])
            then show ?thesis using Placeable by (simp add: round_post_def)
          qed
        qed
      qed
    qed
  qed
qed

lemma admit_loop_contract:
  assumes "output_total tg" "exec_inv {} s" "ex_prefill_lane s = None"
  shows "wp (try_admit_loop tg control) (admit_post s) ok_exn s"
  using assms
proof (induction tg control s rule: try_admit_loop.induct)
  case (1 tg control s)
  note round_ok = round_contract [OF 1(2-4), of control, unfolded wp_def]
  obtain r t where rt: "admit_round tg control s = (r, t)" by (cases "admit_round tg control s")
  show ?case
  proof (cases r)
    case (Inl e)
    then show ?thesis using round_ok rt by (simp add: wp_def try_admit_loop.simps [of tg control s])
  next
    case (Inr step)
    show ?thesis
    proof (cases step)
      case (Again c)
      then have "wp (try_admit_loop tg c) (admit_post t) ok_exn t" and kept: "lanes_kept s t"
        using 1(1) [of r t step c] 1(2,4) round_ok rt Inr by (auto simp: round_post_def lanes_kept_def)
      then have "wp (try_admit_loop tg c) (admit_post s) ok_exn t"
        by (auto elim!: wp_mono intro: admit_post_trans [OF kept])
      then show ?thesis using rt Inr Again by (simp add: wp_def try_admit_loop.simps [of tg control s])
    qed (use round_ok rt Inr in \<open>simp add: round_post_def wp_def try_admit_loop.simps [of tg control s]\<close>)
  qed
qed

end
