(* ===== verification/Executor_Reach.thy ===== *)
theory Executor_Reach
  imports Executor_Admit
begin

text \<open>
  Decode rounds, failure of all requests and the worker iteration over the executor
  invariant; the executor as a transition system of its worker and the threads around it, and
  the theorems about its reachable states.
\<close>

section \<open>Decode rounds\<close>

definition members :: "('g, 'p, 'l, 'o) executor \<Rightarrow> nat list \<Rightarrow> bool" where
  "members s lanes = (distinct lanes \<and> (\<forall>lane \<in> set lanes. lane < kMaximumConcurrency \<and>
     (\<exists>i. ex_slots s ! lane = Some i \<and> rq_decode_ready (request_at s i))))"

lemma members_kept: "exec_inv F s \<Longrightarrow> members s lanes \<Longrightarrow> lanes_kept s t \<Longrightarrow> members t lanes"
  unfolding members_def lanes_kept_def using inv_slot(7) [of F s] by metis

lemma membership_fold:
  assumes "rfold (\<lambda>membership lane.
        case ex_slots s ! lane of
          None \<Rightarrow> Inr membership
        | Some i \<Rightarrow>
           (let r = request_at s i in
            if \<not> rq_decode_ready r then Inr membership
            else case rq_budget r of
                None \<Rightarrow> Inl (logic_error ''decode-ready request has no generation budget'')
              | Some b \<Rightarrow> Inr (membership @ [(lane, gb_remaining b)]))) ms lanes = Inr result"
  shows "\<exists>sub. map fst result = map fst ms @ sub \<and> set sub \<subseteq> set lanes \<and> (distinct lanes \<longrightarrow> distinct sub) \<and>
    (\<forall>lane \<in> set sub. \<exists>i. ex_slots s ! lane = Some i \<and> rq_decode_ready (request_at s i))"
  using assms
proof (induction lanes arbitrary: ms)
  case (Cons lane lanes)
  show ?case
  proof (cases "\<exists>i b. ex_slots s ! lane = Some i \<and> rq_decode_ready (request_at s i) \<and> rq_budget (request_at s i) = Some b")
    case True
    then obtain i b where i: "ex_slots s ! lane = Some i" "rq_decode_ready (request_at s i)" "rq_budget (request_at s i) = Some b" by blast
    from Cons.IH [of "ms @ [(lane, gb_remaining b)]"] Cons.prems i obtain sub where
      "map fst result = map fst ms @ lane # sub" "set sub \<subseteq> set lanes" "distinct lanes \<longrightarrow> distinct sub"
      "\<forall>lane \<in> set sub. \<exists>i. ex_slots s ! lane = Some i \<and> rq_decode_ready (request_at s i)"
      by (auto simp: Let_def)
    then show ?thesis using i by (intro exI [of _ "lane # sub"]) auto
  next
    case False
    then show ?thesis using Cons.IH [of ms] Cons.prems by (fastforce simp: Let_def split: option.splits if_splits)
  qed
qed simp

lemma membership_contract:
  assumes inv: "exec_inv {} s"
  shows "wp build_round_membership (\<lambda>ms t. t = s \<and> members s (map fst ms)) ok_exn s"
proof -
  have "members s (map fst ms)" if "fst (build_round_membership s) = Inr ms" for ms
    using membership_fold [of s "[]" "lanes_of s" ms] that lanes_below [OF inv]
    by (auto simp: build_round_membership_def members_def lanes_of_def)
  then show ?thesis using inv
    by (auto simp: wp_fst_snd ok_exn_def build_round_membership_def split: sum.split)
qed

lemma preview_contract:
  fixes s :: "('g, 'p, 'l, 'o) executor"
  assumes t: "calm s t"
  shows "wp (preview_row tg rnd (row, lane, cancelled))
    (\<lambda>y u. calm s u \<and> ro_lane y = lane \<and> ro_request y = the (ex_slots s ! lane)) (\<lambda>_. calm s) t"
proof -
  have slots: "ex_slots t = ex_slots s" using evolves_no_lanes(1) [OF calmD(1) [OF t]] by simp
  have out: "wp (on_output i m) (\<lambda>_. calm s) (\<lambda>_. calm s) t" for i and m :: "('o, 'a) prog"
    by (rule wp_kept [OF calm_on_output]) (use t in \<open>auto intro: cm.R_trans\<close>)
  show ?thesis
    unfolding preview_row_def Let_def prod.case using t slots
    by (auto intro!: wp_mono [OF out])
qed

lemma commit_row_contract:
  fixes s :: "('g, 'p, 'l, 'o) executor"
  assumes o: "owned (ro_lane row) (ro_request row) s" and p: "ex_prefill_lane s \<noteq> Some (ro_lane row)"
  shows "wp (commit_row tg row) (\<lambda>_ t. exec_inv {} t \<and> evolves {ro_request row} {ro_lane row} s t) ok_exn s"
proof -
  let ?i = "ro_request row"
  note inv = owned_inv [OF o]
  have aborted: "\<And>t. ok_exn process_abort t" by (simp add: ok_exn_def)
  have account: "wp (sbind (on_request ?i (\<lambda>r. r\<lparr>rq_generated := rq_generated r @ ro_tokens row\<rparr>)) (\<lambda>_.
         sbind (commit_budget ?i (ro_accepted row)) (\<lambda>_.
         consume_service_work ?i (ucast (ro_accepted row))))) (\<lambda>_. calm s) ok_exn s"
  proof (intro calm_chain_budget [OF _ o] calm_chain [of s] calm_on_request cm.R_refl aborted ok_calm [OF inv])
    fix t :: "('g, 'p, 'l, 'o) executor" assume "calm s t"
    then show "wp (consume_service_work ?i (ucast (ro_accepted row))) (\<lambda>_. calm s) ok_exn t"
      by (intro wp_kept [OF calm_state_actions(2)]) (auto intro: cm.R_trans ok_calm [OF inv])
  qed (simp_all add: req_core_def)
  have start: "wp (swhen (\<not> ro_cancelled row)
        (sbind (on_request ?i (\<lambda>r. r\<lparr>rq_generated := rq_generated r @ ro_tokens row\<rparr>)) (\<lambda>_.
         sbind (commit_budget ?i (ro_accepted row)) (\<lambda>_.
         consume_service_work ?i (ucast (ro_accepted row)))))) (\<lambda>_. calm s) ok_exn s"
    using account by (auto simp: cm.R_refl simp del: wp_sbind)
  have finish: "wp (swhen (ro_terminal row)
        (sbind (complete_success tg ?i (ro_reason row)) (\<lambda>_. remove_completed_slot (ro_lane row))))
      (\<lambda>_ t. exec_inv {} t \<and> evolves {?i} {ro_lane row} s t) ok_exn t" if t: "calm s t" for t
  proof -
    have "wp (sbind (complete_success tg ?i (ro_reason row)) (\<lambda>_. remove_completed_slot (ro_lane row)))
        (\<lambda>_ u. exec_inv {} u \<and> evolves {?i} {ro_lane row} t u) ok_exn t"
      using owned_calm [OF o t] calm_prefill [OF t] p
      by (intro retire_contract complete_success_contract) (auto simp: owned_def)
    then have "wp (sbind (complete_success tg ?i (ro_reason row)) (\<lambda>_. remove_completed_slot (ro_lane row)))
        (\<lambda>_ u. exec_inv {} u \<and> evolves {?i} {ro_lane row} s u) ok_exn t"
      by (rule wp_mono) (auto intro: evolves_comp [OF calmD(1) [OF t]])
    then show ?thesis
      using calmD(2) [OF t inv] evolves_mono [OF calmD(1) [OF t]] by (auto simp del: wp_sbind)
  qed
  show ?thesis
    unfolding commit_row_def Let_def
    by (rule wp_seq [OF start], intro calm_chain [of s] finish calm_on_output cm.preserves_swhen calm_set_first_token
        calm_small(6) ok_calm [OF inv])
qed

definition rows_ok :: "('g, 'p, 'l, 'o) executor \<Rightarrow> row_outcome list \<Rightarrow> bool" where
  "rows_ok s rows = (exec_inv {} s \<and> distinct (map ro_lane rows) \<and> (\<forall>row \<in> set rows. owned (ro_lane row) (ro_request row) s \<and>
     ex_prefill_lane s \<noteq> Some (ro_lane row)))"

lemma commit_rows_contract:
  fixes s :: "('g, 'p, 'l, 'o) executor"
  assumes "rows_ok s rows"
  shows "wp (siter (commit_row tg) rows) (\<lambda>_. exec_inv {}) ok_exn s"
proof -
  have "wp (siter (commit_row tg) rows) (\<lambda>_ t. rows_ok t []) ok_exn s"
  proof (rule wp_siter [where I = "\<lambda>rest t. rows_ok t rest", OF assms])
    fix row rest and t :: "('g, 'p, 'l, 'o) executor" assume t: "rows_ok t (row # rest)"
    then have "wp (commit_row tg row) (\<lambda>_ u. exec_inv {} u \<and> evolves {ro_request row} {ro_lane row} t u) ok_exn t"
      by (intro commit_row_contract) (auto simp: rows_ok_def)
    then show "wp (commit_row tg row) (\<lambda>_ u. rows_ok u rest) ok_exn t"
    proof (rule wp_mono)
      fix u assume u: "exec_inv {} u \<and> evolves {ro_request row} {ro_lane row} t u"
      have "owned (ro_lane y) (ro_request y) u \<and> ex_prefill_lane u \<noteq> Some (ro_lane y)" if y: "y \<in> set rest" for y
      proof -
        have "ro_lane y \<in> ro_lane ` set rest" using y by simp
        then have "ro_lane y \<noteq> ro_lane row" using t by (auto simp: rows_ok_def simp del: image_iff)
        then show ?thesis using t u y evolves_lanes(3,4) [of "{ro_request row}" "{ro_lane row}" t u "ro_lane y"]
          by (auto simp: rows_ok_def owned_def)
      qed
      then show "rows_ok u rest" using t u by (simp add: rows_ok_def)
    qed
  qed
  then show ?thesis by (rule wp_mono) (auto simp: rows_ok_def)
qed

lemma load_all_cancelled:
  fixes s :: "('g, 'p, 'l, 'o) executor"
  shows "wp (smap (\<lambda>lane. sbind (gets (\<lambda>s. the (ex_slots s ! lane))) load_cancelled) lanes)
    (\<lambda>flags t. calm s t \<and> length flags = length lanes) E s"
proof -
  have "wp (smap (\<lambda>lane. sbind (gets (\<lambda>s. the (ex_slots s ! lane))) load_cancelled) lanes)
    (\<lambda>flags t. calm s t \<and> length flags + length ([] :: nat list) = length lanes) E s"
  proof (rule wp_smap [where I = "\<lambda>rest flags t. calm s t \<and> length flags + length rest = length lanes"])
    fix lane :: nat and rest :: "nat list" and flags :: "bool list" and t :: "('g, 'p, 'l, 'o) executor"
    assume t: "calm s t \<and> length flags + length (lane # rest) = length lanes"
    show "wp (sbind (gets (\<lambda>s. the (ex_slots s ! lane))) load_cancelled)
      (\<lambda>y u. calm s u \<and> length (flags @ [y]) + length rest = length lanes) E t"
      unfolding wp_gets_seq by (rule wp_kept_no_throw [OF calm_small(2) no_throw_ops(2)])
        (use t in \<open>auto intro: cm.R_trans\<close>)
  qed (simp add: cm.R_refl)
  then show ?thesis by simp
qed

lemma preview_all:
  fixes s :: "('g, 'p, 'l, 'o) executor"
  shows "wp (smap (preview_row tg rnd) jobs) (\<lambda>rows t. calm s t \<and> map ro_lane rows = map (fst \<circ> snd) jobs \<and>
     (\<forall>y \<in> set rows. ro_request y = the (ex_slots s ! ro_lane y))) (\<lambda>_. calm s) s"
proof -
  have "wp (smap (preview_row tg rnd) jobs) (\<lambda>rows t. calm s t \<and> map ro_lane rows @ map (fst \<circ> snd) ([] :: (nat \<times> nat \<times> bool) list) = map (fst \<circ> snd) jobs \<and>
     (\<forall>y \<in> set rows. ro_request y = the (ex_slots s ! ro_lane y))) (\<lambda>_. calm s) s"
  proof (rule wp_smap [where I = "\<lambda>rest rows t. calm s t \<and> map ro_lane rows @ map (fst \<circ> snd) rest = map (fst \<circ> snd) jobs \<and>
     (\<forall>y \<in> set rows. ro_request y = the (ex_slots s ! ro_lane y))"])
    fix x and rest :: "(nat \<times> nat \<times> bool) list" and rows :: "row_outcome list" and t :: "('g, 'p, 'l, 'o) executor"
    assume t: "calm s t \<and> map ro_lane rows @ map (fst \<circ> snd) (x # rest) = map (fst \<circ> snd) jobs \<and>
      (\<forall>y \<in> set rows. ro_request y = the (ex_slots s ! ro_lane y))"
    obtain row lane c where x: "x = (row, lane, c)" by (cases x)
    show "wp (preview_row tg rnd x) (\<lambda>y u. calm s u \<and> map ro_lane (rows @ [y]) @ map (fst \<circ> snd) rest = map (fst \<circ> snd) jobs \<and>
      (\<forall>y \<in> set (rows @ [y]). ro_request y = the (ex_slots s ! ro_lane y))) (\<lambda>_. calm s) t"
      unfolding x by (rule wp_mono [OF preview_contract]) (use t x in auto)
  qed (simp add: cm.R_refl)
  then show ?thesis by simp
qed

lemma decode_contract:
  fixes s :: "('g, 'p, 'l, 'o) executor"
  assumes inv: "exec_inv {} s" and ms: "members s (map fst membership)"
  shows "wp (run_decode_round tg membership) (\<lambda>_. exec_inv {}) ok_exn s"
proof -
  let ?lanes = "map fst membership"
  have rows: "rows_ok t rows" if t: "calm s t" and lanes: "map ro_lane rows = ?lanes"
    and req: "\<forall>y \<in> set rows. ro_request y = the (ex_slots s ! ro_lane y)" for t rows
  proof -
    have "owned (ro_lane y) (ro_request y) t \<and> ex_prefill_lane t \<noteq> Some (ro_lane y)" if y: "y \<in> set rows" for y
    proof -
      have "ro_lane y \<in> set ?lanes" using y lanes by (metis image_eqI set_map)
      then obtain i where i: "ro_lane y < kMaximumConcurrency" "ex_slots s ! ro_lane y = Some i" "rq_decode_ready (request_at s i)"
        using ms by (auto simp: members_def)
      have "ro_request y = i" using req y i(2) by simp
      moreover have "ex_prefill_lane s \<noteq> Some (ro_lane y)"
      proof
        assume "ex_prefill_lane s = Some (ro_lane y)"
        from inv_prefill [OF inv this] show False using i by auto
      qed
      ultimately show ?thesis
        using i inv calmD(2) [OF t inv] evolves_no_lanes [OF calmD(1) [OF t]] by (simp add: owned_def)
    qed
    then show ?thesis using calmD(2) [OF t inv] lanes ms by (simp add: rows_ok_def members_def)
  qed
  have finish: "wp (sbind (on_target (tg_resolve_pending_batch tg ?lanes (map ro_accepted rows) (map ro_terminal rows) cancelled)) (\<lambda>_.
        sbind (siter (commit_row tg) rows) (\<lambda>_.
        sbind (modify (\<lambda>s. let c = ex_cumulative_stats s in s\<lparr>ex_cumulative_stats := c\<lparr>
            st_decode_rounds := st_decode_rounds c + 1,
            st_decode_row_rounds := st_decode_row_rounds c + word_of_nat (length ?lanes),
            st_committed_decode_tokens := st_committed_decode_tokens c +
              word_of_nat (sum_list (map (\<lambda>row. if ro_cancelled row then 0 else unat (ro_accepted row)) rows))\<rparr>\<rparr>)) (\<lambda>_.
        publish_runtime_stats)))) (\<lambda>_. exec_inv {}) ok_exn t"
    if t: "calm s t" and lanes: "map ro_lane rows = ?lanes"
      and req: "\<forall>y \<in> set rows. ro_request y = the (ex_slots s ! ro_lane y)" for t rows cancelled
  proof (rule calm_chain [OF t calm_on_target])
    fix u assume "calm s u"
    from commit_rows_contract [OF rows [OF this lanes req]] show "wp (sbind (siter (commit_row tg) rows) (\<lambda>_.
        sbind (modify (\<lambda>s. let c = ex_cumulative_stats s in s\<lparr>ex_cumulative_stats := c\<lparr>
            st_decode_rounds := st_decode_rounds c + 1,
            st_decode_row_rounds := st_decode_row_rounds c + word_of_nat (length ?lanes),
            st_committed_decode_tokens := st_committed_decode_tokens c +
              word_of_nat (sum_list (map (\<lambda>row. if ro_cancelled row then 0 else unat (ro_accepted row)) rows))\<rparr>\<rparr>)) (\<lambda>_.
        publish_runtime_stats))) (\<lambda>_. exec_inv {}) ok_exn u"
    proof (rule wp_seq, goal_cases)
      case (1 _ v)
      show ?case
        by (rule wp_calm [OF calm_modify no_throw_basic(3)])
          (use 1 in \<open>auto simp: same_core_def Let_def intro: publish_inv calmD(2)\<close>)
    qed
  qed (rule ok_calm [OF inv])
  show ?thesis
    unfolding run_decode_round_def Let_def
  proof (rule calm_chain [OF cm.R_refl calm_on_target])
    fix rnd and t :: "('g, 'p, 'l, 'o) executor" assume t: "calm s t"
    show "wp (sbind (smap (\<lambda>lane. sbind (gets (\<lambda>s. the (ex_slots s ! lane))) load_cancelled) ?lanes) (\<lambda>cancelled.
      if br_row_stride rnd = 0 \<or>
         (br_row_counts rnd \<noteq> [] \<and> length (br_row_counts rnd) \<noteq> length ?lanes) \<or>
         length (br_tokens rnd) < unat (br_row_stride rnd) * length ?lanes
      then sthrow (logic_error ''decode batch returned an invalid ragged layout'')
      else
        sbind (smap (preview_row tg rnd) (zip [0..<length ?lanes] (zip ?lanes cancelled))) (\<lambda>rows.
        sbind (on_target (tg_resolve_pending_batch tg ?lanes (map ro_accepted rows) (map ro_terminal rows) cancelled)) (\<lambda>_.
        sbind (siter (commit_row tg) rows) (\<lambda>_.
        sbind (modify (\<lambda>s. s\<lparr>ex_cumulative_stats := (ex_cumulative_stats s)\<lparr>
            st_decode_rounds := st_decode_rounds (ex_cumulative_stats s) + 1,
            st_decode_row_rounds := st_decode_row_rounds (ex_cumulative_stats s) + word_of_nat (length ?lanes),
            st_committed_decode_tokens := st_committed_decode_tokens (ex_cumulative_stats s) +
              word_of_nat (sum_list (map (\<lambda>row. if ro_cancelled row then 0 else unat (ro_accepted row)) rows))\<rparr>\<rparr>)) (\<lambda>_.
        publish_runtime_stats)))))) (\<lambda>_. exec_inv {}) ok_exn t"
    proof (rule wp_seq [OF load_all_cancelled], rule wp_if, goal_cases)
      case (1 cancelled u)
      then show ?case using t by (auto intro!: ok_calm [OF inv] intro: cm.R_trans)
    next
      case (2 cancelled u)
      then have u: "calm s u" and len: "length cancelled = length ?lanes" using t by (auto intro: cm.R_trans)
      let ?jobs = "zip [0..<length ?lanes] (zip ?lanes cancelled)"
      have jobs: "map (fst \<circ> snd) ?jobs = ?lanes" by (rule nth_equalityI) (use len in auto)
      have "wp (smap (preview_row tg rnd) ?jobs) (\<lambda>rows v. calm s v \<and> map ro_lane rows = ?lanes \<and>
          (\<forall>y \<in> set rows. ro_request y = the (ex_slots s ! ro_lane y))) ok_exn u"
        by (rule wp_mono [OF preview_all])
          (use u jobs evolves_no_lanes(1) [OF calmD(1) [OF u]] in \<open>auto intro: cm.R_trans ok_calm [OF inv]\<close>)
      then show ?case by (rule wp_seq) (use finish in \<open>auto simp: Let_def simp del: wp_sbind\<close>)
    qed
  qed (rule ok_calm [OF inv])
qed

section \<open>Failure of all requests\<close>

text \<open>Once the engine has failed and the queue is empty, no thread fills it again.\<close>

definition drained :: "('g, 'p, 'l, 'o) executor \<Rightarrow> ('g, 'p, 'l, 'o) executor \<Rightarrow> bool" where
  "drained s t = (ex_failed s \<and> ex_pending s = [] \<longrightarrow> ex_failed t \<and> ex_pending t = [])"

interpretation dr: kept_relation drained
  by unfold_locales (auto simp: drained_def)

lemma drained_env_exec: "drained s (env_exec e s)"
  by (cases e) (auto simp: drained_def submit_reserve_def submit_abort_def submit_push_def wait_round_def
      release_consumer_def Let_def release_reserved_capacity_def finish_release_def split: list.split)

lemma drained_same: "ex_failed t = ex_failed s \<Longrightarrow> ex_pending t = ex_pending s \<Longrightarrow> drained s t"
  by (simp add: drained_def)

lemma drained_interleave: "preserves drained interleave"
  unfolding preserves_def
proof
  fix s :: "('g, 'p, 'l, 'o) executor"
  have batch: "drained t (fold env_exec batch t)" for batch and t :: "('g, 'p, 'l, 'o) executor"
    by (induction batch arbitrary: t) (auto intro: dr.R_refl dr.R_trans drained_env_exec)
  show "drained s (snd (interleave s))"
    by (cases "ex_env s") (auto simp: interleave_def dr.R_refl intro: dr.R_trans [OF drained_same batch])
qed

lemma drained_prims:
  "preserves drained m \<Longrightarrow> preserves drained (atomically m)"
  "(\<And>s. ex_failed (f s) = ex_failed s \<and> ex_pending (f s) = ex_pending s) \<Longrightarrow> preserves drained (modify f)"
  "preserves drained (on_request i g)"
  unfolding atomically_def on_request_def
  by (intro dr.preserves_sbind drained_interleave; assumption)
    (auto simp: preserves_def modify_def intro: drained_same)

lemma drained_ops:
  "preserves drained publish_runtime_stats" "preserves drained (complete_error i e)"
  "preserves drained (abort_lane tg lane)" "preserves drained (clear_slot lane)"
  unfolding publish_runtime_stats_def complete_error_def release_planning_state_def release_completed_def
    mark_completed_def abort_lane_def clear_slot_def
  by (intro dr.preserves_intros drained_prims; auto simp: preserves_def Let_def finish_release_def
      release_reserved_capacity_def intro!: drained_same)+

lemma fail_lane_contract:
  fixes s :: "('g, 'p, 'l, 'o) executor"
  assumes inv: "exec_inv P s" and lane: "lane < kMaximumConcurrency" "ex_slots s ! lane = Some i" and i: "i \<notin> P"
    and p: "ex_prefill_lane s = None"
  shows "wp (sbind (abort_lane tg lane) (\<lambda>_. sbind (complete_error i e) (\<lambda>_. clear_slot lane)))
    (\<lambda>_ t. exec_inv P t \<and> evolves {i} {lane} s t \<and> ex_slots t ! lane = None \<and> ex_prefill_lane t = None) E s"
proof (rule wp_calm [OF calm_small(3) no_throw_ops(3)])
  fix t :: "('g, 'p, 'l, 'o) executor" assume t: "calm s t"
  have inv_t: "exec_inv P t" and slot: "ex_slots t ! lane = Some i" and pt: "ex_prefill_lane t = None"
    using calmD(2) [OF t inv] evolves_no_lanes [OF calmD(1) [OF t]] lane(2) p by simp_all
  note owner = inv_slot [OF inv_t slot lane(1)]
  have "completable P i t" using owner inv_insert [OF inv_t owner(2,3)] i by (simp add: completable_def)
  then show "wp (sbind (complete_error i e) (\<lambda>_. clear_slot lane))
    (\<lambda>_ t. exec_inv P t \<and> evolves {i} {lane} s t \<and> ex_slots t ! lane = None \<and> ex_prefill_lane t = None) E t"
  proof (rule wp_seq [OF complete_error_contract])
    fix u :: "('g, 'p, 'l, 'o) executor" assume c: "completed_from P i t u"
    then have ev: "evolves {i} {} t u" and inv_u: "exec_inv (insert i P) u" and cl: "closed i u"
      by (simp_all add: completed_from_def)
    have su: "ex_slots u ! lane = Some i" and pu: "ex_prefill_lane u = None" using evolves_no_lanes [OF ev] slot pt by simp_all
    let ?v = "u\<lparr>ex_slots := (ex_slots u)[lane := None]\<rparr>"
    have off: "exec_inv (insert i P) ?v" "Some i \<notin> set (ex_slots ?v)" "evolves {} {lane} u ?v"
      using cleared_slot [OF inv_u lane(1) su _ refl] pu by simp_all
    have "exec_inv P ?v" by (rule inv_remove [OF off(1) _ off(2)]) (use cl in \<open>simp add: closed_def\<close>)
    moreover have "evolves {i} {lane} s ?v"
      by (rule evolves_comp [OF evolves_comp [OF calmD(1) [OF t] ev] off(3)]) auto
    moreover have "ex_slots ?v ! lane = None" using inv_lengths(1) [OF inv_u] lane(1) by simp
    ultimately show "wp (clear_slot lane)
      (\<lambda>_ t. exec_inv P t \<and> evolves {i} {lane} s t \<and> ex_slots t ! lane = None \<and> ex_prefill_lane t = None) E u"
      using pu by (simp add: clear_slot_def)
  qed
qed

definition lanes_empty :: "('g, 'p, 'l, 'o) executor \<Rightarrow> bool" where
  "lanes_empty s = (\<forall>lane < kMaximumConcurrency. ex_slots s ! lane = None)"

definition failing :: "nat list \<Rightarrow> nat list \<Rightarrow> ('g, 'p, 'l, 'o) executor \<Rightarrow> bool" where
  "failing P rest s = (exec_inv (set P) s \<and> (\<forall>i \<in> set P. in_flight i s) \<and> ex_prefill_lane s = None \<and>
     (\<forall>lane < kMaximumConcurrency. lane \<notin> set rest \<longrightarrow> ex_slots s ! lane = None))"

lemma fail_lanes_contract:
  fixes s :: "('g, 'p, 'l, 'o) executor"
  assumes "failing P lanes s" "\<forall>lane \<in> set lanes. lane < kMaximumConcurrency"
  shows "wp (siter (\<lambda>lane. sbind (gets (\<lambda>s. ex_slots s ! lane)) (\<lambda>slot.
        case slot of
          None \<Rightarrow> sret ()
        | Some i \<Rightarrow> sbind (abort_lane tg lane) (\<lambda>_. sbind (complete_error i e) (\<lambda>_. clear_slot lane)))) lanes)
    (\<lambda>_. failing P []) E s"
proof (rule wp_siter [where I = "failing P", OF assms(1)])
  fix lane rest and t :: "('g, 'p, 'l, 'o) executor"
  assume t: "failing P (lane # rest) t" and sub: "set (lane # rest) \<subseteq> set lanes"
  have lane: "lane < kMaximumConcurrency" using sub assms(2) by auto
  show "wp (sbind (gets (\<lambda>s. ex_slots s ! lane)) (\<lambda>slot.
        case slot of
          None \<Rightarrow> sret ()
        | Some i \<Rightarrow> sbind (abort_lane tg lane) (\<lambda>_. sbind (complete_error i e) (\<lambda>_. clear_slot lane))))
      (\<lambda>_. failing P rest) E t"
  proof (cases "ex_slots t ! lane")
    case None
    then have "failing P rest t" using t by (auto simp: failing_def)
    then show ?thesis using None by simp
  next
    case (Some i)
    have inv: "exec_inv (set P) t" and p: "ex_prefill_lane t = None" using t by (simp_all add: failing_def)
    have "i \<notin> set P" using t inv_slot(7) [OF inv Some lane] by (auto simp: failing_def in_flight_def)
    from fail_lane_contract [OF inv lane Some this p]
    have "wp (sbind (abort_lane tg lane) (\<lambda>_. sbind (complete_error i e) (\<lambda>_. clear_slot lane)))
        (\<lambda>_. failing P rest) E t"
    proof (rule wp_mono)
      fix u assume u: "exec_inv (set P) u \<and> evolves {i} {lane} t u \<and> ex_slots u ! lane = None \<and> ex_prefill_lane u = None"
      then have ev: "evolves {i} {lane} t u" by simp
      have slots: "ex_slots u ! l = (if l = lane then None else ex_slots t ! l)" for l
        using u evolves_lanes(3) [OF ev, of l] by auto
      have "in_flight j u" if j: "j \<in> set P" for j
      proof -
        have fj: "in_flight j t" and ji: "j \<noteq> i" using t j \<open>i \<notin> set P\<close> by (auto simp: failing_def)
        have "Some j \<notin> set (ex_slots u)"
        proof
          assume "Some j \<in> set (ex_slots u)"
          then obtain l where "l < length (ex_slots u)" "ex_slots u ! l = Some j" by (auto simp: in_set_conv_nth)
          then have "ex_slots t ! l = Some j" "l < length (ex_slots t)"
            using slots [of l] evolves_lanes(2) [OF ev] by (auto split: if_splits)
          then show False using fj nth_mem [of l "ex_slots t"] by (simp add: in_flight_def)
        qed
        then show ?thesis using fj ji evolves_request [OF ev, of j] evolves_queue(2) [OF ev, of j]
          by (simp add: in_flight_def)
      qed
      then show "failing P rest u" using u t slots by (auto simp: failing_def)
    qed
    then show ?thesis using Some by (simp del: wp_sbind add: wp_gets_seq)
  qed
qed

lemma no_prefill: "ex_prefill_lane s = None \<Longrightarrow> s\<lparr>ex_prefill_lane := None\<rparr> = s"
  by (cases s) simp

lemma fail_all_contract:
  fixes s :: "('g, 'p, 'l, 'o) executor"
  assumes inv: "exec_inv {} s"
  shows "wp (fail_all tg e) (\<lambda>_ t. exec_inv {} t \<and> lanes_empty t) E s"
proof -
  have start: "wp (atomically (\<lambda>s. (Inr (ex_pending s), s\<lparr>ex_failed := True, ex_pending := []\<rparr>)))
     (\<lambda>P t. exec_inv (set P) t \<and> distinct P \<and> (\<forall>i \<in> set P. in_flight i t)) E s"
    unfolding atomically_def
  proof (rule wp_seq_no_throw [OF calm_interleave no_throw_interleave])
    fix t :: "('g, 'p, 'l, 'o) executor" assume t: "calm s t"
    have it: "exec_inv {} t" by (rule calmD(2) [OF t inv])
    have "exec_inv (set (ex_pending t) \<union> {}) (t\<lparr>ex_failed := True, ex_pending := []\<rparr>)"
      "\<And>i. i \<in> set (ex_pending t) \<Longrightarrow> in_flight i (t\<lparr>ex_failed := True, ex_pending := []\<rparr>)"
      using take_out [OF it, of "[]" "set (ex_pending t)" "t\<lparr>ex_failed := True, ex_pending := []\<rparr>" True] by simp_all
    then show "wp (\<lambda>s. (Inr (ex_pending s), s\<lparr>ex_failed := True, ex_pending := []\<rparr>))
      (\<lambda>P t. exec_inv (set P) t \<and> distinct P \<and> (\<forall>i \<in> set P. in_flight i t)) E t"
      using inv_lengths(4) [OF it] by (simp add: wp_def)
  qed
  show ?thesis
    unfolding fail_all_def
  proof (rule wp_seq [OF start], goal_cases)
    case (1 P t)
    then have t: "exec_inv (set P) t" "distinct P" "\<forall>i \<in> set P. in_flight i t" by simp_all
    let ?u = "t\<lparr>ex_memory := (if ex_prefill_lane t = None then ex_memory t else rm_deactivate (ex_memory t)),
        ex_prefill_lane := None, ex_protection := None\<rparr>"
    have len: "length (ex_slots t) = kMaximumConcurrency" by (rule inv_lengths(1) [OF t(1)])
    have inv_u: "exec_inv (set P) ?u" using t(1) by (simp add: exec_inv_defs charged_def)
    have "ex_slots t ! lane = None" if "lane < kMaximumConcurrency" "\<not> lane < ex_max_concurrency t" for lane
      using inv_slot(1) [OF t(1), of lane] that by (cases "ex_slots t ! lane") auto
    then have "failing P (lanes_of ?u) ?u"
      using inv_u t(3) by (auto simp: failing_def in_flight_def lanes_of_def)
    then have "wp (siter (\<lambda>lane. sbind (gets (\<lambda>s. ex_slots s ! lane)) (\<lambda>slot.
        case slot of
          None \<Rightarrow> sret ()
        | Some i \<Rightarrow> sbind (abort_lane tg lane) (\<lambda>_. sbind (complete_error i e) (\<lambda>_. clear_slot lane)))) (lanes_of ?u))
      (\<lambda>_. failing P []) E ?u"
      using lanes_below [OF inv_u] by (intro fail_lanes_contract) auto
    moreover have "wp (sbind (siter (\<lambda>i. complete_error i e) P) (\<lambda>_. publish_runtime_stats))
        (\<lambda>_ t. exec_inv {} t \<and> lanes_empty t) E v" if v: "failing P [] v" for v
    proof -
      have "all_in_flight {} P v" using v t(2) by (simp add: all_in_flight_def failing_def)
      from complete_all_contract [OF this complete_error_contract]
      have "wp (siter (\<lambda>i. complete_error i e) P) (\<lambda>_ w. exec_inv {} w \<and> lanes_empty w) E v"
        by (rule wp_mono) (use v in \<open>auto simp: failing_def lanes_empty_def evolves_no_lanes\<close>)
      then show ?thesis
        by (rule wp_seq) (rule wp_kept_no_throw [OF calm_small(5) no_throw_ops(5)],
            auto simp: lanes_empty_def calmD(2) evolves_no_lanes(1) [OF calmD(1)])
    qed
    ultimately have "wp (sbind (siter (\<lambda>lane. sbind (gets (\<lambda>s. ex_slots s ! lane)) (\<lambda>slot.
        case slot of
          None \<Rightarrow> sret ()
        | Some i \<Rightarrow> sbind (abort_lane tg lane) (\<lambda>_. sbind (complete_error i e) (\<lambda>_. clear_slot lane)))) (lanes_of ?u)) (\<lambda>_.
        sbind (siter (\<lambda>i. complete_error i e) P) (\<lambda>_. publish_runtime_stats)))
        (\<lambda>_ t. exec_inv {} t \<and> lanes_empty t) E ?u"
      by (rule wp_seq)
    then show ?case
      by (cases "ex_prefill_lane t") (simp_all add: deactivate_memory_def lanes_of_def no_prefill)
  qed
qed

lemma fail_all_drains:
  fixes s :: "('g, 'p, 'l, 'o) executor"
  shows "wp (fail_all tg e) (\<lambda>_ t. ex_failed t \<and> ex_pending t = []) (\<lambda>_ _. True) s"
proof -
  have start: "wp (atomically (\<lambda>s. (Inr (ex_pending s), s\<lparr>ex_failed := True, ex_pending := []\<rparr>)))
     (\<lambda>P t. ex_failed t \<and> ex_pending t = []) (\<lambda>_ _. True) s"
    unfolding atomically_def by (rule wp_seq_no_throw [OF calm_interleave no_throw_interleave]) (simp add: wp_def)
  show ?thesis
    unfolding fail_all_def
  proof (rule wp_seq [OF start], rule wp_kept [where R = drained], goal_cases)
    case (1 P t)
    show ?case
      unfolding deactivate_memory_def
      by (intro dr.preserves_intros drained_prims(2) drained_ops) simp_all
  qed (auto simp: drained_def)
qed

section \<open>The worker iteration\<close>

lemma decode_unit_contract:
  assumes "exec_inv {} s" "members s (map fst membership)"
  shows "wp (decode_unit tg membership) (\<lambda>_. exec_inv {}) ok_exn s"
  unfolding decode_unit_def
  by (rule wp_seq [OF decode_contract [OF assms]])
    (rule wp_kept_no_throw [OF calm_small(10) no_throw_ops(13)], rule calmD(2))

lemma set_previous_inv: "exec_inv F s \<Longrightarrow> wp (set_previous b) (\<lambda>_. exec_inv F) E s"
  by (rule wp_kept_no_throw [OF calm_small(10) no_throw_ops(13)]) (rule calmD(2))

lemma schedule_contract:
  fixes s :: "('g, 'p, 'l, 'o) executor"
  assumes tg: "output_total tg" and inv: "exec_inv {} s"
  shows "wp (schedule_unit tg) (\<lambda>_. exec_inv {}) ok_exn s"
  unfolding schedule_unit_def
proof (rule wp_seq [OF expire_contract [OF tg inv]], rule wp_seq [OF snapshot_contract],
    rule wp_seq [OF cancel_active_contract [OF tg]], goal_cases)
  case (3 have_pending t flags u _ v)
  show ?case
  proof (rule wp_seq [OF membership_contract [OF 3(3)]], unfold wp_gets_seq prod.case, goal_cases)
    case (1 membership w)
    then have w: "exec_inv {} w" and ms: "members w (map fst membership)" using 3(3) by simp_all
    have prefill: "wp (sbind (run_prefill_step tg) (\<lambda>_. set_previous False)) (\<lambda>_. exec_inv {}) ok_exn w"
      by (rule wp_seq [OF run_prefill_contract [OF tg w] set_previous_inv])
    have admit: "wp (sbind (try_admit_one tg) (\<lambda>progress.
       if progress = RanGpuUnit then set_previous False
       else if progress = ControlProgress \<and> membership = [] then sret ()
       else if membership \<noteq> [] then decode_unit tg membership
       else sret ())) (\<lambda>_. exec_inv {}) ok_exn w" if p: "ex_prefill_lane w = None"
      unfolding try_admit_one_def
    proof (rule wp_seq [OF admit_loop_contract [OF tg w p]])
      fix progress and x :: "('g, 'p, 'l, 'o) executor" assume x: "admit_post w progress x"
      then have "exec_inv {} x" "progress \<noteq> RanGpuUnit \<longrightarrow> members x (map fst membership)"
        using members_kept [OF w ms] by (auto simp: admit_post_def)
      then show "wp (if progress = RanGpuUnit then set_previous False
       else if progress = ControlProgress \<and> membership = [] then sret ()
       else if membership \<noteq> [] then decode_unit tg membership
       else sret ()) (\<lambda>_. exec_inv {}) ok_exn x"
        by (auto intro: set_previous_inv decode_unit_contract)
    qed
    show ?case
      using decode_unit_contract [OF w ms] prefill admit w by (auto simp del: wp_sbind)
  qed
qed (auto dest: lanes_below intro: calmD(2))

section \<open>The executor as a transition system\<close>

definition ex_init :: "('g, 'p, 'l, 'o) executor \<Rightarrow> bool" where
  "ex_init s = (\<exists>max_concurrency max_pending timeout cap memory g.
     make_executor max_concurrency max_pending timeout cap memory g = Inr s)"

text \<open>
  A step is a critical section of another thread, or an iteration of the worker during which
  other threads act according to an arbitrary script. The worker waits while it is idle; an
  iteration that aborts the process has no successor.
\<close>

inductive ex_step :: "('g, 'p, 'l, 'o) target \<Rightarrow> ('g, 'p, 'l, 'o) executor \<Rightarrow> ('g, 'p, 'l, 'o) executor \<Rightarrow> bool"
  for tg where
  other: "ex_step tg s (env_exec event s)"
| work: "ex_worker_running s \<Longrightarrow> \<not> idle s \<Longrightarrow> worker_iteration tg (s\<lparr>ex_env := script\<rparr>) = (Inr u, t) \<Longrightarrow>
    ex_step tg s (t\<lparr>ex_env := []\<rparr>)"

inductive_cases ex_stepE: "ex_step tg s t"

definition stopped_inv :: "('g, 'p, 'l, 'o) executor \<Rightarrow> bool" where
  "stopped_inv s = (ex_worker_running s \<or> (ex_failed s \<and> ex_pending s = [] \<and> lanes_empty s))"

definition system_inv :: "('g, 'p, 'l, 'o) executor \<Rightarrow> bool" where
  "system_inv s = (exec_inv {} s \<and> stopped_inv s)"

lemma init_inv: "ex_init s \<Longrightarrow> system_inv s"
  by (auto simp: ex_init_def make_executor_def throw_if_def system_inv_def stopped_inv_def exec_inv_defs charged_def
      split: if_splits)

lemma stop_contract:
  fixes s :: "('g, 'p, 'l, 'o) executor"
  assumes "exec_inv {} s"
  shows "wp (stop_worker tg e) (\<lambda>_. system_inv) (\<lambda>e _. e = process_abort) s"
proof -
  have "wp (fail_all tg e) (\<lambda>_ t. (exec_inv {} t \<and> lanes_empty t) \<and> ex_failed t \<and> ex_pending t = []) (\<lambda>e _. False \<and> True) s"
    by (rule wp_conj [OF fail_all_contract [OF assms] fail_all_drains])
  then have "wp (fail_all tg e) (\<lambda>_ t. system_inv (t\<lparr>ex_worker_running := False\<rparr>)) (\<lambda>e _. e = process_abort) s"
  proof (rule wp_mono)
    fix t :: "('g, 'p, 'l, 'o) executor"
    assume t: "(exec_inv {} t \<and> lanes_empty t) \<and> ex_failed t \<and> ex_pending t = []"
    have "calm t (t\<lparr>ex_worker_running := False\<rparr>)" by (rule same_core_calm) (simp add: same_core_def)
    then show "system_inv (t\<lparr>ex_worker_running := False\<rparr>)"
      using t by (simp add: system_inv_def stopped_inv_def lanes_empty_def calmD(2))
  qed simp
  then show ?thesis by (simp add: stop_worker_def)
qed

lemma worker_contract:
  fixes s :: "('g, 'p, 'l, 'o) executor"
  assumes tg: "output_total tg" and inv: "exec_inv {} s" and run: "ex_worker_running s"
  shows "wp (worker_iteration tg) (\<lambda>_. system_inv) (\<lambda>e _. e = process_abort) s"
proof -
  have kept: "wp m (\<lambda>_ t. ex_worker_running t) (\<lambda>_ _. True) t"
    if "preserves worker_kept m" "ex_worker_running t" for t :: "('g, 'p, 'l, 'o) executor" and m :: "('g, 'p, 'l, 'o, 'a) exec"
    by (rule wp_kept [OF that(1)]) (use that(2) in \<open>auto simp: worker_kept_def\<close>)
  have unit: "wp (scatch (schedule_unit tg) (stop_worker tg)) (\<lambda>_. system_inv) (\<lambda>e _. e = process_abort) t"
    if t: "exec_inv {} t" "ex_worker_running t" for t
  proof -
    have "wp (schedule_unit tg) (\<lambda>_ u. exec_inv {} u \<and> ex_worker_running u) (\<lambda>e u. ok_exn e u \<and> True) t"
      using wp_conj [OF schedule_contract [OF tg t(1)] wp_kept [OF final_schedule_unit, of t "\<lambda>_ u. ex_worker_running u" "\<lambda>_ _. True"]] t(2)
      by (simp add: worker_kept_def)
    then show ?thesis
      unfolding wp_scatch
      by (rule wp_mono) (auto simp: system_inv_def stopped_inv_def ok_exn_def intro!: stop_contract)
  qed
  have start: "wp (atomically (gets ex_stopping)) (\<lambda>_ t. calm s t \<and> ex_worker_running t) (\<lambda>e _. e = process_abort) s"
  proof -
    have "preserves worker_kept (atomically (gets ex_stopping))" by (intro final_prims)
    moreover have "wp (atomically (gets ex_stopping)) (\<lambda>_. calm s) (\<lambda>e _. e = process_abort) s"
      by (rule wp_kept_no_throw [OF calm_atomically [OF cm.preserves_gets] no_throw_atomically [OF no_throw_basic(2)]])
    ultimately show ?thesis
      using wp_conj [OF _ wp_kept, of "atomically (gets ex_stopping)" "\<lambda>_. calm s" "\<lambda>e _. e = process_abort" s worker_kept
          "\<lambda>_ u. ex_worker_running u" "\<lambda>_ _. True"] run
      by (simp add: worker_kept_def)
  qed
  show ?thesis
    unfolding worker_iteration_def
  proof (rule wp_seq [OF start])
    fix stopping and t :: "('g, 'p, 'l, 'o) executor" assume t: "calm s t \<and> ex_worker_running t"
    then have "exec_inv {} t" using inv by (blast intro: calmD(2))
    then show "wp (if stopping then stop_worker tg (request_error ''Unavailable'' ''inference engine is shutting down'')
       else scatch (schedule_unit tg) (stop_worker tg)) (\<lambda>_. system_inv) (\<lambda>e _. e = process_abort) t"
      using t by (intro wp_if stop_contract unit) auto
  qed
qed

lemma env_system_inv:
  assumes "system_inv s"
  shows "system_inv (env_exec e s)"
proof -
  have c: "calm s (env_exec e s)" by (rule calm_env_exec)
  have "lanes_empty (env_exec e s) = lanes_empty s"
    using evolves_no_lanes(1) [OF calmD(1) [OF c]] by (simp add: lanes_empty_def)
  moreover have "ex_worker_running (env_exec e s) = ex_worker_running s"
    using final_env_exec [of s e] by (simp add: worker_kept_def)
  ultimately show ?thesis
    using assms calmD(2) [OF c] drained_env_exec [of s e] by (auto simp: system_inv_def stopped_inv_def drained_def)
qed

lemma step_inv:
  assumes tg: "output_total tg" and inv: "system_inv s" and step: "ex_step tg s t"
  shows "system_inv t"
  using step
proof (rule ex_stepE)
  fix event assume "t = env_exec event s"
  then show ?thesis using inv env_system_inv by simp
next
  fix script u t'
  assume 2: "t = t'\<lparr>ex_env := []\<rparr>" "ex_worker_running s" "\<not> idle s"
    "worker_iteration tg (s\<lparr>ex_env := script\<rparr>) = (Inr u, t')"
  have "calm s (s\<lparr>ex_env := script\<rparr>)" by (rule same_core_calm) (simp add: same_core_def)
  then have "exec_inv {} (s\<lparr>ex_env := script\<rparr>)" using inv by (blast intro: calmD(2) dest: system_inv_def [THEN iffD1])
  from worker_contract [OF tg this] have "system_inv t'" using 2 by (simp add: wp_def)
  moreover have "calm t' (t'\<lparr>ex_env := []\<rparr>)" by (rule same_core_calm) (simp add: same_core_def)
  ultimately show ?thesis using 2 by (simp add: system_inv_def stopped_inv_def lanes_empty_def calmD(2))
qed

interpretation ex: invariant_system ex_init "ex_step tg" "\<lambda>s. output_total tg \<longrightarrow> system_inv s" for tg
  by unfold_locales (auto intro: init_inv step_inv)

lemma reachable_inv:
  assumes "output_total tg" "reachable ex_init (ex_step tg) s"
  shows "exec_inv {} s" "stopped_inv s"
  using ex.inv_reachable [OF assms(2)] assms(1) by (simp_all add: system_inv_def)

lemma step_final: "ex_step tg s t \<Longrightarrow> completion_final s t"
proof (erule ex_stepE)
  fix event assume "t = env_exec event s"
  then show ?thesis using final_env_exec [of s event] by (simp add: worker_kept_def)
next
  fix script u t'
  assume t: "t = t'\<lparr>ex_env := []\<rparr>" "worker_iteration tg (s\<lparr>ex_env := script\<rparr>) = (Inr u, t')"
  show ?thesis
    using final_worker [of "s\<lparr>ex_env := script\<rparr>" tg] t by (simp add: completion_final_def)
qed

lemma steps_final: "(ex_step tg)\<^sup>*\<^sup>* s t \<Longrightarrow> completion_final s t"
  by (induction rule: rtranclp_induct) (auto intro: step_final completion_final_trans)

lemma count_list_distinct: "distinct xs \<Longrightarrow> x \<in> set xs \<Longrightarrow> count_list xs x = 1"
  by (induction xs) auto

section \<open>Theorems\<close>





text \<open>
  C4. A completed request stays completed with the outcome it was completed with, whatever the
  worker and the other threads do afterwards.
\<close>

theorem completion_is_final:
  assumes "(ex_step tg)\<^sup>*\<^sup>* s t" "i < length (ex_requests s)" "rq_done (request_at s i)"
  shows "i < length (ex_requests t) \<and> rq_done (request_at t i) \<and> rq_id (request_at t i) = rq_id (request_at s i) \<and>
    rq_result (request_at t i) = rq_result (request_at s i) \<and> rq_error (request_at t i) = rq_error (request_at s i)"
  using steps_final [OF assms(1)] assms(2,3) by (auto simp: completion_final_def settled_def)

text \<open>
  C6. A round of the admission loop that asks for another round has shortened what is queued or
  can still be submitted, so \<open>try_admit_one\<close> terminates.
\<close>

theorem admission_rounds_terminate:
  assumes "admit_round tg control s = (Inr (Again control'), t)"
  shows "pending_bound t < pending_bound s"
  using admit_round_shrinks [of tg control s] assms by (simp add: wp_def)

section \<open>Witnesses\<close>

text \<open>A target that plans every request for one token and prefills in stages, and the run of one request on it.\<close>

definition sample_plan :: plan_summary where
  "sample_plan = \<lparr>ps_prompt_tokens = 1, ps_reusable_prompt_tokens = 0, ps_requested_output_tokens = 1,
     ps_effective_output_tokens = 1, ps_effective_limit_reason = OutputLimit, ps_transient_bytes = 0,
     ps_transient_alignment = 1,
     ps_admission = \<lparr>active_lanes = 1, main_kv_pages = 1, backend_kv_pages = 0\<rparr>, ps_service_work_quanta = 2\<rparr>"

definition sample_target :: "(unit, unit, unit, unit) target" where
  "sample_target = \<lparr>tg_plan_request_base = (\<lambda>_. sret ()), tg_plan_request_for_lane = (\<lambda>_ _ _. sret ()),
     tg_summary = (\<lambda>_. sample_plan), tg_can_admit_lane = (\<lambda>_ _ _. True),
     tg_can_admit_lane_after_retained_eviction = (\<lambda>_ _ _. True), tg_has_retained_lane = (\<lambda>_ _. False),
     tg_evict_retained_lane = (\<lambda>_ g. g),
     tg_start_prefill_lane = (\<lambda>_ _ _ _. sret \<lparr>pf_summary = \<lparr>bs_prompt_tokens = 1, bs_reused_prompt_tokens = 1,
        bs_prefix_reuse_path = AppendAtFrontier\<rparr>, pf_tokens = [], pf_processed_prompt_tokens = 0, pf_complete = False\<rparr>),
     tg_advance_prefill_lane = (\<lambda>_. sthrow (logic_error ''no staged prefill'')),
     tg_decode_batch = (\<lambda>_ _. sret \<lparr>br_tokens = [7], br_row_counts = [], br_row_stride = 1\<rparr>),
     tg_resolve_prefill_lane = (\<lambda>_ _. sret ()), tg_resolve_pending_batch = (\<lambda>_ _ _ _. sret ()),
     tg_abort_lane = (\<lambda>_ g. g),
     tg_preview = (\<lambda>_ _ _. sret \<lparr>dc_accepted_tokens = 1, dc_finish_reason = OutputLimit\<rparr>),
     tg_preview_terminal = (\<lambda>_. sret ()), tg_commit_preview = sret [\<lparr>od_channel = Content, od_text = ''x''\<rparr>],
     tg_reasoning_tokens = (\<lambda>_. 0)\<rparr>"

definition sample_start :: "(unit, unit, unit, unit) executor" where
  "sample_start = (case make_executor 1 1 5 \<lparr>active_lanes = 1, main_kv_pages = 4, backend_kv_pages = 0\<rparr>
     (make_request_memory 0 64) () of Inr s \<Rightarrow> s | Inl _ \<Rightarrow> undefined)"

definition sample_queued :: "(unit, unit, unit, unit) executor" where
  "sample_queued = env_exec (SubmitPush () () 6 1) (env_exec (SubmitReserve 0) sample_start)"

definition sample_staged :: "(unit, unit, unit, unit) executor" where
  "sample_staged = (snd (worker_iteration sample_target (sample_queued\<lparr>ex_env := []\<rparr>)))\<lparr>ex_env := []\<rparr>"

definition sample_stopped :: "(unit, unit, unit, unit) executor" where
  "sample_stopped = (snd (worker_iteration sample_target
     ((env_exec StopEngine sample_queued)\<lparr>ex_env := []\<rparr>)))\<lparr>ex_env := []\<rparr>"

lemma sample_total: "output_total sample_target"
  by (simp add: output_total_def sample_target_def no_throw_basic)

lemma sample_queued_facts:
  "length (ex_requests sample_queued) = 1" "ex_worker_running sample_queued" "\<not> idle sample_queued"
  "\<not> rq_done (request_at sample_queued 0)" "ex_pending sample_queued = [0]"
  "ex_submitting sample_queued = []" "ex_releasing sample_queued = 0"
  by code_simp+

lemma sample_stopped_facts:
  "fst (worker_iteration sample_target ((env_exec StopEngine sample_queued)\<lparr>ex_env := []\<rparr>)) = Inr ()"
  "length (ex_requests sample_stopped) = 1" "\<not> ex_worker_running sample_stopped"
  "ex_worker_running (env_exec StopEngine sample_queued)" "\<not> idle (env_exec StopEngine sample_queued)"
  by code_simp+

text \<open>Running the worker on the sample with no other thread acting, by its weakest preconditions.\<close>

lemma wp_interleave: "ex_env s = [] \<Longrightarrow> wp interleave Q E s = Q () s"
  by (simp add: wp_def interleave_def)

lemma wp_erase:
  "wp (erase_pending i) Q E s = wp interleave (\<lambda>_ s. if i \<in> set (ex_pending s)
     then Q True (s\<lparr>ex_pending := remove1 i (ex_pending s)\<rparr>) else Q False s) E s"
  by (auto simp: erase_pending_def atomically_def) (auto simp: wp_def split: prod.splits sum.splits)

lemma wp_on_target:
  "wp (on_target m) Q E s = wp m (\<lambda>x g. Q x (s\<lparr>ex_target := g\<rparr>)) (\<lambda>e g. E e (s\<lparr>ex_target := g\<rparr>)) (ex_target s)"
  by (auto simp: wp_def on_target_def split: prod.splits sum.splits)

lemma wp_loop:
  "wp (try_admit_loop tg c) Q E s = wp (admit_round tg c) (\<lambda>step t. case step of
      Answer p \<Rightarrow> Q p t | Again c' \<Rightarrow> wp (try_admit_loop tg c') Q E t) E s"
  by (subst wp_def, subst try_admit_loop.simps) (simp add: wp_def split: prod.splits sum.splits admit_step.splits)

lemmas run_simps = wp_interleave wp_erase wp_on_target wp_loop
  wp_def [of "activate_memory b a" for b a] wp_def [of build_round_membership] wp_def [of "consume_service_work i w" for i w]
  expire_pending_requests_def pending_snapshot_def atomically_def now_def classify_pending_def load_cancelled_def
  publish_runtime_stats_def request_at_def make_executor_def throw_if_def submit_reserve_def submit_push_def
  make_request_def Let_def worker_iteration_def schedule_unit_def snapshot_cancellations_def lanes_of_def
  cancel_active_requests_def build_round_membership_def try_admit_one_def admit_round_def drop_stale_protection_def
  screen_request_def plan_base_or_remove_def ensure_base_plan_def find_lane_or_remove_def find_admission_lane_def
  scan_lanes_def ensure_lane_plan_def on_request_def admit_planned_request_def release_planning_state_def
  clear_protection_if_head_def install_admitted_def invalidate_lane_plans_def activate_memory_def start_admitted_def
  resolve_prefill_step_def consume_service_work_def set_previous_def update_request_def
  sample_queued_def sample_start_def sample_target_def sample_plan_def

lemma sample_admission:
  "admission_resources_fit \<lparr>active_lanes = 1, main_kv_pages = 1, backend_kv_pages = 0\<rparr>
     \<lparr>active_lanes = 1, main_kv_pages = 4, backend_kv_pages = 0\<rparr>"
  "rm_activate 0 1 (make_request_memory 0 64) = (Inr (), make_request_memory 0 64)"
  "make_generation_budget 1 OutputLimit = Some \<lparr>gb_remaining = 1, gb_limit_reason = OutputLimit\<rparr>"
  by code_simp+

lemma sample_staged_run:
  "wp (worker_iteration sample_target) (\<lambda>_ t. ex_slots t ! 0 = Some 0 \<and> ex_prefill_lane t = Some 0)
     (\<lambda>_ _. False) (sample_queued\<lparr>ex_env := []\<rparr>)"
  by (simp add: run_simps sample_admission)

lemma sample_staged_facts:
  "fst (worker_iteration sample_target (sample_queued\<lparr>ex_env := []\<rparr>)) = Inr ()"
  "ex_slots sample_staged ! 0 = Some 0" "ex_prefill_lane sample_staged = Some 0"
  using sample_staged_run by (auto simp: wp_fst_snd sample_staged_def split: sum.splits)

lemma worker_step:
  "ex_worker_running s \<Longrightarrow> \<not> idle s \<Longrightarrow> fst (worker_iteration tg (s\<lparr>ex_env := []\<rparr>)) = Inr () \<Longrightarrow>
   ex_step tg s ((snd (worker_iteration tg (s\<lparr>ex_env := []\<rparr>)))\<lparr>ex_env := []\<rparr>)"
  by (rule work [where script = "[]"]) (auto simp: prod_eq_iff)

lemma sample_init: "ex_init sample_start"
  unfolding ex_init_def sample_start_def
  by (intro exI [of _ 1] exI [of _ 5] exI [of _ "\<lparr>active_lanes = 1, main_kv_pages = 4, backend_kv_pages = 0\<rparr>"]
      exI [of _ "make_request_memory 0 64"] exI [of _ "()"]) (simp add: make_executor_def throw_if_def)

lemma env_reachable: "reachable ex_init (ex_step tg) s \<Longrightarrow> reachable ex_init (ex_step tg) (env_exec event s)"
  by (erule reachable.extend) (rule other)

lemma sample_queued_reachable: "reachable ex_init (ex_step sample_target) sample_queued"
  unfolding sample_queued_def by (rule env_reachable, rule env_reachable, rule reachable.start, rule sample_init)

lemma sample_staged_reachable: "reachable ex_init (ex_step sample_target) sample_staged"
  unfolding sample_staged_def
  by (intro reachable.extend [OF sample_queued_reachable] worker_step sample_queued_facts sample_staged_facts)

lemma sample_stopped_reachable: "reachable ex_init (ex_step sample_target) sample_stopped"
  unfolding sample_stopped_def
  by (rule reachable.extend [OF env_reachable [OF sample_queued_reachable, of StopEngine]])
    (intro worker_step sample_stopped_facts)





theorem completion_is_final_witness:
  "rq_done (request_at (env_exec (AdvanceClock 9) sample_stopped) 0)"
proof -
  have "rq_done (request_at sample_stopped 0)" by code_simp
  moreover have "(ex_step sample_target)\<^sup>*\<^sup>* sample_stopped (env_exec (AdvanceClock 9) sample_stopped)"
    by (rule r_into_rtranclp) (rule other)
  ultimately show ?thesis using completion_is_final by (simp add: sample_stopped_facts)
qed

theorem admission_rounds_terminate_witness:
  "pending_bound (snd (admit_round sample_target False (env_exec (AdvanceClock 5) sample_queued))) < 1"
proof -
  have "fst (admit_round sample_target False (env_exec (AdvanceClock 5) sample_queued)) = Inr (Again True)"
    and "pending_bound (env_exec (AdvanceClock 5) sample_queued) = 1"
    by code_simp+
  then show ?thesis using admission_rounds_terminate by (metis prod.collapse)
qed

end
