(* ===== verification/Cxx_String.thy ===== *)
theory Cxx_String
  imports Prelude
begin

text \<open>
  The part of the C++ string library the serving code uses, on character lists: classification
  of bytes in the C locale (\<open>std::isspace\<close>, \<open>std::isalnum\<close>), \<open>substr\<close>, and \<open>find\<close> of a needle
  from a position, whose \<open>npos\<close> answer is \<open>None\<close>. Positions are natural numbers: every position
  the code forms is at most the size of a text plus the size of a literal. The lemmas characterise
  \<open>find\<close> as the least match and say how it behaves on concatenations.
\<close>

section \<open>Characters and substrings\<close>

definition isspace :: "char \<Rightarrow> bool" where
  "isspace c = (let n = of_char c :: nat in n = 32 \<or> (9 \<le> n \<and> n \<le> 13))"

definition isalnum :: "char \<Rightarrow> bool" where
  "isalnum c = (let n = of_char c :: nat in
     (48 \<le> n \<and> n \<le> 57) \<or> (65 \<le> n \<and> n \<le> 90) \<or> (97 \<le> n \<and> n \<le> 122))"

definition substr :: "string \<Rightarrow> nat \<Rightarrow> nat \<Rightarrow> string" where
  "substr text pos len = take len (drop pos text)"

definition starts_with :: "string \<Rightarrow> string \<Rightarrow> bool" where
  "starts_with pat text = (take (length pat) text = pat)"

fun find_sub :: "string \<Rightarrow> string \<Rightarrow> nat option" where
  "find_sub pat [] = (if pat = [] then Some 0 else None)"
| "find_sub pat (c # cs) =
     (if starts_with pat (c # cs) then Some 0 else map_option Suc (find_sub pat cs))"

definition find_at :: "string \<Rightarrow> string \<Rightarrow> nat \<Rightarrow> nat option" where
  "find_at text pat pos =
     (if length text < pos then None else map_option (\<lambda>i. pos + i) (find_sub pat (drop pos text)))"

section \<open>Matching and searching\<close>

lemma starts_with_append [simp]: "starts_with pat (pat @ xs)"
  by (simp add: starts_with_def)

lemma starts_with_iff: "starts_with pat str \<longleftrightarrow> (\<exists>rest. str = pat @ rest)"
proof
  assume "starts_with pat str"
  hence "str = pat @ drop (length pat) str"
    by (metis append_take_drop_id starts_with_def)
  thus "\<exists>rest. str = pat @ rest" ..
qed auto

lemma starts_with_length: "starts_with pat str \<Longrightarrow> length pat \<le> length str"
  by (auto simp: starts_with_iff)

lemma starts_with_extend: "starts_with pat str \<Longrightarrow> starts_with pat (str @ more)"
  by (auto simp: starts_with_iff)

lemma starts_with_shrink:
  "starts_with pat (str @ more) \<Longrightarrow> length pat \<le> length str \<Longrightarrow> starts_with pat str"
  by (simp add: starts_with_def)

text \<open>A match that reaches past the end of a text has a tail of the text as a proper prefix.\<close>

lemma starts_with_overlap:
  assumes "starts_with pat (str @ more)" and "length str < length pat"
  shows "str = take (length str) pat"
proof -
  have "take (length str) (take (length pat) (str @ more)) = str"
    using assms(2) by (simp add: min_def)
  thus ?thesis using assms(1) unfolding starts_with_def by metis
qed

text \<open>\<open>find\<close> answers the least position with a match, and \<open>npos\<close> only when there is none.\<close>

lemma find_sub_Some:
  "find_sub pat str = Some i \<longleftrightarrow>
     i \<le> length str \<and> starts_with pat (drop i str)
     \<and> (\<forall>j < i. \<not> starts_with pat (drop j str))"
proof (induction str arbitrary: i)
  case Nil
  show ?case by (auto simp: starts_with_def)
next
  case (Cons c cs)
  show ?case
  proof (cases "starts_with pat (c # cs)")
    case True
    thus ?thesis by (auto intro: gr0I)
  next
    case False
    thus ?thesis
      by (cases i) (auto simp: Cons.IH less_Suc_eq_0_disj)
  qed
qed

lemma find_sub_None:
  "find_sub pat str = None \<longleftrightarrow> (\<forall>i \<le> length str. \<not> starts_with pat (drop i str))"
proof (induction str)
  case Nil
  show ?case by (simp add: starts_with_def)
next
  case (Cons c cs)
  have "(\<forall>i \<le> length (c # cs). \<not> starts_with pat (drop i (c # cs))) \<longleftrightarrow>
        \<not> starts_with pat (c # cs) \<and> (\<forall>i \<le> length cs. \<not> starts_with pat (drop i cs))"
    by (metis Suc_le_mono drop0 drop_Suc_Cons le0 length_Cons not0_implies_Suc)
  thus ?case by (simp add: Cons.IH)
qed

lemma find_at_0 [simp]: "find_at str pat 0 = find_sub pat str"
  by (cases "find_sub pat str") (simp_all add: find_at_def)

lemma find_at_SomeD:
  assumes "find_at str pat pos = Some i"
  shows "pos \<le> i" and "i + length pat \<le> length str" and "starts_with pat (drop i str)"
proof -
  obtain k where k: "find_sub pat (drop pos str) = Some k" and i: "i = pos + k"
    and pos: "pos \<le> length str"
    using assms by (auto simp: find_at_def split: if_splits)
  have s: "starts_with pat (drop i str)" and le: "i \<le> length str"
    using k pos unfolding find_sub_Some by (auto simp: i add.commute)
  show "pos \<le> i" by (simp add: i)
  show "starts_with pat (drop i str)" by (rule s)
  show "i + length pat \<le> length str"
    using starts_with_length [OF s] le by simp
qed

lemma find_at_bounds:
  "find_at str pat pos = Some i \<Longrightarrow> pos \<le> i \<and> i + length pat \<le> length str"
  using find_at_SomeD by blast

text \<open>A needle that occurs nowhere in a text, nor across its end, is found behind the text.\<close>

lemma find_sub_append_Some:
  "find_sub pat str = Some i \<Longrightarrow> find_sub pat (str @ more) = Some i"
  unfolding find_sub_Some
  by (fastforce simp: starts_with_extend dest: starts_with_length
      dest!: starts_with_shrink [where more = more])

lemma find_sub_skip:
  assumes "\<And>j. j < length a \<Longrightarrow> \<not> starts_with pat (drop j (a @ b))"
  shows "find_sub pat (a @ b) = map_option (\<lambda>i. length a + i) (find_sub pat b)"
  using assms
proof (induction a)
  case Nil
  show ?case by (cases "find_sub pat b") simp_all
next
  case (Cons c a)
  have "\<not> starts_with pat (c # a @ b)" using Cons.prems [of 0] by simp
  moreover have "find_sub pat (a @ b) = map_option (\<lambda>i. length a + i) (find_sub pat b)"
    using Cons.prems [of "Suc _"] by (intro Cons.IH) (metis Suc_less_eq append_Cons drop_Suc_Cons length_Cons)
  ultimately show ?case by (cases "find_sub pat b") simp_all
qed

end
