(* ===== verification/Tool_Calls.thy ===== *)
theory Tool_Calls
  imports Cxx_String
begin

text \<open>
  Tool-call recognition of the server (\<open>src/src/serve/tool_call_parser.cpp\<close>): the parsers of the
  two textual tool-call formats, and the filter that publishes a streamed answer while holding
  back what may turn out to be a tool call. The JSON library is the parameter \<open>json_lib\<close>, and the
  64-bit numbers drawn for call identifiers are the parameter \<open>rng\<close>. A parser that returns
  \<open>false\<close> is \<open>None\<close>; \<open>dump\<close> of a JSON value may throw, so the parsers are fallible.
\<close>

section \<open>Data\<close>

record ToolCall =
  tc_id :: string
  tc_name :: string
  tc_arguments_json :: string

record ParsedToolCallOutput =
  po_is_tool_call_response :: bool
  po_content :: string
  po_tool_calls :: "ToolCall list"

text \<open>
  What the code calls of the JSON library: \<open>parse\<close> without exceptions (\<open>None\<close> is the discarded
  value), a string value, the empty object, assignment to a key, and serialisation, which throws
  on text that is not valid UTF-8.
\<close>

record 'j json_lib =
  jl_parse :: "string \<Rightarrow> 'j option"
  jl_string :: "string \<Rightarrow> 'j"
  jl_object :: 'j
  jl_set :: "'j \<Rightarrow> string \<Rightarrow> 'j \<Rightarrow> 'j"
  jl_dump :: "'j \<Rightarrow> string result"

section \<open>Scanning helpers\<close>

text \<open>\<open>while (end > begin && isspace(text[end - 1])) --end;\<close>\<close>

fun space_back :: "string \<Rightarrow> nat \<Rightarrow> nat \<Rightarrow> nat" where
  "space_back text begin_pos 0 = 0"
| "space_back text begin_pos (Suc e) =
     (if begin_pos < Suc e \<and> isspace (text ! e) then space_back text begin_pos e else Suc e)"

function skip_ws :: "string \<Rightarrow> nat \<Rightarrow> nat" where
  "skip_ws text pos = (if pos < length text \<and> isspace (text ! pos) then skip_ws text (pos + 1) else pos)"
  by pat_completeness auto
termination by (relation "measure (\<lambda>(text, pos). length text - pos)") auto

definition trim_ascii :: "string \<Rightarrow> string" where
  "trim_ascii text = (
     let b = skip_ws text 0;
         e = space_back text b (length text)
     in substr text b (e - b))"

definition rtrim_ascii :: "string \<Rightarrow> string" where
  "rtrim_ascii text = substr text 0 (space_back text 0 (length text))"

definition starts_with_at :: "string \<Rightarrow> nat \<Rightarrow> string \<Rightarrow> bool" where
  "starts_with_at text pos pfx = (pos \<le> length text \<and> substr text pos (length pfx) = pfx)"

fun longest_from :: "string \<Rightarrow> string \<Rightarrow> nat \<Rightarrow> nat" where
  "longest_from text marker 0 = 0"
| "longest_from text marker (Suc n) =
     (if drop (length text - Suc n) text = take (Suc n) marker then Suc n
      else longest_from text marker n)"

definition longest_suffix_prefix :: "string \<Rightarrow> string \<Rightarrow> nat" where
  "longest_suffix_prefix text marker =
     longest_from text marker (min (length text) (length marker - 1))"

definition valid_function_name :: "string \<Rightarrow> nat \<Rightarrow> bool" where
  "valid_function_name name max_name_length = (
     if name = [] \<or> max_name_length < length name then False
     else \<forall>c \<in> set name. isalnum c \<or> c = CHR ''_'' \<or> c = CHR ''-'' \<or> c = CHR ''.'')"

text \<open>\<open>snprintf("call_%016llx", value)\<close>.\<close>

definition hex_digit :: "nat \<Rightarrow> char" where
  "hex_digit n = ''0123456789abcdef'' ! n"

definition new_tool_call_id :: "(nat \<Rightarrow> 64 word) \<Rightarrow> nat \<Rightarrow> string" where
  "new_tool_call_id rng k =
     ''call_'' @ map (\<lambda>i. hex_digit (unat (drop_bit (4 * (15 - i)) (rng k) AND 15))) [0..<16]"

section \<open>The angle-bracket format\<close>

definition parse_parameter :: "'j json_lib \<Rightarrow> string \<Rightarrow> nat \<Rightarrow> 'j \<Rightarrow> (nat \<times> 'j) option" where
  "parse_parameter jl inner pos args = (
     if \<not> starts_with_at inner pos ''<parameter='' then None else
     let name_begin = pos + length ''<parameter='' in
     case find_at inner ''>'' name_begin of None \<Rightarrow> None | Some name_end \<Rightarrow>
     if name_end = name_begin then None else
     let key = substr inner name_begin (name_end - name_begin);
         pos = name_end + 1 in
     case find_at inner ''</parameter>'' pos of None \<Rightarrow> None | Some value_end \<Rightarrow>
     let raw_value = trim_ascii (substr inner pos (value_end - pos));
         v = (case jl_parse jl raw_value of None \<Rightarrow> jl_string jl raw_value | Some parsed \<Rightarrow> parsed)
     in Some (value_end + length ''</parameter>'', jl_set jl args key v))"

lemma parse_parameter_progress:
  "parse_parameter jl inner pos args = Some (pos', args') \<Longrightarrow> pos < pos' \<and> pos' \<le> length inner"
  by (auto simp: parse_parameter_def Let_def split: if_splits option.splits
      dest!: find_at_bounds)

text \<open>\<open>for (;;)\<close> over the parameters of one function block.\<close>

lemma skip_ws_mono: "pos \<le> skip_ws str pos"
  by (induction str pos rule: skip_ws.induct) (metis add_leD1 skip_ws.simps order_refl)

declare skip_ws.simps [simp del]

function parameter_loop :: "'j json_lib \<Rightarrow> string \<Rightarrow> nat \<Rightarrow> 'j \<Rightarrow> 'j option" where
  "parameter_loop jl params pos args = (
     let pos = skip_ws params pos in
     if length params \<le> pos then Some args else
     case parse_parameter jl params pos args of None \<Rightarrow> None
     | Some (pos', args') \<Rightarrow> parameter_loop jl params pos' args')"
  by pat_completeness auto
termination
proof (relation "measure (\<lambda>(jl, params, pos, args). length params - pos)", goal_cases)
  case 1
  show ?case by simp
next
  case (2 jl params pos args pos1 pq pos' args')
  thus ?case
    using parse_parameter_progress skip_ws_mono [of pos params] by fastforce
qed

declare parameter_loop.simps [simp del]

definition parse_one_tool_call ::
  "'j json_lib \<Rightarrow> (nat \<Rightarrow> 64 word) \<Rightarrow> nat \<Rightarrow> string \<Rightarrow> nat \<Rightarrow> ToolCall option result" where
  "parse_one_tool_call jl rng k block max_name_length = (
     let pos = skip_ws block 0 in
     if \<not> starts_with_at block pos ''<function='' then Inr None else
     let name_begin = pos + length ''<function='' in
     case find_at block ''>'' name_begin of None \<Rightarrow> Inr None | Some name_end \<Rightarrow>
     if name_end = name_begin then Inr None else
     let name = substr block name_begin (name_end - name_begin) in
     if \<not> valid_function_name name max_name_length then Inr None else
     let pos = name_end + 1 in
     case find_at block ''</function>'' pos of None \<Rightarrow> Inr None | Some function_end \<Rightarrow>
     let params = substr block pos (function_end - pos) in
     case parameter_loop jl params 0 (jl_object jl) of None \<Rightarrow> Inr None | Some args \<Rightarrow>
     let pos = skip_ws block (function_end + length ''</function>'') in
     if pos \<noteq> length block then Inr None else
     rbind (jl_dump jl args) (\<lambda>arguments.
     Inr (Some \<lparr>tc_id = new_tool_call_id rng k, tc_name = name, tc_arguments_json = arguments\<rparr>)))"

definition fallback :: "string \<Rightarrow> ParsedToolCallOutput" where
  "fallback text = \<lparr>po_is_tool_call_response = False, po_content = text, po_tool_calls = []\<rparr>"

text \<open>
  The \<open>while\<close> loop over the calls: \<open>None\<close> is the early return of \<open>fallback(text)\<close>, the list the
  accumulated \<open>out.tool_calls\<close>.
\<close>

function qwen_loop ::
  "'j json_lib \<Rightarrow> (nat \<Rightarrow> 64 word) \<Rightarrow> string \<Rightarrow> nat \<Rightarrow> nat \<Rightarrow> ToolCall list
   \<Rightarrow> ToolCall list option result" where
  "qwen_loop jl rng text max_len pos calls = (
     if length text \<le> pos then Inr (Some calls) else
     let pos = skip_ws text pos in
     if length text \<le> pos then Inr (Some calls) else
     if \<not> starts_with_at text pos ''<tool_call>'' then Inr None else
     let inner_begin = pos + length ''<tool_call>'' in
     case find_at text ''</tool_call>'' inner_begin of None \<Rightarrow> Inr None | Some close \<Rightarrow>
     case parse_one_tool_call jl rng (length calls)
            (substr text inner_begin (close - inner_begin)) max_len of
       Inl e \<Rightarrow> Inl e
     | Inr None \<Rightarrow> Inr None
     | Inr (Some call) \<Rightarrow>
         qwen_loop jl rng text max_len (close + length ''</tool_call>'') (calls @ [call]))"
  by pat_completeness auto
termination
proof (relation "measure (\<lambda>(jl, rng, text, max_len, pos, calls). length text - pos)", goal_cases)
  case 1
  show ?case by simp
next
  case (2 jl rng str max_len pos calls pos1 inner_begin close r call)
  have "pos \<le> close" using 2 find_at_SomeD(1) skip_ws_mono [of pos str] by fastforce
  thus ?case using 2 find_at_SomeD(2) [of str "''</tool_call>''" inner_begin close] by simp
qed

declare qwen_loop.simps [simp del]

definition parse_qwen_format ::
  "'j json_lib \<Rightarrow> (nat \<Rightarrow> 64 word) \<Rightarrow> string \<Rightarrow> nat \<Rightarrow> ParsedToolCallOutput result" where
  "parse_qwen_format jl rng text max_tool_name_length = (
     case find_at text ''<tool_call>'' 0 of None \<Rightarrow> Inr (fallback text) | Some first \<Rightarrow>
     rbind (qwen_loop jl rng text max_tool_name_length first []) (\<lambda>r.
     case r of None \<Rightarrow> Inr (fallback text) | Some calls \<Rightarrow>
     if calls = [] then Inr (fallback text) else
     Inr \<lparr>po_is_tool_call_response = True, po_content = rtrim_ascii (substr text 0 first),
          po_tool_calls = calls\<rparr>))"

section \<open>The atem format\<close>

definition parse_atem_parameter :: "'j json_lib \<Rightarrow> string \<Rightarrow> nat \<Rightarrow> 'j \<Rightarrow> (nat \<times> 'j) option" where
  "parse_atem_parameter jl block pos args = (
     if \<not> starts_with_at block pos ''<atem:parameter name=\"'' then None else
     let name_begin = pos + length ''<atem:parameter name=\"'' in
     case find_at block ''\">'' name_begin of None \<Rightarrow> None | Some name_end \<Rightarrow>
     if name_end = name_begin then None else
     let key = substr block name_begin (name_end - name_begin);
         pos = name_end + length ''\">'' in
     case find_at block ''</atem:parameter>'' pos of None \<Rightarrow> None | Some value_end \<Rightarrow>
     let raw_value = substr block pos (value_end - pos);
         v = (case jl_parse jl raw_value of None \<Rightarrow> jl_string jl raw_value | Some parsed \<Rightarrow> parsed)
     in Some (value_end + length ''</atem:parameter>'', jl_set jl args key v))"

lemma parse_atem_parameter_progress:
  "parse_atem_parameter jl block pos args = Some (pos', args') \<Longrightarrow>
   pos < pos' \<and> pos' \<le> length block"
  by (auto simp: parse_atem_parameter_def Let_def split: if_splits option.splits
      dest!: find_at_bounds)

text \<open>\<open>for (;;)\<close> over the parameters of one invocation; it ends on \<open></atem:invoke>\<close>.\<close>

function atem_parameter_loop ::
  "'j json_lib \<Rightarrow> string \<Rightarrow> nat \<Rightarrow> 'j \<Rightarrow> (nat \<times> 'j) option" where
  "atem_parameter_loop jl block pos args = (
     let pos = skip_ws block pos in
     if starts_with_at block pos ''</atem:invoke>'' then Some (pos, args) else
     case parse_atem_parameter jl block pos args of None \<Rightarrow> None
     | Some (pos', args') \<Rightarrow> atem_parameter_loop jl block pos' args')"
  by pat_completeness auto
termination
proof (relation "measure (\<lambda>(jl, block, pos, args). length block - pos)", goal_cases)
  case 1
  show ?case by simp
next
  case (2 jl block pos args pos1 pq pos' args')
  thus ?case
    using parse_atem_parameter_progress skip_ws_mono [of pos block] by fastforce
qed

declare atem_parameter_loop.simps [simp del]

lemma atem_parameter_loop_bounds:
  "atem_parameter_loop jl block pos args = Some (pos', args') \<Longrightarrow>
   pos \<le> pos' \<and> pos' \<le> length block"
proof (induction jl block pos args arbitrary: pos' args' rule: atem_parameter_loop.induct)
  case (1 jl block pos args)
  have mono: "pos \<le> skip_ws block pos" by (rule skip_ws_mono)
  show ?case
  proof (cases "starts_with_at block (skip_ws block pos) ''</atem:invoke>''")
    case True
    thus ?thesis
      using 1(2) mono by (auto simp: atem_parameter_loop.simps [of jl block pos] starts_with_at_def)
  next
    case False
    then obtain q a where p: "parse_atem_parameter jl block (skip_ws block pos) args = Some (q, a)"
      and rec: "atem_parameter_loop jl block q a = Some (pos', args')"
      using 1(2) by (auto simp: atem_parameter_loop.simps [of jl block pos] Let_def
          split: option.splits)
    have "q \<le> pos' \<and> pos' \<le> length block"
      using 1(1) [OF refl False p refl rec] .
    thus ?thesis using parse_atem_parameter_progress [OF p] mono by linarith
  qed
qed

definition parse_atem_invoke ::
  "'j json_lib \<Rightarrow> (nat \<Rightarrow> 64 word) \<Rightarrow> nat \<Rightarrow> string \<Rightarrow> nat \<Rightarrow> nat
   \<Rightarrow> (nat \<times> ToolCall) option result" where
  "parse_atem_invoke jl rng k block pos max_name_length = (
     if \<not> starts_with_at block pos ''<atem:invoke name=\"'' then Inr None else
     let name_begin = pos + length ''<atem:invoke name=\"'' in
     case find_at block ''\">'' name_begin of None \<Rightarrow> Inr None | Some name_end \<Rightarrow>
     if name_end = name_begin then Inr None else
     let name = substr block name_begin (name_end - name_begin) in
     if \<not> valid_function_name name max_name_length then Inr None else
     case atem_parameter_loop jl block (name_end + length ''\">'') (jl_object jl) of
       None \<Rightarrow> Inr None
     | Some (pos, args) \<Rightarrow>
         rbind (jl_dump jl args) (\<lambda>arguments.
         Inr (Some (pos + length ''</atem:invoke>'',
                    \<lparr>tc_id = new_tool_call_id rng k, tc_name = name,
                     tc_arguments_json = arguments\<rparr>))))"

lemma parse_atem_invoke_progress:
  "parse_atem_invoke jl rng k block pos n = Inr (Some (pos', call)) \<Longrightarrow> pos < pos' \<and> pos < length block"
  by (auto simp: parse_atem_invoke_def Let_def result_simps split: if_splits option.splits
      dest!: find_at_bounds atem_parameter_loop_bounds)

text \<open>The inner \<open>for (;;)\<close> over the invocations of one block; it ends on the closing tag.\<close>

function atem_invoke_loop ::
  "'j json_lib \<Rightarrow> (nat \<Rightarrow> 64 word) \<Rightarrow> string \<Rightarrow> nat \<Rightarrow> nat \<Rightarrow> ToolCall list
   \<Rightarrow> (nat \<times> ToolCall list) option result" where
  "atem_invoke_loop jl rng text max_len pos calls = (
     let pos = skip_ws text pos in
     if starts_with_at text pos ''</atem:function_calls>'' then Inr (Some (pos, calls)) else
     case parse_atem_invoke jl rng (length calls) text pos max_len of
       Inl e \<Rightarrow> Inl e
     | Inr None \<Rightarrow> Inr None
     | Inr (Some (pos', call)) \<Rightarrow> atem_invoke_loop jl rng text max_len pos' (calls @ [call]))"
  by pat_completeness auto
termination
proof (relation "measure (\<lambda>(jl, rng, text, max_len, pos, calls). length text - pos)", goal_cases)
  case 1
  show ?case by simp
next
  case (2 jl rng str max_len pos calls pos1 r pq pos' call)
  thus ?case
    using parse_atem_invoke_progress skip_ws_mono [of pos str] by fastforce
qed

declare atem_invoke_loop.simps [simp del]

lemma atem_invoke_loop_bounds:
  "atem_invoke_loop jl rng str max_len pos calls = Inr (Some (pos', calls')) \<Longrightarrow>
   pos \<le> pos' \<and> pos' + length ''</atem:function_calls>'' \<le> length str"
proof (induction jl rng str max_len pos calls arbitrary: pos' calls' rule: atem_invoke_loop.induct)
  case (1 jl rng str max_len pos calls)
  have mono: "pos \<le> skip_ws str pos" by (rule skip_ws_mono)
  show ?case
  proof (cases "starts_with_at str (skip_ws str pos) ''</atem:function_calls>''")
    case True
    have "length ''</atem:function_calls>'' \<le> length str - skip_ws str pos"
      using True unfolding starts_with_at_def substr_def by (metis length_drop length_take min.cobounded1)
    thus ?thesis
      using 1(2) mono True by (auto simp: atem_invoke_loop.simps [of jl rng str] starts_with_at_def)
  next
    case False
    then obtain q c where p: "parse_atem_invoke jl rng (length calls) str (skip_ws str pos) max_len
        = Inr (Some (q, c))"
      and rec: "atem_invoke_loop jl rng str max_len q (calls @ [c]) = Inr (Some (pos', calls'))"
      using 1(2) by (auto simp: atem_invoke_loop.simps [of jl rng str max_len pos] Let_def
          split: option.splits sum.splits)
    have "q \<le> pos' \<and> pos' + length ''</atem:function_calls>'' \<le> length str"
      using 1(1) [OF refl False p refl refl rec] .
    thus ?thesis using parse_atem_invoke_progress [OF p] mono by linarith
  qed
qed

text \<open>The outer \<open>while\<close> over the blocks; a block without an invocation falls back.\<close>

function atem_loop ::
  "'j json_lib \<Rightarrow> (nat \<Rightarrow> 64 word) \<Rightarrow> string \<Rightarrow> nat \<Rightarrow> nat \<Rightarrow> ToolCall list
   \<Rightarrow> ToolCall list option result" where
  "atem_loop jl rng text max_len pos calls = (
     if length text \<le> pos then Inr (Some calls) else
     let pos = skip_ws text pos in
     if length text \<le> pos then Inr (Some calls) else
     if \<not> starts_with_at text pos ''<atem:function_calls>'' then Inr None else
     case atem_invoke_loop jl rng text max_len (pos + length ''<atem:function_calls>'') calls of
       Inl e \<Rightarrow> Inl e
     | Inr None \<Rightarrow> Inr None
     | Inr (Some (pos', calls')) \<Rightarrow>
         if length calls' = length calls then Inr None
         else atem_loop jl rng text max_len (pos' + length ''</atem:function_calls>'') calls')"
  by pat_completeness auto
termination
proof (relation "measure (\<lambda>(jl, rng, text, max_len, pos, calls). length text - pos)", goal_cases)
  case 1
  show ?case by simp
next
  case (2 jl rng str max_len pos calls pos1 r pq pos' calls')
  have "pos1 \<le> pos'" and "pos' + length ''</atem:function_calls>'' \<le> length str"
    using 2 atem_invoke_loop_bounds [of jl rng str max_len
        "pos1 + length ''<atem:function_calls>''" calls pos' calls'] by auto
  moreover have "pos \<le> pos1" using 2 skip_ws_mono by simp
  ultimately show ?case by simp
qed

declare atem_loop.simps [simp del]

definition parse_atem_format ::
  "'j json_lib \<Rightarrow> (nat \<Rightarrow> 64 word) \<Rightarrow> string \<Rightarrow> nat \<Rightarrow> ParsedToolCallOutput result" where
  "parse_atem_format jl rng text max_tool_name_length = (
     case find_at text ''<atem:function_calls>'' 0 of None \<Rightarrow> Inr (fallback text) | Some first \<Rightarrow>
     rbind (atem_loop jl rng text max_tool_name_length first []) (\<lambda>r.
     case r of None \<Rightarrow> Inr (fallback text) | Some calls \<Rightarrow>
     if calls = [] then Inr (fallback text) else
     Inr \<lparr>po_is_tool_call_response = True, po_content = rtrim_ascii (substr text 0 first),
          po_tool_calls = calls\<rparr>))"

definition parse_tool_call_output ::
  "'j json_lib \<Rightarrow> (nat \<Rightarrow> 64 word) \<Rightarrow> string \<Rightarrow> nat \<Rightarrow> ParsedToolCallOutput result" where
  "parse_tool_call_output jl rng text max_tool_name_length = (
     let qwen = find_at text ''<tool_call>'' 0;
         atem = find_at text ''<atem:function_calls>'' 0 in
     if atem \<noteq> None \<and> (qwen = None \<or> the atem < the qwen)
     then parse_atem_format jl rng text max_tool_name_length
     else if qwen \<noteq> None then parse_qwen_format jl rng text max_tool_name_length
     else Inr (fallback text))"

section \<open>The streaming filter\<close>

record ToolCallStreamFilter =
  sf_pending :: string
  sf_tool_region :: string
  sf_emitted_bytes :: nat
  sf_saw_tool_marker :: bool
  sf_finished :: bool

definition new_filter :: ToolCallStreamFilter where
  "new_filter = \<lparr>sf_pending = [], sf_tool_region = [], sf_emitted_bytes = 0,
     sf_saw_tool_marker = False, sf_finished = False\<rparr>"

definition kToolOpen :: "string list" where
  "kToolOpen = [''<tool_call>'', ''<atem:function_calls>'']"

text \<open>\<open>std::min\<close> on positions, with \<open>npos\<close> the largest.\<close>

fun min_pos :: "nat option \<Rightarrow> nat option \<Rightarrow> nat option" where
  "min_pos None q = q"
| "min_pos p None = p"
| "min_pos (Some a) (Some b) = Some (min a b)"

definition first_marker :: "string \<Rightarrow> nat option" where
  "first_marker text = fold (\<lambda>candidate m. min_pos m (find_at text candidate 0)) kToolOpen None"

definition held_prefix :: "string \<Rightarrow> nat" where
  "held_prefix text = fold (\<lambda>candidate n. max n (longest_suffix_prefix text candidate)) kToolOpen 0"

definition filter_feed :: "string \<Rightarrow> (ToolCallStreamFilter, string) prog" where
  "filter_feed text f = (
     if sf_finished f
     then (Inl (logic_error ''tool-call stream filter is already finished''), f)
     else if text = [] then (Inr [], f)
     else if sf_saw_tool_marker f
     then (Inr [], f\<lparr>sf_tool_region := sf_tool_region f @ text\<rparr>)
     else
       let pending = sf_pending f @ text in
       case first_marker pending of
         Some marker \<Rightarrow>
           let safe_end = space_back pending 0 marker;
               visible = substr pending 0 safe_end
           in (Inr visible,
               f\<lparr>sf_pending := [], sf_tool_region := drop safe_end pending,
                 sf_saw_tool_marker := True,
                 sf_emitted_bytes := sf_emitted_bytes f + length visible\<rparr>)
       | None \<Rightarrow>
           let safe_end = space_back pending 0 (length pending - held_prefix pending);
               visible = substr pending 0 safe_end
           in (Inr visible,
               f\<lparr>sf_pending := drop safe_end pending,
                 sf_emitted_bytes := sf_emitted_bytes f + length visible\<rparr>))"

definition filter_finish :: "bool \<Rightarrow> (ToolCallStreamFilter, string) prog" where
  "filter_finish is_tool_call_response f = (
     if sf_finished f
     then (Inl (logic_error ''tool-call stream filter is already finished''), f)
     else if is_tool_call_response
     then (Inr [], f\<lparr>sf_finished := True, sf_pending := [], sf_tool_region := []\<rparr>)
     else
       let tail = sf_pending f @ sf_tool_region f in
       (Inr tail, f\<lparr>sf_finished := True, sf_pending := [], sf_tool_region := [],
                    sf_emitted_bytes := sf_emitted_bytes f + length tail\<rparr>))"

text \<open>
  A stream as the generation service drives it: every delta through \<open>feed\<close>, then \<open>finish\<close>; the
  answer is the text published.
\<close>

definition stream_through :: "string list \<Rightarrow> bool \<Rightarrow> (ToolCallStreamFilter, string) prog" where
  "stream_through deltas is_tool_call_response =
     sbind (smap filter_feed deltas) (\<lambda>visible.
     sbind (filter_finish is_tool_call_response) (\<lambda>tail.
     sret (concat visible @ tail)))"

end
