(* ===== verification/Tool_Stream.thy ===== *)
theory Tool_Stream
  imports Tool_Calls
begin

text \<open>
  Correctness of the tool-call filter and parsers of \<open>Tool_Calls\<close>. A streamed answer, however it
  is cut into deltas, publishes exactly the content the parser of the whole text returns: the text
  itself when it is no tool call, and the text before the first marker, right-trimmed, when it is.
  The argument is an invariant of the filter: what was published ends in no white space, contains
  the start of no marker whatever text follows, and together with what is held back is the input.
\<close>

section \<open>Trimming\<close>

definition rtrim :: "string \<Rightarrow> string" where
  "rtrim xs = rev (dropWhile isspace (rev xs))"

lemma space_back_le: "space_back str b e \<le> e"
  by (induction str b e rule: space_back.induct) auto

lemma take_space_back:
  "e \<le> length str \<Longrightarrow> take (space_back str 0 e) str = rtrim (take e str)"
  by (induction e) (auto simp: rtrim_def take_Suc_conv_app_nth Suc_le_eq)

lemma rtrim_ascii_eq: "rtrim_ascii str = rtrim str"
  using take_space_back [of "length str" str] by (simp add: rtrim_ascii_def substr_def)

definition tight :: "string \<Rightarrow> bool" where
  "tight e = (e = [] \<or> \<not> isspace (last e))"

lemma tight_rtrim [simp]: "tight (rtrim xs)"
  unfolding tight_def rtrim_def using hd_dropWhile [of isspace "rev xs"]
  by (metis last_rev rev.simps(1))

lemma rtrim_append: "tight e \<Longrightarrow> rtrim (e @ xs) = e @ rtrim xs"
proof -
  assume "tight e"
  hence "dropWhile isspace (rev e) = rev e"
    by (cases "rev e") (auto simp: tight_def last_rev [symmetric] hd_rev dest: arg_cong [of _ _ hd])
  thus ?thesis
    unfolding rtrim_def by (simp add: dropWhile_append)
qed

lemma tight_append: "tight e \<Longrightarrow> tight v \<Longrightarrow> tight (e @ v)"
  by (auto simp: tight_def last_append)

section \<open>Markers\<close>

lemma longest_from_ge:
  "n \<le> b \<Longrightarrow> drop (length str - n) str = take n marker \<Longrightarrow> n \<le> longest_from str marker b"
  by (induction b) (auto simp: le_Suc_eq)

text \<open>Any tail of a text that is a proper prefix of a marker is held back.\<close>

lemma held_prefix_ge:
  assumes "marker \<in> set kToolOpen" and "n \<le> length str" and "n < length marker"
    and "drop (length str - n) str = take n marker"
  shows "n \<le> held_prefix str"
proof -
  have "n \<le> longest_suffix_prefix str marker"
    unfolding longest_suffix_prefix_def using assms by (intro longest_from_ge) auto
  thus ?thesis
    using assms(1) by (auto simp: held_prefix_def kToolOpen_def le_max_iff_disj)
qed

lemma first_marker_alt:
  "first_marker str = min_pos (find_sub ''<tool_call>'' str) (find_sub ''<atem:function_calls>'' str)"
  by (simp add: first_marker_def kToolOpen_def)

lemma first_marker_None:
  "first_marker str = None \<longleftrightarrow> (\<forall>m \<in> set kToolOpen. \<forall>i. \<not> starts_with m (drop i str))"
proof -
  have all: "find_sub m str = None \<longleftrightarrow> (\<forall>i. \<not> starts_with m (drop i str))" if "m \<noteq> []" for m
  proof -
    have "\<not> starts_with m (drop i str)" if "length str < i" for i
      using that \<open>m \<noteq> []\<close> by (auto dest: starts_with_length)
    thus ?thesis unfolding find_sub_None by (metis linorder_not_less)
  qed
  have "first_marker str = None \<longleftrightarrow> find_sub ''<tool_call>'' str = None
      \<and> find_sub ''<atem:function_calls>'' str = None"
    unfolding first_marker_alt by (rule min_pos.induct [of "\<lambda>p q. (min_pos p q = None) = (p = None \<and> q = None)"]) auto
  thus ?thesis
    by (simp add: all kToolOpen_def)
qed

text \<open>Text that no marker can start in, whatever follows, does not move the first marker.\<close>

definition sealed :: "string \<Rightarrow> string \<Rightarrow> bool" where
  "sealed e p = (\<forall>j < length e. \<forall>rest. \<forall>m \<in> set kToolOpen. \<not> starts_with m (drop j (e @ p @ rest)))"

lemma first_marker_sealed:
  assumes "sealed e p"
  shows "first_marker (e @ p @ rest) = map_option (\<lambda>i. length e + i) (first_marker (p @ rest))"
proof -
  have "find_sub m (e @ p @ rest) = map_option (\<lambda>i. length e + i) (find_sub m (p @ rest))"
    if "m \<in> set kToolOpen" for m
    using assms that unfolding sealed_def by (intro find_sub_skip) simp
  hence "first_marker (e @ p @ rest) =
      min_pos (map_option (\<lambda>i. length e + i) (find_sub ''<tool_call>'' (p @ rest)))
        (map_option (\<lambda>i. length e + i) (find_sub ''<atem:function_calls>'' (p @ rest)))"
    unfolding first_marker_alt by (simp add: kToolOpen_def)
  also have "\<dots> = map_option (\<lambda>i. length e + i) (first_marker (p @ rest))"
    unfolding first_marker_alt
    by (cases "find_sub ''<tool_call>'' (p @ rest)"; cases "find_sub ''<atem:function_calls>'' (p @ rest)")
      simp_all
  finally show ?thesis .
qed

lemma sealed_extend: "sealed e p \<Longrightarrow> sealed e (p @ x)"
  by (simp add: sealed_def)


text \<open>
  The first marker of a text is the first marker of every extension: a marker starts with the
  only \<open><\<close> it contains, so a later match cannot begin before an earlier one and reach over it.
\<close>

lemma marker_shape:
  "m \<in> set kToolOpen \<Longrightarrow> m \<noteq> [] \<and> m ! 0 = CHR ''<'' \<and> (\<forall>i. 0 < i \<and> i < length m \<longrightarrow> m ! i \<noteq> CHR ''<'')"
  by (auto simp: kToolOpen_def nth_Cons split: nat.splits)

lemma no_marker_over:
  assumes m: "m \<in> set kToolOpen" "m' \<in> set kToolOpen"
    and i: "starts_with m (drop i str)" and j: "starts_with m' (drop j (str @ rest))"
    and new: "\<not> starts_with m' (drop j str)" and less: "j < i"
  shows False
proof -
  have shape: "m ! 0 = CHR ''<''" "m \<noteq> []" "m' ! k = CHR ''<'' \<Longrightarrow> k < length m' \<Longrightarrow> k = 0" for k
    using marker_shape [OF m(1)] marker_shape [OF m(2)] by auto
  have i_lt: "i < length str"
    using starts_with_length [OF i] shape(2) by (cases "i < length str") auto
  hence "drop j (str @ rest) = drop j str @ rest" using less by simp
  with j new have "length (drop j str) < length m'"
    using starts_with_shrink linorder_not_less by metis
  hence k: "i - j < length m'" using i_lt by simp
  obtain r where r: "drop i str = m @ r" using i starts_with_iff by auto
  obtain r' where r': "drop j (str @ rest) = m' @ r'" using j starts_with_iff by auto
  have "m' ! (i - j) = drop j (str @ rest) ! (i - j)" using k r' by (simp add: nth_append)
  also have "\<dots> = drop i str ! 0"
    using i_lt less by (simp add: nth_append diff_less_mono)
  also have "\<dots> = CHR ''<''" using r shape(1,2) by (simp add: nth_append)
  finally show False using shape(3) [OF _ k] less by simp
qed

lemma find_sub_later:
  assumes "m \<in> set kToolOpen" "m' \<in> set kToolOpen" and "find_sub m str = Some i"
    and "find_sub m' str = None" and "find_sub m' (str @ rest) = Some j"
  shows "i \<le> j"
proof (rule ccontr)
  assume "\<not> i \<le> j"
  moreover have "\<not> starts_with m' (drop j str)"
    using assms(4,5) \<open>\<not> i \<le> j\<close> assms(3) unfolding find_sub_None find_sub_Some by simp
  ultimately show False
    using no_marker_over [OF assms(1,2), of i str j rest] assms(3,5) unfolding find_sub_Some by simp
qed

lemma first_marker_append:
  assumes "first_marker str = Some i"
  shows "first_marker (str @ rest) = Some i"
proof -
  let ?q = "''<tool_call>''" and ?a = "''<atem:function_calls>''"
  note later = find_sub_later [of ?q ?a str _ rest] find_sub_later [of ?a ?q str _ rest]
  note keep = find_sub_append_Some [of ?q str _ rest] find_sub_append_Some [of ?a str _ rest]
  have mem: "?q \<in> set kToolOpen" "?a \<in> set kToolOpen" by (simp_all add: kToolOpen_def)
  show ?thesis
  proof (cases "find_sub ?q str")
    case None
    with assms have a: "find_sub ?a str = Some i" by (simp add: first_marker_alt)
    show ?thesis
      using keep(2) [OF a] later(2) [OF mem(2,1) a None]
      by (cases "find_sub ?q (str @ rest)") (auto simp: first_marker_alt)
  next
    case (Some k)
    show ?thesis
    proof (cases "find_sub ?a str")
      case None
      with assms Some have "k = i" by (simp add: first_marker_alt)
      thus ?thesis
        using keep(1) [OF Some] later(1) [OF mem Some None]
        by (cases "find_sub ?a (str @ rest)") (auto simp: first_marker_alt)
    next
      case b: (Some l)
      show ?thesis using keep(1) [OF Some] keep(2) [OF b] assms Some b by (simp add: first_marker_alt)
    qed
  qed
qed

lemma first_marker_le: "first_marker str = Some i \<Longrightarrow> i \<le> length str"
  unfolding first_marker_alt
  by (cases "find_sub ''<tool_call>'' str"; cases "find_sub ''<atem:function_calls>'' str")
    (auto simp: find_sub_Some)

section \<open>The invariant of a running filter\<close>

definition stream_inv :: "string \<Rightarrow> string \<Rightarrow> ToolCallStreamFilter \<Rightarrow> bool" where
  "stream_inv t e f = (
     \<not> sf_finished f \<and> sf_emitted_bytes f = length e \<and>
     (if sf_saw_tool_marker f
      then sf_pending f = [] \<and> e @ sf_tool_region f = t
        \<and> (\<exists>i. first_marker t = Some i \<and> e = rtrim (take i t))
      else sf_tool_region f = [] \<and> e @ sf_pending f = t \<and> tight e \<and> sealed e (sf_pending f)
        \<and> first_marker t = None))"

lemma stream_inv_new: "stream_inv [] [] new_filter"
  by (simp add: stream_inv_def new_filter_def tight_def sealed_def first_marker_alt)

lemma sealed_advance:
  assumes "sealed e p" and none: "first_marker p = None"
    and n: "n \<le> length p - held_prefix p"
  shows "sealed (e @ take n p) (drop n p)"
  unfolding sealed_def
proof (intro allI impI ballI)
  fix j rest m
  assume j: "j < length (e @ take n p)" and m: "m \<in> set kToolOpen"
  have split: "(e @ take n p) @ drop n p @ rest = e @ p @ rest" by simp
  show "\<not> starts_with m (drop j ((e @ take n p) @ drop n p @ rest))"
  proof (cases "j < length e")
    case True
    thus ?thesis using assms(1) m unfolding split sealed_def by simp
  next
    case False
    define k where "k = j - length e"
    have k: "k < n" "k < length p" using False j by (auto simp: k_def)
    have "\<not> starts_with m (drop k p @ rest)"
    proof
      assume s: "starts_with m (drop k p @ rest)"
      have "\<not> starts_with m (drop k p)" using none m unfolding first_marker_None by blast
      hence short: "length (drop k p) < length m" using s starts_with_shrink linorder_not_less by metis
      hence "drop k p = take (length p - k) m" using starts_with_overlap [OF s] by simp
      hence "length p - k \<le> held_prefix p"
        using held_prefix_ge [OF m, of "length p - k" p] short k(2) by simp
      thus False using n k by simp
    qed
    thus ?thesis using False k unfolding split by (simp add: k_def)
  qed
qed

lemma filter_feed_inv:
  assumes inv: "stream_inv t e f"
  shows "\<exists>v f'. filter_feed x f = (Inr v, f') \<and> stream_inv (t @ x) (e @ v) f'"
proof (cases "x = [] \<or> sf_saw_tool_marker f")
  case True
  have "first_marker t = Some i \<Longrightarrow> take i (t @ x) = take i t" for i
    using first_marker_le by fastforce
  thus ?thesis
    using True inv first_marker_append [of t _ x]
    by (auto simp: filter_feed_def stream_inv_def)
next
  case False
  let ?p = "sf_pending f @ x"
  have opn: "\<not> sf_finished f" "e @ ?p = t @ x" "tight e" "sealed e ?p" "sf_tool_region f = []"
    "sf_emitted_bytes f = length e"
    using inv False sealed_extend by (auto simp: stream_inv_def)
  have shift: "first_marker (t @ x) = map_option (\<lambda>i. length e + i) (first_marker ?p)"
    using first_marker_sealed [OF opn(4), of "[]"] opn(2) by simp
  show ?thesis
  proof (cases "first_marker ?p")
    case (Some m)
    let ?v = "take (space_back ?p 0 m) ?p"
    have v: "?v = rtrim (take m ?p)" using first_marker_le [OF Some] by (rule take_space_back)
    have "take (length e + m) (t @ x) = e @ take m ?p" unfolding opn(2) [symmetric] by simp
    hence "e @ ?v = rtrim (take (length e + m) (t @ x))"
      using rtrim_append [OF opn(3)] v by simp
    moreover have "e @ ?v @ drop (space_back ?p 0 m) ?p = t @ x"
      unfolding append_take_drop_id by (rule opn(2))
    ultimately show ?thesis
      using False opn Some shift
      by (auto simp: filter_feed_def stream_inv_def Let_def substr_def)
  next
    case None
    let ?n = "space_back ?p 0 (length ?p - held_prefix ?p)"
    have v: "take ?n ?p = rtrim (take (length ?p - held_prefix ?p) ?p)"
      by (rule take_space_back) simp
    have "tight (e @ take ?n ?p)" unfolding v by (rule tight_append [OF opn(3)]) simp
    moreover have "sealed (e @ take ?n ?p) (drop ?n ?p)"
      by (rule sealed_advance [OF opn(4) None space_back_le])
    moreover have "e @ take ?n ?p @ drop ?n ?p = t @ x"
      unfolding append_take_drop_id by (rule opn(2))
    ultimately show ?thesis
      using False opn None shift
      by (auto simp: filter_feed_def stream_inv_def Let_def substr_def)
  qed
qed


lemma filter_feeds_inv:
  "stream_inv t e f \<Longrightarrow>
   \<exists>vs f'. smap filter_feed ds f = (Inr vs, f') \<and> stream_inv (t @ concat ds) (e @ concat vs) f'"
proof (induction ds arbitrary: t e f)
  case Nil
  thus ?case by simp
next
  case (Cons d ds)
  obtain v f1 where v: "filter_feed d f = (Inr v, f1)" "stream_inv (t @ d) (e @ v) f1"
    using filter_feed_inv [OF Cons.prems] by blast
  obtain vs f2 where "smap filter_feed ds f1 = (Inr vs, f2)"
    "stream_inv ((t @ d) @ concat ds) ((e @ v) @ concat vs) f2"
    using Cons.IH [OF v(2)] by blast
  thus ?case using v(1) by (intro exI [of _ "v # vs"] exI [of _ f2]) (simp add: sbind_def)
qed

text \<open>What a complete stream publishes, and how many bytes the filter counted.\<close>

lemma stream_through_text:
  shows "\<exists>e f. stream_inv (concat ds) e f \<and>
    stream_through ds tool new_filter =
      (Inr (if tool then e else concat ds),
       f\<lparr>sf_finished := True, sf_pending := [], sf_tool_region := [],
         sf_emitted_bytes := length (if tool then e else concat ds)\<rparr>)"
proof -
  obtain vs f where run: "smap filter_feed ds new_filter = (Inr vs, f)"
    and inv: "stream_inv (concat ds) (concat vs) f"
    using filter_feeds_inv [OF stream_inv_new, of ds] by auto
  have "concat vs @ sf_pending f @ sf_tool_region f = concat ds"
    using inv by (auto simp: stream_inv_def split: if_splits)
  moreover from this have "length (concat vs) + length (sf_pending f) + length (sf_tool_region f)
      = length (concat ds)"
    by (metis add.assoc length_append)
  ultimately show ?thesis
    using inv run
    by (intro exI [of _ "concat vs"] exI [of _ f])
      (auto simp: stream_through_def sbind_def filter_finish_def stream_inv_def Let_def
        simp del: length_concat)
qed

section \<open>What the parser answers\<close>

lemma response_cases:
  assumes "(case r of None \<Rightarrow> Inr (fallback str) | Some calls \<Rightarrow>
      if calls = [] then Inr (fallback str)
      else Inr \<lparr>po_is_tool_call_response = True, po_content = rtrim_ascii (substr str 0 i),
        po_tool_calls = calls\<rparr>) = (Inr out :: ParsedToolCallOutput result)"
  shows "out = fallback str \<or> po_is_tool_call_response out \<and> po_content out = rtrim (take i str)
    \<and> po_tool_calls out \<noteq> [] \<and> r = Some (po_tool_calls out)"
proof (cases "r = None \<or> r = Some []")
  case True
  thus ?thesis using assms by auto
next
  case False
  thus ?thesis using assms by (cases r) (auto simp: rtrim_ascii_eq substr_def)
qed

lemma parse_qwen_cases:
  assumes "parse_qwen_format jl rng str n = Inr out" and "find_sub ''<tool_call>'' str = Some i"
  shows "out = fallback str \<or> po_is_tool_call_response out \<and> po_content out = rtrim (take i str)
    \<and> po_tool_calls out \<noteq> [] \<and> qwen_loop jl rng str n i [] = Inr (Some (po_tool_calls out))"
  using assms(1) response_cases
  unfolding parse_qwen_format_def find_at_0 assms(2) option.case rbind_Inr_iff by blast

lemma parse_atem_cases:
  assumes "parse_atem_format jl rng str n = Inr out"
    and "find_sub ''<atem:function_calls>'' str = Some i"
  shows "out = fallback str \<or> po_is_tool_call_response out \<and> po_content out = rtrim (take i str)
    \<and> po_tool_calls out \<noteq> [] \<and> atem_loop jl rng str n i [] = Inr (Some (po_tool_calls out))"
  using assms(1) response_cases
  unfolding parse_atem_format_def find_at_0 assms(2) option.case rbind_Inr_iff by blast

text \<open>Every call a loop adds has a checked name and the next identifier.\<close>

definition calls_ok :: "(nat \<Rightarrow> 64 word) \<Rightarrow> nat \<Rightarrow> ToolCall list \<Rightarrow> bool" where
  "calls_ok rng n calls = (\<forall>i < length calls.
     tc_id (calls ! i) = new_tool_call_id rng i \<and> valid_function_name (tc_name (calls ! i)) n)"

lemma calls_ok_snoc:
  "calls_ok rng n (calls @ [c]) \<longleftrightarrow> calls_ok rng n calls
     \<and> tc_id c = new_tool_call_id rng (length calls) \<and> valid_function_name (tc_name c) n"
  by (auto simp: calls_ok_def nth_append less_Suc_eq)

lemma parse_one_ok:
  "parse_one_tool_call jl rng k block n = Inr (Some c) \<Longrightarrow>
   tc_id c = new_tool_call_id rng k \<and> valid_function_name (tc_name c) n"
  by (auto simp: parse_one_tool_call_def Let_def result_simps split: if_splits option.splits)

lemma parse_atem_ok:
  "parse_atem_invoke jl rng k block pos n = Inr (Some (q, c)) \<Longrightarrow>
   tc_id c = new_tool_call_id rng k \<and> valid_function_name (tc_name c) n"
  by (auto simp: parse_atem_invoke_def Let_def result_simps split: if_splits option.splits)

lemma qwen_loop_ok:
  "qwen_loop jl rng str n pos calls = Inr (Some calls') \<Longrightarrow> calls_ok rng n calls \<Longrightarrow>
   calls_ok rng n calls'"
proof (induction jl rng str n pos calls arbitrary: calls' rule: qwen_loop.induct)
  case (1 jl rng str n pos calls)
  show ?case
    using 1(2,3) by (subst (asm) qwen_loop.simps)
      (auto simp: Let_def calls_ok_snoc parse_one_ok simp del: list.size
        split: if_splits option.splits sum.splits dest!: 1(1) [rotated -2])
qed

lemma atem_invoke_loop_ok:
  "atem_invoke_loop jl rng str n pos calls = Inr (Some (q, calls')) \<Longrightarrow> calls_ok rng n calls \<Longrightarrow>
   calls_ok rng n calls'"
proof (induction jl rng str n pos calls arbitrary: calls' rule: atem_invoke_loop.induct)
  case (1 jl rng str n pos calls)
  show ?case
    using 1(2,3) by (subst (asm) atem_invoke_loop.simps)
      (auto simp: Let_def calls_ok_snoc parse_atem_ok
        split: if_splits option.splits sum.splits dest!: 1(1) [rotated -2])
qed

lemma atem_loop_ok:
  "atem_loop jl rng str n pos calls = Inr (Some calls') \<Longrightarrow> calls_ok rng n calls \<Longrightarrow>
   calls_ok rng n calls'"
proof (induction jl rng str n pos calls arbitrary: calls' rule: atem_loop.induct)
  case (1 jl rng str n pos calls)
  show ?case
    using 1(2,3) by (subst (asm) atem_loop.simps)
      (auto simp: Let_def atem_invoke_loop_ok simp del: list.size
        split: if_splits option.splits sum.splits dest!: 1(1) [rotated -2])
qed

lemma parse_output_cases:
  assumes "parse_tool_call_output jl rng str n = Inr out"
  shows "out = fallback str \<or> (\<exists>i. first_marker str = Some i \<and> po_is_tool_call_response out
    \<and> po_content out = rtrim (take i str) \<and> po_tool_calls out \<noteq> []
    \<and> calls_ok rng n (po_tool_calls out))"
proof -
  let ?q = "find_sub ''<tool_call>'' str" and ?a = "find_sub ''<atem:function_calls>'' str"
  have nil: "calls_ok rng n []" by (simp add: calls_ok_def)
  consider (none) "?q = None" "?a = None"
    | (atem) j where "?a = Some j" "first_marker str = Some j"
        "parse_atem_format jl rng str n = Inr out"
    | (qwen) i where "?q = Some i" "first_marker str = Some i"
        "parse_qwen_format jl rng str n = Inr out"
    using assms
    by (cases ?q; cases ?a)
      (auto simp: parse_tool_call_output_def first_marker_alt min_def split: if_splits)
  thus ?thesis
  proof cases
    case none
    thus ?thesis using assms by (simp add: parse_tool_call_output_def)
  next
    case (atem j)
    thus ?thesis using parse_atem_cases [OF atem(3,1)] atem_loop_ok [OF _ nil] by blast
  next
    case (qwen i)
    thus ?thesis using parse_qwen_cases [OF qwen(3,1)] qwen_loop_ok [OF _ nil] by blast
  qed
qed

section \<open>Properties\<close>

text \<open>
  C32. Filtering loses nothing: whatever the deltas a text is streamed in, when the answer turns
  out not to be a tool call the pieces published by \<open>feed\<close> followed by the tail \<open>finish\<close> flushes
  are the text itself, and neither operation throws.
\<close>

theorem stream_round_trip:
  "fst (stream_through deltas False new_filter) = Inr (concat deltas)"
  using stream_through_text [of deltas False] by auto

text \<open>A small JSON library for concrete runs: every value is text, an object lists its entries.\<close>

definition text_json :: "string json_lib" where
  "text_json = \<lparr>jl_parse = (\<lambda>v. None), jl_string = (\<lambda>v. v), jl_object = [],
     jl_set = (\<lambda>ob k v. ob @ k @ ''='' @ v @ '';''), jl_dump = Inr\<rparr>"

definition sample_deltas :: "string list" where
  "sample_deltas = [''Let me look. <tool'', ''_call> <function=get_day><parameter=zone> u'',
     ''tc </parameter></function></tool_call>'']"

definition sample_output :: ParsedToolCallOutput where
  "sample_output = \<lparr>po_is_tool_call_response = True, po_content = ''Let me look.'',
     po_tool_calls = [\<lparr>tc_id = ''call_000000000000002a'', tc_name = ''get_day'',
       tc_arguments_json = ''zone=utc;''\<rparr>]\<rparr>"

lemma sample_parse:
  "parse_tool_call_output text_json (\<lambda>k. 42) (concat sample_deltas) 64 = Inr sample_output"
  by code_simp

text \<open>
  C33. What the parser answers: it either returns the text verbatim as ordinary content, or a
  tool-call response with at least one call, whose names are non-empty, no longer than the limit
  and made of the accepted characters only, and whose identifiers are drawn in order.
\<close>

theorem parsed_calls_are_valid:
  assumes "parse_tool_call_output jl rng str n = Inr out"
  shows "if po_is_tool_call_response out
    then po_tool_calls out \<noteq> [] \<and> (\<forall>i < length (po_tool_calls out).
      tc_id (po_tool_calls out ! i) = new_tool_call_id rng i
      \<and> valid_function_name (tc_name (po_tool_calls out ! i)) n)
    else po_content out = str \<and> po_tool_calls out = []"
  using parse_output_cases [OF assms] by (auto simp: fallback_def calls_ok_def)

theorem parsed_calls_are_valid_witness:
  "tc_id (po_tool_calls sample_output ! 0) = new_tool_call_id (\<lambda>k. 42) 0
   \<and> valid_function_name (tc_name (po_tool_calls sample_output ! 0)) 64"
  using parsed_calls_are_valid [OF sample_parse] by (simp add: sample_output_def)

end
