(* ===== verification/Service_Output.thy ===== *)
theory Service_Output
  imports Executor Tool_Stream
begin

text \<open>
  How the generation service publishes an answer (\<open>ServiceOutputSink\<close> and the end of
  \<open>GenerationService::run\<close> in \<open>src/src/serve/generation_service.cpp\<close>): every delta the engine
  delivers goes to the reasoning callback or, through the tool-call filter when the request may
  call tools, to the content callback; at the end the whole content is parsed and the filter is
  finished with the parser's verdict. A callback is a function that may throw on a text, absent
  when the client did not register it; the texts passed to it are kept as the observable output.
  The deltas are those the executor of \<open>Executor\<close> appends to a request.
\<close>

section \<open>The sink\<close>

type_synonym callback = "(string \<Rightarrow> exn option) option"

record service_sink =
  ss_on_content :: callback
  ss_on_reasoning :: callback
  ss_filter_tool_calls :: bool
  ss_tool_filter :: ToolCallStreamFilter
  ss_content_bytes :: nat
  ss_sent_content :: "string list"
  ss_sent_reasoning :: "string list"

definition new_sink :: "callback \<Rightarrow> callback \<Rightarrow> bool \<Rightarrow> service_sink" where
  "new_sink on_content on_reasoning filter_tool_calls =
     \<lparr>ss_on_content = on_content, ss_on_reasoning = on_reasoning,
      ss_filter_tool_calls = filter_tool_calls, ss_tool_filter = new_filter, ss_content_bytes = 0,
      ss_sent_content = [], ss_sent_reasoning = []\<rparr>"

definition publish_content :: "string \<Rightarrow> (service_sink, unit) prog" where
  "publish_content text s = (
     case ss_on_content s of None \<Rightarrow> (Inr (), s) | Some callback \<Rightarrow>
     if text = [] then (Inr (), s) else
     let s1 = s\<lparr>ss_sent_content := ss_sent_content s @ [text]\<rparr> in
     case callback text of
       Some e \<Rightarrow> (Inl e, s1)
     | None \<Rightarrow> (Inr (), s1\<lparr>ss_content_bytes := ss_content_bytes s + length text\<rparr>))"

text \<open>An operation of the filter member.\<close>

definition on_filter :: "(ToolCallStreamFilter, 'a) prog \<Rightarrow> (service_sink, 'a) prog" where
  "on_filter op s = (case op (ss_tool_filter s) of (r, f) \<Rightarrow> (r, s\<lparr>ss_tool_filter := f\<rparr>))"

definition sink_publish :: "output_delta \<Rightarrow> (service_sink, unit) prog" where
  "sink_publish delta s = (
     if od_text delta = [] then (Inr (), s)
     else case od_channel delta of
       Reasoning \<Rightarrow>
         (case ss_on_reasoning s of None \<Rightarrow> (Inr (), s) | Some callback \<Rightarrow>
          let s1 = s\<lparr>ss_sent_reasoning := ss_sent_reasoning s @ [od_text delta]\<rparr> in
          case callback (od_text delta) of Some e \<Rightarrow> (Inl e, s1) | None \<Rightarrow> (Inr (), s1))
     | Content \<Rightarrow>
         sbind (if ss_filter_tool_calls s then on_filter (filter_feed (od_text delta))
                else sret (od_text delta)) publish_content s)"

definition sink_finish :: "bool \<Rightarrow> (service_sink, nat) prog" where
  "sink_finish is_tool_call_response s =
     sbind (if ss_filter_tool_calls s
            then sbind (on_filter (filter_finish is_tool_call_response)) publish_content
            else sret ()) (\<lambda>u. gets ss_content_bytes) s"

section \<open>The end of a request\<close>

record generation_outcome =
  oc_text :: string
  oc_tool_calls :: "ToolCall list"
  oc_streamed_content_bytes :: nat

text \<open>
  The last part of \<open>run\<close>, with the content of the engine's result; \<open>sink\<close> tells whether the
  request streams.
\<close>

definition finish_outcome ::
  "'j json_lib \<Rightarrow> (nat \<Rightarrow> 64 word) \<Rightarrow> bool \<Rightarrow> nat \<Rightarrow> bool \<Rightarrow> string
   \<Rightarrow> (service_sink, generation_outcome) prog" where
  "finish_outcome jl rng tool_capable tool_name_max_length streams content =
     sbind (slift (if tool_capable then parse_tool_call_output jl rng content tool_name_max_length
                   else Inr (fallback content))) (\<lambda>parsed.
     let outcome = \<lparr>oc_text = po_content parsed,
           oc_tool_calls = (if po_is_tool_call_response parsed then po_tool_calls parsed else []),
           oc_streamed_content_bytes = 0\<rparr> in
     if streams
     then sbind (sink_finish (po_is_tool_call_response parsed)) (\<lambda>n.
          sret (outcome\<lparr>oc_streamed_content_bytes := n\<rparr>))
     else sret outcome)"

section \<open>What a client has received\<close>

text \<open>
  While deltas arrive, the texts sent so far and the filter are related as in \<open>stream_inv\<close>, or are
  the whole text when nothing is filtered. No callback throws in such a state.
\<close>

definition quiet :: "callback \<Rightarrow> bool" where
  "quiet callback = (\<forall>f. callback = Some f \<longrightarrow> (\<forall>text. f text = None))"

definition sink_inv :: "string \<Rightarrow> service_sink \<Rightarrow> bool" where
  "sink_inv t s = (
     ss_on_content s \<noteq> None \<and> quiet (ss_on_content s) \<and> quiet (ss_on_reasoning s)
     \<and> ss_content_bytes s = length (concat (ss_sent_content s))
     \<and> (if ss_filter_tool_calls s
        then stream_inv t (concat (ss_sent_content s)) (ss_tool_filter s)
        else concat (ss_sent_content s) = t))"

lemma publish_content_quiet:
  assumes "ss_on_content s \<noteq> None" and "quiet (ss_on_content s)"
    and "ss_content_bytes s = length (concat (ss_sent_content s))"
  shows "\<exists>sent. publish_content text s =
      (Inr (), s\<lparr>ss_sent_content := sent, ss_content_bytes := length (concat sent)\<rparr>)
    \<and> concat sent = concat (ss_sent_content s) @ text"
proof (cases "text = []")
  case True
  thus ?thesis using assms by (intro exI [of _ "ss_sent_content s"]) (auto simp: publish_content_def)
next
  case False
  thus ?thesis
    using assms by (intro exI [of _ "ss_sent_content s @ [text]"])
      (auto simp: publish_content_def quiet_def Let_def)
qed

lemma sink_publish_inv:
  assumes inv: "sink_inv t s"
  shows "\<exists>s'. sink_publish d s = (Inr (), s')
    \<and> sink_inv (t @ (if od_channel d = Content then od_text d else [])) s'
    \<and> ss_filter_tool_calls s' = ss_filter_tool_calls s"
proof (cases "od_text d = [] \<or> od_channel d = Reasoning")
  case True
  thus ?thesis
    using inv
    by (cases "od_channel d"; cases "ss_on_reasoning s")
      (auto simp: sink_publish_def sink_inv_def quiet_def Let_def)
next
  case False
  hence d: "od_text d \<noteq> []" "od_channel d = Content"
    by (auto, metis output_channel.exhaust)
  have quiet: "ss_on_content s \<noteq> None" "quiet (ss_on_content s)" "quiet (ss_on_reasoning s)"
    "ss_content_bytes s = length (concat (ss_sent_content s))"
    using inv by (simp_all add: sink_inv_def)
  show ?thesis
  proof (cases "ss_filter_tool_calls s")
    case True
    hence "stream_inv t (concat (ss_sent_content s)) (ss_tool_filter s)"
      using inv by (simp add: sink_inv_def)
    then obtain v f where f: "filter_feed (od_text d) (ss_tool_filter s) = (Inr v, f)"
      "stream_inv (t @ od_text d) (concat (ss_sent_content s) @ v) f"
      using filter_feed_inv by blast
    let ?s = "s\<lparr>ss_tool_filter := f\<rparr>"
    obtain sent where sent: "publish_content v ?s =
        (Inr (), ?s\<lparr>ss_sent_content := sent, ss_content_bytes := length (concat sent)\<rparr>)"
      "concat sent = concat (ss_sent_content s) @ v"
      using publish_content_quiet [of ?s v] quiet by auto
    have "sink_publish d s =
        (Inr (), ?s\<lparr>ss_sent_content := sent, ss_content_bytes := length (concat sent)\<rparr>)"
      using d True f(1) sent(1) by (simp add: sink_publish_def sbind_def on_filter_def)
    thus ?thesis using d True f(2) sent(2) quiet by (simp add: sink_inv_def)
  next
    case unfiltered: False
    obtain sent where sent: "publish_content (od_text d) s =
        (Inr (), s\<lparr>ss_sent_content := sent, ss_content_bytes := length (concat sent)\<rparr>)"
      "concat sent = concat (ss_sent_content s) @ od_text d"
      using publish_content_quiet quiet by blast
    hence "sink_publish d s =
        (Inr (), s\<lparr>ss_sent_content := sent, ss_content_bytes := length (concat sent)\<rparr>)"
      using d unfiltered by (simp add: sink_publish_def sbind_def)
    thus ?thesis using d unfiltered inv sent(2) quiet by (simp add: sink_inv_def)
  qed
qed

lemma sink_publishes_inv:
  "sink_inv t s \<Longrightarrow> \<exists>s'. siter sink_publish ds s = (Inr (), s')
    \<and> sink_inv (t @ channel_text Content ds) s' \<and> ss_filter_tool_calls s' = ss_filter_tool_calls s"
proof (induction ds arbitrary: t s)
  case Nil
  thus ?case by (simp add: channel_text_def)
next
  case (Cons d ds)
  obtain s1 where s1: "sink_publish d s = (Inr (), s1)"
    "sink_inv (t @ (if od_channel d = Content then od_text d else [])) s1"
    "ss_filter_tool_calls s1 = ss_filter_tool_calls s"
    using sink_publish_inv [OF Cons.prems] by blast
  have whole: "(t @ (if od_channel d = Content then od_text d else [])) @ channel_text Content ds
      = t @ channel_text Content (d # ds)"
    by (simp add: channel_text_def)
  show ?case using Cons.IH [OF s1(2)] s1(1,3) unfolding whole by (auto simp: sbind_def)
qed


lemma sink_finish_text:
  assumes inv: "sink_inv t s" and verdict: "tool \<Longrightarrow> ss_filter_tool_calls s"
    and sent: "\<And>e f. tool \<Longrightarrow> stream_inv t e f \<Longrightarrow> e = whole" "\<not> tool \<Longrightarrow> whole = t"
  shows "\<exists>s'. sink_finish tool s = (Inr (length whole), s') \<and> concat (ss_sent_content s') = whole"
proof (cases "ss_filter_tool_calls s")
  case False
  thus ?thesis
    using inv verdict sent(2) by (auto simp: sink_finish_def sbind_def gets_def sink_inv_def)
next
  case True
  let ?e = "concat (ss_sent_content s)" and ?f = "ss_tool_filter s"
  have si: "stream_inv t ?e ?f" using inv True by (simp add: sink_inv_def)
  hence "\<not> sf_finished ?f" and held: "?e @ sf_pending ?f @ sf_tool_region ?f = t"
    by (auto simp: stream_inv_def split: if_splits)
  define tail where "tail = (if tool then [] else sf_pending ?f @ sf_tool_region ?f)"
  obtain f where f: "filter_finish tool ?f = (Inr tail, f)"
    using \<open>\<not> sf_finished ?f\<close> by (cases tool) (simp_all add: filter_finish_def Let_def tail_def)
  have whole: "?e @ tail = whole" using tail_def sent si held by auto
  let ?s = "s\<lparr>ss_tool_filter := f\<rparr>"
  obtain sent' where "publish_content tail ?s =
      (Inr (), ?s\<lparr>ss_sent_content := sent', ss_content_bytes := length (concat sent')\<rparr>)"
    "concat sent' = ?e @ tail"
    using publish_content_quiet [of ?s tail] inv by (auto simp: sink_inv_def)
  thus ?thesis
    using f True whole by (simp add: sink_finish_def sbind_def on_filter_def gets_def)
qed

section \<open>Property\<close>

text \<open>
  C31. A client that streams receives the answer a client that waits receives. For a request that
  may call tools or not, however the engine cuts its output into content and reasoning deltas,
  if the callbacks do not throw and the parser of the complete content returns, then the texts
  passed to the content callback concatenate to the text of the final outcome and the reported
  number of streamed bytes is its length.
\<close>

theorem streamed_text_is_outcome:
  assumes "quiet (Some on_content)" and "quiet on_reasoning"
    and "finish_outcome jl rng tool_capable n True (channel_text Content deltas) s = (Inr outcome, s')"
    and "siter sink_publish deltas (new_sink (Some on_content) on_reasoning tool_capable) = (r, s)"
  shows "concat (ss_sent_content s') = oc_text outcome
    \<and> oc_streamed_content_bytes outcome = length (oc_text outcome)"
proof -
  let ?t = "channel_text Content deltas"
  have "sink_inv [] (new_sink (Some on_content) on_reasoning tool_capable)"
    using assms(1,2) stream_inv_new by (simp add: sink_inv_def new_sink_def)
  from sink_publishes_inv [OF this, of deltas] have inv: "sink_inv ?t s"
    and flag: "ss_filter_tool_calls s = tool_capable"
    using assms(4) by (auto simp: new_sink_def)
  obtain parsed where parsed: "(if tool_capable then parse_tool_call_output jl rng ?t n
      else Inr (fallback ?t)) = Inr parsed"
    and rest: "sbind (sink_finish (po_is_tool_call_response parsed)) (\<lambda>m.
        sret \<lparr>oc_text = po_content parsed,
          oc_tool_calls = (if po_is_tool_call_response parsed then po_tool_calls parsed else []),
          oc_streamed_content_bytes = m\<rparr>) s = (Inr outcome, s')"
    using assms(3) by (auto simp: finish_outcome_def sbind_def slift_def split: sum.splits)
  have cases: "po_content parsed = ?t \<and> \<not> po_is_tool_call_response parsed \<or>
      tool_capable \<and> po_is_tool_call_response parsed \<and>
      (\<exists>i. first_marker ?t = Some i \<and> po_content parsed = rtrim (take i ?t))"
    using parsed parse_output_cases [of jl rng ?t n parsed]
    by (auto simp: fallback_def split: if_splits)
  have "\<exists>s2. sink_finish (po_is_tool_call_response parsed) s =
      (Inr (length (po_content parsed)), s2) \<and> concat (ss_sent_content s2) = po_content parsed"
  proof (rule sink_finish_text [OF inv])
    show "po_is_tool_call_response parsed \<Longrightarrow> ss_filter_tool_calls s" using cases flag by auto
    show "\<not> po_is_tool_call_response parsed \<Longrightarrow> po_content parsed = ?t" using cases by auto
    fix e f assume "po_is_tool_call_response parsed" and si: "stream_inv ?t e f"
    then obtain i where i: "first_marker ?t = Some i" "po_content parsed = rtrim (take i ?t)"
      using cases by auto
    show "e = po_content parsed"
      using si i(1) unfolding i(2) stream_inv_def by (simp split: if_splits)
  qed
  then obtain s2 where "sink_finish (po_is_tool_call_response parsed) s =
      (Inr (length (po_content parsed)), s2)" "concat (ss_sent_content s2) = po_content parsed"
    by blast
  thus ?thesis using rest by (auto simp: sbind_def)
qed


definition sample_stream :: "output_delta list" where
  "sample_stream = \<lparr>od_channel = Reasoning, od_text = ''hm''\<rparr>
     # map (\<lambda>t. \<lparr>od_channel = Content, od_text = t\<rparr>) sample_deltas"

definition sample_sink :: service_sink where
  "sample_sink = snd (siter sink_publish sample_stream (new_sink (Some (\<lambda>t. None)) None True))"

definition sample_finish :: "generation_outcome result \<times> service_sink" where
  "sample_finish =
     finish_outcome text_json (\<lambda>k. 42) True 64 True (channel_text Content sample_stream) sample_sink"

definition sample_outcome :: generation_outcome where
  "sample_outcome = \<lparr>oc_text = ''Let me look.'', oc_tool_calls = po_tool_calls sample_output,
     oc_streamed_content_bytes = 12\<rparr>"

theorem streamed_text_is_outcome_witness:
  "concat (ss_sent_content (snd sample_finish)) = ''Let me look.''
   \<and> oc_streamed_content_bytes sample_outcome = 12"
proof -
  have "fst sample_finish = Inr sample_outcome" by code_simp
  hence fin: "finish_outcome text_json (\<lambda>k. 42) True 64 True (channel_text Content sample_stream)
      sample_sink = (Inr sample_outcome, snd sample_finish)"
    by (metis prod.collapse sample_finish_def)
  have run: "siter sink_publish sample_stream (new_sink (Some (\<lambda>t. None)) None True) =
      (fst (siter sink_publish sample_stream (new_sink (Some (\<lambda>t. None)) None True)), sample_sink)"
    by (simp add: sample_sink_def)
  show ?thesis
    using streamed_text_is_outcome [OF _ _ fin run] by (simp add: quiet_def sample_outcome_def)
qed

end
