(* ===== verification/Response_Store.thy ===== *)
theory Response_Store
  imports Tool_Calls Transitions
begin

text \<open>
  The bounded store of responses and their conversation contexts
  (\<open>src/src/serve/response_store.cpp\<close>). A context is an immutable chain of nodes shared between
  responses; a node is modelled with its address, because the byte accounting counts a shared node
  once by comparing addresses. \<open>records_\<close> is an association list in the iteration order of the
  hash map, \<open>lru_\<close> the list of identifiers, most recent first; the iterator an entry keeps into
  that list is the occurrence of its own identifier. Byte counts are sums of the sizes of objects
  held in memory and are natural numbers. The sizes of the C++ types and the serialisation of JSON
  values are parameters.
\<close>

section \<open>Data\<close>

datatype ChatRole = System | Developer | User | Assistant | Tool

datatype ContentKind = KText | KImage | KVideo | KInputAudio | KUnsupported

datatype SourceKind = KPath | KUrl | KData | KBytes

record media_source =
  ms_kind :: SourceKind
  ms_value :: string
  ms_media_type :: string
  ms_bytes :: "8 word list"

record ContentPart =
  cp_kind :: ContentKind
  cp_text :: string
  cp_type_raw :: string
  cp_source :: media_source

record ChatTurn =
  ct_role :: ChatRole
  ct_content :: "ContentPart list"
  ct_tool_calls :: "ToolCall list"
  ct_tool_call_id :: string
  ct_reasoning_content :: string

datatype ResponseContext =
    Null
  | Node (node_address: nat) (node_parent: ResponseContext) (node_turns: "ChatTurn list")
      (node_owned_bytes: nat)

record 'j StoredResponse =
  sr_id :: string
  sr_response :: 'j
  sr_input_items :: "'j list"
  sr_context :: ResponseContext
  sr_preserve_thinking :: bool

text \<open>What the store relies on: the sizes of the C++ types and two operations on JSON values.\<close>

record 'j store_env =
  sz_ChatTurn :: nat
  sz_ContentPart :: nat
  sz_ToolCall :: nat
  sz_StoredResponse :: nat
  sz_json :: nat
  sz_ResponseContextNode :: nat
  json_dump :: "'j \<Rightarrow> string result"
  json_is_object :: "'j \<Rightarrow> bool"

record 'j ResponseStore =
  rs_max_records :: nat
  rs_max_bytes :: nat
  rs_records :: "(string \<times> 'j StoredResponse) list"
  rs_lru :: "string list"
  rs_current_bytes :: nat

section \<open>Byte estimates\<close>

definition estimate_turn_bytes :: "'j store_env \<Rightarrow> ChatTurn \<Rightarrow> nat" where
  "estimate_turn_bytes E turn = (
     let b = sz_ChatTurn E + length (ct_tool_call_id turn) + length (ct_reasoning_content turn);
         b = fold (\<lambda>part b. b + sz_ContentPart E + length (cp_text part) + length (cp_type_raw part)
               + length (ms_value (cp_source part)) + length (ms_media_type (cp_source part))
               + length (ms_bytes (cp_source part))) (ct_content turn) b
     in fold (\<lambda>call b. b + sz_ToolCall E + length (tc_id call) + length (tc_name call)
               + length (tc_arguments_json call)) (ct_tool_calls turn) b)"

definition record_envelope_bytes :: "'j store_env \<Rightarrow> 'j StoredResponse \<Rightarrow> nat result" where
  "record_envelope_bytes E r =
     rbind (json_dump E (sr_response r)) (\<lambda>body.
     rfold (\<lambda>b item. rbind (json_dump E item) (\<lambda>d. Inr (b + (sz_json E + length d))))
       (sz_StoredResponse E + length (sr_id r) + length body) (sr_input_items r))"

fun context_bytes :: "ResponseContext \<Rightarrow> nat \<Rightarrow> nat" where
  "context_bytes Null b = b"
| "context_bytes (Node a parent turns owned) b = context_bytes parent (b + owned)"

definition standalone_bytes :: "'j store_env \<Rightarrow> 'j StoredResponse \<Rightarrow> nat result" where
  "standalone_bytes E r = rbind (record_envelope_bytes E r) (\<lambda>b. Inr (context_bytes (sr_context r) b))"

definition store_capacity_error :: exn where
  "store_capacity_error = api_error ''response_store_capacity_exceeded''"

section \<open>Contexts\<close>

text \<open>\<open>address\<close> is the address \<open>make_shared\<close> returns for the new node.\<close>

definition append_response_context ::
  "'j store_env \<Rightarrow> nat \<Rightarrow> ResponseContext \<Rightarrow> ChatTurn list \<Rightarrow> ResponseContext" where
  "append_response_context E address parent turns =
     Node address parent turns
       (fold (\<lambda>turn b. b + estimate_turn_bytes E turn) turns (sz_ResponseContextNode E))"

text \<open>The first loop collects the nodes from the leaf to the root, the second reads them backwards.\<close>

fun context_nodes :: "ResponseContext \<Rightarrow> ResponseContext list" where
  "context_nodes Null = []"
| "context_nodes (Node a parent turns owned) = Node a parent turns owned # context_nodes parent"

definition flatten_response_context :: "ResponseContext \<Rightarrow> ChatTurn list" where
  "flatten_response_context context =
     fold (\<lambda>node turns. turns @ node_turns node) (rev (context_nodes context)) []"

section \<open>The store\<close>

definition new_store :: "nat \<Rightarrow> nat \<Rightarrow> 'j ResponseStore result" where
  "new_store max_records max_bytes =
     (if max_records = 0 \<or> max_bytes = 0
      then Inl (invalid_argument ''response store limits must be positive'')
      else Inr \<lparr>rs_max_records = max_records, rs_max_bytes = max_bytes, rs_records = [],
                rs_lru = [], rs_current_bytes = 0\<rparr>)"

text \<open>The walk over one context with the set \<open>seen\<close> of addresses.\<close>

fun count_context :: "ResponseContext \<Rightarrow> nat set \<times> nat \<Rightarrow> nat set \<times> nat" where
  "count_context Null acc = acc"
| "count_context (Node a parent turns owned) (seen, b) =
     count_context parent (if a \<in> seen then (seen, b) else (insert a seen, b + owned))"

definition recompute_bytes_locked :: "'j store_env \<Rightarrow> 'j ResponseStore \<Rightarrow> nat result" where
  "recompute_bytes_locked E s =
     rbind (rfold (\<lambda>(seen, b) (k, r).
         rbind (record_envelope_bytes E r) (\<lambda>n. Inr (count_context (sr_context r) (seen, b + n))))
       ({}, 0) (rs_records s)) (\<lambda>(seen, b). Inr b)"

definition erase_locked :: "string \<Rightarrow> 'j ResponseStore \<Rightarrow> 'j ResponseStore" where
  "erase_locked key s = (
     case map_of (rs_records s) key of None \<Rightarrow> s
     | Some r \<Rightarrow> s\<lparr>rs_lru := remove1 key (rs_lru s),
                   rs_records := filter (\<lambda>(k, v). k \<noteq> key) (rs_records s)\<rparr>)"

definition store_get :: "string \<Rightarrow> ('j ResponseStore, 'j StoredResponse option) prog" where
  "store_get key s = (
     case map_of (rs_records s) key of None \<Rightarrow> (Inr None, s)
     | Some r \<Rightarrow> (Inr (Some r), s\<lparr>rs_lru := key # remove1 key (rs_lru s)\<rparr>))"

definition refresh_bytes :: "'j store_env \<Rightarrow> ('j ResponseStore, unit) prog" where
  "refresh_bytes E = sbind (gets (recompute_bytes_locked E)) (\<lambda>r.
     sbind (slift r) (\<lambda>b. modify (\<lambda>s. s\<lparr>rs_current_bytes := b\<rparr>)))"

text \<open>The victim of one turn of the eviction loop, or the exception it throws.\<close>

definition pick_victim :: "string \<Rightarrow> string list \<Rightarrow> string result" where
  "pick_victim owned_id lru = (
     if lru = [] then Inl (logic_error ''response store LRU is empty'')
     else if last lru = owned_id then
       (if length lru = 1 then Inl store_capacity_error else Inr (lru ! (length lru - 2)))
     else Inr (last lru))"

text \<open>
  The eviction loop; \<open>None\<close> stands for a loop that never ends, which a victim without a record
  would cause.
\<close>

partial_function (option) evict_loop ::
  "'j store_env \<Rightarrow> string \<Rightarrow> 'j ResponseStore \<Rightarrow> (unit result \<times> 'j ResponseStore) option" where
  "evict_loop E owned_id s = (
     if length (rs_records s) \<le> rs_max_records s \<and> rs_current_bytes s \<le> rs_max_bytes s
     then Some (Inr (), s)
     else case pick_victim owned_id (rs_lru s) of
       Inl e \<Rightarrow> Some (Inl e, s)
     | Inr victim \<Rightarrow>
         (case refresh_bytes E (erase_locked victim s) of
            (Inl e, s') \<Rightarrow> Some (Inl e, s')
          | (Inr u, s') \<Rightarrow> evict_loop E owned_id s'))"

definition store_put ::
  "'j store_env \<Rightarrow> 'j StoredResponse \<Rightarrow> 'j ResponseStore \<Rightarrow> (unit result \<times> 'j ResponseStore) option" where
  "store_put E r s = (
     if sr_id r = [] \<or> \<not> json_is_object E (sr_response r)
     then Some (Inl (invalid_argument ''stored response must have an id and object body''), s)
     else case standalone_bytes E r of Inl e \<Rightarrow> Some (Inl e, s) | Inr b \<Rightarrow>
     if rs_max_bytes s < b then Some (Inl store_capacity_error, s)
     else if map_of (rs_records s) (sr_id r) \<noteq> None
     then Some (Inl (logic_error ''duplicate response id in response store''), s)
     else
       let s1 = s\<lparr>rs_lru := sr_id r # rs_lru s, rs_records := (sr_id r, r) # rs_records s\<rparr> in
       case refresh_bytes E s1 of
         (Inl e, s2) \<Rightarrow> Some (Inl e, s2)
       | (Inr u, s2) \<Rightarrow> evict_loop E (sr_id r) s2)"

definition store_erase :: "'j store_env \<Rightarrow> string \<Rightarrow> ('j ResponseStore, bool) prog" where
  "store_erase E key =
     sbind (gets (\<lambda>s. map_of (rs_records s) key)) (\<lambda>found.
     if found = None then sret False
     else sbind (modify (erase_locked key)) (\<lambda>u.
          sbind (refresh_bytes E) (\<lambda>u. sret True)))"

definition store_size :: "'j ResponseStore \<Rightarrow> nat" where
  "store_size s = length (rs_records s)"

definition store_bytes :: "'j ResponseStore \<Rightarrow> nat" where
  "store_bytes s = rs_current_bytes s"

end
