(* ===== verification/Response_Store_Inv.thy ===== *)
theory Response_Store_Inv
  imports Response_Store
begin

text \<open>
  Correctness of the response store. The invariant ties the identifiers of the LRU list to the
  records, the byte counter to a fresh recomputation, and both to the configured limits; every
  operation keeps it. Storing evicts from the least recent end, exactly as far as the limits ask,
  and never throws after it has changed the store.
\<close>

section \<open>Byte accounting\<close>

definition recount :: "'j store_env \<Rightarrow> (string \<times> 'j StoredResponse) list \<Rightarrow> nat result" where
  "recount E recs =
     rbind (rfold (\<lambda>(seen, b) (k, r).
         rbind (record_envelope_bytes E r) (\<lambda>n. Inr (count_context (sr_context r) (seen, b + n))))
       ({}, 0) recs) (\<lambda>(seen, b). Inr b)"

lemma recompute_recount: "recompute_bytes_locked E s = recount E (rs_records s)"
  by (simp add: recompute_bytes_locked_def recount_def)

lemma refresh_bytes_Inr:
  "recount E (rs_records s) = Inr b \<Longrightarrow> refresh_bytes E s = (Inr (), s\<lparr>rs_current_bytes := b\<rparr>)"
  by (simp add: refresh_bytes_def sbind_def gets_def slift_def modify_def recompute_recount)

lemma context_bytes_add: "context_bytes c (b + n) = context_bytes c b + n"
proof (induction c arbitrary: b)
  case (Node a c turns owned)
  show ?case using Node.IH [of "b + owned"] by (simp add: ac_simps)
qed simp

lemma count_context_le: "snd (count_context c (seen, b)) \<le> context_bytes c b"
proof (induction c arbitrary: seen b)
  case (Node a c turns owned)
  have "snd (count_context c (seen, b)) \<le> context_bytes c (b + owned)"
    using Node.IH [of seen b] by (simp add: context_bytes_add)
  thus ?case using Node.IH by simp
qed simp

lemma recount_total:
  assumes "\<And>k r. (k, r) \<in> set recs \<Longrightarrow> \<exists>n. record_envelope_bytes E r = Inr n"
  shows "\<exists>b. recount E recs = Inr b"
proof -
  let ?f = "\<lambda>(seen, b) (k, r).
    rbind (record_envelope_bytes E r) (\<lambda>n. Inr (count_context (sr_context r) (seen, b + n)))"
  have "\<exists>acc. rfold ?f start recs = Inr acc" for start
    using assms
  proof (induction recs arbitrary: start)
    case (Cons kr recs)
    obtain k r where kr: "kr = (k, r)" by fastforce
    then obtain n where n: "record_envelope_bytes E r = Inr n" using Cons.prems by auto
    obtain seen b where start: "start = (seen, b)" by fastforce
    obtain acc where "rfold ?f (count_context (sr_context r) (seen, b + n)) recs = Inr acc"
      using Cons.IH Cons.prems by (meson list.set_intros(2))
    thus ?case by (simp add: kr n start)
  qed simp
  from this [of "({}, 0)"] obtain acc where "rfold ?f ({}, 0) recs = Inr acc" ..
  thus ?thesis by (cases acc) (simp add: recount_def)
qed

lemma recount_single:
  "standalone_bytes E r = Inr n \<Longrightarrow> \<exists>b. recount E [(k, r)] = Inr b \<and> b \<le> n"
proof -
  assume "standalone_bytes E r = Inr n"
  then obtain m where m: "record_envelope_bytes E r = Inr m" "n = context_bytes (sr_context r) m"
    by (auto simp: standalone_bytes_def result_simps)
  show ?thesis
    using count_context_le [of "sr_context r" "{}" m] m
    by (simp add: recount_def case_prod_beta)
qed

section \<open>The bytes of a set of records\<close>

text \<open>
  The reference definition: every record's own bytes, and every context node of any record once.
  Distinct live objects have distinct addresses, so comparing addresses counts each node once.
\<close>

definition envelope :: "'j store_env \<Rightarrow> 'j StoredResponse \<Rightarrow> nat" where
  "envelope E r = (case record_envelope_bytes E r of Inr n \<Rightarrow> n | Inl e \<Rightarrow> 0)"

definition stored_nodes :: "(string \<times> 'j StoredResponse) list \<Rightarrow> ResponseContext set" where
  "stored_nodes recs = (\<Union>(k, r) \<in> set recs. set (context_nodes (sr_context r)))"

lemma stored_nodes_simps [simp]:
  "stored_nodes [] = {}"
  "stored_nodes ((k, r) # recs) = set (context_nodes (sr_context r)) \<union> stored_nodes recs"
  by (simp_all add: stored_nodes_def)

lemma finite_stored_nodes [simp]: "finite (stored_nodes recs)"
  by (auto simp: stored_nodes_def)

lemma stored_nodes_filter: "stored_nodes (filter P recs) \<subseteq> stored_nodes recs"
  by (auto simp: stored_nodes_def)

lemma count_context_sum:
  assumes "inj_on node_address (V \<union> set (context_nodes c))" and "finite V"
  shows "count_context c (node_address ` V, b) =
    (node_address ` (V \<union> set (context_nodes c)),
     b + (\<Sum>x \<in> set (context_nodes c) - V. node_owned_bytes x))"
  using assms
proof (induction c arbitrary: V b)
  case (Node a c turns owned)
  let ?x = "Node a c turns owned"
  have inj: "inj_on node_address (insert ?x V \<union> set (context_nodes c))"
    using Node.prems(1) by (simp add: Un_commute insert_commute)
  have mem: "a \<in> node_address ` V \<longleftrightarrow> ?x \<in> V"
  proof
    assume "a \<in> node_address ` V"
    then obtain y where y: "y \<in> V" "node_address y = node_address ?x" by auto
    have "y = ?x" by (rule inj_onD [OF inj y(2)]) (use y(1) in auto)
    thus "?x \<in> V" using y(1) by simp
  qed (force intro: image_eqI [of _ _ ?x])
  have img: "insert a (node_address ` V) = node_address ` insert ?x V" by simp
  show ?case
  proof (cases "?x \<in> V")
    case True
    hence "insert ?x V = V" by blast
    thus ?thesis using True Node.IH [of V b] inj Node.prems(2) mem by (auto simp: image_Un)
  next
    case False
    have notin: "?x \<notin> set (context_nodes c)"
    proof
      assume "?x \<in> set (context_nodes c)"
      moreover have "y \<in> set (context_nodes d) \<Longrightarrow> size y \<le> size d" for y d
        by (induction d) auto
      ultimately show False by fastforce
    qed
    hence "insert ?x (set (context_nodes c)) - V = insert ?x (set (context_nodes c) - insert ?x V)"
      using False by blast
    hence sum: "(\<Sum>x \<in> insert ?x (set (context_nodes c)) - V. node_owned_bytes x) =
        owned + (\<Sum>x \<in> set (context_nodes c) - insert ?x V. node_owned_bytes x)"
      by simp
    have "count_context ?x (node_address ` V, b) =
        count_context c (node_address ` insert ?x V, b + owned)"
      using False mem by simp
    also have "\<dots> = (node_address ` (insert ?x V \<union> set (context_nodes c)),
        b + owned + (\<Sum>x \<in> set (context_nodes c) - insert ?x V. node_owned_bytes x))"
      using inj Node.prems(2) by (intro Node.IH) auto
    finally show ?thesis using sum by simp
  qed
qed simp

lemma recount_sum:
  assumes "recount E recs = Inr n" and "inj_on node_address (stored_nodes recs)"
  shows "n = sum_list (map (\<lambda>(k, r). envelope E r) recs)
    + (\<Sum>x \<in> stored_nodes recs. node_owned_bytes x)"
proof -
  let ?f = "\<lambda>(seen, b) (k, r).
    rbind (record_envelope_bytes E r) (\<lambda>n. Inr (count_context (sr_context r) (seen, b + n)))"
  have "snd acc = b + sum_list (map (\<lambda>(k, r). envelope E r) recs)
      + (\<Sum>x \<in> stored_nodes recs - V. node_owned_bytes x)"
    if "rfold ?f (node_address ` V, b) recs = Inr acc" "inj_on node_address (V \<union> stored_nodes recs)"
      "finite V" for acc V b
    using that
  proof (induction recs arbitrary: V b)
    case (Cons kr recs)
    obtain k r where kr: "kr = (k, r)" by fastforce
    obtain m where m: "record_envelope_bytes E r = Inr m" using Cons.prems(1) kr
      by (auto simp: result_simps)
    let ?C = "set (context_nodes (sr_context r))"
    have inj: "inj_on node_address (V \<union> ?C)" "inj_on node_address ((V \<union> ?C) \<union> stored_nodes recs)"
      using Cons.prems(2) kr by (auto simp: Un_assoc intro: inj_on_subset)
    have count: "count_context (sr_context r) (node_address ` V, b + m) =
        (node_address ` (V \<union> ?C), b + m + (\<Sum>x \<in> ?C - V. node_owned_bytes x))"
      by (rule count_context_sum [OF inj(1) Cons.prems(3)])
    have "rfold ?f (node_address ` (V \<union> ?C), b + m + (\<Sum>x \<in> ?C - V. node_owned_bytes x)) recs
        = Inr acc"
      using Cons.prems(1) kr m count by simp
    hence "snd acc = b + m + (\<Sum>x \<in> ?C - V. node_owned_bytes x)
        + sum_list (map (\<lambda>(k, r). envelope E r) recs)
        + (\<Sum>x \<in> stored_nodes recs - (V \<union> ?C). node_owned_bytes x)"
      using inj(2) Cons.prems(3) by (intro Cons.IH) auto
    moreover have "(\<Sum>x \<in> (?C \<union> stored_nodes recs) - V. node_owned_bytes x) =
        (\<Sum>x \<in> ?C - V. node_owned_bytes x) + (\<Sum>x \<in> stored_nodes recs - (V \<union> ?C). node_owned_bytes x)"
      by (subst sum.union_disjoint [symmetric]) (auto intro: sum.cong)
    ultimately show ?case using kr m by (simp add: envelope_def)
  qed auto
  from this [of "{}" 0] show ?thesis
    using assms by (auto simp: recount_def result_simps split: prod.splits)
qed

lemma recount_filter_le:
  assumes "recount E recs = Inr n" and "recount E (filter P recs) = Inr m"
    and "inj_on node_address (stored_nodes recs)"
  shows "m \<le> n"
proof -
  have "inj_on node_address (stored_nodes (filter P recs))"
    using assms(3) stored_nodes_filter by (rule inj_on_subset)
  hence "m = sum_list (map (\<lambda>(k, r). envelope E r) (filter P recs))
      + (\<Sum>x \<in> stored_nodes (filter P recs). node_owned_bytes x)"
    using recount_sum [OF assms(2)] by blast
  also have "\<dots> \<le> sum_list (map (\<lambda>(k, r). envelope E r) recs)
      + (\<Sum>x \<in> stored_nodes recs. node_owned_bytes x)"
    using stored_nodes_filter [of P recs]
    by (intro add_mono sum_list_filter_le_nat sum_mono2) auto
  finally show ?thesis using recount_sum [OF assms(1,3)] by simp
qed

section \<open>The invariant\<close>

definition record_ok :: "'j store_env \<Rightarrow> string \<times> 'j StoredResponse \<Rightarrow> bool" where
  "record_ok E kr = (case kr of (k, r) \<Rightarrow>
     sr_id r = k \<and> k \<noteq> [] \<and> json_is_object E (sr_response r)
     \<and> (\<exists>n. record_envelope_bytes E r = Inr n))"

definition linked :: "'j store_env \<Rightarrow> 'j ResponseStore \<Rightarrow> bool" where
  "linked E s = (
     0 < rs_max_records s \<and> 0 < rs_max_bytes s \<and>
     distinct (rs_lru s) \<and> distinct (map fst (rs_records s)) \<and>
     set (rs_lru s) = fst ` set (rs_records s) \<and>
     (\<forall>kr \<in> set (rs_records s). record_ok E kr) \<and>
     inj_on node_address (stored_nodes (rs_records s)) \<and>
     recount E (rs_records s) = Inr (rs_current_bytes s))"

definition within_limits :: "'j ResponseStore \<Rightarrow> bool" where
  "within_limits s = (length (rs_records s) \<le> rs_max_records s \<and> rs_current_bytes s \<le> rs_max_bytes s)"

definition store_ok :: "'j store_env \<Rightarrow> 'j ResponseStore \<Rightarrow> bool" where
  "store_ok E s = (linked E s \<and> within_limits s)"

definition kept :: "string list \<Rightarrow> (string \<times> 'v) list \<Rightarrow> (string \<times> 'v) list" where
  "kept ids recs = filter (\<lambda>(k, v). k \<in> set ids) recs"

definition store_fits :: "'j store_env \<Rightarrow> nat \<Rightarrow> nat \<Rightarrow> (string \<times> 'j StoredResponse) list \<Rightarrow> bool" where
  "store_fits E max_records max_bytes recs =
     (length recs \<le> max_records \<and> (case recount E recs of Inr b \<Rightarrow> b \<le> max_bytes | Inl e \<Rightarrow> False))"

lemma within_limits_store_fits:
  "linked E s \<Longrightarrow> within_limits s \<longleftrightarrow> store_fits E (rs_max_records s) (rs_max_bytes s) (rs_records s)"
  by (simp add: linked_def within_limits_def store_fits_def)

lemma record_ok_total: "\<forall>kr \<in> set recs. record_ok E kr \<Longrightarrow> \<exists>b. recount E recs = Inr b"
  by (rule recount_total) (auto simp: record_ok_def)

text \<open>Erasing one record and recomputing the bytes keeps the links.\<close>

lemma erase_refresh:
  assumes "linked E s" and "key \<in> set (rs_lru s)"
  shows "\<exists>b. refresh_bytes E (erase_locked key s) =
      (Inr (), s\<lparr>rs_lru := remove1 key (rs_lru s),
        rs_records := filter (\<lambda>(k, v). k \<noteq> key) (rs_records s), rs_current_bytes := b\<rparr>)
    \<and> linked E (s\<lparr>rs_lru := remove1 key (rs_lru s),
        rs_records := filter (\<lambda>(k, v). k \<noteq> key) (rs_records s), rs_current_bytes := b\<rparr>)"
proof -
  let ?recs = "filter (\<lambda>(k, v). k \<noteq> key) (rs_records s)"
  obtain b where b: "recount E ?recs = Inr b"
    using assms(1) record_ok_total [of ?recs E] by (auto simp: linked_def)
  have "key \<in> fst ` set (rs_records s)" using assms by (simp add: linked_def)
  then obtain r where "map_of (rs_records s) key = Some r"
    by (metis map_of_eq_None_iff not_Some_eq)
  hence "refresh_bytes E (erase_locked key s) =
      (Inr (), s\<lparr>rs_lru := remove1 key (rs_lru s), rs_records := ?recs, rs_current_bytes := b\<rparr>)"
    using b by (simp add: erase_locked_def refresh_bytes_Inr)
  moreover have "distinct (map fst ?recs)"
    using assms(1) by (auto simp: linked_def intro: distinct_map_filter)
  moreover have "set (remove1 key (rs_lru s)) = fst ` set ?recs"
    using assms(1) by (auto simp: linked_def set_remove1_eq)
  ultimately show ?thesis
    using assms(1) b inj_on_subset [OF _ stored_nodes_filter [of "\<lambda>(k, v). k \<noteq> key" "rs_records s"]]
    by (intro exI [of _ b]) (auto simp: linked_def)
qed

section \<open>Eviction\<close>

lemma kept_all: "set (map fst recs) \<subseteq> set ids \<Longrightarrow> kept ids recs = recs"
  unfolding kept_def by (rule filter_True) auto

lemma kept_erase:
  "key \<notin> set ids \<Longrightarrow> kept ids (filter (\<lambda>(k, v). k \<noteq> key) recs) = kept ids recs"
  unfolding kept_def filter_filter by (rule filter_cong) auto

lemma map_of_erase:
  "map_of (filter (\<lambda>(k, v). k \<noteq> key) recs) x = (if x = key then None else map_of recs x)"
  by (induction recs) auto

lemma map_of_kept: "map_of (kept ids recs) x = (if x \<in> set ids then map_of recs x else None)"
  unfolding kept_def by (induction recs) auto

lemma single_record:
  assumes "linked E s" and "rs_lru s = [key]"
  shows "\<exists>r. rs_records s = [(key, r)]"
proof -
  have ids: "fst ` set (rs_records s) = {key}" and "distinct (map fst (rs_records s))"
    using assms by (auto simp: linked_def)
  hence "length (rs_records s) = 1"
    by (metis card.empty card_insert_disjoint distinct_card empty_iff finite.emptyI length_map
        list.set_map One_nat_def)
  then obtain kr where kr: "rs_records s = [kr]"
    by (cases "rs_records s") auto
  thus ?thesis using ids by (cases kr) auto
qed

lemma evict_loop_result:
  assumes "linked E s" and "rs_lru s = key # L"
    and "map_of (rs_records s) key = Some r" and "standalone_bytes E r = Inr n"
    and "n \<le> rs_max_bytes s"
  shows "\<exists>j s'. evict_loop E key s = Some (Inr (), s') \<and> j \<le> length L
    \<and> linked E s' \<and> within_limits s'
    \<and> rs_lru s' = key # take j L \<and> rs_records s' = kept (key # take j L) (rs_records s)
    \<and> rs_max_records s' = rs_max_records s \<and> rs_max_bytes s' = rs_max_bytes s
    \<and> (\<forall>i. j < i \<and> i \<le> length L \<longrightarrow> \<not> store_fits E (rs_max_records s) (rs_max_bytes s)
         (kept (key # take i L) (rs_records s)))"
  using assms
proof (induction L arbitrary: s rule: rev_induct)
  case Nil
  obtain r' where recs: "rs_records s = [(key, r')]"
    using single_record [OF Nil.prems(1,2)] by blast
  hence "r' = r" using Nil.prems(3) by simp
  hence "within_limits s"
    using recount_single [OF Nil.prems(4), of key] Nil.prems recs
    by (auto simp: linked_def within_limits_def)
  moreover have "kept [key] (rs_records s) = rs_records s" by (rule kept_all) (simp add: recs)
  ultimately show ?case
    using Nil.prems by (intro exI [of _ 0] exI [of _ s])
      (simp add: evict_loop.simps [of E key s] within_limits_def)
next
  case (snoc v L)
  have all: "set (map fst (rs_records s)) = set (key # L @ [v])"
    using snoc.prems(1,2) by (simp add: linked_def)
  show ?case
  proof (cases "within_limits s")
    case True
    thus ?thesis
      using snoc.prems kept_all [of "rs_records s" "key # L @ [v]"] all
      by (intro exI [of _ "Suc (length L)"] exI [of _ s])
        (auto simp: evict_loop.simps [of E key s] within_limits_def)
  next
    case False
    have dist: "distinct (key # L @ [v])" using snoc.prems(1,2) by (simp add: linked_def)
    let ?recs = "filter (\<lambda>(k, v'). k \<noteq> v) (rs_records s)"
    have rem: "remove1 v (rs_lru s) = key # L"
      using dist snoc.prems(2) by (auto simp: remove1_append)
    obtain b where b: "refresh_bytes E (erase_locked v s) =
        (Inr (), s\<lparr>rs_lru := key # L, rs_records := ?recs, rs_current_bytes := b\<rparr>)"
      and lk: "linked E (s\<lparr>rs_lru := key # L, rs_records := ?recs, rs_current_bytes := b\<rparr>)"
      using erase_refresh [OF snoc.prems(1), of v] snoc.prems(2) rem by auto
    let ?s = "s\<lparr>rs_lru := key # L, rs_records := ?recs, rs_current_bytes := b\<rparr>"
    have "evict_loop E key s = evict_loop E key ?s"
      using False snoc.prems(2) dist b
      by (subst evict_loop.simps) (auto simp: within_limits_def pick_victim_def)
    moreover have "map_of ?recs key = Some r"
      using snoc.prems(3) dist by (simp add: map_of_erase)
    then obtain j s' where j: "evict_loop E key ?s = Some (Inr (), s')" "j \<le> length L"
      "linked E s'" "within_limits s'" "rs_lru s' = key # take j L"
      "rs_records s' = kept (key # take j L) ?recs"
      "rs_max_records s' = rs_max_records s" "rs_max_bytes s' = rs_max_bytes s"
      "\<And>i. j < i \<Longrightarrow> i \<le> length L \<Longrightarrow> \<not> store_fits E (rs_max_records s) (rs_max_bytes s)
         (kept (key # take i L) ?recs)"
      using snoc.IH [of ?s] lk snoc.prems(4,5) by auto
    have ks: "kept (key # take i L) ?recs = kept (key # take i L) (rs_records s)" for i
      using dist by (intro kept_erase) (auto dest: in_set_takeD)
    have whole: "kept (key # take (Suc (length L)) (L @ [v])) (rs_records s) = rs_records s"
      using all by (intro kept_all) simp
    have "\<not> store_fits E (rs_max_records s) (rs_max_bytes s)
        (kept (key # take i (L @ [v])) (rs_records s))" if "j < i" "i \<le> length (L @ [v])" for i
    proof (cases "i \<le> length L")
      case True
      thus ?thesis using j(9) [OF that(1) True] ks by simp
    next
      case False
      hence "i = Suc (length L)" using that by simp
      thus ?thesis using \<open>\<not> within_limits s\<close> whole within_limits_store_fits [OF snoc.prems(1)] by simp
    qed
    thus ?thesis
      using j calculation(1) ks [of j]
      by (intro exI [of _ j] exI [of _ s']) auto
  qed
qed


section \<open>The operations\<close>

text \<open>The state in which \<open>put\<close> enters the eviction loop, and what it leaves.\<close>

lemma store_put_result:
  assumes ok: "store_ok E s" and id: "sr_id r \<noteq> []" and obj: "json_is_object E (sr_response r)"
    and bytes: "standalone_bytes E r = Inr n" "n \<le> rs_max_bytes s"
    and new: "sr_id r \<notin> set (rs_lru s)"
    and live: "inj_on node_address (stored_nodes ((sr_id r, r) # rs_records s))"
  shows "\<exists>j s'. store_put E r s = Some (Inr (), s') \<and> j \<le> length (rs_lru s) \<and> store_ok E s'
    \<and> rs_lru s' = sr_id r # take j (rs_lru s)
    \<and> rs_records s' = (sr_id r, r) # kept (take j (rs_lru s)) (rs_records s)
    \<and> rs_max_records s' = rs_max_records s \<and> rs_max_bytes s' = rs_max_bytes s
    \<and> (\<forall>i. j < i \<and> i \<le> length (rs_lru s) \<longrightarrow> \<not> store_fits E (rs_max_records s) (rs_max_bytes s)
         ((sr_id r, r) # kept (take i (rs_lru s)) (rs_records s)))"
proof -
  let ?s = "s\<lparr>rs_lru := sr_id r # rs_lru s, rs_records := (sr_id r, r) # rs_records s\<rparr>"
  have lk: "linked E s" using ok by (simp add: store_ok_def)
  have rok: "record_ok E (sr_id r, r)"
    using id obj bytes(1) by (auto simp: record_ok_def standalone_bytes_def result_simps)
  have fresh: "sr_id r \<notin> fst ` set (rs_records s)" using lk new by (simp add: linked_def)
  have "\<forall>kr \<in> set ((sr_id r, r) # rs_records s). record_ok E kr"
    using rok lk by (simp add: linked_def)
  then obtain b where b: "recount E ((sr_id r, r) # rs_records s) = Inr b"
    using record_ok_total by blast
  have lk1: "linked E (?s\<lparr>rs_current_bytes := b\<rparr>)"
    using lk rok b new fresh live by (simp add: linked_def)
  have front: "kept (sr_id r # take i (rs_lru s)) ((sr_id r, r) # rs_records s) =
      (sr_id r, r) # kept (take i (rs_lru s)) (rs_records s)" for i
    unfolding kept_def using fresh by (force intro!: filter_cong)
  obtain j s' where j: "evict_loop E (sr_id r) (?s\<lparr>rs_current_bytes := b\<rparr>) = Some (Inr (), s')"
    "j \<le> length (rs_lru s)" "linked E s'" "within_limits s'"
    "rs_lru s' = sr_id r # take j (rs_lru s)"
    "rs_records s' = (sr_id r, r) # kept (take j (rs_lru s)) (rs_records s)"
    "rs_max_records s' = rs_max_records s" "rs_max_bytes s' = rs_max_bytes s"
    "\<And>i. j < i \<Longrightarrow> i \<le> length (rs_lru s) \<Longrightarrow> \<not> store_fits E (rs_max_records s) (rs_max_bytes s)
       ((sr_id r, r) # kept (take i (rs_lru s)) (rs_records s))"
    using evict_loop_result [OF lk1, of "sr_id r" "rs_lru s" r n] bytes front by auto
  have "store_put E r s = Some (Inr (), s')"
    using id obj bytes fresh b j(1)
    by (simp add: store_put_def map_of_eq_None_iff refresh_bytes_Inr)
  thus ?thesis using j by (intro exI [of _ j] exI [of _ s']) (simp add: store_ok_def)
qed

text \<open>Every other call of \<open>put\<close> throws before it touches the store.\<close>

lemma store_put_cases:
  assumes "store_ok E s"
  shows "(\<exists>e. store_put E r s = Some (Inl e, s)) \<or>
    (\<exists>n. sr_id r \<noteq> [] \<and> json_is_object E (sr_response r) \<and> standalone_bytes E r = Inr n
      \<and> n \<le> rs_max_bytes s \<and> sr_id r \<notin> set (rs_lru s))"
proof -
  have "map_of (rs_records s) (sr_id r) = None \<longleftrightarrow> sr_id r \<notin> set (rs_lru s)"
    using assms by (simp add: store_ok_def linked_def map_of_eq_None_iff)
  thus ?thesis
    by (cases "standalone_bytes E r") (auto simp: store_put_def)
qed

lemma store_put_ok:
  assumes "store_ok E s" and "store_put E r s = Some (res, s')"
    and "inj_on node_address (stored_nodes ((sr_id r, r) # rs_records s))"
  shows "store_ok E s'"
proof (cases "\<exists>e. store_put E r s = Some (Inl e, s)")
  case True
  thus ?thesis using assms by auto
next
  case False
  then obtain n where "sr_id r \<noteq> []" "json_is_object E (sr_response r)"
    "standalone_bytes E r = Inr n" "n \<le> rs_max_bytes s" "sr_id r \<notin> set (rs_lru s)"
    using store_put_cases [OF assms(1)] by blast
  thus ?thesis using store_put_result [OF assms(1)] assms(2,3) by fastforce
qed

lemma store_get_ok: "store_ok E s \<Longrightarrow> store_ok E (snd (store_get key s))"
proof -
  assume ok: "store_ok E s"
  have "key \<in> set (rs_lru s)" if "map_of (rs_records s) key = Some r" for r
    using ok that by (force simp: store_ok_def linked_def dest: map_of_SomeD)
  thus ?thesis
    using ok by (auto simp: store_get_def store_ok_def linked_def within_limits_def
        split: option.splits)
qed

lemma store_erase_result:
  assumes ok: "store_ok E s"
  shows "\<exists>b. store_erase E key s = (if key \<in> set (rs_lru s)
      then (Inr True, s\<lparr>rs_lru := remove1 key (rs_lru s),
        rs_records := filter (\<lambda>(k, v). k \<noteq> key) (rs_records s), rs_current_bytes := b\<rparr>)
      else (Inr False, s)) \<and> store_ok E (snd (store_erase E key s))"
proof (cases "key \<in> set (rs_lru s)")
  case False
  hence "map_of (rs_records s) key = None"
    using ok by (simp add: store_ok_def linked_def map_of_eq_None_iff)
  thus ?thesis using False ok by (simp add: store_erase_def sbind_def gets_def)
next
  case True
  have lk: "linked E s" using ok by (simp add: store_ok_def)
  let ?recs = "filter (\<lambda>(k, v). k \<noteq> key) (rs_records s)"
  obtain b where b: "refresh_bytes E (erase_locked key s) =
      (Inr (), s\<lparr>rs_lru := remove1 key (rs_lru s), rs_records := ?recs, rs_current_bytes := b\<rparr>)"
    and lk': "linked E (s\<lparr>rs_lru := remove1 key (rs_lru s), rs_records := ?recs,
      rs_current_bytes := b\<rparr>)"
    using erase_refresh [OF lk True] by blast
  have "map_of (rs_records s) key \<noteq> None"
    using True lk by (simp add: linked_def map_of_eq_None_iff)
  hence run: "store_erase E key s = (Inr True, s\<lparr>rs_lru := remove1 key (rs_lru s),
      rs_records := ?recs, rs_current_bytes := b\<rparr>)"
    using b by (simp add: store_erase_def sbind_def gets_def modify_def)
  have "b \<le> rs_current_bytes s"
    using lk lk' recount_filter_le [of E "rs_records s" _ "\<lambda>(k, v). k \<noteq> key" b]
    by (simp add: linked_def)
  moreover have "length ?recs \<le> rs_max_records s"
    using ok by (auto simp: store_ok_def within_limits_def intro: order_trans [OF length_filter_le])
  ultimately show ?thesis
    using True run lk' ok by (intro exI [of _ b]) (simp add: store_ok_def within_limits_def)
qed


section \<open>The store as a transition system\<close>

text \<open>
  A caller stores records whose context nodes are live objects, so that two nodes with one address
  are the same node.
\<close>

inductive store_step :: "'j store_env \<Rightarrow> 'j ResponseStore \<Rightarrow> 'j ResponseStore \<Rightarrow> bool" for E where
  step_get: "store_get key s = (res, s') \<Longrightarrow> store_step E s s'"
| step_put: "store_put E r s = Some (res, s') \<Longrightarrow>
    inj_on node_address (stored_nodes ((sr_id r, r) # rs_records s)) \<Longrightarrow> store_step E s s'"
| step_erase: "store_erase E key s = (res, s') \<Longrightarrow> store_step E s s'"

definition store_init :: "'j ResponseStore \<Rightarrow> bool" where
  "store_init s = (new_store (rs_max_records s) (rs_max_bytes s) = Inr s)"

lemma store_init_ok: "store_init s \<Longrightarrow> store_ok E s"
proof -
  assume "store_init s"
  hence "0 < rs_max_records s" "0 < rs_max_bytes s" "rs_records s = []" "rs_lru s = []"
    "rs_current_bytes s = 0"
    by (cases s; auto simp: store_init_def new_store_def split: if_splits)+
  thus ?thesis by (simp add: store_ok_def linked_def within_limits_def recount_def)
qed

interpretation rs: invariant_system store_init "store_step E" "store_ok E" for E
proof unfold_locales
  show "store_init s \<Longrightarrow> store_ok E s" for s by (rule store_init_ok)
next
  fix s s' assume ok: "store_ok E s" and "store_step E s s'"
  from this(2) show "store_ok E s'"
  proof cases
    case (step_get key res)
    thus ?thesis using store_get_ok [OF ok, of key] by simp
  next
    case (step_put r res)
    thus ?thesis using store_put_ok [OF ok] by blast
  next
    case (step_erase key res)
    thus ?thesis using store_erase_result [OF ok, of key] by auto
  qed
qed

section \<open>Properties\<close>

text \<open>
  C34. Storing a response never fails half way. In every reachable state, \<open>put\<close> of a record whose
  context nodes are live returns; if it throws, the store is unchanged; if it succeeds, the new
  record is most recent, the survivors are the most recently used of the old ones with their
  contents unchanged, the limits hold, and keeping any one more of the old records would have
  broken them.
\<close>

theorem put_evicts_least_recent:
  assumes "reachable store_init (store_step E) s"
    and "inj_on node_address (stored_nodes ((sr_id r, r) # rs_records s))"
  shows "\<exists>res s'. store_put E r s = Some (res, s') \<and>
    (case res of Inl e \<Rightarrow> s' = s
     | Inr u \<Rightarrow> \<exists>j \<le> length (rs_lru s).
         rs_lru s' = sr_id r # take j (rs_lru s)
         \<and> map_of (rs_records s') = (map_of (rs_records s) |` set (take j (rs_lru s)))(sr_id r \<mapsto> r)
         \<and> store_size s' \<le> rs_max_records s \<and> store_bytes s' \<le> rs_max_bytes s
         \<and> (\<forall>i. j < i \<and> i \<le> length (rs_lru s) \<longrightarrow> \<not> store_fits E (rs_max_records s) (rs_max_bytes s)
              ((sr_id r, r) # kept (take i (rs_lru s)) (rs_records s))))"
proof (cases "\<exists>e. store_put E r s = Some (Inl e, s)")
  case True
  thus ?thesis by auto
next
  case False
  have ok: "store_ok E s" by (rule rs.inv_reachable [OF assms(1)])
  obtain n where n: "sr_id r \<noteq> []" "json_is_object E (sr_response r)" "standalone_bytes E r = Inr n"
    "n \<le> rs_max_bytes s" "sr_id r \<notin> set (rs_lru s)"
    using store_put_cases [OF ok] False by blast
  obtain j s' where j: "store_put E r s = Some (Inr (), s')" "j \<le> length (rs_lru s)" "store_ok E s'"
    "rs_lru s' = sr_id r # take j (rs_lru s)"
    "rs_records s' = (sr_id r, r) # kept (take j (rs_lru s)) (rs_records s)"
    "rs_max_records s' = rs_max_records s" "rs_max_bytes s' = rs_max_bytes s"
    "\<And>i. j < i \<Longrightarrow> i \<le> length (rs_lru s) \<Longrightarrow> \<not> store_fits E (rs_max_records s) (rs_max_bytes s)
       ((sr_id r, r) # kept (take i (rs_lru s)) (rs_records s))"
    using store_put_result [OF ok n assms(2)] by blast
  have "map_of (rs_records s') = (map_of (rs_records s) |` set (take j (rs_lru s)))(sr_id r \<mapsto> r)"
    by (auto simp: j(5) map_of_kept restrict_map_def fun_eq_iff)
  moreover have "store_size s' \<le> rs_max_records s" "store_bytes s' \<le> rs_max_bytes s"
    using j(3,6,7) by (simp_all add: store_ok_def within_limits_def store_size_def store_bytes_def)
  ultimately show ?thesis
    using j by (intro exI [of _ "Inr ()"] exI [of _ s']) auto
qed

text \<open>
  C35. In every reachable state of the store, the LRU list names every stored record exactly once,
  each record is stored under its own identifier, the limits hold, and the byte counter is the
  sum of the records' own bytes and of every context node reachable from any of them, counted once
  however many responses share it.
\<close>

theorem store_accounting:
  assumes "reachable store_init (store_step E) s"
  shows "distinct (rs_lru s) \<and> set (rs_lru s) = fst ` set (rs_records s)
    \<and> length (rs_lru s) = store_size s
    \<and> (\<forall>(k, r) \<in> set (rs_records s). sr_id r = k)
    \<and> store_size s \<le> rs_max_records s \<and> store_bytes s \<le> rs_max_bytes s
    \<and> store_bytes s = sum_list (map (\<lambda>(k, r). envelope E r) (rs_records s))
        + (\<Sum>x \<in> stored_nodes (rs_records s). node_owned_bytes x)"
proof -
  have ok: "linked E s" "within_limits s"
    using rs.inv_reachable [OF assms] by (simp_all add: store_ok_def)
  have "rs_current_bytes s = sum_list (map (\<lambda>(k, r). envelope E r) (rs_records s))
      + (\<Sum>x \<in> stored_nodes (rs_records s). node_owned_bytes x)"
    using ok(1) by (intro recount_sum) (simp_all add: linked_def)
  moreover have "length (rs_lru s) = store_size s"
    using ok(1) distinct_card [of "rs_lru s"] distinct_card [of "map fst (rs_records s)"]
    by (simp add: linked_def store_size_def)
  ultimately show ?thesis
    using ok by (auto simp: linked_def within_limits_def record_ok_def store_size_def store_bytes_def)
qed

text \<open>
  Flattening a context gives back the conversation: a context extended by \<open>append\<close> flattens
  to the flattened parent followed by the appended turns, in order.
\<close>

theorem flatten_append:
  "flatten_response_context (append_response_context E address parent turns) =
     flatten_response_context parent @ turns"
  by (simp add: flatten_response_context_def append_response_context_def)


section \<open>A concrete store\<close>

declare evict_loop.simps [code]

definition sample_env :: "string store_env" where
  "sample_env = \<lparr>sz_ChatTurn = 120, sz_ContentPart = 180, sz_ToolCall = 96, sz_StoredResponse = 88,
     sz_json = 16, sz_ResponseContextNode = 48, json_dump = Inr, json_is_object = (\<lambda>j. j \<noteq> [])\<rparr>"

definition sample_turn :: ChatTurn where
  "sample_turn = \<lparr>ct_role = User, ct_content = [], ct_tool_calls = [], ct_tool_call_id = [],
     ct_reasoning_content = ''because''\<rparr>"

definition sample_root :: ResponseContext where
  "sample_root = append_response_context sample_env 1 Null [sample_turn]"

definition sample_response :: "string \<Rightarrow> nat \<Rightarrow> string StoredResponse" where
  "sample_response key address = \<lparr>sr_id = key, sr_response = ''{}'', sr_input_items = [''{}''],
     sr_context = append_response_context sample_env address sample_root [sample_turn],
     sr_preserve_thinking = False\<rparr>"

definition sample_empty :: "string ResponseStore" where
  "sample_empty = \<lparr>rs_max_records = 2, rs_max_bytes = 1000, rs_records = [], rs_lru = [],
     rs_current_bytes = 0\<rparr>"

definition sample_two :: "string ResponseStore" where
  "sample_two = \<lparr>rs_max_records = 2, rs_max_bytes = 1000,
     rs_records = [(''b'', sample_response ''b'' 3), (''a'', sample_response ''a'' 2)],
     rs_lru = [''b'', ''a''], rs_current_bytes = 743\<rparr>"

lemma sample_id [simp]: "sr_id (sample_response key address) = key"
  by (simp add: sample_response_def)

lemma sample_inj:
  "inj_on node_address (stored_nodes ((''c'', sample_response ''c'' 4) # rs_records sample_two))"
  "inj_on node_address (stored_nodes ((''b'', sample_response ''b'' 3) # [(''a'', sample_response ''a'' 2)]))"
  "inj_on node_address (stored_nodes ((''a'', sample_response ''a'' 2) # rs_records sample_empty))"
  by (simp_all add: sample_two_def sample_empty_def sample_response_def sample_root_def
      append_response_context_def inj_on_def)

lemma sample_two_reachable: "reachable store_init (store_step sample_env) sample_two"
proof -
  let ?one = "\<lparr>rs_max_records = 2, rs_max_bytes = 1000,
    rs_records = [(''a'', sample_response ''a'' 2)], rs_lru = [''a''], rs_current_bytes = 459\<rparr>"
  have "store_put sample_env (sample_response ''a'' 2) sample_empty = Some (Inr (), ?one)"
    by code_simp
  hence one: "store_step sample_env sample_empty ?one"
    using sample_inj(3) by (intro step_put) simp_all
  have "store_put sample_env (sample_response ''b'' 3) ?one = Some (Inr (), sample_two)"
    by code_simp
  hence two: "store_step sample_env ?one sample_two"
    using sample_inj(2) by (intro step_put) simp_all
  have "store_init sample_empty" by code_simp
  hence r0: "reachable store_init (store_step sample_env) sample_empty" by (rule reachable.start)
  have r1: "reachable store_init (store_step sample_env) ?one"
    by (rule reachable.extend [where s = sample_empty, OF r0 one])
  show ?thesis by (rule reachable.extend [where s = ?one, OF r1 two])
qed

definition sample_next :: "string StoredResponse" where
  "sample_next = sample_response ''c'' 4"

definition sample_after :: "string ResponseStore" where
  "sample_after = snd (the (store_put sample_env sample_next sample_two))"

theorem put_evicts_least_recent_witness:
  "rs_lru sample_after = [''c'', ''b''] \<and> store_size sample_after \<le> 2 \<and> store_bytes sample_after \<le> 1000"
proof -
  have "store_put sample_env sample_next sample_two = Some (Inr (), sample_after)"
    "rs_lru sample_after = [''c'', ''b'']"
    by code_simp+
  moreover have "inj_on node_address (stored_nodes ((sr_id sample_next, sample_next) # rs_records sample_two))"
    using sample_inj(1) by (simp add: sample_next_def)
  moreover have "rs_max_records sample_two = 2" "rs_max_bytes sample_two = 1000"
    by (simp_all add: sample_two_def)
  ultimately show ?thesis
    using put_evicts_least_recent [OF sample_two_reachable, of sample_next] by auto
qed

theorem store_accounting_witness:
  "store_bytes sample_two = sum_list (map (\<lambda>(k, r). envelope sample_env r) (rs_records sample_two))
      + (\<Sum>x \<in> stored_nodes (rs_records sample_two). node_owned_bytes x)"
  using store_accounting [OF sample_two_reachable] by blast

end
