(* ===== verification/Prefix_Identity.thy ===== *)
theory Prefix_Identity
  imports Runtime_Config
begin

text \<open>
  The identity of the model inputs a resident sequence was computed from
  (\<open>src/src/targets/qwen3_6/impl/runtime/prefix_identity.cpp\<close>): token types, the three rotary
  position axes and the vision items. A new prompt may reuse the resident key/value state up to a
  frontier exactly if \<open>prefix_matches\<close> answers true there. Lengths of vectors are natural numbers;
  token spans keep their machine width, because the code guards their end against wrap-around.
  \<open>f32\<close> also serves as the value domain of the \<open>double\<close> time stamps, whose comparison treats
  \<open>NaN\<close> as different from itself.
\<close>

section \<open>Data\<close>

datatype prompt_modality = ImageModality | VideoModality

record vision_grid =
  vg_temporal :: int
  vg_height :: int
  vg_width :: int

record token_span =
  sp_begin :: u64
  sp_count :: u64

record vision_item =
  vi_modality :: prompt_modality
  vi_grid :: vision_grid
  vi_patch_begin :: u64
  vi_patch_count :: u64
  vi_content_digest :: "byte list"
  vi_timestamps :: "f32 list"
  vi_token_spans :: "token_span list"

datatype rewrite_checkpoint_kind = TurnClosure | ResponseReplay

record rewrite_checkpoint_spec =
  rc_kind :: rewrite_checkpoint_kind
  rc_frontier :: u32

text \<open>A media payload is its number of patch elements, or absent.\<close>

record prepared_prompt =
  pp_token_ids :: "int list"
  pp_token_types :: "byte list"
  pp_positions :: "int list"
  pp_media_payloads :: "u64 option list"
  pp_vision_items :: "vision_item list"
  pp_reusable :: bool
  pp_rewrite_checkpoint :: "rewrite_checkpoint_spec option"

record resident_identity =
  ri_token_types :: "byte list"
  ri_positions :: "int list list"
  ri_vision_items :: "vision_item list"

definition new_identity :: resident_identity where
  "new_identity = \<lparr>ri_token_types = [], ri_positions = [[], [], []], ri_vision_items = []\<rparr>"

section \<open>Comparing vision items\<close>

definition same_grid :: "vision_grid \<Rightarrow> vision_grid \<Rightarrow> bool" where
  "same_grid left right = (vg_temporal left = vg_temporal right \<and> vg_height left = vg_height right
     \<and> vg_width left = vg_width right)"

definition same_spans :: "token_span list \<Rightarrow> token_span list \<Rightarrow> bool" where
  "same_spans left right = (length left = length right
     \<and> list_all2 (\<lambda>a b. sp_begin a = sp_begin b \<and> sp_count a = sp_count b) left right)"

text \<open>\<open>operator==\<close> of floating-point numbers.\<close>

definition float_eq :: "f32 \<Rightarrow> f32 \<Rightarrow> bool" where
  "float_eq x y = (x = y \<and> x \<noteq> NotANumber)"

definition same_item :: "vision_item \<Rightarrow> vision_item \<Rightarrow> bool" where
  "same_item left right = (
     vi_modality left = vi_modality right \<and> same_grid (vi_grid left) (vi_grid right)
     \<and> vi_patch_begin left = vi_patch_begin right \<and> vi_patch_count left = vi_patch_count right
     \<and> vi_content_digest left = vi_content_digest right
     \<and> list_all2 float_eq (vi_timestamps left) (vi_timestamps right)
     \<and> same_spans (vi_token_spans left) (vi_token_spans right))"

text \<open>The loop of \<open>prefix_item_count\<close>; \<open>None\<close> is its answer \<open>false\<close>.\<close>

fun item_scan :: "vision_item list \<Rightarrow> nat \<Rightarrow> bool \<Rightarrow> nat \<Rightarrow> nat option" where
  "item_scan [] tokens saw_suffix n = Some n"
| "item_scan (item # items) tokens saw_suffix n = (
     if vi_token_spans item = [] then None else
     let first = hd (vi_token_spans item); final = last (vi_token_spans item) in
     if sp_count first = 0 \<or> sp_count final = 0 \<or> - 1 - sp_count final < sp_begin final then None
     else if unat (sp_begin final + sp_count final) \<le> tokens then
       (if saw_suffix then None else item_scan items tokens saw_suffix (n + 1))
     else if tokens \<le> unat (sp_begin first) then item_scan items tokens True n
     else None)"

definition prefix_item_count :: "vision_item list \<Rightarrow> nat \<Rightarrow> nat option" where
  "prefix_item_count items tokens = item_scan items tokens False 0"

section \<open>The resident identity\<close>

definition identity_size :: "resident_identity \<Rightarrow> nat" where
  "identity_size r = length (ri_token_types r)"

definition identity_clear :: "resident_identity \<Rightarrow> resident_identity" where
  "identity_clear r = r\<lparr>ri_token_types := [], ri_positions := map (\<lambda>axis. []) (ri_positions r),
     ri_vision_items := []\<rparr>"

definition position_axis :: "prepared_prompt \<Rightarrow> nat \<Rightarrow> int list" where
  "position_axis prompt axis = (let tokens = length (pp_token_ids prompt) in
     take tokens (drop (axis * tokens) (pp_positions prompt)))"

definition identity_assign :: "prepared_prompt \<Rightarrow> (resident_identity, unit) prog" where
  "identity_assign prompt r = (
     let tokens = length (pp_token_ids prompt) in
     if length (pp_token_types prompt) \<noteq> tokens \<or> length (pp_positions prompt) \<noteq> 3 * tokens
     then (Inl (invalid_argument ''prepared prompt identity metadata has an invalid shape''), r)
     else (Inr (), r\<lparr>ri_token_types := pp_token_types prompt,
             ri_positions := map (position_axis prompt) [0..<3],
             ri_vision_items := pp_vision_items prompt\<rparr>))"

text \<open>The loop of \<open>append_generated\<close> over the remaining \<open>n\<close> tokens.\<close>

fun append_loop :: "nat \<Rightarrow> nat \<Rightarrow> int \<Rightarrow> (resident_identity, unit) prog" where
  "append_loop 0 index rope_delta r = (Inr (), r)"
| "append_loop (Suc n) index rope_delta r = (
     if 2147483647 < index
     then (Inl (overflow_error ''generated prefix position exceeds int32''), r)
     else let position = int index + rope_delta in
     if position < - 2147483648 \<or> 2147483647 < position
     then (Inl (overflow_error ''generated MRoPE position exceeds int32''), r)
     else append_loop n (index + 1) rope_delta
            (r\<lparr>ri_token_types := ri_token_types r @ [0],
               ri_positions := map (\<lambda>axis. axis @ [position]) (ri_positions r)\<rparr>))"

definition append_generated :: "nat \<Rightarrow> int \<Rightarrow> (resident_identity, unit) prog" where
  "append_generated cnt rope_delta r = (
     let begin_index = identity_size r in
     if 2 ^ 64 - 1 - begin_index < cnt
     then (Inl (overflow_error ''generated prefix identity length overflows size_t''), r)
     else append_loop cnt begin_index rope_delta r)"

text \<open>\<open>std::vector::resize\<close>.\<close>

definition vec_resize :: "'a \<Rightarrow> nat \<Rightarrow> 'a list \<Rightarrow> 'a list" where
  "vec_resize x n xs = take n xs @ replicate (n - length xs) x"

definition identity_truncate :: "nat \<Rightarrow> (resident_identity, unit) prog" where
  "identity_truncate tokens r = (
     if identity_size r < tokens
     then (Inl (out_of_range ''cannot extend resident prefix identity by truncation''), r)
     else case prefix_item_count (ri_vision_items r) tokens of
       None \<Rightarrow> (Inl (logic_error ''resident prefix truncation divides a Vision item''), r)
     | Some retained_items \<Rightarrow>
         (Inr (), r\<lparr>ri_token_types := vec_resize 0 tokens (ri_token_types r),
            ri_positions := map (vec_resize 0 tokens) (ri_positions r),
            ri_vision_items := take retained_items (ri_vision_items r)\<rparr>))"

definition identity_matches :: "resident_identity \<Rightarrow> prepared_prompt \<Rightarrow> nat \<Rightarrow> bool" where
  "identity_matches r prompt cnt = (
     let prompt_tokens = length (pp_token_ids prompt) in
     if prompt_tokens < cnt \<or> identity_size r < cnt \<or> length (pp_token_types prompt) \<noteq> prompt_tokens
        \<or> length (pp_positions prompt) \<noteq> 3 * prompt_tokens then False
     else if take cnt (pp_token_types prompt) \<noteq> take cnt (ri_token_types r) then False
     else if \<not> (\<forall>axis \<in> set [0..<3].
         take cnt (drop (axis * prompt_tokens) (pp_positions prompt)) = take cnt (ri_positions r ! axis))
     then False
     else case (prefix_item_count (pp_vision_items prompt) cnt,
                prefix_item_count (ri_vision_items r) cnt) of
       (Some incoming_items, Some resident_items) \<Rightarrow>
         incoming_items = resident_items
         \<and> (\<forall>i \<in> set [0..<incoming_items]. same_item (pp_vision_items prompt ! i) (ri_vision_items r ! i))
     | _ \<Rightarrow> False)"

definition prefix_matches :: "prepared_prompt \<Rightarrow> int list \<Rightarrow> resident_identity \<Rightarrow> nat \<Rightarrow> bool" where
  "prefix_matches prompt resident_tokens r cnt = (
     if length (pp_token_ids prompt) < cnt \<or> length resident_tokens < cnt then False
     else take cnt (pp_token_ids prompt) = take cnt resident_tokens \<and> identity_matches r prompt cnt)"

section \<open>Well-formed identities\<close>

definition identity_wf :: "resident_identity \<Rightarrow> bool" where
  "identity_wf r = (length (ri_positions r) = 3
     \<and> (\<forall>axis \<in> set (ri_positions r). length axis = identity_size r))"

lemma append_loop_keeps:
  "identity_wf r \<Longrightarrow> identity_wf (snd (append_loop n index delta r))"
proof (induction n index delta r rule: append_loop.induct)
  case (2 n index delta r)
  let ?r = "r\<lparr>ri_token_types := ri_token_types r @ [0],
    ri_positions := map (\<lambda>axis. axis @ [int index + delta]) (ri_positions r)\<rparr>"
  have "identity_wf ?r" using 2(2) by (auto simp: identity_wf_def identity_size_def)
  thus ?case using 2 by (simp add: Let_def)
qed simp

lemma vec_resize_take: "n \<le> length xs \<Longrightarrow> vec_resize x n xs = take n xs"
  by (simp add: vec_resize_def)

lemma position_axis_length:
  assumes "axis < 3" and "length (pp_positions prompt) = 3 * length (pp_token_ids prompt)"
  shows "length (position_axis prompt axis) = length (pp_token_ids prompt)"
proof -
  have "length (pp_token_ids prompt) + axis * length (pp_token_ids prompt)
      \<le> 3 * length (pp_token_ids prompt)"
    using assms(1) mult_le_mono1 [of "Suc axis" 3 "length (pp_token_ids prompt)"]
    by (simp only: mult_Suc)
  hence "length (pp_token_ids prompt)
      \<le> 3 * length (pp_token_ids prompt) - axis * length (pp_token_ids prompt)"
    by (rule add_le_imp_le_diff)
  thus ?thesis using assms(2) by (simp add: position_axis_def Let_def min_absorb2)
qed

lemma identity_ops_keep:
  assumes "identity_wf r"
  shows "identity_wf (identity_clear r)"
    and "identity_wf (snd (identity_assign prompt r))"
    and "identity_wf (snd (append_generated n delta r))"
    and "identity_wf (snd (identity_truncate n r))"
proof -
  show "identity_wf (identity_clear r)"
    using assms by (auto simp: identity_wf_def identity_clear_def identity_size_def)
  show "identity_wf (snd (identity_assign prompt r))"
    using assms by (auto simp: identity_wf_def identity_assign_def identity_size_def Let_def
        position_axis_length)
  show "identity_wf (snd (append_generated n delta r))"
    using assms append_loop_keeps by (simp add: append_generated_def Let_def)
  show "identity_wf (snd (identity_truncate n r))"
    using assms by (auto simp: identity_wf_def identity_truncate_def identity_size_def
        vec_resize_def split: option.splits)
qed


section \<open>What a match means\<close>

lemma item_scan_step:
  "item_scan (item # items) tokens saw n = Some k \<Longrightarrow>
   \<exists>saw' n'. item_scan items tokens saw' n' = Some k \<and> n' \<le> n + 1"
  unfolding item_scan.simps Let_def by (metis le_add1 option.distinct(1) order_refl)

lemma item_scan_le: "item_scan items tokens saw n = Some k \<Longrightarrow> k \<le> n + length items"
proof (induction items arbitrary: saw n)
  case (Cons item items)
  obtain saw' n' where "item_scan items tokens saw' n' = Some k" "n' \<le> n + 1"
    using item_scan_step [OF Cons.prems] by blast
  thus ?case using Cons.IH [of saw' n'] by simp
qed simp

lemma prefix_item_count_le: "prefix_item_count items tokens = Some k \<Longrightarrow> k \<le> length items"
  using item_scan_le by (fastforce simp: prefix_item_count_def)

lemma float_eq_list: "list_all2 float_eq xs ys \<longleftrightarrow> xs = ys \<and> NotANumber \<notin> set xs"
proof (induction xs arbitrary: ys)
  case (Cons x xs)
  thus ?case by (cases ys) (auto simp: float_eq_def)
qed auto

lemma same_spans_iff: "same_spans xs ys \<longleftrightarrow> xs = ys"
proof -
  have "sp_begin a = sp_begin b \<and> sp_count a = sp_count b \<longleftrightarrow> a = b" for a b :: token_span
    by (cases a; cases b) simp
  hence "(\<lambda>a b. sp_begin a = sp_begin b \<and> sp_count a = sp_count b) = ((=) :: token_span \<Rightarrow> _)"
    by (intro ext) simp
  thus ?thesis by (auto simp: same_spans_def list.rel_eq)
qed

lemma same_item_iff: "same_item x y \<longleftrightarrow> x = y \<and> NotANumber \<notin> set (vi_timestamps x)"
proof -
  have "same_grid g h \<longleftrightarrow> g = h" for g h
    by (cases g; cases h) (auto simp: same_grid_def)
  thus ?thesis
    by (cases x; cases y) (auto simp: same_item_def float_eq_list same_spans_iff)
qed

lemma identity_truncate_iff:
  assumes "identity_wf r"
  shows "identity_truncate cnt r = (Inr (), x) \<longleftrightarrow> cnt \<le> identity_size r \<and>
    (\<exists>k. prefix_item_count (ri_vision_items r) cnt = Some k \<and>
      x = \<lparr>ri_token_types = take cnt (ri_token_types r),
           ri_positions = map (take cnt) (ri_positions r),
           ri_vision_items = take k (ri_vision_items r)\<rparr>)"
proof (cases "cnt \<le> identity_size r")
  case True
  hence "vec_resize 0 cnt (ri_token_types r) = take cnt (ri_token_types r)"
    and "map (vec_resize 0 cnt) (ri_positions r) = map (take cnt) (ri_positions r)"
    using assms by (auto simp: identity_wf_def identity_size_def intro!: vec_resize_take)
  thus ?thesis
    using True by (cases r) (auto simp: identity_truncate_def split: option.splits)
next
  case False
  thus ?thesis by (simp add: identity_truncate_def)
qed

lemma identity_matches_iff:
  assumes wf: "identity_wf r"
    and finite_times: "\<forall>item \<in> set (ri_vision_items r). NotANumber \<notin> set (vi_timestamps item)"
  shows "identity_matches r prompt cnt \<longleftrightarrow>
    (\<exists>y x. identity_assign prompt new_identity = (Inr (), y)
      \<and> identity_truncate cnt y = (Inr (), x) \<and> identity_truncate cnt r = (Inr (), x))"
proof (cases "length (pp_token_types prompt) = length (pp_token_ids prompt)
    \<and> length (pp_positions prompt) = 3 * length (pp_token_ids prompt)
    \<and> cnt \<le> length (pp_token_ids prompt) \<and> cnt \<le> identity_size r")
  case shape: True
  let ?y = "\<lparr>ri_token_types = pp_token_types prompt, ri_positions = map (position_axis prompt) [0..<3],
    ri_vision_items = pp_vision_items prompt\<rparr>"
  have assign: "identity_assign prompt new_identity = (Inr (), y) \<longleftrightarrow> y = ?y" for y
    using shape by (auto simp: identity_assign_def new_identity_def Let_def)
  have wf_y: "identity_wf ?y"
    using shape by (auto simp: identity_wf_def identity_size_def position_axis_length)
  have axes: "map (take cnt) (map (position_axis prompt) [0..<3]) = map (take cnt) (ri_positions r)
    \<longleftrightarrow> (\<forall>axis < 3. take cnt (drop (axis * length (pp_token_ids prompt)) (pp_positions prompt))
          = take cnt (ri_positions r ! axis))"
  proof -
    have "take cnt (position_axis prompt axis)
        = take cnt (drop (axis * length (pp_token_ids prompt)) (pp_positions prompt))" for axis
      using shape by (simp add: position_axis_def Let_def min_def)
    thus ?thesis
      using wf by (auto simp: list_eq_iff_nth_eq [of "map _ _"] identity_wf_def simp del: upt_Suc)
  qed
  have items: "(\<forall>i \<in> set [0..<k]. same_item (pp_vision_items prompt ! i) (ri_vision_items r ! i))
      \<longleftrightarrow> take k (pp_vision_items prompt) = take k (ri_vision_items r)"
    if "k \<le> length (pp_vision_items prompt)" "k \<le> length (ri_vision_items r)" for k
    using that finite_times by (auto simp: same_item_iff list_eq_iff_nth_eq [of "take _ _"])
  have lengths: "take k xs = take l ys \<Longrightarrow> k \<le> length xs \<Longrightarrow> l \<le> length ys \<Longrightarrow> k = l"
    for k l and xs ys :: "vision_item list"
    by (metis length_take min_absorb2)
  have rhs: "(\<exists>y x. identity_assign prompt new_identity = (Inr (), y)
      \<and> identity_truncate cnt y = (Inr (), x) \<and> identity_truncate cnt r = (Inr (), x)) \<longleftrightarrow>
    (\<exists>k l. prefix_item_count (pp_vision_items prompt) cnt = Some k
      \<and> prefix_item_count (ri_vision_items r) cnt = Some l
      \<and> take cnt (pp_token_types prompt) = take cnt (ri_token_types r)
      \<and> (\<forall>axis < 3. take cnt (drop (axis * length (pp_token_ids prompt)) (pp_positions prompt))
          = take cnt (ri_positions r ! axis))
      \<and> take k (pp_vision_items prompt) = take l (ri_vision_items r))"
    unfolding assign identity_truncate_iff [OF wf] axes [symmetric]
    using identity_truncate_iff [OF wf_y, of cnt] shape by (auto simp: identity_size_def)
  show ?thesis
  proof (cases "prefix_item_count (pp_vision_items prompt) cnt")
    case None
    thus ?thesis unfolding rhs by (simp add: identity_matches_def Let_def)
  next
    case k: (Some k)
    show ?thesis
    proof (cases "prefix_item_count (ri_vision_items r) cnt")
      case None
      thus ?thesis unfolding rhs by (simp add: identity_matches_def Let_def k)
    next
      case l: (Some l)
      note le = prefix_item_count_le [OF k] prefix_item_count_le [OF l]
      have "take k (pp_vision_items prompt) = take l (ri_vision_items r) \<longleftrightarrow>
          k = l \<and> (\<forall>i \<in> set [0..<k]. same_item (pp_vision_items prompt ! i) (ri_vision_items r ! i))"
        using items [of k] lengths [of k "pp_vision_items prompt" l "ri_vision_items r"] le by blast
      thus ?thesis
        unfolding rhs using shape by (auto simp: identity_matches_def Let_def k l)
    qed
  qed
next
  case False
  thus ?thesis
    using identity_truncate_iff [OF wf]
    by (auto simp: identity_matches_def identity_assign_def identity_truncate_def Let_def
        identity_size_def split: if_splits)
qed

end
