(* ===== verification/Request_Plan.thy ===== *)
theory Request_Plan
  imports Prefix_Identity Executor
begin

text \<open>
  Planning of a request on a Qwen3.6 target
  (\<open>src/src/targets/qwen3_6/impl/runtime/request_plan_impl.h\<close>). \<open>plan_request_base\<close> validates the
  prompt and fixes token budget, K/V page entitlements and checkpoint; \<open>plan_request_for_lane\<close>
  decides how much of the lane's resident state is reused. The summary it fills is the
  \<open>plan_summary\<close> the executor of \<open>Executor\<close> admits requests with. The vision preprocessing that
  \<open>build_vision_control\<close> performs and the byte sizes of the vision schedule are parameters.
\<close>

section \<open>Data\<close>

datatype speculative_backend = SpecAutomatic | SpecNone | SpecMtp | SpecDFlash

datatype rewrite_checkpoint_action =
  DropCheckpoint | KeepExisting | ReclassifyExisting | CaptureNew | DeferCapture

datatype mtp_bridge_mode = NoBridge | BeforeSuffix | AfterExactHit

datatype lifecycle = LcEmpty | LcPrefilling | LcActive | LcPending | LcComplete

record sampling_config =
  sc_temperature :: f32
  sc_top_k :: int
  sc_top_p :: f32
  sc_min_p :: f32
  sc_presence_penalty :: f32
  sc_frequency_penalty :: f32
  sc_seed :: u64
  sc_token_counts :: "u64 option"

record execution_options =
  xo_sampling :: sampling_parameters
  xo_requested_output_tokens :: u32
  xo_allow_prefix_reuse :: bool

record vision_item_control =
  vc_merged_count :: u64
  vc_scatter_indices :: "int list"

record vision_use_span =
  vu_begin :: u32
  vu_end :: u32
  vu_item_index :: u32

record base_plan =
  bp_summary :: plan_summary
  bp_sampling :: sampling_config
  bp_text_kv_page_entitlement :: u32
  bp_backend_kv_page_entitlement :: u32
  bp_vision_control :: "vision_item_control list option"
  bp_vision_transient_bytes :: u64
  bp_rewrite_checkpoint :: "rewrite_checkpoint_spec option"
  bp_allow_prefix_reuse :: bool

record request_plan =
  rp_summary :: plan_summary
  rp_reuse :: prefix_reuse_path
  rp_reuse_base :: u32
  rp_mtp_bridge :: mtp_bridge_mode
  rp_prepare_mtp :: bool
  rp_vision :: "(vision_item_control list \<times> vision_use_span list) option"
  rp_rewrite_checkpoint_action :: rewrite_checkpoint_action
  rp_rewrite_checkpoint_capture :: "rewrite_checkpoint_spec option"
  rp_sampling :: sampling_config
  rp_text_kv_page_entitlement :: u32
  rp_backend_kv_page_entitlement :: u32

record rewrite_checkpoint =
  ck_valid :: bool
  ck_kind :: rewrite_checkpoint_kind
  ck_frontier :: u32

text \<open>The members of a lane's sequence state and request control that planning reads.\<close>

record sequence_state =
  sq_has_kv :: bool
  sq_execution_frontier :: u32
  sq_ledger :: "int list"
  sq_prefix_identity :: resident_identity
  sq_mtp_kv_valid :: u32
  sq_dflash_context_frontier :: u32
  sq_tail_hidden_valid :: bool
  sq_retained :: bool
  sq_rewrite_checkpoint :: rewrite_checkpoint

text \<open>The members of the program that planning reads, and the vision parameters.\<close>

record program_core =
  pc_capacity :: u32
  pc_token_domain :: int
  pc_vision_enabled :: bool
  pc_speculative_backend :: speculative_backend
  pc_draft_window :: u32
  pc_prefill_chunk :: u32
  pc_dflash_full_layers :: bool
  pc_has_mtp_cache :: bool
  pc_has_dflash :: bool
  pc_work_capacity :: u64
  pc_lanes :: "(lifecycle \<times> sequence_state) list"
  pc_build_vision_control :: "prepared_prompt \<Rightarrow> vision_item_control list result"
  pc_workspace_bytes :: "vision_item_control \<Rightarrow> u64"
  pc_output_transient_bytes :: "u64 \<Rightarrow> u64"

definition kPreparedVisionPatchFeatures :: u64 where
  "kPreparedVisionPatchFeatures = 3 * 2 * 16 * 16"

definition kPageSize :: u32 where
  "kPageSize = 64"

section \<open>Helpers\<close>

definition is_rewrite_checkpoint_restore :: "prefix_reuse_path \<Rightarrow> bool" where
  "is_rewrite_checkpoint_restore path =
     (path = RestoreTurnCheckpoint \<or> path = RestoreResponseCheckpoint)"

definition restore_path :: "rewrite_checkpoint_kind \<Rightarrow> prefix_reuse_path" where
  "restore_path kind = (if kind = TurnClosure then RestoreTurnCheckpoint else RestoreResponseCheckpoint)"

definition validate_plan_sampling :: "sampling_parameters \<Rightarrow> unit result" where
  "validate_plan_sampling s =
     rbind (throw_if (\<not> isfinite (sp_temperature s) \<or> \<not> isfinite (sp_top_p s) \<or> \<not> isfinite (sp_min_p s)
         \<or> \<not> isfinite (sp_presence_penalty s) \<or> \<not> isfinite (sp_frequency_penalty s))
       (invalid_argument ''sampling parameters must be finite'')) (\<lambda>_.
     rbind (throw_if (f32_less (sp_top_p s) (Finite 0) \<or> f32_less (Finite 1) (sp_top_p s))
       (invalid_argument ''top_p must be in [0,1]'')) (\<lambda>_.
     throw_if (f32_less (sp_min_p s) (Finite 0) \<or> f32_less (Finite 1) (sp_min_p s))
       (invalid_argument ''min_p must be in [0,1]'')))"

definition translate_sampling :: "sampling_parameters \<Rightarrow> sampling_config" where
  "translate_sampling s = \<lparr>sc_temperature = sp_temperature s, sc_top_k = sp_top_k s,
     sc_top_p = sp_top_p s, sc_min_p = sp_min_p s, sc_presence_penalty = sp_presence_penalty s,
     sc_frequency_penalty = sp_frequency_penalty s, sc_seed = sp_seed s, sc_token_counts = None\<rparr>"

definition plan_pages :: "u32 \<Rightarrow> u32" where
  "plan_pages tokens = 1 + (tokens - 1) div kPageSize"

definition projected_service_work :: "plan_summary \<Rightarrow> u32 \<Rightarrow> u32 \<Rightarrow> u64 \<Rightarrow> u64" where
  "projected_service_work summary reuse_base prefill_chunk prefill_splits = (
     let suffix = ps_prompt_tokens summary - reuse_base;
         prefill_units = (if suffix = 0 then 1
           else 1 + (ucast suffix - 1) div ucast prefill_chunk + prefill_splits);
         decode_units = (if ps_effective_output_tokens summary = 0 then 0
           else ucast (ps_effective_output_tokens summary) - 1)
     in prefill_units + decode_units)"

text \<open>The columns of a vision item, as the two planning functions read them.\<close>

definition use_begin :: "bool \<Rightarrow> vision_item_control \<Rightarrow> u32" where
  "use_begin shifted item = (let first = word_of_int (hd (vc_scatter_indices item)) in
     if shifted \<and> first \<noteq> 0 then first - 1 else first)"

definition use_end :: "vision_item_control \<Rightarrow> u32" where
  "use_end item = word_of_int (last (vc_scatter_indices item)) + 1"

text \<open>The loop over the vision items of a base plan; the accumulators are \<open>previous_end\<close> and
  \<open>max_merged\<close>.\<close>

definition check_vision_item ::
  "program_core \<Rightarrow> u32 \<Rightarrow> u32 \<times> u64 \<Rightarrow> vision_item_control \<Rightarrow> (u32 \<times> u64) result" where
  "check_vision_item P prompt_tokens acc item = (case acc of (previous_end, max_merged) \<Rightarrow>
     if vc_scatter_indices item = []
     then Inl (invalid_argument ''vision item has no Text consumer columns'')
     else if use_begin (pc_speculative_backend P = SpecMtp) item < previous_end
     then Inl (invalid_argument ''vision item consumer spans overlap'')
     else if prompt_tokens < use_end item
     then Inl (invalid_argument ''vision item consumer span exceeds prompt'')
     else if pc_work_capacity P < pc_workspace_bytes P item
     then Inl (invalid_argument ''vision item exceeds the Program workspace envelope'')
     else Inr (use_end item, max max_merged (vc_merged_count item)))"

definition validate_prompt :: "program_core \<Rightarrow> prepared_prompt \<Rightarrow> unit result" where
  "validate_prompt P prompt =
     rbind (throw_if (pp_token_ids prompt = []) (invalid_argument ''prompt must contain tokens'')) (\<lambda>_.
     rbind (throw_if (unat (pc_capacity P) < length (pp_token_ids prompt))
       (invalid_argument ''prompt exceeds configured context capacity'')) (\<lambda>_.
     rbind (throw_if (2 ^ 32 - 1 < length (pp_token_ids prompt))
       (overflow_error ''prompt token count exceeds uint32'')) (\<lambda>_.
     rbind (throw_if (\<exists>i \<in> set (pp_token_ids prompt). i < 0 \<or> pc_token_domain P \<le> i)
       (invalid_argument ''prompt contains token outside the 248077-token domain'')) (\<lambda>_.
     rbind (throw_if (length (pp_token_types prompt) \<noteq> length (pp_token_ids prompt)
         \<or> length (pp_positions prompt) \<noteq> 3 * length (pp_token_ids prompt))
       (invalid_argument ''prepared prompt token metadata has an invalid shape'')) (\<lambda>_.
     rbind (throw_if ((pp_vision_items prompt \<noteq> []) \<noteq> (pp_media_payloads prompt \<noteq> [])
         \<or> length (pp_media_payloads prompt) \<noteq> length (pp_vision_items prompt))
       (invalid_argument ''prepared prompt media payload is incomplete'')) (\<lambda>_.
     rbind (throw_if (\<exists>(payload, item) \<in> set (zip (pp_media_payloads prompt) (pp_vision_items prompt)).
         payload \<noteq> Some (vi_patch_count item * kPreparedVisionPatchFeatures))
       (invalid_argument ''prepared prompt media item payload has an invalid shape'')) (\<lambda>_.
     throw_if (pp_vision_items prompt \<noteq> [] \<and> \<not> pc_vision_enabled P)
       (invalid_argument ''Vision is disabled for this Engine''))))))))"

definition reserved_tokens :: "plan_summary \<Rightarrow> u32" where
  "reserved_tokens summary = ps_prompt_tokens summary
     + (if ps_effective_output_tokens summary = 0 then 0 else ps_effective_output_tokens summary - 1)"

definition backend_pages :: "program_core \<Rightarrow> u32 \<Rightarrow> u32" where
  "backend_pages P reserved = (
     if pc_speculative_backend P = SpecMtp
     then plan_pages (ucast (min (ucast (pc_capacity P) :: u64)
            (ucast reserved + ucast (pc_draft_window P) - 1)))
     else if pc_speculative_backend P = SpecDFlash \<and> pc_dflash_full_layers P
     then plan_pages reserved else 0)"

definition base_summary :: "program_core \<Rightarrow> prepared_prompt \<Rightarrow> execution_options \<Rightarrow> plan_summary" where
  "base_summary P prompt options = (
     let prompt_tokens = of_nat (length (pp_token_ids prompt));
         requested = xo_requested_output_tokens options;
         capacity_output = pc_capacity P - prompt_tokens + 1
     in \<lparr>ps_prompt_tokens = prompt_tokens, ps_reusable_prompt_tokens = 0,
         ps_requested_output_tokens = requested,
         ps_effective_output_tokens = min requested capacity_output,
         ps_effective_limit_reason =
           (if requested \<le> capacity_output then OutputLimit else ContextCapacity),
         ps_transient_bytes = 0, ps_transient_alignment = 1,
         ps_admission = \<lparr>active_lanes = 0, main_kv_pages = 0, backend_kv_pages = 0\<rparr>,
         ps_service_work_quanta = 0\<rparr>)"

section \<open>Planning\<close>

definition plan_vision ::
  "program_core \<Rightarrow> prepared_prompt \<Rightarrow> u32 \<Rightarrow> (vision_item_control list option \<times> u64) result" where
  "plan_vision P prompt prompt_tokens = (
     if pp_vision_items prompt = [] then Inr (None, 0) else
     rbind (pc_build_vision_control P prompt) (\<lambda>control.
     rbind (rfold (check_vision_item P prompt_tokens) (0, 0) control) (\<lambda>(previous_end, max_merged).
     Inr (Some control, pc_output_transient_bytes P max_merged))))"

definition plan_checkpoint ::
  "prepared_prompt \<Rightarrow> u32 \<Rightarrow> rewrite_checkpoint_spec option result" where
  "plan_checkpoint prompt prompt_tokens = (
     case pp_rewrite_checkpoint prompt of None \<Rightarrow> Inr None
     | Some candidate \<Rightarrow>
         if rc_frontier candidate = 0 \<or> prompt_tokens < rc_frontier candidate
         then Inl (invalid_argument ''rewrite checkpoint frontier must lie at or inside the prompt frontier'')
         else Inr (Some candidate))"

text \<open>The plan that is filled once everything is validated.\<close>

definition filled_base_plan ::
  "program_core \<Rightarrow> prepared_prompt \<Rightarrow> execution_options \<Rightarrow> vision_item_control list option \<Rightarrow> u64
   \<Rightarrow> rewrite_checkpoint_spec option \<Rightarrow> base_plan" where
  "filled_base_plan P prompt options control transient_bytes checkpoint = (
     let summary = base_summary P prompt options;
         text_pages = plan_pages (reserved_tokens summary);
         backend = backend_pages P (reserved_tokens summary);
         splits = (case control of None \<Rightarrow> 0 | Some items \<Rightarrow> of_nat (length items))
           + (case checkpoint of None \<Rightarrow> 0
              | Some c \<Rightarrow> if rc_frontier c < ps_prompt_tokens summary then 1 else 0);
         summary = summary\<lparr>ps_admission := \<lparr>active_lanes = 1, main_kv_pages = text_pages,
           backend_kv_pages = backend\<rparr>\<rparr>
     in \<lparr>bp_summary = summary\<lparr>ps_service_work_quanta :=
           projected_service_work summary 0 (pc_prefill_chunk P) splits\<rparr>,
         bp_sampling = translate_sampling (xo_sampling options),
         bp_text_kv_page_entitlement = text_pages, bp_backend_kv_page_entitlement = backend,
         bp_vision_control = control, bp_vision_transient_bytes = transient_bytes,
         bp_rewrite_checkpoint = checkpoint,
         bp_allow_prefix_reuse = xo_allow_prefix_reuse options\<rparr>)"

definition plan_request_base ::
  "program_core \<Rightarrow> prepared_prompt \<Rightarrow> execution_options \<Rightarrow> base_plan result" where
  "plan_request_base P prompt options =
     rbind (validate_prompt P prompt) (\<lambda>_.
     rbind (validate_plan_sampling (xo_sampling options)) (\<lambda>_.
     let prompt_tokens = ps_prompt_tokens (base_summary P prompt options) in
     rbind (plan_vision P prompt prompt_tokens) (\<lambda>vision.
     rbind (plan_checkpoint prompt prompt_tokens) (\<lambda>checkpoint.
     Inr (filled_base_plan P prompt options (fst vision) (snd vision) checkpoint)))))"

text \<open>The three steps that choose the reuse path and its base.\<close>

definition choose_reuse ::
  "program_core \<Rightarrow> prepared_prompt \<Rightarrow> base_plan \<Rightarrow> sequence_state \<Rightarrow> prefix_reuse_path \<times> u32" where
  "choose_reuse P prompt b sq = (
     let matches = (\<lambda>frontier. prefix_matches prompt (sq_ledger sq) (sq_prefix_identity sq) (unat frontier));
         dflash_append_ready = (pc_speculative_backend P \<noteq> SpecDFlash
           \<or> sq_dflash_context_frontier sq = sq_execution_frontier sq);
         ck = sq_rewrite_checkpoint sq in
     if bp_allow_prefix_reuse b \<and> pp_reusable prompt \<and> sq_retained sq then
       if sq_execution_frontier sq \<noteq> 0 \<and> dflash_append_ready \<and> matches (sq_execution_frontier sq)
       then (AppendAtFrontier, sq_execution_frontier sq)
       else if ck_valid ck \<and> ck_frontier ck \<noteq> 0 \<and> unat (ck_frontier ck) \<le> length (pp_token_ids prompt)
         \<and> matches (ck_frontier ck)
       then (restore_path (ck_kind ck), ck_frontier ck)
       else (FullReset, 0)
     else (FullReset, 0))"

definition mtp_reuse ::
  "program_core \<Rightarrow> sequence_state \<Rightarrow> prefix_reuse_path \<times> u32 \<Rightarrow> prefix_reuse_path \<times> u32" where
  "mtp_reuse P sq choice = (case choice of (reuse, reuse_base) \<Rightarrow>
     if pc_speculative_backend P = SpecMtp then
       let append_ready = (reuse = AppendAtFrontier \<and> sq_tail_hidden_valid sq \<and> pc_has_mtp_cache P
             \<and> (reuse_base = 0 \<or> reuse_base - 1 \<le> sq_mtp_kv_valid sq));
           checkpoint_ready = (is_rewrite_checkpoint_restore reuse \<and> pc_has_mtp_cache P
             \<and> reuse_base \<noteq> 0 \<and> reuse_base - 1 \<le> sq_mtp_kv_valid sq)
       in if reuse \<noteq> FullReset \<and> \<not> append_ready \<and> \<not> checkpoint_ready then (FullReset, 0)
          else (reuse, reuse_base)
     else (reuse, reuse_base))"

definition dflash_reuse ::
  "program_core \<Rightarrow> sequence_state \<Rightarrow> prefix_reuse_path \<times> u32 \<Rightarrow> prefix_reuse_path \<times> u32" where
  "dflash_reuse P sq choice = (case choice of (reuse, reuse_base) \<Rightarrow>
     if is_rewrite_checkpoint_restore reuse \<and> pc_speculative_backend P = SpecDFlash
        \<and> (\<not> pc_has_dflash P \<or> \<not> sq_has_kv sq \<or> sq_dflash_context_frontier sq < reuse_base)
     then (FullReset, 0) else (reuse, reuse_base))"

definition checkpoint_action ::
  "prepared_prompt \<Rightarrow> base_plan \<Rightarrow> sequence_state \<Rightarrow> prefix_reuse_path \<Rightarrow> u32
   \<Rightarrow> rewrite_checkpoint_action \<times> rewrite_checkpoint_spec option" where
  "checkpoint_action prompt b sq reuse reuse_base = (
     case bp_rewrite_checkpoint b of None \<Rightarrow> (DropCheckpoint, None)
     | Some desired \<Rightarrow>
         let ck = sq_rewrite_checkpoint sq in
         if reuse \<noteq> FullReset \<and> ck_valid ck \<and> ck_frontier ck = rc_frontier desired
            \<and> prefix_matches prompt (sq_ledger sq) (sq_prefix_identity sq) (unat (rc_frontier desired))
         then (if ck_kind ck = rc_kind desired then KeepExisting else ReclassifyExisting, None)
         else if reuse_base < rc_frontier desired then (CaptureNew, Some desired)
         else (DeferCapture, None))"

definition mtp_bridge :: "program_core \<Rightarrow> plan_summary \<Rightarrow> prefix_reuse_path \<Rightarrow> u32 \<Rightarrow> bool \<times> mtp_bridge_mode" where
  "mtp_bridge P summary reuse reuse_base = (
     if pc_speculative_backend P \<noteq> SpecMtp then (False, NoBridge)
     else if reuse = FullReset then (True, NoBridge)
     else (True, if reuse_base < ps_prompt_tokens summary then BeforeSuffix else AfterExactHit))"

text \<open>The vision items a prefill from \<open>reuse_base\<close> still needs, with their index.\<close>

definition vision_uses :: "bool \<Rightarrow> u32 \<Rightarrow> vision_item_control list \<Rightarrow> vision_use_span list" where
  "vision_uses prepare_mtp reuse_base items =
     map (\<lambda>(index, item). \<lparr>vu_begin = use_begin prepare_mtp item, vu_end = use_end item,
            vu_item_index = of_nat index\<rparr>)
       (filter (\<lambda>(index, item). \<not> use_end item \<le> reuse_base) (zip [0..<length items] items))"

definition plan_request_for_lane ::
  "program_core \<Rightarrow> nat \<Rightarrow> prepared_prompt \<Rightarrow> base_plan option \<Rightarrow> request_plan result" where
  "plan_request_for_lane P lane prompt base_opt = (
     if length (pc_lanes P) \<le> lane then Inl (out_of_range ''request lane is out of range'') else
     case pc_lanes P ! lane of (lc, sq) \<Rightarrow>
     if lc = LcPrefilling \<or> lc = LcActive \<or> lc = LcPending
     then Inl (logic_error ''cannot plan a request while Program is active or pending'') else
     case base_opt of None \<Rightarrow> Inl (logic_error ''request base plan is empty'') | Some b \<Rightarrow>
     case dflash_reuse P sq (mtp_reuse P sq (choose_reuse P prompt b sq)) of (reuse, reuse_base) \<Rightarrow>
     case checkpoint_action prompt b sq reuse reuse_base of (action, capture) \<Rightarrow>
     let summary = (bp_summary b)\<lparr>ps_reusable_prompt_tokens := reuse_base\<rparr> in
     case mtp_bridge P summary reuse reuse_base of (prepare_mtp, bridge) \<Rightarrow>
     let uses = (case bp_vision_control b of None \<Rightarrow> []
           | Some items \<Rightarrow> vision_uses prepare_mtp reuse_base items);
         vision = (if uses = [] then None else Some (the (bp_vision_control b), uses));
         summary = (if uses = [] then summary else summary\<lparr>ps_transient_alignment := 256,
           ps_transient_bytes := bp_vision_transient_bytes b\<rparr>);
         splits = of_nat (length uses)
           + (case capture of None \<Rightarrow> 0
              | Some c \<Rightarrow> if rc_frontier c < ps_prompt_tokens summary then 1 else 0)
     in Inr \<lparr>rp_summary = summary\<lparr>ps_service_work_quanta :=
               projected_service_work summary reuse_base (pc_prefill_chunk P) splits\<rparr>,
            rp_reuse = reuse, rp_reuse_base = reuse_base, rp_mtp_bridge = bridge,
            rp_prepare_mtp = prepare_mtp, rp_vision = vision,
            rp_rewrite_checkpoint_action = action, rp_rewrite_checkpoint_capture = capture,
            rp_sampling = bp_sampling b,
            rp_text_kv_page_entitlement = bp_text_kv_page_entitlement b,
            rp_backend_kv_page_entitlement = bp_backend_kv_page_entitlement b\<rparr>)"


section \<open>Reuse\<close>

lemma choose_reuse_cases:
  "choose_reuse P prompt b sq = (reuse, reuse_base) \<Longrightarrow>
   reuse = FullReset \<and> reuse_base = 0 \<or>
   reuse \<noteq> FullReset \<and> reuse_base \<noteq> 0 \<and> bp_allow_prefix_reuse b \<and> pp_reusable prompt \<and> sq_retained sq
     \<and> prefix_matches prompt (sq_ledger sq) (sq_prefix_identity sq) (unat reuse_base)"
  by (auto simp: choose_reuse_def Let_def restore_path_def split: if_splits)

text \<open>The later steps only give reuse up.\<close>

lemma later_reuse:
  assumes "dflash_reuse P sq (mtp_reuse P sq choice) = (reuse, reuse_base)"
  shows "(reuse, reuse_base) = (FullReset, 0) \<or> (reuse, reuse_base) = choice"
    and "pc_speculative_backend P = SpecMtp \<Longrightarrow> reuse \<noteq> FullReset \<Longrightarrow>
      pc_has_mtp_cache P \<and> (reuse_base = 0 \<or> reuse_base - 1 \<le> sq_mtp_kv_valid sq)"
    and "pc_speculative_backend P = SpecDFlash \<Longrightarrow> is_rewrite_checkpoint_restore reuse \<Longrightarrow>
      pc_has_dflash P \<and> sq_has_kv sq \<and> reuse_base \<le> sq_dflash_context_frontier sq"
  using assms
  by (cases choice; auto simp: dflash_reuse_def mtp_reuse_def Let_def is_rewrite_checkpoint_restore_def
      split: if_splits)+

lemma plan_request_for_lane_reuse:
  assumes "plan_request_for_lane P lane prompt (Some b) = Inr plan"
  shows "lane < length (pc_lanes P)"
    and "dflash_reuse P (snd (pc_lanes P ! lane)) (mtp_reuse P (snd (pc_lanes P ! lane))
        (choose_reuse P prompt b (snd (pc_lanes P ! lane)))) = (rp_reuse plan, rp_reuse_base plan)"
    and "ps_reusable_prompt_tokens (rp_summary plan) = rp_reuse_base plan"
  using assms
  by (auto simp: plan_request_for_lane_def Let_def split: if_splits prod.splits)

section \<open>Token and page budgets\<close>

lemma plan_pages_bounds:
  assumes "0 < unat tokens"
  shows "unat tokens \<le> 64 * unat (plan_pages tokens)
    \<and> 64 * unat (plan_pages tokens) < unat tokens + 64"
proof -
  have minus: "unat (tokens - 1) = unat tokens - 1"
    using assms by (simp add: unat_minus_one unat_gt_0)
  have "unat (tokens - 1) div 64 < 2 ^ 32 - 1"
    using unat_u32_le [of "tokens - 1"] by simp
  hence "unat (plan_pages tokens) = 1 + (unat tokens - 1) div 64"
    unfolding plan_pages_def kPageSize_def
    by (simp add: unat_word_ariths unat_div minus)
  thus ?thesis using assms by (simp, linarith)
qed

lemma base_budget:
  assumes "0 < length (pp_token_ids prompt)"
    and "length (pp_token_ids prompt) \<le> unat (pc_capacity P)"
    and summary: "summary = base_summary P prompt options"
  shows "unat (ps_prompt_tokens summary) = length (pp_token_ids prompt)"
    and "unat (ps_effective_output_tokens summary) =
      min (unat (xo_requested_output_tokens options))
        (unat (pc_capacity P) - length (pp_token_ids prompt) + 1)"
    and "unat (reserved_tokens summary) = length (pp_token_ids prompt)
      + (unat (ps_effective_output_tokens summary) - 1)"
    and "unat (reserved_tokens summary) \<le> unat (pc_capacity P)"
proof -
  let ?n = "length (pp_token_ids prompt)"
  have lt: "unat (pc_capacity P) < 2 ^ 32" using unat_u32_le [of "pc_capacity P"] by simp
  show pt: "unat (ps_prompt_tokens summary) = ?n"
    using assms(2) lt by (simp add: summary base_summary_def Let_def unat_of_nat take_bit_nat_eq_self)
  have le: "ps_prompt_tokens summary \<le> pc_capacity P"
    using pt assms(2) by (simp add: word_le_nat_alt)
  have co: "unat (pc_capacity P - ps_prompt_tokens summary + 1) = unat (pc_capacity P) - ?n + 1"
  proof -
    have "Suc (unat (pc_capacity P) - ?n) < 2 ^ 32" using lt assms(1,2) by linarith
    thus ?thesis using le pt by (simp add: unat_word_ariths unat_sub)
  qed
  have eff: "ps_effective_output_tokens summary =
      min (xo_requested_output_tokens options) (pc_capacity P - ps_prompt_tokens summary + 1)"
    by (simp add: summary base_summary_def Let_def)
  show e: "unat (ps_effective_output_tokens summary) =
      min (unat (xo_requested_output_tokens options)) (unat (pc_capacity P) - ?n + 1)"
    unfolding eff using co by (simp add: min_def word_le_nat_alt)
  have sum: "?n + (unat (ps_effective_output_tokens summary) - 1) \<le> unat (pc_capacity P)"
    using e assms(1,2) by simp
  show r: "unat (reserved_tokens summary) = ?n + (unat (ps_effective_output_tokens summary) - 1)"
  proof (cases "ps_effective_output_tokens summary = 0")
    case True
    thus ?thesis using pt by (simp add: reserved_tokens_def)
  next
    case False
    hence "unat (ps_effective_output_tokens summary - 1) = unat (ps_effective_output_tokens summary) - 1"
      by (rule unat_minus_one)
    thus ?thesis
      using False sum lt pt by (simp add: reserved_tokens_def unat_word_ariths)
  qed
  show "unat (reserved_tokens summary) \<le> unat (pc_capacity P)" using r sum by simp
qed

lemma plan_request_base_shape:
  assumes "plan_request_base P prompt options = Inr b"
  shows "0 < length (pp_token_ids prompt)" and "length (pp_token_ids prompt) \<le> unat (pc_capacity P)"
    and "ps_prompt_tokens (bp_summary b) = ps_prompt_tokens (base_summary P prompt options)"
    and "ps_effective_output_tokens (bp_summary b)
      = ps_effective_output_tokens (base_summary P prompt options)"
    and "ps_effective_limit_reason (bp_summary b)
      = ps_effective_limit_reason (base_summary P prompt options)"
    and "bp_text_kv_page_entitlement b = plan_pages (reserved_tokens (base_summary P prompt options))"
    and "ps_admission (bp_summary b) = \<lparr>active_lanes = 1,
      main_kv_pages = bp_text_kv_page_entitlement b, backend_kv_pages = bp_backend_kv_page_entitlement b\<rparr>"
    and "\<And>c. bp_rewrite_checkpoint b = Some c \<Longrightarrow> 0 < rc_frontier c
      \<and> rc_frontier c \<le> ps_prompt_tokens (bp_summary b)"
proof -
  let ?s = "base_summary P prompt options"
  obtain u vision ck where v: "validate_prompt P prompt = Inr u"
    and ck: "plan_checkpoint prompt (ps_prompt_tokens ?s) = Inr ck"
    and b: "b = filled_base_plan P prompt options (fst vision) (snd vision) ck"
    using assms unfolding plan_request_base_def Let_def rbind_Inr_iff by blast
  show "0 < length (pp_token_ids prompt)" "length (pp_token_ids prompt) \<le> unat (pc_capacity P)"
    using v unfolding validate_prompt_def rbind_Inr_iff throw_if_Inr_iff by auto
  show "ps_prompt_tokens (bp_summary b) = ps_prompt_tokens ?s"
    "ps_effective_output_tokens (bp_summary b) = ps_effective_output_tokens ?s"
    "ps_effective_limit_reason (bp_summary b) = ps_effective_limit_reason ?s"
    "bp_text_kv_page_entitlement b = plan_pages (reserved_tokens ?s)"
    "ps_admission (bp_summary b) = \<lparr>active_lanes = 1,
      main_kv_pages = bp_text_kv_page_entitlement b, backend_kv_pages = bp_backend_kv_page_entitlement b\<rparr>"
    by (simp_all add: b filled_base_plan_def Let_def)
  show "0 < rc_frontier c \<and> rc_frontier c \<le> ps_prompt_tokens (bp_summary b)"
    if "bp_rewrite_checkpoint b = Some c" for c
    using ck that unfolding plan_checkpoint_def
    by (auto simp: b filled_base_plan_def Let_def word_gt_0 not_less split: option.splits if_splits)
qed


section \<open>Properties\<close>


text \<open>
  C8. A base plan stays within the context capacity. When planning succeeds, the prompt is not
  empty and fits the capacity, prompt and output together never need more than the capacity, the
  output is cut exactly when the request asked for more than fits and the limit reason says so, and
  the K/V pages the request is admitted with cover the reserved tokens with less than one page to
  spare.
\<close>

theorem base_plan_within_capacity:
  assumes "plan_request_base P prompt options = Inr b"
  shows "unat (ps_prompt_tokens (bp_summary b)) = length (pp_token_ids prompt)
    \<and> 0 < length (pp_token_ids prompt) \<and> length (pp_token_ids prompt) \<le> unat (pc_capacity P)
    \<and> unat (ps_effective_output_tokens (bp_summary b)) =
        min (unat (xo_requested_output_tokens options))
          (unat (pc_capacity P) - length (pp_token_ids prompt) + 1)
    \<and> (ps_effective_limit_reason (bp_summary b) = ContextCapacity \<longleftrightarrow>
        unat (ps_effective_output_tokens (bp_summary b)) < unat (xo_requested_output_tokens options))
    \<and> (let reserved = length (pp_token_ids prompt)
             + (unat (ps_effective_output_tokens (bp_summary b)) - 1);
           pages = unat (main_kv_pages (ps_admission (bp_summary b)))
       in reserved \<le> unat (pc_capacity P) \<and> reserved \<le> 64 * pages \<and> 64 * pages < reserved + 64)"
proof -
  note shape = plan_request_base_shape [OF assms]
  note budget = base_budget [OF shape(1,2) refl, of options]
  have pos: "0 < unat (reserved_tokens (base_summary P prompt options))"
    using budget(3) shape(1) by simp
  have "ps_effective_limit_reason (bp_summary b) = ContextCapacity \<longleftrightarrow>
      unat (ps_effective_output_tokens (bp_summary b)) < unat (xo_requested_output_tokens options)"
    unfolding shape(4,5) by (auto simp: base_summary_def Let_def min_def word_less_nat_alt word_le_nat_alt)
  thus ?thesis
    using budget shape plan_pages_bounds [OF pos] by (simp add: Let_def)
qed


section \<open>A concrete plan\<close>

definition sample_prompt :: prepared_prompt where
  "sample_prompt = \<lparr>pp_token_ids = [5, 6, 7, 8], pp_token_types = [0, 0, 0, 0],
     pp_positions = [0, 1, 2, 3, 0, 1, 2, 3, 0, 1, 2, 3], pp_media_payloads = [],
     pp_vision_items = [], pp_reusable = True, pp_rewrite_checkpoint = None\<rparr>"

definition sample_sequence :: sequence_state where
  "sample_sequence = \<lparr>sq_has_kv = True, sq_execution_frontier = 3, sq_ledger = [5, 6, 7],
     sq_prefix_identity = \<lparr>ri_token_types = [0, 0, 0],
       ri_positions = [[0, 1, 2], [0, 1, 2], [0, 1, 2]], ri_vision_items = []\<rparr>,
     sq_mtp_kv_valid = 3, sq_dflash_context_frontier = 0, sq_tail_hidden_valid = True,
     sq_retained = True,
     sq_rewrite_checkpoint = \<lparr>ck_valid = False, ck_kind = TurnClosure, ck_frontier = 0\<rparr>\<rparr>"

definition sample_core :: program_core where
  "sample_core = \<lparr>pc_capacity = 100, pc_token_domain = 248077, pc_vision_enabled = False,
     pc_speculative_backend = SpecMtp, pc_draft_window = 3, pc_prefill_chunk = 512,
     pc_dflash_full_layers = False, pc_has_mtp_cache = True, pc_has_dflash = False,
     pc_work_capacity = 0, pc_lanes = [(LcComplete, sample_sequence)],
     pc_build_vision_control = (\<lambda>p. Inr []), pc_workspace_bytes = (\<lambda>item. 0),
     pc_output_transient_bytes = (\<lambda>n. 0)\<rparr>"

definition sample_execution :: execution_options where
  "sample_execution = \<lparr>xo_sampling = \<lparr>sp_temperature = Finite 0, sp_top_k = 0, sp_top_p = Finite 1,
       sp_min_p = Finite 0, sp_presence_penalty = Finite 0, sp_frequency_penalty = Finite 0,
       sp_seed = 7\<rparr>,
     xo_requested_output_tokens = 200, xo_allow_prefix_reuse = True\<rparr>"

definition sample_base :: base_plan where
  "sample_base = filled_base_plan sample_core sample_prompt sample_execution None 0 None"

lemma sample_base_plan: "plan_request_base sample_core sample_prompt sample_execution = Inr sample_base"
  by (simp add: plan_request_base_def validate_prompt_def validate_plan_sampling_def plan_vision_def
      plan_checkpoint_def sample_base_def sample_prompt_def sample_core_def sample_execution_def)

definition sample_lane_plan :: request_plan where
  "sample_lane_plan = projr (plan_request_for_lane sample_core 0 sample_prompt (Some sample_base))"

lemma sample_plan_ok:
  "plan_request_for_lane sample_core 0 sample_prompt (Some sample_base) = Inr sample_lane_plan
   \<and> rp_reuse sample_lane_plan = AppendAtFrontier"
  by code_simp


theorem base_plan_within_capacity_witness:
  "unat (ps_effective_output_tokens (bp_summary sample_base)) =
     min (unat (xo_requested_output_tokens sample_execution))
       (unat (pc_capacity sample_core) - length (pp_token_ids sample_prompt) + 1)"
  using base_plan_within_capacity [OF sample_base_plan] by blast

end
