(* ===== verification/Sha256.thy ===== *)
theory Sha256
  imports Prelude
begin

text \<open>
  The content digest of media items (\<open>src/src/targets/qwen3_6/impl/frontend/digest.cpp\<close>): SHA-256
  on byte lists, with the code's own handling of the last one or two blocks in a 128-byte buffer.
  The optional \<open>checkpoint\<close> callback runs at every mebibyte and may throw; it is a function of the
  offset, constantly \<open>None\<close> when absent. The reference definition pads the message as the standard
  does and folds the compression function over its 64-byte blocks.
\<close>

section \<open>Compression\<close>

definition kRound :: "u32 list" where
  "kRound = concat [
     [0x428a2f98, 0x71374491, 0xb5c0fbcf, 0xe9b5dba5, 0x3956c25b, 0x59f111f1, 0x923f82a4],
     [0xab1c5ed5, 0xd807aa98, 0x12835b01, 0x243185be, 0x550c7dc3, 0x72be5d74, 0x80deb1fe],
     [0x9bdc06a7, 0xc19bf174, 0xe49b69c1, 0xefbe4786, 0x0fc19dc6, 0x240ca1cc, 0x2de92c6f],
     [0x4a7484aa, 0x5cb0a9dc, 0x76f988da, 0x983e5152, 0xa831c66d, 0xb00327c8, 0xbf597fc7],
     [0xc6e00bf3, 0xd5a79147, 0x06ca6351, 0x14292967, 0x27b70a85, 0x2e1b2138, 0x4d2c6dfc],
     [0x53380d13, 0x650a7354, 0x766a0abb, 0x81c2c92e, 0x92722c85, 0xa2bfe8a1, 0xa81a664b],
     [0xc24b8b70, 0xc76c51a3, 0xd192e819, 0xd6990624, 0xf40e3585, 0x106aa070, 0x19a4c116],
     [0x1e376c08, 0x2748774c, 0x34b0bcb5, 0x391c0cb3, 0x4ed8aa4a, 0x5b9cca4f, 0x682e6ff3],
     [0x748f82ee, 0x78a5636f, 0x84c87814, 0x8cc70208, 0x90befffa, 0xa4506ceb, 0xbef9a3f7],
     [0xc67178f2]]"

definition load_be32 :: "byte list \<Rightarrow> u32" where
  "load_be32 bytes = push_bit 24 (ucast (bytes ! 0)) OR push_bit 16 (ucast (bytes ! 1))
     OR push_bit 8 (ucast (bytes ! 2)) OR ucast (bytes ! 3)"

definition store_be32 :: "u32 \<Rightarrow> byte list" where
  "store_be32 value = [ucast (drop_bit 24 value), ucast (drop_bit 16 value),
     ucast (drop_bit 8 value), ucast value]"

text \<open>The second loop of the message schedule, over the indices still to fill.\<close>

definition schedule_word :: "u32 list \<Rightarrow> nat \<Rightarrow> u32" where
  "schedule_word words i = (
     let x = words ! (i - 15); y = words ! (i - 2);
         s0 = word_rotr 7 x XOR word_rotr 18 x XOR drop_bit 3 x;
         s1 = word_rotr 17 y XOR word_rotr 19 y XOR drop_bit 10 y
     in words ! (i - 16) + s0 + words ! (i - 7) + s1)"

definition message_schedule :: "byte list \<Rightarrow> u32 list" where
  "message_schedule block =
     fold (\<lambda>i words. words @ [schedule_word words i]) [16..<64]
       (map (\<lambda>i. load_be32 (drop (4 * i) block)) [0..<16])"

definition round_step :: "u32 list \<Rightarrow> u32 \<Rightarrow> u32 \<Rightarrow> u32 list" where
  "round_step v k w = (
     let a = v ! 0; b = v ! 1; c = v ! 2; d = v ! 3; e = v ! 4; f = v ! 5; g = v ! 6; h = v ! 7;
         sum1 = word_rotr 6 e XOR word_rotr 11 e XOR word_rotr 25 e;
         choice = (e AND f) XOR (NOT e AND g);
         t1 = h + sum1 + choice + k + w;
         sum0 = word_rotr 2 a XOR word_rotr 13 a XOR word_rotr 22 a;
         majority = (a AND b) XOR (a AND c) XOR (b AND c);
         t2 = sum0 + majority
     in [t1 + t2, a, b, c, d + t1, e, f, g])"

definition process_block :: "u32 list \<Rightarrow> byte list \<Rightarrow> u32 list" where
  "process_block state block =
     map2 (+) state (fold (\<lambda>(k, w) v. round_step v k w) (zip kRound (message_schedule block)) state)"

section \<open>The digest\<close>

definition initial_state :: "u32 list" where
  "initial_state = [0x6a09e667, 0xbb67ae85, 0x3c6ef372, 0xa54ff53a,
     0x510e527f, 0x9b05688c, 0x1f83d9ab, 0x5be0cd19]"

function block_loop ::
  "(nat \<Rightarrow> exn option) \<Rightarrow> byte list \<Rightarrow> nat \<Rightarrow> u32 list \<Rightarrow> (nat \<times> u32 list) result" where
  "block_loop checkpoint input offset state = (
     if 64 \<le> length input - offset then
       (case (if offset mod 2 ^ 20 = 0 then checkpoint offset else None) of
          Some e \<Rightarrow> Inl e
        | None \<Rightarrow> block_loop checkpoint input (offset + 64)
                    (process_block state (take 64 (drop offset input))))
     else Inr (offset, state))"
  by pat_completeness auto
termination by (relation "measure (\<lambda>(checkpoint, input, offset, state). length input - offset)") auto

declare block_loop.simps [simp del]

text \<open>The buffer of the last blocks and the number of its bytes that are used.\<close>

definition tail_buffer :: "byte list \<Rightarrow> u64 \<Rightarrow> nat \<times> byte list" where
  "tail_buffer remaining bits = (
     let tail = (remaining @ replicate (128 - length remaining) 0)[length remaining := 0x80];
         tail_size = (if length remaining < 56 then 64 else 128)
     in (tail_size,
         fold (\<lambda>i tail. tail[tail_size - 1 - i := ucast (drop_bit (8 * i) bits)]) [0..<8] tail))"

definition sha256_checkpoint :: "byte list \<Rightarrow> (nat \<Rightarrow> exn option) \<Rightarrow> byte list result" where
  "sha256_checkpoint input checkpoint = (
     if (2 ^ 64 - 1) div 8 < int (length input)
     then Inl (invalid_argument ''payload is too large to fingerprint'')
     else rbind (block_loop checkpoint input 0 initial_state) (\<lambda>(offset, state).
     case tail_buffer (drop offset input) (of_nat (length input) * 8) of (tail_size, tail) \<Rightarrow>
     let state = process_block state (take 64 tail);
         state = (if tail_size = 128 then process_block state (drop 64 tail) else state)
     in Inr (concat (map store_be32 state))))"

definition sha256 :: "byte list \<Rightarrow> byte list result" where
  "sha256 input = sha256_checkpoint input (\<lambda>offset. None)"

definition hex_char :: "nat \<Rightarrow> char" where
  "hex_char n = ''0123456789abcdef'' ! n"

definition sha256_hex :: "byte list \<Rightarrow> string" where
  "sha256_hex digest =
     concat (map (\<lambda>b. [hex_char (unat (drop_bit 4 b)), hex_char (unat (b AND 0x0f))]) digest)"

section \<open>The standard's definition\<close>

definition be64 :: "u64 \<Rightarrow> byte list" where
  "be64 bits = map (\<lambda>i. ucast (drop_bit (8 * (7 - i)) bits)) [0..<8]"

definition padded :: "byte list \<Rightarrow> byte list" where
  "padded message = message @ [0x80] @ replicate ((119 - length message mod 64) mod 64) 0
     @ be64 (of_nat (8 * length message))"

function blocks :: "byte list \<Rightarrow> byte list list" where
  "blocks message = (if length message < 64 then [] else take 64 message # blocks (drop 64 message))"
  by pat_completeness auto
termination by (relation "measure length") auto

declare blocks.simps [simp del]

definition sha256_standard :: "byte list \<Rightarrow> byte list" where
  "sha256_standard message =
     concat (map store_be32 (foldl process_block initial_state (blocks (padded message))))"

section \<open>Equivalence\<close>

lemma blocks_append:
  "blocks (xs @ ys) = blocks xs @ blocks (drop (64 * (length xs div 64)) xs @ ys)"
proof (induction xs rule: blocks.induct)
  case (1 xs)
  show ?case
  proof (cases "length xs < 64")
    case True
    thus ?thesis by (simp add: blocks.simps [of xs])
  next
    case False
    hence "length (drop 64 xs) div 64 = length xs div 64 - 1"
      by (simp add: le_div_geq)
    moreover have "1 \<le> length xs div 64" using False by (simp add: div_greater_zero_iff)
    ultimately have "64 * (length (drop 64 xs) div 64) + 64 = 64 * (length xs div 64)"
      by simp
    thus ?thesis
      using 1 [OF False] False
      by (simp add: blocks.simps [of xs] blocks.simps [of "xs @ ys"] add.commute)
  qed
qed

lemma block_loop_result:
  assumes "\<And>offset. checkpoint offset = None" and "offset \<le> length input"
  shows "block_loop checkpoint input offset state =
    Inr (offset + 64 * (length (drop offset input) div 64),
         foldl process_block state (blocks (drop offset input)))"
  using assms
proof (induction checkpoint input offset state rule: block_loop.induct)
  case (1 checkpoint input offset state)
  show ?case
  proof (cases "64 \<le> length input - offset")
    case False
    thus ?thesis
      by (simp add: block_loop.simps [of checkpoint input offset] blocks.simps [of "drop offset input"])
  next
    case True
    have "block_loop checkpoint input offset state = block_loop checkpoint input (offset + 64)
        (process_block state (take 64 (drop offset input)))"
      using True 1(2) by (simp add: block_loop.simps [of checkpoint input offset])
    also have "\<dots> = Inr (offset + 64 + 64 * (length (drop (offset + 64) input) div 64),
         foldl process_block (process_block state (take 64 (drop offset input)))
           (blocks (drop (offset + 64) input)))"
      using True 1(2,3) by (intro 1(1)) auto
    also have "offset + 64 + 64 * (length (drop (offset + 64) input) div 64)
        = offset + 64 * (length (drop offset input) div 64)"
    proof -
      have "(length input - offset) div 64 = Suc ((length input - offset - 64) div 64)"
        using True by (simp add: le_div_geq)
      thus ?thesis by simp
    qed
    finally show ?thesis
      using True by (simp add: blocks.simps [of "drop offset input"] add.commute)
  qed
qed


lemma write_tail:
  "fold (\<lambda>i t. t[length a + 7 - i := f i]) [0..<8] (a @ replicate 8 x @ z) =
     a @ map (\<lambda>i. f (7 - i)) [0..<8] @ z"
proof -
  have "[0..<8] = [0, 1, 2, 3, 4, 5, 6, 7 :: nat]" by (simp add: upt_rec)
  thus ?thesis by (simp add: list_update_append numeral_eq_Suc)
qed

lemma tail_buffer_padding:
  assumes r: "length r < 64"
  defines "z \<equiv> (119 - length r) mod 64"
  shows "\<exists>n zs. tail_buffer r bits = (n, r @ [0x80] @ replicate z 0 @ be64 bits @ zs)
    \<and> n = length r + 1 + z + 8 \<and> (n = 64 \<or> n = 128 \<and> zs = []) \<and> length r + 1 + z + 8 + length zs = 128"
proof -
  let ?n = "if length r < 56 then 64 else 128 :: nat"
  have z: "length r + 1 + z + 8 = ?n"
    using r by (auto simp: z_def mod_if)
  let ?a = "r @ [0x80] @ replicate z 0" and ?zs = "replicate (128 - ?n) (0 :: byte)"
  have "(r @ replicate (128 - length r) 0)[length r := 0x80] = r @ [0x80] @ replicate (127 - length r) 0"
  proof -
    have "replicate (128 - length r) (0 :: byte) = 0 # replicate (127 - length r) 0"
      using r by (simp add: Suc_diff_le flip: replicate_Suc)
    thus ?thesis by simp
  qed
  also have "127 - length r = z + 8 + (128 - ?n)"
    using z r by simp
  finally have start: "(r @ replicate (128 - length r) 0)[length r := 0x80] = ?a @ replicate 8 0 @ ?zs"
    by (simp only: replicate_add append_assoc)
  have pos: "?n - 1 - i = length ?a + 7 - i" for i using z by simp
  have "tail_buffer r bits = (?n, fold (\<lambda>i t. t[length ?a + 7 - i := ucast (drop_bit (8 * i) bits)])
      [0..<8] (?a @ replicate 8 0 @ ?zs))"
    unfolding tail_buffer_def Let_def start pos by simp
  also have "\<dots> = (?n, ?a @ be64 bits @ ?zs)"
    unfolding write_tail be64_def by simp
  finally show ?thesis using z by (intro exI [of _ ?n] exI [of _ ?zs]) auto
qed

text \<open>The bytes of a padded message behind its last whole block.\<close>

lemma padded_blocks:
  fixes m :: "byte list"
  defines "r \<equiv> drop (64 * (length m div 64)) m"
  shows "blocks (padded m) = blocks m
    @ blocks (r @ [0x80] @ replicate ((119 - length r) mod 64) 0 @ be64 (of_nat (8 * length m)))"
proof -
  have "length r = length m mod 64"
    by (simp add: r_def minus_mult_div_eq_mod)
  thus ?thesis
    unfolding padded_def using blocks_append [of m] by (simp add: r_def)
qed

lemma blocks_one: "length p = 64 \<Longrightarrow> blocks p = [p]"
  using blocks.simps [of p] blocks.simps [of "[]"] by simp

lemma blocks_two: "length p = 128 \<Longrightarrow> blocks p = [take 64 p, drop 64 p]"
  using blocks.simps [of p] blocks_one [of "drop 64 p"] by simp

section \<open>Property\<close>


definition sample_message :: "byte list" where
  "sample_message = map (\<lambda>c. of_nat (of_char c)) ''abc''"


end
