(* ===== verification/Target_Indexing.thy ===== *)
theory Target_Indexing
  imports Prelude
begin

text \<open>
  Index arithmetic of the Qwen3.6 target: the mapping from request lanes to linear-attention state
  slots (\<open>linear_state_slots.h\<close>) and the alignment of the speculative MTP head with a prompt chunk,
  whose embeddings are shifted by one position, including the vision columns that fall into the
  shifted window (\<open>mtp_alignment.h\<close>). Unsigned values keep their 32 bits; signed ones are
  integers, and the cast from unsigned to signed is \<open>to_i32\<close>.
\<close>

definition to_i32 :: "u32 \<Rightarrow> int" where
  "to_i32 w = (if uint w < 2 ^ 31 then uint w else uint w - 2 ^ 32)"

section \<open>Linear-attention state slots\<close>

definition state_slot_count :: "u32 \<Rightarrow> int result" where
  "state_slot_count max_concurrency =
     (if max_concurrency = 0 \<or> 1073741823 < max_concurrency
      then Inl (invalid_argument ''Qwen3.6 Linear Attention concurrency is invalid'')
      else Inr (to_i32 (2 * max_concurrency)))"

definition current_state_slot :: "u32 \<Rightarrow> u32 \<Rightarrow> int result" where
  "current_state_slot lane max_concurrency =
     (if max_concurrency \<le> lane then Inl (out_of_range ''Qwen3.6 Linear Attention lane is out of range'')
      else Inr (to_i32 lane))"

definition rewrite_checkpoint_state_slot :: "u32 \<Rightarrow> u32 \<Rightarrow> int result" where
  "rewrite_checkpoint_state_slot lane max_concurrency =
     rbind (current_state_slot lane max_concurrency) (\<lambda>slot. Inr (to_i32 max_concurrency + slot))"

section \<open>MTP alignment\<close>

record mtp_alignment_window =
  aw_hidden_begin :: u32
  aw_position_begin :: u32
  aw_shifted_embedding_begin :: u32
  aw_columns :: u32
  aw_final_column_uses_generated_token :: bool

definition plan_mtp_alignment_window :: "u32 \<Rightarrow> u32 \<Rightarrow> u32 \<Rightarrow> mtp_alignment_window result" where
  "plan_mtp_alignment_window prompt_tokens chunk_begin columns = (
     if columns = 0 \<or> prompt_tokens \<le> chunk_begin \<or> prompt_tokens - chunk_begin < columns
     then Inl (invalid_argument ''MTP alignment window is outside the prompt'')
     else if chunk_begin = - 1
     then Inl (overflow_error ''MTP shifted embedding position exceeds uint32'')
     else Inr \<lparr>aw_hidden_begin = chunk_begin, aw_position_begin = chunk_begin,
       aw_shifted_embedding_begin = chunk_begin + 1, aw_columns = columns,
       aw_final_column_uses_generated_token = (columns = prompt_tokens - chunk_begin)\<rparr>)"

record mtp_visual_overlap =
  vo_source_begin :: nat
  vo_destination_columns :: "int list"

text \<open>\<open>std::lower_bound\<close> on a sorted range: the partition point of the elements below \<open>v\<close>.\<close>

definition first_not_below :: "int list \<Rightarrow> int \<Rightarrow> nat" where
  "first_not_below xs v = length (takeWhile (\<lambda>x. x < v) xs)"

definition shifted_visual_overlap ::
  "int list \<Rightarrow> u32 \<Rightarrow> mtp_alignment_window \<Rightarrow> mtp_visual_overlap result" where
  "shifted_visual_overlap scatter prompt_tokens w = (
     if \<not> sorted scatter \<or> (\<exists>i \<in> set [0..<length scatter - 1]. scatter ! i = scatter ! (i + 1))
     then Inl (invalid_argument ''MTP visual scatter indices must be sorted and unique'')
     else if scatter \<noteq> [] \<and> hd scatter < 0
     then Inl (invalid_argument ''MTP visual scatter index is negative'')
     else if aw_columns w = 0 \<or> prompt_tokens < aw_shifted_embedding_begin w
       \<or> prompt_tokens - aw_hidden_begin w < aw_columns w
       \<or> aw_shifted_embedding_begin w \<noteq> aw_hidden_begin w + 1
     then Inl (invalid_argument ''MTP visual overlap received an invalid alignment window'')
     else if scatter = [] \<or> prompt_tokens \<le> aw_shifted_embedding_begin w
     then Inr \<lparr>vo_source_begin = 0, vo_destination_columns = []\<rparr>
     else
       let raw_end = ucast (aw_shifted_embedding_begin w) + ucast (aw_columns w) :: u64;
           shifted_end = ucast (min (ucast prompt_tokens) raw_end) :: u32;
           base = to_i32 (aw_shifted_embedding_begin w);
           first = first_not_below scatter base;
           final = first + first_not_below (drop first scatter) (to_i32 shifted_end)
       in Inr \<lparr>vo_source_begin = first,
            vo_destination_columns = map (\<lambda>x. x - base) (take (final - first) (drop first scatter))\<rparr>)"

section \<open>Properties\<close>

text \<open>
  C40. Every lane owns two state slots of its own: with a concurrency for which the slot count is
  defined, the current and the checkpoint slots of all lanes lie below the count, the two roles
  never share a slot, and different lanes have different slots in both roles.
\<close>

theorem state_slots_disjoint:
  assumes "state_slot_count max_concurrency = Inr n" and "lane < max_concurrency"
    and "lane' < max_concurrency"
  shows "\<exists>cur chk cur' chk'. current_state_slot lane max_concurrency = Inr cur
    \<and> rewrite_checkpoint_state_slot lane max_concurrency = Inr chk
    \<and> current_state_slot lane' max_concurrency = Inr cur'
    \<and> rewrite_checkpoint_state_slot lane' max_concurrency = Inr chk'
    \<and> 0 \<le> cur \<and> cur < n \<and> 0 \<le> chk \<and> chk < n \<and> cur \<noteq> chk'
    \<and> (cur = cur' \<longleftrightarrow> lane = lane') \<and> (chk = chk' \<longleftrightarrow> lane = lane')"
proof -
  have m: "uint max_concurrency \<le> 1073741823" "max_concurrency \<noteq> 0"
    using assms(1) by (auto simp: state_slot_count_def word_le_def not_less split: if_splits)
  have "uint (2 * max_concurrency) = 2 * uint max_concurrency"
    using m(1) by (simp add: uint_word_ariths)
  hence n: "n = 2 * uint max_concurrency"
    using assms(1) m(1) by (auto simp: state_slot_count_def to_i32_def split: if_splits)
  have l: "uint lane < uint max_concurrency" "uint lane' < uint max_concurrency"
    using assms(2,3) by (simp_all add: word_less_def)
  have slots: "current_state_slot k max_concurrency = Inr (uint k)"
    "rewrite_checkpoint_state_slot k max_concurrency = Inr (uint max_concurrency + uint k)"
    if "uint k < uint max_concurrency" for k
    using that m(1) by (simp_all add: current_state_slot_def rewrite_checkpoint_state_slot_def
        to_i32_def word_le_def)
  have eq: "uint lane = uint lane' \<longleftrightarrow> lane = lane'" by (simp add: word_uint_eq_iff)
  let ?m = "uint max_concurrency"
  have "0 \<le> uint lane \<and> uint lane < n \<and> 0 \<le> ?m + uint lane \<and> ?m + uint lane < n
      \<and> uint lane \<noteq> ?m + uint lane'"
    using n l uint_ge_0 [of lane] uint_ge_0 [of lane'] by linarith
  moreover have "?m + uint lane = ?m + uint lane' \<longleftrightarrow> lane = lane'" using eq by simp
  ultimately show ?thesis
    unfolding slots [OF l(1)] slots [OF l(2)] using eq by blast
qed

theorem state_slots_disjoint_witness:
  "current_state_slot 1 3 = Inr 1 \<and> rewrite_checkpoint_state_slot 2 3 = Inr 5 \<and> (1 :: int) < 6"
proof -
  have "state_slot_count 3 = Inr 6" by code_simp
  moreover have "(1 :: u32) < 3" "(2 :: u32) < 3" by simp_all
  moreover have "current_state_slot 1 3 = Inr 1 \<and> rewrite_checkpoint_state_slot 2 3 = Inr 5" by code_simp
  ultimately show ?thesis using state_slots_disjoint [of 3 6 1 2] by auto
qed


lemma first_not_below_split: "take (first_not_below xs v) xs = takeWhile (\<lambda>x. x < v) xs"
  "drop (first_not_below xs v) xs = dropWhile (\<lambda>x. x < v) xs"
  unfolding first_not_below_def
  by (metis append_eq_conv_conj takeWhile_dropWhile_id)+

lemma sorted_between:
  assumes "sorted (xs :: int list)"
  shows "takeWhile (\<lambda>x. x < b) (dropWhile (\<lambda>x. x < a) xs) = filter (\<lambda>x. a \<le> x \<and> x < b) xs"
  using assms
proof (induction xs)
  case (Cons x xs)
  have above: "filter (\<lambda>x. a \<le> x \<and> x < b) xs = takeWhile (\<lambda>x. x < b) xs" if "a \<le> x"
    using Cons.prems that
  proof (induction xs)
    case (Cons y ys)
    show ?case
    proof (cases "y < b")
      case False
      hence "filter (\<lambda>x. a \<le> x \<and> x < b) ys = []" using Cons.prems by (force simp: filter_empty_conv)
      thus ?thesis using False by simp
    qed (use Cons in auto)
  qed simp
  have "takeWhile (\<lambda>x. x < b) xs = []" if "\<not> x < b"
    using Cons.prems that by (cases xs) auto
  thus ?case using Cons above by auto
qed simp

text \<open>
  C39. The vision columns of a shifted window are exactly those inside it. For a prompt of fewer
  than 2^31 tokens, when the overlap of a window is computed, the destination columns are the
  scatter indices that lie in the shifted window and inside the prompt, moved to the window's
  start and in order; each is a column of the window, and they are consecutive entries of the
  scatter list from the reported source.
\<close>

theorem visual_overlap_exact:
  assumes ok: "shifted_visual_overlap scatter prompt_tokens w = Inr v"
    and small: "uint prompt_tokens < 2 ^ 31"
  shows "let b = uint (aw_shifted_embedding_begin w);
             e = min (uint prompt_tokens) (b + uint (aw_columns w));
             cols = vo_destination_columns v
    in map (\<lambda>c. c + b) cols = filter (\<lambda>x. b \<le> x \<and> x < e) scatter
      \<and> (\<forall>c \<in> set cols. 0 \<le> c \<and> c < uint (aw_columns w))
      \<and> (cols \<noteq> [] \<longrightarrow> map (\<lambda>c. c + b) cols = take (length cols) (drop (vo_source_begin v) scatter))"
proof -
  define b where "b = uint (aw_shifted_embedding_begin w)"
  define e where "e = min (uint prompt_tokens) (b + uint (aw_columns w))"
  have srt: "sorted scatter"
    using ok by (auto simp: shifted_visual_overlap_def Let_def split: if_splits)
  define within where "within = filter (\<lambda>x. b \<le> x \<and> x < e) scatter"
  have "vo_destination_columns v = map (\<lambda>x. x - b) within
    \<and> (within \<noteq> [] \<longrightarrow> within = take (length within) (drop (vo_source_begin v) scatter))"
  proof (cases "scatter = [] \<or> prompt_tokens \<le> aw_shifted_embedding_begin w")
    case True
    hence "within = []"
      by (auto simp: within_def e_def b_def word_le_def filter_empty_conv)
    thus ?thesis
      using ok True by (auto simp: shifted_visual_overlap_def Let_def split: if_splits)
  next
    case False
    hence lt: "b < uint prompt_tokens" by (simp add: b_def word_le_def not_le)
    have base: "to_i32 (aw_shifted_embedding_begin w) = b"
      using lt small by (simp add: to_i32_def b_def)
    let ?raw = "ucast (aw_shifted_embedding_begin w) + ucast (aw_columns w) :: u64"
    have bounds: "uint (aw_shifted_embedding_begin w) < 2 ^ 32" "uint (aw_columns w) < 2 ^ 32"
      using uint_lt2p [of "aw_shifted_embedding_begin w"] uint_lt2p [of "aw_columns w"] by simp_all
    have wide: "uint (ucast x :: u64) = uint x" for x :: u32
      using uint_lt2p [of x] by (simp add: unsigned_ucast_eq take_bit_int_eq_self)
    have raw: "uint ?raw = b + uint (aw_columns w)"
      using bounds by (simp add: uint_word_ariths wide b_def)
    have mn: "uint (min (ucast prompt_tokens) ?raw) = e"
      using raw wide by (simp add: min_def word_le_def e_def)
    have "e < 2 ^ 31" using small by (simp add: e_def)
    hence fin: "to_i32 (ucast (min (ucast prompt_tokens) ?raw) :: u32) = e"
      using mn lt by (simp add: to_i32_def unsigned_ucast_eq take_bit_int_eq_self e_def b_def)
    have mid: "take (first_not_below (drop (first_not_below scatter b) scatter) e)
        (drop (first_not_below scatter b) scatter) = within"
      unfolding first_not_below_split within_def by (rule sorted_between [OF srt])
    have "v = \<lparr>vo_source_begin = first_not_below scatter b, vo_destination_columns = map (\<lambda>x. x - b) within\<rparr>"
      using ok False unfolding shifted_visual_overlap_def Let_def base fin diff_add_inverse mid
      by (simp split: if_splits)
    thus ?thesis using arg_cong [OF mid, of length] mid by (auto simp: min_def split: if_splits)
  qed
  moreover have "\<forall>x \<in> set within. b \<le> x \<and> x < b + uint (aw_columns w)"
    by (auto simp: within_def e_def)
  ultimately show ?thesis
    unfolding Let_def b_def [symmetric] e_def [symmetric] within_def [symmetric]
    by (auto simp: comp_def)
qed

definition sample_window :: mtp_alignment_window where
  "sample_window = \<lparr>aw_hidden_begin = 4, aw_position_begin = 4, aw_shifted_embedding_begin = 5,
     aw_columns = 4, aw_final_column_uses_generated_token = False\<rparr>"

theorem visual_overlap_exact_witness:
  "map (\<lambda>c. c + 5) [0, 2, 3] = filter (\<lambda>x. 5 \<le> x \<and> x < 9) [3, 4, 5, 7, 8, 9 :: int]"
proof -
  have "shifted_visual_overlap [3, 4, 5, 7, 8, 9] 20 sample_window =
      Inr \<lparr>vo_source_begin = 2, vo_destination_columns = [0, 2, 3]\<rparr>" by code_simp
  from visual_overlap_exact [OF this] show ?thesis by (simp add: sample_window_def Let_def)
qed

end
