(* ===== verification/Device_Copy.thy ===== *)
theory Device_Copy
  imports Layout
begin

text \<open>
  Device memory as the storage components see it: bytes at 64-bit addresses, and the two stream
  operations they issue, \<open>cudaMemcpyAsync\<close> between device addresses and \<open>cudaMemsetAsync\<close>. Both
  belong to the CUDA runtime; they are parameters of the operations that call them, with the
  part of their documentation the code relies on as the laws below. The memory is the one the
  stream leaves behind once it has run the operations issued so far, in the order of issue.
  The lemmas describe a sequence of such writes with pairwise disjoint targets.
\<close>

section \<open>Byte ranges and the laws of the runtime calls\<close>

type_synonym memory = "u64 \<Rightarrow> byte"

type_synonym memcpy_call = "u64 \<Rightarrow> u64 \<Rightarrow> u64 \<Rightarrow> (memory, unit) prog"

type_synonym memset_call = "u64 \<Rightarrow> byte \<Rightarrow> u64 \<Rightarrow> (memory, unit) prog"

definition byte_range :: "u64 \<Rightarrow> u64 \<Rightarrow> u64 set" where
  "byte_range p n = {a. unat p \<le> unat a \<and> unat a < unat p + unat n}"

definition no_wrap :: "u64 \<Rightarrow> u64 \<Rightarrow> bool" where
  "no_wrap p n = (unat p + unat n \<le> u64_max)"

text \<open>
  A copy between two ranges that do not overlap changes the destination only; when the call
  reports success, every destination byte is the source byte at the same distance. Nothing is
  assumed about the contents of the destination after a failed call.
\<close>

definition memcpy_law :: "memcpy_call \<Rightarrow> bool" where
  "memcpy_law memcpy = (\<forall>dst src n m r m'.
     no_wrap dst n \<longrightarrow> no_wrap src n \<longrightarrow> byte_range dst n \<inter> byte_range src n = {} \<longrightarrow>
     memcpy dst src n m = (r, m') \<longrightarrow>
       (\<forall>a. a \<notin> byte_range dst n \<longrightarrow> m' a = m a) \<and>
       (r = Inr () \<longrightarrow> (\<forall>a \<in> byte_range dst n. m' a = m (src + (a - dst)))))"

definition memset_law :: "memset_call \<Rightarrow> bool" where
  "memset_law memset = (\<forall>dst v n m r m'.
     no_wrap dst n \<longrightarrow> memset dst v n m = (r, m') \<longrightarrow>
       (\<forall>a. a \<notin> byte_range dst n \<longrightarrow> m' a = m a) \<and>
       (r = Inr () \<longrightarrow> (\<forall>a \<in> byte_range dst n. m' a = v)))"

text \<open>The bytes of a range, in order.\<close>

definition read_bytes :: "memory \<Rightarrow> u64 \<Rightarrow> u64 \<Rightarrow> byte list" where
  "read_bytes m p n = map (\<lambda>k. m (p + word_of_nat k)) [0..<unat n]"

lemma unat_plus_nat:
  assumes "unat p + k \<le> u64_max"
  shows "unat (p + word_of_nat k :: u64) = unat p + k"
  using assms by (simp add: unat_add_u64 unat_of_nat)

lemma byte_range_member:
  assumes "no_wrap p n" "k < unat n"
  shows "p + word_of_nat k \<in> byte_range p n"
  using assms unat_plus_nat [of p k] by (simp add: byte_range_def no_wrap_def)

lemma read_bytes_cong:
  assumes "no_wrap p n" "\<And>a. a \<in> byte_range p n \<Longrightarrow> m a = m' a"
  shows "read_bytes m p n = read_bytes m' p n"
  using assms byte_range_member [OF assms(1)] by (simp add: read_bytes_def)

lemma read_bytes_copied:
  assumes "no_wrap p n" "\<And>a. a \<in> byte_range p n \<Longrightarrow> m' a = m (q + (a - p))"
  shows "read_bytes m' p n = read_bytes m q n"
  using assms(2) byte_range_member [OF assms(1)] by (simp add: read_bytes_def)

lemma read_bytes_filled:
  assumes "no_wrap p n" "\<And>a. a \<in> byte_range p n \<Longrightarrow> m a = v"
  shows "read_bytes m p n = replicate (unat n) v"
  using assms byte_range_member [OF assms(1)]
  by (auto simp: read_bytes_def intro!: nth_equalityI)

lemma byte_range_source:
  assumes "no_wrap p n" "no_wrap q n" "a \<in> byte_range p n"
  shows "q + (a - p) \<in> byte_range q n"
proof -
  have k: "unat (a - p) = unat a - unat p"
    using assms(3) by (intro unat_sub) (simp add: byte_range_def word_le_nat_alt)
  then show ?thesis
    using assms unat_add_u64 [of q "a - p"] by (auto simp: byte_range_def no_wrap_def)
qed

section \<open>Sequences of writes\<close>

text \<open>
  A sequence of writes \<open>w j\<close>, each confined to its target \<open>T j\<close>, where the written value \<open>V j m\<close>
  is not affected by changes inside the targets: bytes outside every target stay, and when all
  writes succeed every target holds its value computed from the memory before the sequence. The
  sequence fails only when one of the writes does.
\<close>

lemma siter_writes:
  assumes w: "\<And>j m r m'. j \<in> set js \<Longrightarrow> w j m = (r, m') \<Longrightarrow>
      (\<forall>a. a \<notin> T j \<longrightarrow> m' a = m a) \<and> (r = Inr () \<longrightarrow> (\<forall>a \<in> T j. m' a = V j m a))"
    and V: "\<And>j m m'. j \<in> set js \<Longrightarrow> (\<And>a. a \<notin> (\<Union>i \<in> set js. T i) \<Longrightarrow> m' a = m a) \<Longrightarrow>
      (\<And>a. a \<in> T j \<Longrightarrow> V j m' a = V j m a)"
    and disj: "sorted_wrt (\<lambda>i j. T i \<inter> T j = {}) js"
    and run: "siter w js m = (r, m')"
  shows "(\<forall>a. a \<notin> (\<Union>i \<in> set js. T i) \<longrightarrow> m' a = m a) \<and>
    (r = Inr () \<longrightarrow> (\<forall>j \<in> set js. \<forall>a \<in> T j. m' a = V j m a)) \<and>
    (\<forall>e. r = Inl e \<longrightarrow> (\<exists>j \<in> set js. \<exists>m1. fst (w j m1) = Inl e))"
  using assms
proof (induction js arbitrary: m)
  case (Cons j js)
  obtain r1 m1 where j: "w j m = (r1, m1)" by fastforce
  note wj = Cons.prems(1) [of j, OF _ j, simplified]
  show ?case
  proof (cases r1)
    case (Inl e)
    then have "r = Inl e" "m' = m1" using Cons.prems(4) j by (auto simp: sbind_def)
    moreover have "fst (w j m) = Inl e" using j Inl by simp
    ultimately show ?thesis using wj Inl by auto
  next
    case (Inr u)
    then have rest: "siter w js m1 = (r, m')" using Cons.prems(4) j by (simp add: sbind_def)
    have V': "V i m2 a = V i m3 a"
      if "i \<in> set js" "\<And>a. a \<notin> (\<Union>k \<in> set js. T k) \<Longrightarrow> m2 a = m3 a" "a \<in> T i" for i m2 m3 a
      using Cons.prems(2) [of i m3 m2] that by auto
    have IH: "(\<forall>a. a \<notin> (\<Union>i \<in> set js. T i) \<longrightarrow> m' a = m1 a) \<and>
        (r = Inr () \<longrightarrow> (\<forall>i \<in> set js. \<forall>a \<in> T i. m' a = V i m1 a)) \<and>
        (\<forall>e. r = Inl e \<longrightarrow> (\<exists>i \<in> set js. \<exists>m1. fst (w i m1) = Inl e))"
    proof (rule Cons.IH [OF _ _ _ rest])
      show "sorted_wrt (\<lambda>i j. T i \<inter> T j = {}) js" using Cons.prems(3) by simp
      show "(\<forall>a. a \<notin> T i \<longrightarrow> m' a = m a) \<and> (r = Inr () \<longrightarrow> (\<forall>a \<in> T i. m' a = V i m a))"
        if "i \<in> set js" "w i m = (r, m')" for i m r m'
        using Cons.prems(1) [of i m r m'] that by simp
    qed (rule V')
    have frame: "m' a = m a" if "a \<notin> (\<Union>i \<in> set (j # js). T i)" for a
      using IH wj that by auto
    have first: "m' a = V j m a" if "a \<in> T j" for a
      using IH wj that Cons.prems(3) Inr by (auto simp: disjoint_iff)
    have later: "m' a = V i m a" if "r = Inr ()" "i \<in> set js" "a \<in> T i" for i a
    proof -
      have "V i m1 a = V i m a"
        using Cons.prems(2) [of i m m1] wj that by auto
      then show ?thesis using IH that by auto
    qed
    have fail: "\<exists>i \<in> set (j # js). \<exists>m1. fst (w i m1) = Inl e" if "r = Inl e" for e
      using IH that by auto
    show ?thesis using frame first later fail by (metis set_ConsD)
  qed
next
  case Nil
  from Nil.prems(4) show ?case by auto
qed

text \<open>Copies: jobs are (destination, source, size).\<close>

lemma siter_memcpy:
  assumes law: "memcpy_law memcpy"
    and fit: "\<And>d s n. (d, s, n) \<in> set js \<Longrightarrow> no_wrap d n \<and> no_wrap s n"
    and apart: "\<And>d s n d' s' n'. (d, s, n) \<in> set js \<Longrightarrow> (d', s', n') \<in> set js \<Longrightarrow>
      byte_range d n \<inter> byte_range s' n' = {}"
    and disj: "sorted_wrt (\<lambda>(d, s, n) (d', s', n'). byte_range d n \<inter> byte_range d' n' = {}) js"
    and run: "siter (\<lambda>(d, s, n). memcpy d s n) js m = (r, m')"
  shows "(\<forall>a. a \<notin> (\<Union>(d, s, n) \<in> set js. byte_range d n) \<longrightarrow> m' a = m a) \<and>
    (r = Inr () \<longrightarrow> (\<forall>(d, s, n) \<in> set js. read_bytes m' d n = read_bytes m s n)) \<and>
    (\<forall>e. r = Inl e \<longrightarrow> (\<exists>d s n m1. fst (memcpy d s n m1) = Inl e))"
proof -
  let ?T = "\<lambda>(d, s, n). byte_range d n" and ?V = "\<lambda>(d, s, n) (m :: memory) a. m (s + (a - d))"
  have "(\<forall>a. a \<notin> (\<Union>i \<in> set js. ?T i) \<longrightarrow> m' a = m a) \<and>
    (r = Inr () \<longrightarrow> (\<forall>j \<in> set js. \<forall>a \<in> ?T j. m' a = ?V j m a)) \<and>
    (\<forall>e. r = Inl e \<longrightarrow> (\<exists>j \<in> set js. \<exists>m1. fst ((\<lambda>(d, s, n). memcpy d s n) j m1) = Inl e))"
  proof (rule siter_writes [OF _ _ _ run])
    fix j m r m' assume j: "j \<in> set js" "(\<lambda>(d, s, n). memcpy d s n) j m = (r, m')"
    obtain d s n where e: "j = (d, s, n)" by (cases j)
    have "no_wrap d n" "no_wrap s n" "byte_range d n \<inter> byte_range s n = {}"
      using fit apart j(1) unfolding e by blast+
    then show "(\<forall>a. a \<notin> ?T j \<longrightarrow> m' a = m a) \<and> (r = Inr () \<longrightarrow> (\<forall>a \<in> ?T j. m' a = ?V j m a))"
      using law j(2) unfolding memcpy_law_def e prod.case by blast
  next
    fix j and m m' :: memory and a
    assume j: "j \<in> set js" and same: "\<And>a. a \<notin> (\<Union>i \<in> set js. ?T i) \<Longrightarrow> m' a = m a" and a: "a \<in> ?T j"
    obtain d s n where e: "j = (d, s, n)" by (cases j)
    have "s + (a - d) \<in> byte_range s n"
      using byte_range_source fit a j unfolding e by blast
    then have "s + (a - d) \<notin> (\<Union>i \<in> set js. ?T i)"
      using apart j unfolding e by fastforce
    then show "?V j m' a = ?V j m a" using same by (simp add: e)
  next
    show "sorted_wrt (\<lambda>i j. ?T i \<inter> ?T j = {}) js"
      by (rule sorted_wrt_mono_rel [OF _ disj]) auto
  qed
  then have all: "\<forall>a. a \<notin> (\<Union>i \<in> set js. ?T i) \<longrightarrow> m' a = m a"
    "r = Inr () \<Longrightarrow> j \<in> set js \<Longrightarrow> a \<in> ?T j \<Longrightarrow> m' a = ?V j m a"
    "r = Inl e \<Longrightarrow> \<exists>j \<in> set js. \<exists>m1. fst ((\<lambda>(d, s, n). memcpy d s n) j m1) = Inl e" for j a e
    by blast+
  show ?thesis
  proof (intro conjI impI allI ballI; (clarify)?)
    show "m' a = m a" if "a \<notin> (\<Union>i \<in> set js. ?T i)" for a using all(1) that by blast
    show "read_bytes m' d n = read_bytes m s n" if "r = Inr ()" "(d, s, n) \<in> set js" for d s n
      using fit that all(2) [OF that] by (intro read_bytes_copied) auto
    show "\<exists>d s n m1. fst (memcpy d s n m1) = Inl e" if "r = Inl e" for e
      using all(3) [OF that] by (metis (no_types, lifting) case_prod_beta)
  qed
qed

lemma siter_memset:
  assumes law: "memset_law memset"
    and fit: "\<And>d n. (d, n) \<in> set js \<Longrightarrow> no_wrap d n"
    and disj: "sorted_wrt (\<lambda>(d, n) (d', n'). byte_range d n \<inter> byte_range d' n' = {}) js"
    and run: "siter (\<lambda>(d, n). memset d v n) js m = (r, m')"
  shows "(\<forall>a. a \<notin> (\<Union>(d, n) \<in> set js. byte_range d n) \<longrightarrow> m' a = m a) \<and>
    (r = Inr () \<longrightarrow> (\<forall>(d, n) \<in> set js. read_bytes m' d n = replicate (unat n) v)) \<and>
    (\<forall>e. r = Inl e \<longrightarrow> (\<exists>d n m1. fst (memset d v n m1) = Inl e))"
proof -
  let ?T = "\<lambda>(d, n). byte_range d n"
  have "(\<forall>a. a \<notin> (\<Union>i \<in> set js. ?T i) \<longrightarrow> m' a = m a) \<and>
    (r = Inr () \<longrightarrow> (\<forall>j \<in> set js. \<forall>a \<in> ?T j. m' a = v)) \<and>
    (\<forall>e. r = Inl e \<longrightarrow> (\<exists>j \<in> set js. \<exists>m1. fst ((\<lambda>(d, n). memset d v n) j m1) = Inl e))"
  proof (rule siter_writes [OF _ _ _ run])
    fix j m r m' assume j: "j \<in> set js" "(\<lambda>(d, n). memset d v n) j m = (r, m')"
    obtain d n where e: "j = (d, n)" by (cases j)
    show "(\<forall>a. a \<notin> ?T j \<longrightarrow> m' a = m a) \<and> (r = Inr () \<longrightarrow> (\<forall>a \<in> ?T j. m' a = v))"
      using law fit j unfolding memset_law_def e prod.case by blast
  next
    show "sorted_wrt (\<lambda>i j. ?T i \<inter> ?T j = {}) js"
      by (rule sorted_wrt_mono_rel [OF _ disj]) auto
  qed simp
  then have all: "\<forall>a. a \<notin> (\<Union>i \<in> set js. ?T i) \<longrightarrow> m' a = m a"
    "r = Inr () \<Longrightarrow> j \<in> set js \<Longrightarrow> a \<in> ?T j \<Longrightarrow> m' a = v"
    "r = Inl e \<Longrightarrow> \<exists>j \<in> set js. \<exists>m1. fst ((\<lambda>(d, n). memset d v n) j m1) = Inl e" for j a e
    by blast+
  show ?thesis
  proof (intro conjI impI allI ballI; (clarify)?)
    show "m' a = m a" if "a \<notin> (\<Union>i \<in> set js. ?T i)" for a using all(1) that by blast
    show "read_bytes m' d n = replicate (unat n) v" if "r = Inr ()" "(d, n) \<in> set js" for d n
      using fit that all(2) [OF that] by (intro read_bytes_filled) auto
    show "\<exists>d n m1. fst (memset d v n m1) = Inl e" if "r = Inl e" for e
      using all(3) [OF that] by (metis (no_types, lifting) case_prod_beta)
  qed
qed

section \<open>Planes divided into slots\<close>

text \<open>
  A plane \<open>(p, w)\<close> starts at address \<open>p\<close> and holds slots of \<open>w\<close> bytes one after the other.
  Planes that do not overlap give every (plane, slot) pair bytes of its own.
\<close>

definition slot_addr :: "u64 \<Rightarrow> u64 \<Rightarrow> nat \<Rightarrow> u64" where
  "slot_addr p w s = p + word_of_nat (s * unat w)"

definition plane_range :: "nat \<Rightarrow> u64 \<times> u64 \<Rightarrow> u64 set" where
  "plane_range slots = (\<lambda>(p, w). {a. unat p \<le> unat a \<and> unat a < unat p + slots * unat w})"

definition planes_ok :: "nat \<Rightarrow> (u64 \<times> u64) list \<Rightarrow> bool" where
  "planes_ok slots planes =
     ((\<forall>(p, w) \<in> set planes. unat p + slots * unat w \<le> u64_max) \<and>
      sorted_wrt (\<lambda>x y. plane_range slots x \<inter> plane_range slots y = {}) planes)"

lemma slot_end_le:
  assumes "s < (slots :: nat)"
  shows "s * w + w \<le> slots * w"
proof -
  have "Suc s * w \<le> slots * w" using assms by (intro mult_le_mono1) simp
  then show ?thesis by simp
qed

lemma slot_range:
  assumes "unat p + slots * unat w \<le> u64_max" "s < slots"
  shows "unat (slot_addr p w s) = unat p + s * unat w" "no_wrap (slot_addr p w s) w"
    "byte_range (slot_addr p w s) w \<subseteq> plane_range slots (p, w)"
proof -
  note le = slot_end_le [OF assms(2), of "unat w"]
  show a: "unat (slot_addr p w s) = unat p + s * unat w"
    unfolding slot_addr_def by (rule unat_plus_nat) (use assms(1) le in linarith)
  show "no_wrap (slot_addr p w s) w" unfolding no_wrap_def a using assms(1) le by linarith
  show "byte_range (slot_addr p w s) w \<subseteq> plane_range slots (p, w)"
    unfolding byte_range_def plane_range_def prod.case a using le by auto
qed

lemma slots_disjoint:
  assumes "unat p + slots * unat w \<le> u64_max" "s < slots" "s' < slots" "s \<noteq> s'"
  shows "byte_range (slot_addr p w s) w \<inter> byte_range (slot_addr p w s') w = {}"
proof -
  have "s * unat w + unat w \<le> s' * unat w \<or> s' * unat w + unat w \<le> s * unat w"
    using assms(4) slot_end_le [of s s' "unat w"] slot_end_le [of s' s "unat w"] by (metis nat_neq_iff)
  then show ?thesis
    using slot_range(1) [OF assms(1,2)] slot_range(1) [OF assms(1,3)] by (auto simp: byte_range_def)
qed

lemma planes_apart:
  assumes ok: "planes_ok slots planes" and xy: "x \<in> set planes" "y \<in> set planes"
  shows "x = y \<or> plane_range slots x \<inter> plane_range slots y = {}"
proof -
  obtain i j where ij: "i < length planes" "x = planes ! i" "j < length planes" "y = planes ! j"
    using xy by (auto simp: in_set_conv_nth)
  then show ?thesis
    using ok unfolding planes_ok_def sorted_wrt_iff_nth_less by (metis inf_commute linorder_neqE_nat)
qed

lemma plane_slots_disjoint:
  assumes ok: "planes_ok slots planes" and x: "(p, w) \<in> set planes" "(p', w') \<in> set planes"
    and s: "s < slots" "s' < slots" "s \<noteq> s'"
  shows "byte_range (slot_addr p w s) w \<inter> byte_range (slot_addr p' w' s') w' = {}"
proof (cases "(p, w) = (p', w')")
  case True
  then show ?thesis using slots_disjoint [of p slots w s s'] ok x s by (auto simp: planes_ok_def)
next
  case False
  then have "plane_range slots (p, w) \<inter> plane_range slots (p', w') = {}"
    using planes_apart [OF ok x] by blast
  moreover have "unat p + slots * unat w \<le> u64_max" "unat p' + slots * unat w' \<le> u64_max"
    using ok x by (auto simp: planes_ok_def)
  ultimately show ?thesis using slot_range(3) s by blast
qed

lemma plane_slot_targets:
  assumes ok: "planes_ok slots planes" and s: "s < slots"
  shows "sorted_wrt (\<lambda>(p, w) (p', w'). byte_range (slot_addr p w s) w \<inter> byte_range (slot_addr p' w' s) w' = {}) planes"
proof (rule sorted_wrt_mono_rel)
  show "sorted_wrt (\<lambda>x y. plane_range slots x \<inter> plane_range slots y = {}) planes"
    using ok by (simp add: planes_ok_def)
  fix x y assume "x \<in> set planes" "y \<in> set planes" "plane_range slots x \<inter> plane_range slots y = {}"
  then show "(\<lambda>(p, w) (p', w'). byte_range (slot_addr p w s) w \<inter> byte_range (slot_addr p' w' s) w' = {}) x y"
    using slot_range(3) [OF _ s] ok unfolding planes_ok_def by fast
qed

lemma planes_frame:
  assumes ok: "planes_ok slots planes" and dst: "dst < slots"
    and frame: "\<And>a. (\<And>p w. (p, w) \<in> set planes \<Longrightarrow> a \<notin> byte_range (slot_addr p w dst) w) \<Longrightarrow> m' a = m a"
  shows "(\<forall>a. a \<notin> (\<Union>x \<in> set planes. plane_range slots x) \<longrightarrow> m' a = m a) \<and>
    (\<forall>(p, w) \<in> set planes. \<forall>k < slots. k \<noteq> dst \<longrightarrow>
       read_bytes m' (slot_addr p w k) w = read_bytes m (slot_addr p w k) w)"
proof -
  have fit: "unat p + slots * unat w \<le> u64_max" if "(p, w) \<in> set planes" for p w
    using ok that by (auto simp: planes_ok_def)
  have outside: "m' a = m a" if "a \<notin> (\<Union>x \<in> set planes. plane_range slots x)" for a
    by (rule frame) (use that slot_range(3) [OF fit dst] in blast)
  have other: "read_bytes m' (slot_addr p w k) w = read_bytes m (slot_addr p w k) w"
    if x: "(p, w) \<in> set planes" "k < slots" "k \<noteq> dst" for p w k
  proof (rule read_bytes_cong)
    show "no_wrap (slot_addr p w k) w" using slot_range(2) [OF fit] x by blast
    show "m' a = m a" if "a \<in> byte_range (slot_addr p w k) w" for a
      using that plane_slots_disjoint [OF ok x(1) _ x(2) dst x(3)] by (intro frame) blast
  qed
  show ?thesis using outside other by blast
qed

text \<open>Copying one slot of every plane updates that slot and nothing else.\<close>

lemma copy_planes:
  assumes law: "memcpy_law memcpy" and ok: "planes_ok slots planes"
    and s: "src < slots" "dst < slots" "src \<noteq> dst"
    and run: "siter (\<lambda>(p, w). memcpy (slot_addr p w dst) (slot_addr p w src) w) planes m = (r, m')"
  shows "(\<forall>a. a \<notin> (\<Union>x \<in> set planes. plane_range slots x) \<longrightarrow> m' a = m a) \<and>
    (\<forall>(p, w) \<in> set planes. \<forall>k < slots. k \<noteq> dst \<longrightarrow>
       read_bytes m' (slot_addr p w k) w = read_bytes m (slot_addr p w k) w) \<and>
    (r = Inr () \<longrightarrow> (\<forall>(p, w) \<in> set planes.
       read_bytes m' (slot_addr p w dst) w = read_bytes m (slot_addr p w src) w)) \<and>
    (\<forall>e. r = Inl e \<longrightarrow> (\<exists>d s n m1. fst (memcpy d s n m1) = Inl e))"
proof -
  let ?job = "\<lambda>(p, w). (slot_addr p w dst, slot_addr p w src, w)"
  have fit: "unat p + slots * unat w \<le> u64_max" if "(p, w) \<in> set planes" for p w
    using ok that by (auto simp: planes_ok_def)
  have run': "siter (\<lambda>(d, s, n). memcpy d s n) (map ?job planes) m = (r, m')"
  proof -
    have "siter (\<lambda>(d, s, n). memcpy d s n) (map ?job xs) =
        siter (\<lambda>(p, w). memcpy (slot_addr p w dst) (slot_addr p w src) w) xs" for xs
      by (induction xs) auto
    then show ?thesis using run by simp
  qed
  have main: "(\<forall>a. a \<notin> (\<Union>(d, s, n) \<in> set (map ?job planes). byte_range d n) \<longrightarrow> m' a = m a) \<and>
    (r = Inr () \<longrightarrow> (\<forall>(d, s, n) \<in> set (map ?job planes). read_bytes m' d n = read_bytes m s n)) \<and>
    (\<forall>e. r = Inl e \<longrightarrow> (\<exists>d s n m1. fst (memcpy d s n m1) = Inl e))"
  proof (rule siter_memcpy [OF law _ _ _ run'])
    show "no_wrap d n \<and> no_wrap q n" if "(d, q, n) \<in> set (map ?job planes)" for d q n
      using that slot_range(2) [OF fit] s by auto
    show "byte_range d n \<inter> byte_range q' n' = {}"
      if "(d, q, n) \<in> set (map ?job planes)" "(d', q', n') \<in> set (map ?job planes)" for d q n d' q' n'
    proof -
      from that obtain p p' where "(p, n) \<in> set planes" "(p', n') \<in> set planes"
        "d = slot_addr p n dst" "q' = slot_addr p' n' src" by auto
      then show ?thesis using plane_slots_disjoint [OF ok _ _ s(2,1) s(3) [symmetric]] by blast
    qed
    show "sorted_wrt (\<lambda>(d, s, n) (d', s', n'). byte_range d n \<inter> byte_range d' n' = {}) (map ?job planes)"
      unfolding sorted_wrt_map by (rule sorted_wrt_mono_rel [OF _ plane_slot_targets [OF ok s(2)]]) auto
  qed
  have frame: "m' a = m a" if "\<And>p w. (p, w) \<in> set planes \<Longrightarrow> a \<notin> byte_range (slot_addr p w dst) w" for a
    using main that by fastforce
  show ?thesis using main planes_frame [OF ok s(2) frame] by fastforce
qed

lemma zero_planes:
  assumes law: "memset_law memset" and ok: "planes_ok slots planes" and s: "dst < slots"
    and run: "siter (\<lambda>(p, w). memset (slot_addr p w dst) v w) planes m = (r, m')"
  shows "(\<forall>a. a \<notin> (\<Union>x \<in> set planes. plane_range slots x) \<longrightarrow> m' a = m a) \<and>
    (\<forall>(p, w) \<in> set planes. \<forall>k < slots. k \<noteq> dst \<longrightarrow>
       read_bytes m' (slot_addr p w k) w = read_bytes m (slot_addr p w k) w) \<and>
    (r = Inr () \<longrightarrow> (\<forall>(p, w) \<in> set planes. read_bytes m' (slot_addr p w dst) w = replicate (unat w) v)) \<and>
    (\<forall>e. r = Inl e \<longrightarrow> (\<exists>d n m1. fst (memset d v n m1) = Inl e))"
proof -
  let ?job = "\<lambda>(p, w). (slot_addr p w dst, w)"
  have fit: "unat p + slots * unat w \<le> u64_max" if "(p, w) \<in> set planes" for p w
    using ok that by (auto simp: planes_ok_def)
  have run': "siter (\<lambda>(d, n). memset d v n) (map ?job planes) m = (r, m')"
  proof -
    have "siter (\<lambda>(d, n). memset d v n) (map ?job xs) =
        siter (\<lambda>(p, w). memset (slot_addr p w dst) v w) xs" for xs
      by (induction xs) auto
    then show ?thesis using run by simp
  qed
  have main: "(\<forall>a. a \<notin> (\<Union>(d, n) \<in> set (map ?job planes). byte_range d n) \<longrightarrow> m' a = m a) \<and>
    (r = Inr () \<longrightarrow> (\<forall>(d, n) \<in> set (map ?job planes). read_bytes m' d n = replicate (unat n) v)) \<and>
    (\<forall>e. r = Inl e \<longrightarrow> (\<exists>d n m1. fst (memset d v n m1) = Inl e))"
  proof (rule siter_memset [OF law _ _ run'])
    show "no_wrap d n" if "(d, n) \<in> set (map ?job planes)" for d n
      using that slot_range(2) [OF fit] s by auto
    show "sorted_wrt (\<lambda>(d, n) (d', n'). byte_range d n \<inter> byte_range d' n' = {}) (map ?job planes)"
      unfolding sorted_wrt_map by (rule sorted_wrt_mono_rel [OF _ plane_slot_targets [OF ok s]]) auto
  qed
  have frame: "m' a = m a" if "\<And>p w. (p, w) \<in> set planes \<Longrightarrow> a \<notin> byte_range (slot_addr p w dst) w" for a
    using main that by fastforce
  show ?thesis using main planes_frame [OF ok s frame] by fastforce
qed

section \<open>The laws can hold\<close>

text \<open>Calls that always succeed and do exactly what is documented.\<close>

definition ideal_memcpy :: memcpy_call where
  "ideal_memcpy dst src n m =
     (Inr (), \<lambda>a. if unat dst \<le> unat a \<and> unat a < unat dst + unat n then m (src + (a - dst)) else m a)"

definition ideal_memset :: memset_call where
  "ideal_memset dst v n m =
     (Inr (), \<lambda>a. if unat dst \<le> unat a \<and> unat a < unat dst + unat n then v else m a)"

lemma ideal_memcpy_law: "memcpy_law ideal_memcpy"
  by (auto simp: memcpy_law_def ideal_memcpy_def byte_range_def)

lemma ideal_memset_law: "memset_law ideal_memset"
  by (auto simp: memset_law_def ideal_memset_def byte_range_def)

end
