(* ===== verification/Tensor_Slots.thy ===== *)
theory Tensor_Slots
  imports Device_Copy
begin

text \<open>
  Tensors whose outermost dimension counts slots, as the state pools use them: which tensors the
  constructor accepts, their byte sizes, and where the slice of one slot lies in memory.
\<close>

section \<open>Slots of one tensor\<close>

lemma make_tensor_data:
  "make_tensor p dt shape = Inr t \<longleftrightarrow>
     (\<exists>u. make_tensor 0 dt shape = Inr u \<and> t = u\<lparr>t_data := p\<rparr>)"
  by (auto simp: make_tensor_def set_contiguous_strides_def result_simps)

lemma tensor_bytes_data [simp]: "tensor_bytes (t\<lparr>t_data := p\<rparr>) = tensor_bytes t"
  by (simp add: tensor_bytes_def numel_def)

lemma int_mult_grow: "0 \<le> x \<Longrightarrow> 0 < y \<Longrightarrow> x \<le> x * (y :: int)"
  using mult_left_mono [of 1 y x] by simp

lemma make_tensor_eq:
  assumes "0 < a" "0 < b" "0 < c" "0 < d" "int (dtype_size dt) * a * b * c \<le> i64_max"
    and sh: "shape @ replicate (4 - length shape) 1 = [a, b, c, d]" "shape \<noteq> []"
  shows "make_tensor p dt shape = Inr \<lparr>t_data = p, t_dtype = dt, t_ne = [a, b, c, d],
     t_nb = [int (dtype_size dt), int (dtype_size dt) * a, int (dtype_size dt) * a * b,
       int (dtype_size dt) * a * b * c]\<rparr>"
proof -
  define s where "s = int (dtype_size dt)"
  have s: "0 < s" using dtype_size_bounds(1) by (simp add: s_def)
  have "s * a * b \<le> s * a * b * c" "s * a \<le> s * a * b" using assms(1-4) s by (auto intro: int_mult_grow)
  then have le: "s * a * b * c \<le> i64_max" "s * a * b \<le> i64_max" "s * a \<le> i64_max"
    using assms(5) unfolding s_def by linarith+
  have len: "length shape \<le> 4" using arg_cong [OF sh(1), of length] by simp
  have pos: "rmap (\<lambda>dim. if dim \<le> 0
      then Inl (invalid_argument ''tensor dimensions must be positive'') else Inr dim) shape = Inr shape"
  proof -
    have "set shape \<subseteq> {a, b, c, d}" using arg_cong [OF sh(1), of set] by auto
    then have "\<forall>x \<in> set shape. 0 < x" using assms(1-4) by auto
    then show ?thesis by (induction shape) auto
  qed
  have "normalize_shape shape = Inr [a, b, c, d]"
    using len sh pos by (simp add: normalize_shape_def)
  moreover have "stride_scan s [a, b, c] = Inr [s, s * a, s * a * b, s * a * b * c]"
    using le s assms(1-3) by (simp add: checked_mul_i64_def rbind_def zdiv_mono1 int_div_less_iff not_less
        checked_mul_i64_Inr_iff [THEN iffD2])
  ultimately show ?thesis
    by (simp add: make_tensor_def set_contiguous_strides_def s_def)
qed

lemma tensor_bytes_ok:
  assumes "t_ne t = [a, b, c, d]" "0 < a" "0 < b" "0 < c" "0 < d"
    and "int (dtype_size (t_dtype t)) * a * b * c * d \<le> i64_max"
  obtains n where "tensor_bytes t = Inr n" "int (unat n) = int (dtype_size (t_dtype t)) * a * b * c * d"
proof -
  define s where "s = int (dtype_size (t_dtype t))"
  have s: "1 \<le> s" using dtype_size_bounds(1) [of "t_dtype t"] by (simp add: s_def)
  define e where "e = a * b * c * d"
  have e0: "0 < e" using assms(2-5) by (simp add: e_def)
  have se: "s * e \<le> i64_max" using assms(6) by (simp add: s_def e_def mult.assoc)
  have "e \<le> e * s" using s e0 by (intro int_mult_grow) auto
  then have e: "e \<le> i64_max" using se by (simp only: mult.commute)
  have "a \<le> a * b" "a * b \<le> a * b * c" "a * b * c \<le> e"
    unfolding e_def using assms(2-5) by (auto intro: int_mult_grow)
  then have parts: "a \<le> i64_max" "a * b \<le> i64_max" "a * b * c \<le> i64_max"
    using e by linarith+
  have num: "numel t = Inr e"
    using assms(1-5) parts e
    by (simp add: numel_def shape_numel_def e_def checked_mul_i64_Inr_iff [THEN iffD2])
  have um: "unat (word_of_int e :: u64) = nat e"
    using e e0 by (simp add: unat_eq_nat_uint uint_word_of_int_eq take_bit_eq_mod)
  have es: "unat (word_of_nat (dtype_size (t_dtype t)) :: u64) = dtype_size (t_dtype t)"
    using dtype_size_bounds(2) [of "t_dtype t"] by (simp add: unat_of_nat)
  have "int (nat e * dtype_size (t_dtype t)) = s * e" using e0 by (simp add: s_def)
  then have fit: "nat e * dtype_size (t_dtype t) \<le> u64_max" using se by linarith
  have nz: "(word_of_nat (dtype_size (t_dtype t)) :: u64) \<noteq> 0"
    using es dtype_size_bounds(1) [of "t_dtype t"] by (metis unat_0 less_numeral_extra(3))
  have tb: "tensor_bytes t = Inr (word_of_int e * word_of_nat (dtype_size (t_dtype t)))"
    using fit e e0 nz um es by (simp add: tensor_bytes_def num Let_def throw_if_def max_word_div_less_iff)
  moreover have "int (unat (word_of_int e * word_of_nat (dtype_size (t_dtype t)) :: u64)) = s * e"
    using unat_mult_u64 [of "word_of_int e" "word_of_nat (dtype_size (t_dtype t))"] fit um es e0
    by (simp add: s_def)
  ultimately show ?thesis using that by (simp add: s_def e_def mult.assoc)
qed

lemma is_contiguous4:
  assumes "t_ne t = [a, b, c, d]" "0 < a" "0 < b" "0 < c" "0 < d"
    and "t_nb t = [e, e * a, x, y]" "e = int (dtype_size (t_dtype t))"
    and "c \<noteq> 1 \<Longrightarrow> x = e * a * b" "d \<noteq> 1 \<Longrightarrow> y = e * a * b * c" "e * a * b * c \<le> i64_max"
  shows "is_contiguous t"
proof -
  have e: "0 < e" using assms(7) dtype_size_bounds(1) by simp
  have "e * a * b \<le> e * a * b * c" "e * a \<le> e * a * b" using assms(2-5) e by (auto intro: int_mult_grow)
  then have "e * a * b \<le> i64_max" "e * a \<le> i64_max" using assms(10) by linarith+
  then have cm: "checked_mul_i64 e a = Inr (e * a)" "checked_mul_i64 (e * a) b = Inr (e * a * b)"
    "checked_mul_i64 (e * a * b) c = Inr (e * a * b * c)"
    using assms(2-5,10) e by (auto simp: checked_mul_i64_Inr_iff)
  show ?thesis
    using assms(2-5,8,9) cm
    by (cases "a = 1"; cases "b = 1"; cases "c = 1"; cases "d = 1")
      (simp_all add: is_contiguous_def assms(1,6) assms(7) [symmetric])
qed

lemma made_contiguous:
  assumes "make_tensor p dt shape = Inr t"
  shows "is_contiguous t"
proof -
  obtain a b c d where *: "t_ne t = [a, b, c, d]"
    "t_nb t = [int (dtype_size dt), int (dtype_size dt) * a, int (dtype_size dt) * a * b,
       int (dtype_size dt) * a * b * c]"
    "0 < a" "0 < b" "0 < c" "0 < d" "t_dtype t = dt" "int (dtype_size dt) * a * b * c \<le> i64_max"
    by (rule make_tensor_Inr [OF assms])
  then show ?thesis by (intro is_contiguous4 [of t a b c d "int (dtype_size dt)"]) simp_all
qed

text \<open>
  A slot of a tensor whose outermost used dimension counts slots: slicing that dimension and
  dropping it yields a contiguous tensor of the slot size, at the slot's distance from the base.
\<close>

definition slots_of :: "(int \<Rightarrow> tensor result) \<Rightarrow> int \<Rightarrow> u64 \<Rightarrow> u64 \<Rightarrow> bool" where
  "slots_of slot_at slots p w =
     (unat p + nat slots * unat w \<le> u64_max \<and> 0 < unat w \<and>
      (\<forall>s. 0 \<le> s \<longrightarrow> s < slots \<longrightarrow>
        (\<exists>u. slot_at s = Inr u \<and> t_data u = p + word_of_nat (nat s * unat w) \<and> tensor_bytes u = Inr w)))"

lemma view_inner:
  assumes t: "t_ne t = [a, b, c, 1]" "t_nb t = [e, e * a, x, y]" "e = int (dtype_size (t_dtype t))"
    and pos: "0 < a" "0 < b" "0 < c" and x: "c \<noteq> 1 \<Longrightarrow> x = e * a * b" and le: "e * a * b * c \<le> i64_max"
    and sh: "shape @ replicate (4 - length shape) 1 = [a, b, c, 1]" "shape \<noteq> []"
  obtains u w where "view t shape = Inr u" "t_data u = t_data t" "tensor_bytes u = Inr w"
    "int (unat w) = e * a * b * c"
proof -
  have mk: "make_tensor (t_data t) (t_dtype t) shape = Inr \<lparr>t_data = t_data t, t_dtype = t_dtype t,
      t_ne = [a, b, c, 1], t_nb = [e, e * a, e * a * b, e * a * b * c]\<rparr>" (is "_ = Inr ?u")
    unfolding t(3) by (rule make_tensor_eq) (use pos le sh t(3) in auto)
  obtain w where w: "tensor_bytes ?u = Inr w" "int (unat w) = e * a * b * c"
    by (rule tensor_bytes_ok [of ?u a b c 1]) (use pos le t(3) in auto)
  have ct: "is_contiguous t"
    by (rule is_contiguous4 [OF t(1) pos _ t(2,3)]) (use x le in auto)
  obtain k where k: "numel ?u = Inr k" by (rule tensor_bytes_Inr [OF w(1)])
  have ns: "normalize_shape shape = Inr [a, b, c, 1]"
    using mk by (auto simp: make_tensor_def set_contiguous_strides_def result_simps)
  have "view t shape = Inr ?u"
    using ct ns k mk by (simp add: view_def numel_def t(1))
  then show ?thesis using that w by auto
qed

lemma outer_slots:
  assumes t: "t_nb t = [e, e * a, x, y]" "e = int (dtype_size (t_dtype t))" "t_data t = p"
      "(t_ne t)[nat dim := 1] = [a, b, c, 1]" "t_ne t ! nat dim = slots" "t_nb t ! nat dim = e * a * b * c"
    and dim: "0 \<le> dim" "dim < 4"
    and pos: "0 < a" "0 < b" "0 < c" "0 < slots" and x: "c \<noteq> 1 \<Longrightarrow> x = e * a * b"
    and sh: "inner @ replicate (4 - length inner) 1 = [a, b, c, 1]" "inner \<noteq> []"
    and n: "int (unat n) = slots * (e * a * b * c)" "int (unat n) \<le> i64_max"
    and p: "p \<noteq> 0" "unat p + unat n \<le> u64_max"
  obtains w where "slots_of (\<lambda>s. rbind (slice t dim s 1) (\<lambda>u. view u inner)) slots p w"
    "unat n = nat slots * unat w"
proof -
  define q where "q = e * a * b * c"
  have q0: "0 < q" using pos dtype_size_bounds(1) [of "t_dtype t"] by (simp add: q_def t(2))
  have "q \<le> q * slots" using q0 pos by (intro int_mult_grow) auto
  then have q1: "q \<le> i64_max" using n by (simp add: q_def mult.commute)
  let ?at = "\<lambda>s. t\<lparr>t_data := p + word_of_int (s * q), t_ne := [a, b, c, 1]\<rparr>"
  have sl: "slice t dim s 1 = Inr (?at s)" if s: "0 \<le> s" "s < slots" for s
  proof -
    have "s * q \<le> slots * q" using s q0 by (intro mult_right_mono) auto
    then have "s * q \<le> i64_max" using n by (simp add: q_def)
    then have "checked_mul_i64 s q = Inr (s * q)"
      using s q0 by (intro checked_mul_i64_Inr_iff [THEN iffD2]) simp
    then show ?thesis
      using s dim t p by (simp add: slice_def throw_if_def q_def)
  qed
  have ex: "\<exists>u w. view (?at s) inner = Inr u \<and> t_data u = p + word_of_int (s * q) \<and>
      tensor_bytes u = Inr w \<and> int (unat w) = q" for s
    by (rule view_inner [of "?at s" a b c e x y inner]) (use t pos x sh q1 in \<open>auto simp: q_def\<close>)
  obtain w :: u64 where w: "int (unat w) = q" using ex by blast
  have nw: "unat n = nat slots * unat w"
    using n(1) w pos(4) by (metis nat_int nat_mult_distrib order_less_imp_le q_def)
  have "\<exists>u. rbind (slice t dim s 1) (\<lambda>u. view u inner) = Inr u \<and>
      t_data u = p + word_of_nat (nat s * unat w) \<and> tensor_bytes u = Inr w"
    if s: "0 \<le> s" "s < slots" for s
  proof -
    obtain u w' where u: "view (?at s) inner = Inr u" "t_data u = p + word_of_int (s * q)"
      "tensor_bytes u = Inr w'" "int (unat w') = q" using ex by blast
    have "w' = w" using u(4) w by (metis of_nat_eq_iff word_unat_eq_iff)
    moreover have "s * q = int (nat s * unat w)" using s w by simp
    then have "word_of_int (s * q) = (word_of_nat (nat s * unat w) :: u64)"
      by (simp only: of_int_of_nat_eq)
    ultimately show ?thesis using u sl [OF s] by simp
  qed
  moreover have "0 < unat w" using w q0 by linarith
  ultimately have "slots_of (\<lambda>s. rbind (slice t dim s 1) (\<lambda>u. view u inner)) slots p w"
    using p(2) nw unfolding slots_of_def by simp
  then show ?thesis using that nw by blast
qed

lemma made_tensor_geometry:
  assumes mk: "make_tensor p dt shape = Inr t" and n: "tensor_bytes t = Inr n"
  obtains a b c d e where "shape @ replicate (4 - length shape) 1 = [a, b, c, d]" "t_ne t = [a, b, c, d]"
    "t_nb t = [e, e * a, e * a * b, e * a * b * c]" "e = int (dtype_size (t_dtype t))" "t_data t = p"
    "0 < a" "0 < b" "0 < c" "0 < d" "int (unat n) = d * (e * a * b * c)"
proof -
  obtain a b c d where *: "t_ne t = [a, b, c, d]"
    "t_nb t = [int (dtype_size dt), int (dtype_size dt) * a, int (dtype_size dt) * a * b,
       int (dtype_size dt) * a * b * c]"
    "0 < a" "0 < b" "0 < c" "0 < d" "t_data t = p" "t_dtype t = dt"
    "shape @ replicate (4 - length shape) 1 = [a, b, c, d]"
    by (rule make_tensor_Inr [OF mk])
  obtain m where m: "numel t = Inr m" "int (unat n) = m * int (dtype_size dt)"
    using tensor_bytes_Inr [OF n] *(8) by metis
  have "m = a * b * c * d" using m(1) shape_numel4 by (auto simp: numel_def *(1))
  then have "int (unat n) = d * (int (dtype_size dt) * a * b * c)" using m(2) by simp
  with * show ?thesis by (intro that [of a b c d "int (dtype_size dt)"]) (simp_all only:)
qed

lemma slots_of_rank3:
  assumes mk: "make_tensor p dt [a, b, d] = Inr t" and n: "tensor_bytes t = Inr n" "int (unat n) \<le> i64_max"
    and p: "p \<noteq> 0" "unat p + unat n \<le> u64_max"
  obtains w where "slots_of (\<lambda>s. rbind (slice t 2 s 1) (\<lambda>u. view u [a, b])) d p w" "unat n = nat d * unat w"
proof -
  obtain e where g: "t_ne t = [a, b, d, 1]" "t_nb t = [e, e * a, e * a * b, e * a * b * d]"
    "e = int (dtype_size (t_dtype t))" "t_data t = p" "0 < a" "0 < b" "0 < d" "int (unat n) = e * a * b * d"
    by (rule made_tensor_geometry [OF mk n(1)]) simp
  show ?thesis
    by (rule outer_slots [of t e a "e * a * b" "e * a * b * d" p 2 b 1 d "[a, b]" n])
      (use g n p that in \<open>simp_all add: numeral_2_eq_2 mult.commute\<close>)
qed

lemma slots_of_rank4:
  assumes mk: "make_tensor p dt [a, b, c, d] = Inr t" and n: "tensor_bytes t = Inr n" "int (unat n) \<le> i64_max"
    and p: "p \<noteq> 0" "unat p + unat n \<le> u64_max"
  obtains w where "slots_of (\<lambda>s. rbind (slice t 3 s 1) (\<lambda>u. view u [a, b, c])) d p w" "unat n = nat d * unat w"
proof -
  obtain e where g: "t_ne t = [a, b, c, d]" "t_nb t = [e, e * a, e * a * b, e * a * b * c]"
    "e = int (dtype_size (t_dtype t))" "t_data t = p" "0 < a" "0 < b" "0 < c" "0 < d"
    "int (unat n) = d * (e * a * b * c)"
    by (rule made_tensor_geometry [OF mk n(1)]) simp
  show ?thesis
    by (rule outer_slots [of t e a "e * a * b" "e * a * b * c" p 3 b c d "[a, b, c]" n])
      (use g n p that in \<open>simp_all add: numeral_3_eq_3\<close>)
qed

text \<open>What a reader of a contiguous tensor sees.\<close>

definition slot_bytes :: "memory \<Rightarrow> tensor \<Rightarrow> byte list result" where
  "slot_bytes m t = rbind (tensor_bytes t) (\<lambda>n. Inr (read_bytes m (t_data t) n))"

section \<open>Backing allocations and loops over planes\<close>

lemma round_up_shift:
  assumes "0 < a" "a dvd x"
  shows "round_up (x + v) a = x + round_up v a"
proof -
  from assms(2) obtain k where k: "x = a * k" by (elim dvdE)
  have "x + v + (a - 1) = v + (a - 1) + a * k" by (simp add: k)
  then have "(x + v + (a - 1)) div a = k + (v + (a - 1)) div a"
    using assms(1) by (simp only: div_mult_self2 [of a] neq0_conv)
  then show ?thesis by (simp add: round_up_def k distrib_left mult.commute [of _ a])
qed

text \<open>What a backing allocation has to offer: the planned size at an aligned address.\<close>

definition backs :: "device_span \<Rightarrow> u64 \<Rightarrow> bool" where
  "backs backing sz = (ds_bytes backing = sz \<and> ds_data backing \<noteq> 0 \<and> 256 dvd unat (ds_data backing) \<and>
     unat (ds_data backing) + unat sz \<le> u64_max \<and> int (unat sz) \<le> i64_max)"

lemma planned_peak:
  assumes "layout_finish b al label = Inr sz"
  shows "unat (lb_peak b) \<le> unat sz"
  using assms round_up_props(1) power_of_two_pos by (auto simp: layout_finish_def result_simps)

lemma power_of_two_256 [simp]: "is_power_of_two 256"
  by (simp add: is_power_of_two_def)

lemma slots_of_cong:
  assumes "slots_of f n p w" "\<And>s. 0 \<le> s \<Longrightarrow> s < n \<Longrightarrow> g s = f s"
  shows "slots_of g n p w"
  using assms unfolding slots_of_def by simp

lemma slots_ofE:
  assumes "slots_of f n p w" "0 \<le> s" "s < n"
  obtains u where "f s = Inr u" "t_data u = slot_addr p w (nat s)" "tensor_bytes u = Inr w"
  using assms unfolding slots_of_def slot_addr_def by blast

lemma siter_append: "siter f (xs @ ys) = sbind (siter f xs) (\<lambda>_. siter f ys)"
  by (induction xs) (auto simp: fun_eq_iff sbind_def split: prod.splits sum.splits)

lemma siter_cong_map:
  assumes "\<And>x. x \<in> set xs \<Longrightarrow> f (h x) = g (k x)"
  shows "siter f (map h xs) = siter g (map k xs)"
  using assms by (induction xs) auto

lemma map_as_nth: "map f xs = map (\<lambda>i. f (xs ! i)) [0..<length xs]"
  by (intro nth_equalityI) simp_all

lemma rmap_map: "rmap f (map h xs) = rmap (\<lambda>x. f (h x)) xs"
  by (induction xs) auto

end
