(* ===== verification/Linear_Attention.thy ===== *)
theory Linear_Attention
  imports Tensor_Slots
begin

text \<open>
  Physical storage for Linear Attention state images (\<open>src/core/linear_attention_state.*\<close>): the
  plan of the two planes of every layer, the pool bound to a backing allocation, the view that
  addresses all layers by one stride, the tensors of a slot, and the copy and the clearing of a
  slot. \<open>Linear_Attention_Slots\<close> holds the theorems.
\<close>

section \<open>The specification and its plan\<close>

record la_spec =
  la_layers :: u32
  la_conv_channels :: int
  la_conv_width :: int
  la_value_heads :: int
  la_value_head_dim :: int
  la_key_head_dim :: int
  la_slot_count :: int
  la_conv_dtype :: dtype

record la_layout =
  ll_spec :: la_spec
  ll_conv :: "layout_region list"
  ll_recurrent :: "layout_region list"

abbreviation state_align :: u64 where "state_align \<equiv> 256"

definition validate_positive :: "int \<Rightarrow> string \<Rightarrow> unit result" where
  "validate_positive value message = throw_if (value \<le> 0) (invalid_argument message)"

definition conv_extents :: "la_spec \<Rightarrow> int list" where
  "conv_extents spec = [la_conv_channels spec, la_conv_width spec, la_slot_count spec]"

definition recurrent_extents :: "la_spec \<Rightarrow> int list" where
  "recurrent_extents spec =
     [la_key_head_dim spec, la_value_head_dim spec, la_value_heads spec, la_slot_count spec]"

text \<open>The planning loop over the layer indices; \<open>bytes()\<close> is evaluated anew for every layer.\<close>

fun plan_state_layers ::
  "layout_builder \<Rightarrow> tensor \<Rightarrow> tensor \<Rightarrow> nat list \<Rightarrow>
   (layout_region list \<times> layout_region list \<times> layout_builder) result" where
  "plan_state_layers b conv_shape recurrent_shape [] = Inr ([], [], b)"
| "plan_state_layers b conv_shape recurrent_shape (layer # layers) =
     (let prefix = ''Linear Attention layer '' @ string_of_nat layer in
      rbind (tensor_bytes conv_shape) (\<lambda>cn.
      rbind (layout_add b cn state_align (prefix @ '' conv'')) (\<lambda>(c, b1).
      rbind (tensor_bytes recurrent_shape) (\<lambda>rn.
      rbind (layout_add b1 rn state_align (prefix @ '' recurrent'')) (\<lambda>(r, b2).
      rbind (plan_state_layers b2 conv_shape recurrent_shape layers) (\<lambda>(cs, rs, b').
      Inr (c # cs, r # rs, b')))))))"

definition plan_linear_attention_state_pool ::
  "layout_builder \<Rightarrow> la_spec \<Rightarrow> (la_layout \<times> layout_builder) result" where
  "plan_linear_attention_state_pool b spec =
     rbind (throw_if (la_layers spec = 0)
              (invalid_argument ''LinearAttentionStatePool layers must be nonzero'')) (\<lambda>_.
     rbind (throw_if (uint (la_layers spec) > i32_max)
              (overflow_error ''LinearAttentionStatePool layer count exceeds int32'')) (\<lambda>_.
     rbind (validate_positive (la_conv_channels spec)
              ''LinearAttentionStatePool conv_channels must be positive'') (\<lambda>_.
     rbind (validate_positive (la_conv_width spec)
              ''LinearAttentionStatePool conv_width must be positive'') (\<lambda>_.
     rbind (validate_positive (la_value_heads spec)
              ''LinearAttentionStatePool value_heads must be positive'') (\<lambda>_.
     rbind (validate_positive (la_value_head_dim spec)
              ''LinearAttentionStatePool value_head_dim must be positive'') (\<lambda>_.
     rbind (validate_positive (la_key_head_dim spec)
              ''LinearAttentionStatePool key_head_dim must be positive'') (\<lambda>_.
     rbind (validate_positive (la_slot_count spec)
              ''LinearAttentionStatePool slot_count must be positive'') (\<lambda>_.
     rbind (throw_if (la_conv_dtype spec \<noteq> BF16 \<and> la_conv_dtype spec \<noteq> FP32)
              (invalid_argument ''LinearAttentionStatePool conv_dtype must be BF16 or FP32'')) (\<lambda>_.
     rbind (make_tensor 0 (la_conv_dtype spec) (conv_extents spec)) (\<lambda>conv_shape.
     rbind (make_tensor 0 FP32 (recurrent_extents spec)) (\<lambda>recurrent_shape.
     rbind (plan_state_layers b conv_shape recurrent_shape [0..<unat (la_layers spec)]) (\<lambda>(cs, rs, b').
     Inr (\<lparr>ll_spec = spec, ll_conv = cs, ll_recurrent = rs\<rparr>, b')))))))))))))"

section \<open>The bound pool\<close>

record la_pool =
  lp_conv :: "tensor list"
  lp_recurrent :: "tensor list"
  lp_spec :: la_spec

text \<open>
  The binding loop walks both region vectors, which the constructor has checked to be of the
  same length. The two byte sizes are compared in the order of the condition.
\<close>

fun bind_state_layers ::
  "device_span \<Rightarrow> la_spec \<Rightarrow> tensor \<Rightarrow> tensor \<Rightarrow> (layout_region \<times> layout_region) list \<Rightarrow>
   (tensor list \<times> tensor list) result" where
  "bind_state_layers backing spec conv_shape recurrent_shape [] = Inr ([], [])"
| "bind_state_layers backing spec conv_shape recurrent_shape ((c, r) # layers) =
     (let inconsistent = logic_error ''LinearAttentionStatePool layout tensor byte size is inconsistent'' in
      rbind (tensor_bytes conv_shape) (\<lambda>cn.
      rbind (throw_if (lr_bytes c \<noteq> cn) inconsistent) (\<lambda>_.
      rbind (tensor_bytes recurrent_shape) (\<lambda>rn.
      rbind (throw_if (lr_bytes r \<noteq> rn) inconsistent) (\<lambda>_.
      rbind (region_bind c backing) (\<lambda>cspan.
      rbind (make_tensor (ds_data cspan) (la_conv_dtype spec) (conv_extents spec)) (\<lambda>ct.
      rbind (region_bind r backing) (\<lambda>rspan.
      rbind (make_tensor (ds_data rspan) FP32 (recurrent_extents spec)) (\<lambda>rt.
      rbind (bind_state_layers backing spec conv_shape recurrent_shape layers) (\<lambda>(cts, rts).
      Inr (ct # cts, rt # rts)))))))))))"

definition make_state_pool :: "device_span \<Rightarrow> la_layout \<Rightarrow> la_pool result" where
  "make_state_pool backing layout =
     (let spec = ll_spec layout in
      rbind (throw_if (ll_conv layout = [] \<or> length (ll_recurrent layout) \<noteq> length (ll_conv layout) \<or>
                       length (ll_conv layout) \<noteq> unat (la_layers spec))
               (invalid_argument ''LinearAttentionStatePool layout layer counts are inconsistent'')) (\<lambda>_.
      rbind (make_tensor 0 (la_conv_dtype spec) (conv_extents spec)) (\<lambda>conv_shape.
      rbind (make_tensor 0 FP32 (recurrent_extents spec)) (\<lambda>recurrent_shape.
      rbind (bind_state_layers backing spec conv_shape recurrent_shape
               (zip (ll_conv layout) (ll_recurrent layout))) (\<lambda>(cts, rts).
      Inr \<lparr>lp_conv = cts, lp_recurrent = rts, lp_spec = spec\<rparr>)))))"

definition layer_count :: "la_pool \<Rightarrow> u32" where
  "layer_count pool = word_of_nat (length (lp_conv pool))"

definition slot_count :: "la_pool \<Rightarrow> int" where
  "slot_count pool = la_slot_count (lp_spec pool)"

definition conv_slot_stride_elements :: "la_pool \<Rightarrow> int" where
  "conv_slot_stride_elements pool =
     la_conv_channels (lp_spec pool) * la_conv_width (lp_spec pool)"

definition recurrent_slot_stride_elements :: "la_pool \<Rightarrow> int" where
  "recurrent_slot_stride_elements pool =
     la_key_head_dim (lp_spec pool) * la_value_head_dim (lp_spec pool) * la_value_heads (lp_spec pool)"

section \<open>The all-layers view\<close>

record la_view =
  lv_conv_layer0 :: tensor
  lv_recurrent_layer0 :: tensor
  lv_conv_layer_stride_bytes :: int
  lv_recurrent_layer_stride_bytes :: int
  lv_spec :: la_spec

definition validate_state_tensor :: "tensor \<Rightarrow> dtype \<Rightarrow> int list \<Rightarrow> string \<Rightarrow> unit result" where
  "validate_state_tensor t dt shape label =
     (let inconsistent = logic_error (''LinearAttentionStatePool '' @ label @ '' tensor is inconsistent'') in
      rbind (make_tensor 0 dt shape) (\<lambda>expected.
      rbind (throw_if (t_data t = 0 \<or> t_dtype t \<noteq> dt \<or> \<not> is_contiguous t) inconsistent) (\<lambda>_.
      rbind (tensor_bytes t) (\<lambda>actual_bytes.
      rbind (tensor_bytes expected) (\<lambda>expected_bytes.
      rbind (throw_if (actual_bytes \<noteq> expected_bytes) inconsistent) (\<lambda>_.
      throw_if (t_ne t \<noteq> t_ne expected)
        (logic_error (''LinearAttentionStatePool '' @ label @ '' shape is inconsistent''))))))))"

fun constant_stride :: "u64 \<Rightarrow> u64 \<Rightarrow> tensor list \<Rightarrow> string \<Rightarrow> unit result" where
  "constant_stride stride previous [] label = Inr ()"
| "constant_stride stride previous (t # ts) label =
     (if t_data t \<le> previous \<or> t_data t - previous \<noteq> stride
      then Inl (logic_error (''LinearAttentionStatePool '' @ label @ '' layer stride is not constant''))
      else constant_stride stride (t_data t) ts label)"

fun layer_stride_bytes :: "tensor list \<Rightarrow> string \<Rightarrow> int result" where
  "layer_stride_bytes [] label =
     Inl (logic_error (''LinearAttentionStatePool has no '' @ label @ '' layers''))"
| "layer_stride_bytes [t] label = Inr 0"
| "layer_stride_bytes (t0 # t1 # ts) label =
     (let first = t_data t0; second = t_data t1 in
      rbind (throw_if (second \<le> first \<or> uint (second - first) > i64_max)
               (logic_error (''LinearAttentionStatePool '' @ label @ '' layer stride is invalid''))) (\<lambda>_.
      rbind (tensor_bytes t0) (\<lambda>n.
      rbind (throw_if (second - first < n)
               (logic_error (''LinearAttentionStatePool '' @ label @ '' layers overlap''))) (\<lambda>_.
      rbind (constant_stride (second - first) second ts label) (\<lambda>_.
      Inr (uint (second - first)))))))"

fun validate_state_layers :: "la_spec \<Rightarrow> (tensor \<times> tensor) list \<Rightarrow> unit result" where
  "validate_state_layers spec [] = Inr ()"
| "validate_state_layers spec ((c, r) # layers) =
     rbind (validate_state_tensor c (la_conv_dtype spec) (conv_extents spec) ''conv'') (\<lambda>_.
     rbind (validate_state_tensor r FP32 (recurrent_extents spec) ''recurrent'') (\<lambda>_.
     validate_state_layers spec layers))"

definition all_layers_view :: "la_pool \<Rightarrow> la_view result" where
  "all_layers_view pool =
     (let spec = lp_spec pool in
      rbind (throw_if (length (lp_conv pool) \<noteq> unat (la_layers spec) \<or>
                       length (lp_recurrent pool) \<noteq> unat (la_layers spec) \<or> lp_conv pool = [])
               (logic_error ''LinearAttentionStatePool layer inventory is inconsistent'')) (\<lambda>_.
      rbind (validate_state_layers spec (zip (lp_conv pool) (lp_recurrent pool))) (\<lambda>_.
      rbind (layer_stride_bytes (lp_conv pool) ''conv'') (\<lambda>conv_stride.
      rbind (layer_stride_bytes (lp_recurrent pool) ''recurrent'') (\<lambda>recurrent_stride.
      Inr \<lparr>lv_conv_layer0 = hd (lp_conv pool), lv_recurrent_layer0 = hd (lp_recurrent pool),
           lv_conv_layer_stride_bytes = conv_stride,
           lv_recurrent_layer_stride_bytes = recurrent_stride, lv_spec = spec\<rparr>)))))"

section \<open>Slots\<close>

definition validate_layer_slot :: "la_pool \<Rightarrow> u32 \<Rightarrow> int \<Rightarrow> string \<Rightarrow> unit result" where
  "validate_layer_slot pool layer slot label =
     rbind (throw_if (layer \<ge> layer_count pool) (out_of_range (label @ '' layer out of range''))) (\<lambda>_.
     throw_if (slot < 0 \<or> slot \<ge> slot_count pool) (out_of_range (label @ '' slot out of range'')))"

definition tensor_at :: "tensor list \<Rightarrow> u32 \<Rightarrow> tensor result" where
  "tensor_at ts layer =
     (if unat layer < length ts then Inr (ts ! unat layer) else Inl (out_of_range ''vector::at''))"

definition conv_slot :: "la_pool \<Rightarrow> int \<Rightarrow> u32 \<Rightarrow> tensor result" where
  "conv_slot pool slot layer =
     rbind (validate_layer_slot pool layer slot ''LinearAttentionStatePool conv_slot'') (\<lambda>_.
     rbind (tensor_at (lp_conv pool) layer) (\<lambda>t.
     rbind (slice t 2 slot 1) (\<lambda>u.
     view u [la_conv_channels (lp_spec pool), la_conv_width (lp_spec pool)])))"

definition recurrent_slot :: "la_pool \<Rightarrow> int \<Rightarrow> u32 \<Rightarrow> tensor result" where
  "recurrent_slot pool slot layer =
     rbind (validate_layer_slot pool layer slot ''LinearAttentionStatePool recurrent_slot'') (\<lambda>_.
     rbind (tensor_at (lp_recurrent pool) layer) (\<lambda>t.
     rbind (slice t 3 slot 1) (\<lambda>u.
     view u [la_key_head_dim (lp_spec pool), la_value_head_dim (lp_spec pool),
       la_value_heads (lp_spec pool)])))"

definition layer_indices :: "la_pool \<Rightarrow> u32 list" where
  "layer_indices pool = map word_of_nat [0..<unat (layer_count pool)]"

definition copy_tensors ::
  "memcpy_call \<Rightarrow> (int \<Rightarrow> u32 \<Rightarrow> tensor result) \<Rightarrow> int \<Rightarrow> int \<Rightarrow> u32 \<Rightarrow> (memory, unit) prog" where
  "copy_tensors memcpy slot_of src dst layer =
     sbind (slift (slot_of src layer)) (\<lambda>source.
     sbind (slift (slot_of dst layer)) (\<lambda>destination.
     sbind (slift (tensor_bytes source)) (\<lambda>n.
     memcpy (t_data destination) (t_data source) n)))"

definition copy_slot :: "memcpy_call \<Rightarrow> la_pool \<Rightarrow> int \<Rightarrow> int \<Rightarrow> (memory, unit) prog" where
  "copy_slot memcpy pool src dst =
     sbind (slift (validate_layer_slot pool 0 src ''LinearAttentionStatePool copy_slot source'')) (\<lambda>_.
     sbind (slift (validate_layer_slot pool 0 dst ''LinearAttentionStatePool copy_slot destination'')) (\<lambda>_.
     if src = dst then sret ()
     else
       sbind (siter (copy_tensors memcpy (conv_slot pool) src dst) (layer_indices pool)) (\<lambda>_.
       siter (copy_tensors memcpy (recurrent_slot pool) src dst) (layer_indices pool))))"

definition zero_tensor ::
  "memset_call \<Rightarrow> (int \<Rightarrow> u32 \<Rightarrow> tensor result) \<Rightarrow> int \<Rightarrow> u32 \<Rightarrow> (memory, unit) prog" where
  "zero_tensor memset slot_of slot layer =
     sbind (slift (slot_of slot layer)) (\<lambda>state.
     sbind (slift (tensor_bytes state)) (\<lambda>n.
     memset (t_data state) 0 n))"

definition zero_slot :: "memset_call \<Rightarrow> la_pool \<Rightarrow> int \<Rightarrow> (memory, unit) prog" where
  "zero_slot memset pool slot =
     sbind (slift (validate_layer_slot pool 0 slot ''LinearAttentionStatePool zero_slot'')) (\<lambda>_.
     sbind (siter (zero_tensor memset (conv_slot pool) slot) (layer_indices pool)) (\<lambda>_.
     siter (zero_tensor memset (recurrent_slot pool) slot) (layer_indices pool)))"

text \<open>
  The image of a slot: the bytes of its convolution tensors and its recurrent tensors, layer by
  layer. This is what a reader of the slot sees.
\<close>

definition slot_image :: "la_pool \<Rightarrow> memory \<Rightarrow> int \<Rightarrow> (byte list list \<times> byte list list) result" where
  "slot_image pool m slot =
     rbind (rmap (\<lambda>layer. rbind (conv_slot pool slot layer) (slot_bytes m)) (layer_indices pool)) (\<lambda>cs.
     rbind (rmap (\<lambda>layer. rbind (recurrent_slot pool slot layer) (slot_bytes m)) (layer_indices pool)) (\<lambda>rs.
     Inr (cs, rs)))"

end
