(* ===== verification/Linear_Attention_Slots.thy ===== *)
theory Linear_Attention_Slots
  imports Linear_Attention
begin

text \<open>
  Theorems on the state pool of \<open>Linear_Attention\<close>: a planned pool always binds, its slots are
  independent images (copying a slot is an update of one image, clearing a slot resets one), and
  the strides of the all-layers view are exact.
\<close>

section \<open>The geometry of a planned pool\<close>

text \<open>
  Planned offsets have a closed form: with \<open>S\<close> the bytes of one layer (both planes, each rounded up
  to the alignment), layer \<open>i\<close> starts \<open>i * S\<close> after the aligned cursor.
\<close>

abbreviation plane_bytes :: "u64 \<Rightarrow> nat" where
  "plane_bytes n \<equiv> round_up (unat n) 256"

lemma plan_state_layers_closed:
  assumes "plan_state_layers b ct rt ls = Inr (cs, rs, b')"
    and "tensor_bytes ct = Inr cn" "tensor_bytes rt = Inr rn"
    and "y = round_up (unat (lb_cursor b)) 256"
  shows "length cs = length ls \<and> length rs = length ls \<and> unat (lb_peak b) \<le> unat (lb_peak b') \<and>
    (\<forall>i < length ls.
       lr_bytes (cs ! i) = cn \<and> lr_alignment (cs ! i) = 256 \<and>
       lr_bytes (rs ! i) = rn \<and> lr_alignment (rs ! i) = 256 \<and>
       unat (lr_offset (cs ! i)) = y + i * (plane_bytes cn + plane_bytes rn) \<and>
       unat (lr_offset (rs ! i)) = y + plane_bytes cn + i * (plane_bytes cn + plane_bytes rn) \<and>
       unat (lr_offset (cs ! i)) + unat cn \<le> unat (lb_peak b') \<and>
       unat (lr_offset (rs ! i)) + unat rn \<le> unat (lb_peak b'))"
  using assms
proof (induction ls arbitrary: b cs rs y)
  case (Cons l ls)
  from Cons.prems(1-3) obtain c b1 r b2 cs' rs' label label' where
    c: "layout_add b cn 256 label = Inr (c, b1)" and r: "layout_add b1 rn 256 label' = Inr (r, b2)"
    and rest: "plan_state_layers b2 ct rt ls = Inr (cs', rs', b')" and eq: "cs = c # cs'" "rs = r # rs'"
    by (auto simp: Let_def result_simps)
  note gc = layout_add_Inr [OF c] and gr = layout_add_Inr [OF r]
  define C R where "C = plane_bytes cn" and "R = plane_bytes rn"
  have y: "unat (lr_offset c) = y" "256 dvd y" using gc(5,9) Cons.prems(4) by simp_all
  have dC: "256 dvd C" by (simp add: C_def round_up_props(3))
  have ro: "unat (lr_offset r) = y + C"
    using gr(5) gc(6) y round_up_shift [of 256 y "unat cn"] by (simp add: C_def)
  have y': "y + C + R = round_up (unat (lb_cursor b2)) 256"
    using gr(6) ro y dC round_up_shift [of 256 "y + C" "unat rn"] by (simp add: R_def)
  note IH = Cons.IH [OF rest Cons.prems(2,3) y', folded C_def R_def]
  have pk: "unat (lr_offset c) + unat cn \<le> unat (lb_peak b')" "unat (lr_offset r) + unat rn \<le> unat (lb_peak b')"
    "unat (lb_peak b) \<le> unat (lb_peak b')"
    using gc(6,7) gr(6,7) IH by linarith+
  have "lr_bytes (cs ! i) = cn \<and> lr_alignment (cs ! i) = 256 \<and>
       lr_bytes (rs ! i) = rn \<and> lr_alignment (rs ! i) = 256 \<and>
       unat (lr_offset (cs ! i)) = y + i * (C + R) \<and>
       unat (lr_offset (rs ! i)) = y + C + i * (C + R) \<and>
       unat (lr_offset (cs ! i)) + unat cn \<le> unat (lb_peak b') \<and>
       unat (lr_offset (rs ! i)) + unat rn \<le> unat (lb_peak b')" if i: "i < length (l # ls)" for i
  proof (cases i)
    case 0
    then show ?thesis using gc(1,2) gr(1,2) y(1) ro pk by (simp add: eq)
  next
    case (Suc k)
    then have "k < length ls" using i by simp
    with IH have at: "lr_bytes (cs' ! k) = cn" "lr_alignment (cs' ! k) = 256" "lr_bytes (rs' ! k) = rn"
      "lr_alignment (rs' ! k) = 256" "unat (lr_offset (cs' ! k)) = y + C + R + k * (C + R)"
      "unat (lr_offset (rs' ! k)) = y + C + R + C + k * (C + R)"
      "unat (lr_offset (cs' ! k)) + unat cn \<le> unat (lb_peak b')"
      "unat (lr_offset (rs' ! k)) + unat rn \<le> unat (lb_peak b')" by blast+
    then show ?thesis by (simp add: eq Suc)
  qed
  moreover have "length cs = length (l # ls)" "length rs = length (l # ls)" using IH by (simp_all add: eq)
  ultimately show ?case using pk(3) unfolding C_def R_def by blast
qed simp

text \<open>
  The shape every planned pool has in memory: \<open>L\<close> layers, convolution planes of \<open>cn\<close> bytes from
  address \<open>A\<close> on and recurrent planes of \<open>rn\<close> bytes from \<open>A + C\<close> on, both \<open>S\<close> bytes apart and
  ending at or below \<open>E\<close>.
\<close>

definition state_geometry :: "la_pool \<Rightarrow> nat \<Rightarrow> nat \<Rightarrow> nat \<Rightarrow> nat \<Rightarrow> nat \<Rightarrow> u64 \<Rightarrow> u64 \<Rightarrow> bool" where
  "state_geometry pool L A E C S cn rn =
     (length (lp_conv pool) = L \<and> length (lp_recurrent pool) = L \<and> L = unat (la_layers (lp_spec pool)) \<and>
      0 < L \<and> 0 < A \<and> E \<le> u64_max \<and> unat cn \<le> C \<and> C + unat rn \<le> S \<and> int (unat cn) \<le> i64_max \<and> int (unat rn) \<le> i64_max \<and>
      (\<forall>i < L.
        make_tensor (t_data (lp_conv pool ! i)) (la_conv_dtype (lp_spec pool)) (conv_extents (lp_spec pool))
          = Inr (lp_conv pool ! i) \<and>
        make_tensor (t_data (lp_recurrent pool ! i)) FP32 (recurrent_extents (lp_spec pool))
          = Inr (lp_recurrent pool ! i) \<and>
        tensor_bytes (lp_conv pool ! i) = Inr cn \<and> tensor_bytes (lp_recurrent pool ! i) = Inr rn \<and>
        unat (t_data (lp_conv pool ! i)) = A + i * S \<and>
        unat (t_data (lp_recurrent pool ! i)) = A + C + i * S \<and>
        A + i * S + unat cn \<le> E \<and> A + C + i * S + unat rn \<le> E))"

lemma bind_state_layers_ok:
  assumes "length rs = length cs" "tensor_bytes ct = Inr cn" "tensor_bytes rt = Inr rn"
    and "\<And>c. c \<in> set cs \<Longrightarrow> lr_bytes c = cn \<and>
      region_bind c backing = Inr \<lparr>ds_data = ds_data backing + lr_offset c, ds_bytes = lr_bytes c\<rparr>"
    and "\<And>r. r \<in> set rs \<Longrightarrow> lr_bytes r = rn \<and>
      region_bind r backing = Inr \<lparr>ds_data = ds_data backing + lr_offset r, ds_bytes = lr_bytes r\<rparr>"
    and "make_tensor 0 (la_conv_dtype spec) (conv_extents spec) = Inr ct"
    and "make_tensor 0 FP32 (recurrent_extents spec) = Inr rt"
  shows "bind_state_layers backing spec ct rt (zip cs rs) =
    Inr (map (\<lambda>c. ct\<lparr>t_data := ds_data backing + lr_offset c\<rparr>) cs,
         map (\<lambda>r. rt\<lparr>t_data := ds_data backing + lr_offset r\<rparr>) rs)"
  using assms(1,4,5)
proof (induction cs arbitrary: rs)
  case (Cons c cs)
  obtain r rs' where rs: "rs = r # rs'" using Cons.prems(1) by (cases rs) auto
  have mk: "make_tensor p (la_conv_dtype spec) (conv_extents spec) = Inr (ct\<lparr>t_data := p\<rparr>)"
    "make_tensor p FP32 (recurrent_extents spec) = Inr (rt\<lparr>t_data := p\<rparr>)" for p
    using assms(6,7) by (auto simp: make_tensor_data [of p])
  have IH: "bind_state_layers backing spec ct rt (zip cs rs') =
    Inr (map (\<lambda>c. ct\<lparr>t_data := ds_data backing + lr_offset c\<rparr>) cs,
         map (\<lambda>r. rt\<lparr>t_data := ds_data backing + lr_offset r\<rparr>) rs')"
    by (rule Cons.IH) (use Cons.prems rs in auto)
  show ?case using Cons.prems(2,3) assms(2,3) mk IH by (simp add: rs Let_def)
qed simp

lemma planned_state_pool:
  assumes plan: "plan_linear_attention_state_pool b spec = Inr (layout, b')"
    and fin: "layout_finish b' al label = Inr sz" and backing: "backs backing sz"
  obtains pool L A C S cn rn where "make_state_pool backing layout = Inr pool" "lp_spec pool = spec"
    "state_geometry pool L A (unat (ds_data backing) + unat sz) C S cn rn" "unat (ds_data backing) \<le> A"
proof -
  from plan obtain ct rt cs rs where layers: "la_layers spec \<noteq> 0"
    and ct: "make_tensor 0 (la_conv_dtype spec) (conv_extents spec) = Inr ct"
    and rt: "make_tensor 0 FP32 (recurrent_extents spec) = Inr rt"
    and loop: "plan_state_layers b ct rt [0..<unat (la_layers spec)] = Inr (cs, rs, b')"
    and lay: "layout = \<lparr>ll_spec = spec, ll_conv = cs, ll_recurrent = rs\<rparr>"
    by (auto simp: plan_linear_attention_state_pool_def result_simps)
  define L where "L = unat (la_layers spec)"
  have L: "0 < L" using layers by (simp add: L_def unat_gt_0)
  obtain cn rn where cn: "tensor_bytes ct = Inr cn" and rn: "tensor_bytes rt = Inr rn"
    using loop L by (cases "[0..<unat (la_layers spec)]") (auto simp: L_def Let_def result_simps)
  define y where "y = round_up (unat (lb_cursor b)) 256"
  define C S where "C = plane_bytes cn" and "S = plane_bytes cn + plane_bytes rn"
  define D where "D = unat (ds_data backing)"
  have upt: "length [0..<unat (la_layers spec)] = L" by (simp add: L_def)
  note closed = plan_state_layers_closed [OF loop cn rn y_def, unfolded upt, folded S_def, folded C_def]
  note pk = planned_peak [OF fin]
  have al: "256 dvd y" "256 dvd C" "256 dvd S" by (simp_all add: y_def C_def S_def round_up_props(3))
  have D: "ds_bytes backing = sz" "ds_data backing \<noteq> 0" "256 dvd D" "D + unat sz \<le> u64_max"
    "int (unat sz) \<le> i64_max" "0 < D"
    using backing by (auto simp: backs_def D_def unat_gt_0)
  have len: "length cs = L" "length rs = L" using closed by auto
  have ends: "unat (lr_offset (cs ! i)) + unat cn \<le> unat sz" "unat (lr_offset (rs ! i)) + unat rn \<le> unat sz"
    if "i < L" for i
    using closed that pk by (meson order_trans)+
  have bound: "region_bind r backing = Inr \<lparr>ds_data = ds_data backing + lr_offset r, ds_bytes = lr_bytes r\<rparr>"
    "unat (ds_data backing + lr_offset r) = D + unat (lr_offset r)"
    if "lr_alignment r = 256" "256 dvd unat (lr_offset r)" "unat (lr_offset r) + unat (lr_bytes r) \<le> unat sz" for r
  proof -
    have "is_power_of_two (lr_alignment r)" "unat (lr_alignment r) dvd unat (lr_offset r)"
      "unat (lr_offset r) + unat (lr_bytes r) \<le> unat (ds_bytes backing)" "ds_data backing \<noteq> 0"
      "unat (lr_alignment r) dvd unat (ds_data backing)"
      "unat (ds_data backing) + unat (ds_bytes backing) \<le> u64_max"
      using that D(1-4) by (simp_all add: D_def)
    from region_bind_ok [OF this]
    show "region_bind r backing = Inr \<lparr>ds_data = ds_data backing + lr_offset r, ds_bytes = lr_bytes r\<rparr>"
      "unat (ds_data backing + lr_offset r) = D + unat (lr_offset r)" unfolding D_def .
  qed
  have c: "lr_bytes (cs ! i) = cn" "unat (lr_offset (cs ! i)) = y + i * S"
      "region_bind (cs ! i) backing = Inr \<lparr>ds_data = ds_data backing + lr_offset (cs ! i), ds_bytes = lr_bytes (cs ! i)\<rparr>"
      "unat (ds_data backing + lr_offset (cs ! i)) = D + y + i * S"
    and r: "lr_bytes (rs ! i) = rn" "unat (lr_offset (rs ! i)) = y + C + i * S"
      "region_bind (rs ! i) backing = Inr \<lparr>ds_data = ds_data backing + lr_offset (rs ! i), ds_bytes = lr_bytes (rs ! i)\<rparr>"
      "unat (ds_data backing + lr_offset (rs ! i)) = D + y + C + i * S" if i: "i < L" for i
  proof -
    from closed have "\<forall>i < L. lr_bytes (cs ! i) = cn \<and> lr_alignment (cs ! i) = 256 \<and>
        lr_bytes (rs ! i) = rn \<and> lr_alignment (rs ! i) = 256 \<and>
        unat (lr_offset (cs ! i)) = y + i * S \<and> unat (lr_offset (rs ! i)) = y + C + i * S" by blast
    with i have g: "lr_bytes (cs ! i) = cn" "lr_alignment (cs ! i) = 256" "lr_bytes (rs ! i) = rn"
      "lr_alignment (rs ! i) = 256" "unat (lr_offset (cs ! i)) = y + i * S"
      "unat (lr_offset (rs ! i)) = y + C + i * S" by blast+
    show "lr_bytes (cs ! i) = cn" "unat (lr_offset (cs ! i)) = y + i * S"
      "lr_bytes (rs ! i) = rn" "unat (lr_offset (rs ! i)) = y + C + i * S" by (fact g)+
    show "region_bind (cs ! i) backing = Inr \<lparr>ds_data = ds_data backing + lr_offset (cs ! i), ds_bytes = lr_bytes (cs ! i)\<rparr>"
      "unat (ds_data backing + lr_offset (cs ! i)) = D + y + i * S"
      using bound [of "cs ! i"] g(1,2,5) ends(1) [OF i] al by simp_all
    show "region_bind (rs ! i) backing = Inr \<lparr>ds_data = ds_data backing + lr_offset (rs ! i), ds_bytes = lr_bytes (rs ! i)\<rparr>"
      "unat (ds_data backing + lr_offset (rs ! i)) = D + y + C + i * S"
      using bound [of "rs ! i"] g(3,4,6) ends(2) [OF i] al by simp_all
  qed
  let ?cts = "map (\<lambda>c. ct\<lparr>t_data := ds_data backing + lr_offset c\<rparr>) cs"
  let ?rts = "map (\<lambda>r. rt\<lparr>t_data := ds_data backing + lr_offset r\<rparr>) rs"
  let ?pool = "\<lparr>lp_conv = ?cts, lp_recurrent = ?rts, lp_spec = spec\<rparr>"
  have "bind_state_layers backing spec ct rt (zip cs rs) = Inr (?cts, ?rts)"
    by (rule bind_state_layers_ok) (use c r ct rt cn rn len in \<open>auto simp: in_set_conv_nth\<close>)
  then have mk: "make_state_pool backing layout = Inr ?pool"
    using len L ct rt by (auto simp: make_state_pool_def lay Let_def throw_if_def L_def)
  have mkp: "make_tensor p (la_conv_dtype spec) (conv_extents spec) = Inr (ct\<lparr>t_data := p\<rparr>)"
    "make_tensor p FP32 (recurrent_extents spec) = Inr (rt\<lparr>t_data := p\<rparr>)" for p
    using ct rt by (auto simp: make_tensor_data [of p])
  have le: "unat cn \<le> C" "C + unat rn \<le> S" by (simp_all add: C_def S_def round_up_props(1))
  have small: "int (unat cn) \<le> i64_max" "int (unat rn) \<le> i64_max"
    using ends [OF L] D(5) by linarith+
  have "state_geometry ?pool L (D + y) (D + unat sz) C S cn rn"
    unfolding state_geometry_def
    using len L D le small c r ends mkp cn rn by (simp add: L_def add.assoc)
  then show ?thesis using that [OF mk] by (simp add: D_def)
qed

section \<open>The slots of a planned pool\<close>

lemma geometry_layers:
  assumes "state_geometry pool L A E C S cn rn"
  shows "unat (layer_count pool) = L" "layer_indices pool = map word_of_nat [0..<L]"
    "\<And>i. i < L \<Longrightarrow> unat (word_of_nat i :: u32) = i"
    "\<And>i. i < L \<Longrightarrow> \<not> layer_count pool \<le> (word_of_nat i :: u32)" "layer_count pool \<noteq> 0"
proof -
  have L: "L < 4294967296" "0 < L" "length (lp_conv pool) = L"
    using assms unat_u32_le [of "la_layers (lp_spec pool)"] unfolding state_geometry_def by auto
  show c: "unat (layer_count pool) = L" using L by (simp add: layer_count_def unat_of_nat)
  then show "layer_indices pool = map word_of_nat [0..<L]" by (simp add: layer_indices_def)
  show i: "unat (word_of_nat i :: u32) = i" if "i < L" for i using that L by (simp add: unat_of_nat)
  show "\<not> layer_count pool \<le> (word_of_nat i :: u32)" if "i < L" for i
    using that c i by (simp add: word_le_nat_alt)
  show "layer_count pool \<noteq> 0" using c L(2) by (metis less_numeral_extra(3) unat_0)
qed

lemma pool_conv_slots:
  assumes g: "state_geometry pool L A E C S cn rn" and i: "i < L"
  obtains w where "slots_of (\<lambda>s. conv_slot pool s (word_of_nat i)) (slot_count pool) (t_data (lp_conv pool ! i)) w"
    "unat cn = nat (slot_count pool) * unat w"
proof -
  let ?t = "lp_conv pool ! i"
  have t: "make_tensor (t_data ?t) (la_conv_dtype (lp_spec pool))
      [la_conv_channels (lp_spec pool), la_conv_width (lp_spec pool), slot_count pool] = Inr ?t"
    "tensor_bytes ?t = Inr cn" "int (unat cn) \<le> i64_max" "t_data ?t \<noteq> 0" "unat (t_data ?t) + unat cn \<le> u64_max"
    "i < length (lp_conv pool)"
    using g i unfolding state_geometry_def conv_extents_def slot_count_def by auto
  obtain w where w: "slots_of (\<lambda>s. rbind (slice ?t 2 s 1) (\<lambda>u. view u
      [la_conv_channels (lp_spec pool), la_conv_width (lp_spec pool)])) (slot_count pool) (t_data ?t) w"
    "unat cn = nat (slot_count pool) * unat w"
    by (rule slots_of_rank3 [OF t(1-5)])
  have "slots_of (\<lambda>s. conv_slot pool s (word_of_nat i)) (slot_count pool) (t_data ?t) w"
    by (rule slots_of_cong [OF w(1)]) (use geometry_layers(3,4) [OF g i] t(6) in
        \<open>simp add: conv_slot_def validate_layer_slot_def tensor_at_def throw_if_def\<close>)
  then show ?thesis using that w(2) by blast
qed

lemma pool_recurrent_slots:
  assumes g: "state_geometry pool L A E C S cn rn" and i: "i < L"
  obtains w where
    "slots_of (\<lambda>s. recurrent_slot pool s (word_of_nat i)) (slot_count pool) (t_data (lp_recurrent pool ! i)) w"
    "unat rn = nat (slot_count pool) * unat w"
proof -
  let ?t = "lp_recurrent pool ! i"
  have t: "make_tensor (t_data ?t) FP32 [la_key_head_dim (lp_spec pool), la_value_head_dim (lp_spec pool),
      la_value_heads (lp_spec pool), slot_count pool] = Inr ?t"
    "tensor_bytes ?t = Inr rn" "int (unat rn) \<le> i64_max" "t_data ?t \<noteq> 0" "unat (t_data ?t) + unat rn \<le> u64_max"
    "i < length (lp_recurrent pool)"
    using g i unfolding state_geometry_def recurrent_extents_def slot_count_def by auto
  obtain w where w: "slots_of (\<lambda>s. rbind (slice ?t 3 s 1) (\<lambda>u. view u [la_key_head_dim (lp_spec pool),
      la_value_head_dim (lp_spec pool), la_value_heads (lp_spec pool)])) (slot_count pool) (t_data ?t) w"
    "unat rn = nat (slot_count pool) * unat w"
    by (rule slots_of_rank4 [OF t(1-5)])
  have "slots_of (\<lambda>s. recurrent_slot pool s (word_of_nat i)) (slot_count pool) (t_data ?t) w"
    by (rule slots_of_cong [OF w(1)]) (use geometry_layers(3,4) [OF g i] t(6) in
        \<open>simp add: recurrent_slot_def validate_layer_slot_def tensor_at_def throw_if_def\<close>)
  then show ?thesis using that w(2) by blast
qed

text \<open>
  All of it together: the slot widths \<open>wc\<close> and \<open>wr\<close>, and the planes of the pool in the order in
  which the copy loops visit them.
\<close>

definition pool_planes :: "la_pool \<Rightarrow> u64 \<Rightarrow> u64 \<Rightarrow> (u64 \<times> u64) list" where
  "pool_planes pool wc wr =
     map (\<lambda>t. (t_data t, wc)) (lp_conv pool) @ map (\<lambda>t. (t_data t, wr)) (lp_recurrent pool)"

definition pool_slots :: "la_pool \<Rightarrow> u64 \<Rightarrow> u64 \<Rightarrow> bool" where
  "pool_slots pool wc wr =
     (layer_indices pool = map word_of_nat [0..<length (lp_conv pool)] \<and> layer_count pool \<noteq> 0 \<and>
      length (lp_recurrent pool) = length (lp_conv pool) \<and>
      planes_ok (nat (slot_count pool)) (pool_planes pool wc wr) \<and>
      (\<forall>i < length (lp_conv pool).
        slots_of (\<lambda>s. conv_slot pool s (word_of_nat i)) (slot_count pool) (t_data (lp_conv pool ! i)) wc \<and>
        slots_of (\<lambda>s. recurrent_slot pool s (word_of_nat i)) (slot_count pool) (t_data (lp_recurrent pool ! i)) wr))"

lemma common_width:
  assumes n: "0 < (n :: nat)" and L: "0 < L"
    and ex: "\<And>i. i < L \<Longrightarrow> \<exists>w :: u64. P i w \<and> c = n * unat w"
  obtains w where "\<forall>i < L. P i w" "c = n * unat w"
proof -
  obtain w where w: "P 0 w" "c = n * unat w" using ex [OF L] by blast
  have "P i w" if i: "i < L" for i
  proof -
    obtain w' where w': "P i w'" "c = n * unat w'" using ex [OF i] by blast
    then have "w' = w" using w(2) n by (simp add: word_unat_eq_iff)
    with w' show ?thesis by simp
  qed
  with w(2) show ?thesis using that by blast
qed

lemma interleaved_planes:
  fixes A S C cn rn :: nat
  assumes "cn \<le> C" "C + rn \<le> S" "i \<noteq> j"
  shows "A + i * S + cn \<le> A + j * S \<or> A + j * S + cn \<le> A + i * S"
    "A + C + i * S + rn \<le> A + C + j * S \<or> A + C + j * S + rn \<le> A + C + i * S"
    "A + i * S + cn \<le> A + C + j * S \<or> A + C + j * S + rn \<le> A + i * S"
proof -
  have "i * S + S \<le> j * S \<or> j * S + S \<le> i * S"
    using assms(3) slot_end_le [of i j S] slot_end_le [of j i S] by (metis nat_neq_iff)
  then show "A + i * S + cn \<le> A + j * S \<or> A + j * S + cn \<le> A + i * S"
    "A + C + i * S + rn \<le> A + C + j * S \<or> A + C + j * S + rn \<le> A + C + i * S"
    "A + i * S + cn \<le> A + C + j * S \<or> A + C + j * S + rn \<le> A + i * S"
    using assms(1,2) by linarith+
qed

lemma geometry_slots:
  assumes g: "state_geometry pool L A E C S cn rn"
  obtains wc wr where "pool_slots pool wc wr"
    "\<forall>x \<in> set (pool_planes pool wc wr). plane_range (nat (slot_count pool)) x \<subseteq> {a. A \<le> unat a \<and> unat a < E}"
proof -
  let ?n = "nat (slot_count pool)"
  have L: "0 < L" "length (lp_conv pool) = L" "length (lp_recurrent pool) = L" "E \<le> u64_max"
    "unat cn \<le> C" "C + unat rn \<le> S"
    using g by (auto simp: state_geometry_def)
  have "0 < slot_count pool"
    using g L(1) make_tensor_Inr [of "t_data (lp_recurrent pool ! 0)" FP32] unfolding state_geometry_def slot_count_def
      recurrent_extents_def by force
  then have n: "0 < ?n" by simp
  have exc: "\<exists>w. slots_of (\<lambda>s. conv_slot pool s (word_of_nat i)) (slot_count pool) (t_data (lp_conv pool ! i)) w \<and>
      unat cn = ?n * unat w" if "i < L" for i
    by (rule pool_conv_slots [OF g that]) blast
  have exr: "\<exists>w. slots_of (\<lambda>s. recurrent_slot pool s (word_of_nat i)) (slot_count pool) (t_data (lp_recurrent pool ! i)) w \<and>
      unat rn = ?n * unat w" if "i < L" for i
    by (rule pool_recurrent_slots [OF g that]) blast
  obtain wc where wc: "\<forall>i < L.
      slots_of (\<lambda>s. conv_slot pool s (word_of_nat i)) (slot_count pool) (t_data (lp_conv pool ! i)) wc"
    "unat cn = ?n * unat wc"
    by (rule common_width [OF n L(1) exc])
  obtain wr where wr: "\<forall>i < L.
      slots_of (\<lambda>s. recurrent_slot pool s (word_of_nat i)) (slot_count pool) (t_data (lp_recurrent pool ! i)) wr"
    "unat rn = ?n * unat wr"
    by (rule common_width [OF n L(1) exr])
  have at: "unat (t_data (lp_conv pool ! i)) = A + i * S" "unat (t_data (lp_recurrent pool ! i)) = A + C + i * S"
    "A + i * S + unat cn \<le> E" "A + C + i * S + unat rn \<le> E" if "i < L" for i
    using g that by (auto simp: state_geometry_def)
  have inside: "A \<le> unat a \<and> unat a < E"
    if "x \<in> set (pool_planes pool wc wr)" "a \<in> plane_range ?n x" for x a
    using that at wc(2) wr(2) L(2,3) by (fastforce simp: pool_planes_def plane_range_def in_set_conv_nth)
  have fit: "\<forall>(p, w) \<in> set (pool_planes pool wc wr). unat p + ?n * unat w \<le> u64_max"
    using at wc(2) wr(2) L(2-4) by (fastforce simp: pool_planes_def in_set_conv_nth)
  have conv: "plane_range ?n (t_data (lp_conv pool ! i), wc) = {a. A + i * S \<le> unat a \<and> unat a < A + i * S + unat cn}"
    and rec: "plane_range ?n (t_data (lp_recurrent pool ! i), wr) =
      {a. A + C + i * S \<le> unat a \<and> unat a < A + C + i * S + unat rn}" if "i < L" for i
    using at(1,2) [OF that] wc(2) wr(2) by (simp_all add: plane_range_def)
  have cc: "plane_range ?n (t_data (lp_conv pool ! i), wc) \<inter> plane_range ?n (t_data (lp_conv pool ! j), wc) = {}"
    and rr: "plane_range ?n (t_data (lp_recurrent pool ! i), wr) \<inter> plane_range ?n (t_data (lp_recurrent pool ! j), wr) = {}"
    if ij: "i < L" "j < L" "i \<noteq> j" for i j
    using interleaved_planes(1,2) [OF L(5,6) ij(3), of A]
    unfolding conv [OF ij(1)] conv [OF ij(2)] rec [OF ij(1)] rec [OF ij(2)] by auto
  have "sorted_wrt (\<lambda>x y. plane_range ?n x \<inter> plane_range ?n y = {}) (pool_planes pool wc wr)"
    unfolding pool_planes_def sorted_wrt_append sorted_wrt_map
  proof (intro conjI)
    show "sorted_wrt (\<lambda>x y. plane_range ?n (t_data x, wc) \<inter> plane_range ?n (t_data y, wc) = {}) (lp_conv pool)"
      unfolding sorted_wrt_iff_nth_less L(2) using cc by simp
    show "sorted_wrt (\<lambda>x y. plane_range ?n (t_data x, wr) \<inter> plane_range ?n (t_data y, wr) = {}) (lp_recurrent pool)"
      unfolding sorted_wrt_iff_nth_less L(3) using rr by simp
    have "plane_range ?n (t_data (lp_conv pool ! i), wc) \<inter> plane_range ?n (t_data (lp_recurrent pool ! j), wr) = {}"
      if ij: "i < L" "j < L" for i j
      using interleaved_planes(3) [OF L(5,6), of i j A] L(5) unfolding conv [OF ij(1)] rec [OF ij(2)]
      by (cases "i = j") auto
    then show "\<forall>x \<in> set (map (\<lambda>t. (t_data t, wc)) (lp_conv pool)). \<forall>y \<in> set (map (\<lambda>t. (t_data t, wr)) (lp_recurrent pool)).
        plane_range ?n x \<inter> plane_range ?n y = {}"
      by (simp add: all_set_conv_all_nth L(2,3))
  qed
  then have "pool_slots pool wc wr"
    using fit wc(1) wr(1) L geometry_layers(2,5) [OF g] by (simp add: pool_slots_def planes_ok_def)
  then show ?thesis using that inside by blast
qed

section \<open>Copying and clearing slots\<close>

text \<open>The loops over the layers are loops over the planes.\<close>

lemma copy_tensors_slot:
  assumes "slots_of (\<lambda>s. f s layer) n p w" "0 \<le> src" "src < n" "0 \<le> dst" "dst < n"
  shows "copy_tensors memcpy f src dst layer = memcpy (slot_addr p w (nat dst)) (slot_addr p w (nat src)) w"
proof -
  obtain u where "f src layer = Inr u" "t_data u = slot_addr p w (nat src)" "tensor_bytes u = Inr w"
    by (rule slots_ofE [OF assms(1-3)])
  moreover obtain v where "f dst layer = Inr v" "t_data v = slot_addr p w (nat dst)"
    by (rule slots_ofE [OF assms(1,4,5)])
  ultimately show ?thesis by (simp add: fun_eq_iff copy_tensors_def sbind_def slift_def)
qed

lemma zero_tensor_slot:
  assumes "slots_of (\<lambda>s. f s layer) n p w" "0 \<le> s" "s < n"
  shows "zero_tensor memset f s layer = memset (slot_addr p w (nat s)) 0 w"
proof -
  obtain u where "f s layer = Inr u" "t_data u = slot_addr p w (nat s)" "tensor_bytes u = Inr w"
    by (rule slots_ofE [OF assms])
  then show ?thesis by (simp add: fun_eq_iff zero_tensor_def sbind_def slift_def)
qed

lemma copy_slot_planes:
  assumes p: "pool_slots pool wc wr" and s: "0 \<le> src" "src < slot_count pool" "0 \<le> dst" "dst < slot_count pool"
    and ne: "src \<noteq> dst"
  shows "copy_slot memcpy pool src dst =
    siter (\<lambda>(p, w). memcpy (slot_addr p w (nat dst)) (slot_addr p w (nat src)) w) (pool_planes pool wc wr)"
proof -
  let ?f = "\<lambda>(p, w). memcpy (slot_addr p w (nat dst)) (slot_addr p w (nat src)) w"
  have c: "siter (copy_tensors memcpy (conv_slot pool) src dst) (layer_indices pool) =
      siter ?f (map (\<lambda>t. (t_data t, wc)) (lp_conv pool))"
    using p unfolding pool_slots_def map_as_nth [of "\<lambda>t. (t_data t, wc)"]
    by (auto intro!: siter_cong_map copy_tensors_slot simp: s)
  have r: "siter (copy_tensors memcpy (recurrent_slot pool) src dst) (layer_indices pool) =
      siter ?f (map (\<lambda>t. (t_data t, wr)) (lp_recurrent pool))"
    using p unfolding pool_slots_def map_as_nth [of "\<lambda>t. (t_data t, wr)"]
    by (auto intro!: siter_cong_map copy_tensors_slot simp: s)
  have "validate_layer_slot pool 0 x label = Inr ()" if "0 \<le> x" "x < slot_count pool" for x label
    using that p by (simp add: validate_layer_slot_def pool_slots_def throw_if_def not_le)
  then show ?thesis
    unfolding copy_slot_def pool_planes_def siter_append c r
    using s ne by (simp add: fun_eq_iff sbind_def slift_def)
qed

lemma zero_slot_planes:
  assumes p: "pool_slots pool wc wr" and s: "0 \<le> slot" "slot < slot_count pool"
  shows "zero_slot memset pool slot =
    siter (\<lambda>(p, w). memset (slot_addr p w (nat slot)) 0 w) (pool_planes pool wc wr)"
proof -
  let ?f = "\<lambda>(p, w). memset (slot_addr p w (nat slot)) 0 w"
  have c: "siter (zero_tensor memset (conv_slot pool) slot) (layer_indices pool) =
      siter ?f (map (\<lambda>t. (t_data t, wc)) (lp_conv pool))"
    using p unfolding pool_slots_def map_as_nth [of "\<lambda>t. (t_data t, wc)"]
    by (auto intro!: siter_cong_map zero_tensor_slot simp: s)
  have r: "siter (zero_tensor memset (recurrent_slot pool) slot) (layer_indices pool) =
      siter ?f (map (\<lambda>t. (t_data t, wr)) (lp_recurrent pool))"
    using p unfolding pool_slots_def map_as_nth [of "\<lambda>t. (t_data t, wr)"]
    by (auto intro!: siter_cong_map zero_tensor_slot simp: s)
  have "validate_layer_slot pool 0 slot label = Inr ()" for label
    using s p by (simp add: validate_layer_slot_def pool_slots_def throw_if_def not_le)
  then show ?thesis
    unfolding zero_slot_def pool_planes_def siter_append c r
    by (simp add: fun_eq_iff sbind_def slift_def)
qed

lemma slot_image_planes:
  assumes p: "pool_slots pool wc wr" and s: "0 \<le> slot" "slot < slot_count pool"
  shows "slot_image pool m slot =
    Inr (map (\<lambda>t. read_bytes m (slot_addr (t_data t) wc (nat slot)) wc) (lp_conv pool),
         map (\<lambda>t. read_bytes m (slot_addr (t_data t) wr (nat slot)) wr) (lp_recurrent pool))"
proof -
  have li: "layer_indices pool = map word_of_nat [0..<length (lp_conv pool)]"
    and len: "length (lp_recurrent pool) = length (lp_conv pool)" using p by (auto simp: pool_slots_def)
  have one: "rbind (f slot layer) (slot_bytes m) = Inr (read_bytes m (slot_addr p w (nat slot)) w)"
    if "slots_of (\<lambda>s. f s layer) (slot_count pool) p w" for f p w and layer :: u32
    by (rule slots_ofE [OF that s]) (simp add: slot_bytes_def)
  have "rmap (\<lambda>layer. rbind (conv_slot pool slot layer) (slot_bytes m)) (layer_indices pool) =
      Inr (map (\<lambda>t. read_bytes m (slot_addr (t_data t) wc (nat slot)) wc) (lp_conv pool))"
    unfolding map_as_nth [of _ "lp_conv pool"]
    using p unfolding li rmap_map by (intro rmap_ok one [of "conv_slot pool"]) (simp add: pool_slots_def)
  moreover have "rmap (\<lambda>layer. rbind (recurrent_slot pool slot layer) (slot_bytes m)) (layer_indices pool) =
      Inr (map (\<lambda>t. read_bytes m (slot_addr (t_data t) wr (nat slot)) wr) (lp_recurrent pool))"
    unfolding map_as_nth [of _ "lp_recurrent pool"]
    using p unfolding li rmap_map len by (intro rmap_ok one [of "recurrent_slot pool"]) (simp add: pool_slots_def)
  ultimately show ?thesis by (simp add: slot_image_def)
qed

lemma slot_image_out_of_range:
  assumes p: "pool_slots pool wc wr" and s: "slot < 0 \<or> slot_count pool \<le> slot"
  shows "slot_image pool m slot = slot_image pool m' slot"
proof -
  have "0 < length (lp_conv pool)" using p by (auto simp: pool_slots_def layer_count_def)
  then have "\<exists>x xs. layer_indices pool = x # xs" using p by (auto simp: pool_slots_def upt_conv_Cons)
  then show ?thesis using s p
    by (auto simp: slot_image_def conv_slot_def validate_layer_slot_def throw_if_def)
qed

lemma slot_images_agree:
  assumes p: "pool_slots pool wc wr" and s: "0 \<le> slot" "slot < slot_count pool" "0 \<le> slot'" "slot' < slot_count pool"
    and same: "\<forall>(p, w) \<in> set (pool_planes pool wc wr).
      read_bytes m (slot_addr p w (nat slot)) w = read_bytes m' (slot_addr p w (nat slot')) w"
  shows "slot_image pool m slot = slot_image pool m' slot'"
  using same unfolding slot_image_planes [OF p s(1,2)] slot_image_planes [OF p s(3,4)]
  by (auto simp: pool_planes_def)

lemma planned_pool_slots:
  assumes plan: "plan_linear_attention_state_pool b spec = Inr (layout, b')"
    and fin: "layout_finish b' al label = Inr sz" and backing: "backs backing sz"
  obtains pool wc wr where "make_state_pool backing layout = Inr pool" "lp_spec pool = spec" "pool_slots pool wc wr"
    "\<forall>x \<in> set (pool_planes pool wc wr).
       plane_range (nat (slot_count pool)) x \<subseteq> byte_range (ds_data backing) (ds_bytes backing)"
proof -
  obtain pool L A C S cn rn where pool: "make_state_pool backing layout = Inr pool" "lp_spec pool = spec"
    and g: "state_geometry pool L A (unat (ds_data backing) + unat sz) C S cn rn" "unat (ds_data backing) \<le> A"
    by (rule planned_state_pool [OF plan fin backing])
  obtain wc wr where p: "pool_slots pool wc wr" and inside: "\<forall>x \<in> set (pool_planes pool wc wr).
      plane_range (nat (slot_count pool)) x \<subseteq> {a. A \<le> unat a \<and> unat a < unat (ds_data backing) + unat sz}"
    by (rule geometry_slots [OF g(1)])
  have "{a. A \<le> unat a \<and> unat a < unat (ds_data backing) + unat sz} \<subseteq> byte_range (ds_data backing) (ds_bytes backing)"
    using g(2) backing by (auto simp: byte_range_def backs_def)
  then show ?thesis using that [OF pool p] inside by blast
qed

text \<open>A write confined to one slot of every plane keeps all other images.\<close>

lemma other_images_kept:
  assumes p: "pool_slots pool wc wr" and dst: "0 \<le> dst"
    and kept: "\<forall>(p, w) \<in> set (pool_planes pool wc wr). \<forall>k < nat (slot_count pool). k \<noteq> nat dst \<longrightarrow>
       read_bytes m' (slot_addr p w k) w = read_bytes m (slot_addr p w k) w"
    and slot: "slot \<noteq> dst"
  shows "slot_image pool m' slot = slot_image pool m slot"
proof (cases "0 \<le> slot \<and> slot < slot_count pool")
  case True
  then have "nat slot < nat (slot_count pool)" "nat slot \<noteq> nat dst" using slot dst by auto
  then show ?thesis using True kept by (intro slot_images_agree [OF p]) auto
next
  case False
  then show ?thesis using slot_image_out_of_range [OF p] by (metis not_le)
qed

text \<open>
  C11. The slots of a pool built from its plan are independent state images. A planned pool always binds
  to a backing of the planned size; copying a slot then updates exactly one image: if every device copy is
  accepted, the destination holds the image the source had and every other slot keeps its own; if a copy
  fails the error is the runtime's, and at most the destination slot is damaged. No byte outside the backing
  changes either way.
\<close>

theorem copy_slot_updates_image:
  assumes plan: "plan_linear_attention_state_pool b spec = Inr (layout, b')"
    and fin: "layout_finish b' al label = Inr sz" and backing: "backs backing sz"
    and law: "memcpy_law memcpy"
    and s: "0 \<le> src" "src < la_slot_count spec" "0 \<le> dst" "dst < la_slot_count spec"
  shows "\<exists>pool. make_state_pool backing layout = Inr pool \<and>
    (case copy_slot memcpy pool src dst m of
       (Inr _, m') \<Rightarrow> slot_image pool m' = (slot_image pool m)(dst := slot_image pool m src) \<and>
          (\<exists>image. slot_image pool m src = Inr image)
     | (Inl e, m') \<Rightarrow> (\<exists>d q n m1. fst (memcpy d q n m1) = Inl e) \<and>
          (\<forall>slot. slot \<noteq> dst \<longrightarrow> slot_image pool m' slot = slot_image pool m slot)) \<and>
    (\<forall>a. a \<notin> byte_range (ds_data backing) (ds_bytes backing) \<longrightarrow>
       snd (copy_slot memcpy pool src dst m) a = m a)"
proof -
  obtain pool wc wr where pool: "make_state_pool backing layout = Inr pool" "lp_spec pool = spec"
    and p: "pool_slots pool wc wr" and inside: "\<forall>x \<in> set (pool_planes pool wc wr).
       plane_range (nat (slot_count pool)) x \<subseteq> byte_range (ds_data backing) (ds_bytes backing)"
    by (rule planned_pool_slots [OF plan fin backing])
  have n: "slot_count pool = la_slot_count spec" by (simp add: slot_count_def pool(2))
  have ok: "planes_ok (nat (slot_count pool)) (pool_planes pool wc wr)" using p by (simp add: pool_slots_def)
  have image: "\<exists>image. slot_image pool m src = Inr image" using slot_image_planes [OF p] s n by auto
  obtain r m' where run: "copy_slot memcpy pool src dst m = (r, m')" by fastforce
  show ?thesis
  proof (cases "src = dst")
    case True
    then have "copy_slot memcpy pool src dst m = (Inr (), m)"
      using p s n by (simp add: copy_slot_def validate_layer_slot_def pool_slots_def throw_if_def sbind_def slift_def)
    then show ?thesis using pool(1) image True by auto
  next
    case False
    have run': "siter (\<lambda>(p, w). memcpy (slot_addr p w (nat dst)) (slot_addr p w (nat src)) w) (pool_planes pool wc wr) m = (r, m')"
      using run copy_slot_planes [OF p, of src dst memcpy] s n False by simp
    have nats: "nat src < nat (slot_count pool)" "nat dst < nat (slot_count pool)" "nat src \<noteq> nat dst"
      using s n False by auto
    note cp = copy_planes [OF law ok nats run']
    have other: "slot_image pool m' slot = slot_image pool m slot" if "slot \<noteq> dst" for slot
      using other_images_kept [OF p s(3) _ that] cp by blast
    have copied: "slot_image pool m' dst = slot_image pool m src" if "r = Inr ()"
      using that cp s n by (intro slot_images_agree [OF p]) auto
    have out: "m' a = m a" if "a \<notin> byte_range (ds_data backing) (ds_bytes backing)" for a
      using cp inside that by blast
    show ?thesis
      using pool(1) run other copied image out cp by (cases r) (auto simp: fun_eq_iff)
  qed
qed

text \<open>
  C15. Clearing a slot of a planned pool replaces exactly that slot's image by the image of an all-zero
  memory, or fails with an error of the runtime; every other slot and every byte outside the backing stays.
\<close>

theorem zero_slot_clears_image:
  assumes plan: "plan_linear_attention_state_pool b spec = Inr (layout, b')"
    and fin: "layout_finish b' al label = Inr sz" and backing: "backs backing sz"
    and law: "memset_law memset" and s: "0 \<le> slot" "slot < la_slot_count spec"
  shows "\<exists>pool. make_state_pool backing layout = Inr pool \<and>
    (case zero_slot memset pool slot m of
       (Inr _, m') \<Rightarrow> slot_image pool m' = (slot_image pool m)(slot := slot_image pool (\<lambda>_. 0) slot)
     | (Inl e, m') \<Rightarrow> (\<exists>d n m1. fst (memset d 0 n m1) = Inl e) \<and>
          (\<forall>k. k \<noteq> slot \<longrightarrow> slot_image pool m' k = slot_image pool m k)) \<and>
    (\<forall>a. a \<notin> byte_range (ds_data backing) (ds_bytes backing) \<longrightarrow> snd (zero_slot memset pool slot m) a = m a)"
proof -
  obtain pool wc wr where pool: "make_state_pool backing layout = Inr pool" "lp_spec pool = spec"
    and p: "pool_slots pool wc wr" and inside: "\<forall>x \<in> set (pool_planes pool wc wr).
       plane_range (nat (slot_count pool)) x \<subseteq> byte_range (ds_data backing) (ds_bytes backing)"
    by (rule planned_pool_slots [OF plan fin backing])
  have n: "slot_count pool = la_slot_count spec" by (simp add: slot_count_def pool(2))
  have ok: "planes_ok (nat (slot_count pool)) (pool_planes pool wc wr)" using p by (simp add: pool_slots_def)
  obtain r m' where run: "zero_slot memset pool slot m = (r, m')" by fastforce
  have run': "siter (\<lambda>(p, w). memset (slot_addr p w (nat slot)) 0 w) (pool_planes pool wc wr) m = (r, m')"
    using run zero_slot_planes [OF p, of slot memset] s n by simp
  have "nat slot < nat (slot_count pool)" using s n by auto
  note cl = zero_planes [OF law ok this run']
  have zeros: "read_bytes (\<lambda>_. 0) q w = replicate (unat w) 0" for q w
    by (simp add: read_bytes_def map_replicate_const)
  have other: "slot_image pool m' k = slot_image pool m k" if "k \<noteq> slot" for k
    using other_images_kept [OF p s(1) _ that] cl by blast
  have cleared: "slot_image pool m' slot = slot_image pool (\<lambda>_. 0) slot" if "r = Inr ()"
    using that cl s n by (intro slot_images_agree [OF p]) (auto simp: zeros)
  have out: "m' a = m a" if "a \<notin> byte_range (ds_data backing) (ds_bytes backing)" for a
    using cl inside that by blast
  show ?thesis
    using pool(1) run other cleared out cl by (cases r) (auto simp: fun_eq_iff)
qed

section \<open>The stride of the all-layers view\<close>

lemma constant_stride_ok:
  assumes "\<forall>i < length ts. unat (t_data (ts ! i)) = unat previous + Suc i * unat stride" "0 < unat stride"
  shows "constant_stride stride previous ts label = Inr ()"
  using assms(1)
proof (induction ts arbitrary: previous)
  case (Cons t ts)
  have t: "unat (t_data t) = unat previous + unat stride" using Cons.prems by (auto dest: spec [of _ 0])
  then have "unat (t_data t - previous) = unat stride"
    by (subst unat_sub) (auto simp: word_le_nat_alt)
  then have eq: "t_data t - previous = stride" by (simp add: word_unat_eq_iff)
  have "\<forall>i < length ts. unat (t_data (ts ! i)) = unat (t_data t) + Suc i * unat stride"
  proof (intro allI impI)
    fix i assume "i < length ts"
    with Cons.prems [rule_format, of "Suc i"] t
    show "unat (t_data (ts ! i)) = unat (t_data t) + Suc i * unat stride" by simp
  qed
  from Cons.IH [OF this] show ?case using t eq assms(2) by (simp add: word_le_nat_alt)
qed simp

lemma layer_stride_ok:
  assumes len: "0 < length ts" and at: "\<forall>i < length ts. unat (t_data (ts ! i)) = A + i * S"
    and n: "tensor_bytes (hd ts) = Inr n" "unat n \<le> S" "0 < S"
    and small: "length ts = 1 \<or> int S \<le> i64_max"
  shows "layer_stride_bytes ts label = Inr (if length ts = 1 then 0 else int S)"
proof (cases ts)
  case (Cons t0 rest)
  show ?thesis
  proof (cases rest)
    case (Cons t1 ts')
    then have ts: "ts = t0 # t1 # ts'" using \<open>ts = t0 # rest\<close> by simp
    define st where "st = t_data t1 - t_data t0"
    have t: "unat (t_data t0) = A" "unat (t_data t1) = A + S"
      using at by (auto simp: ts dest: spec [of _ 0] spec [of _ 1])
    then have st: "unat st = S" unfolding st_def by (subst unat_sub) (auto simp: word_le_nat_alt)
    have "\<forall>i < length ts'. unat (t_data (ts' ! i)) = unat (t_data t1) + Suc i * unat st"
    proof (intro allI impI)
      fix i assume "i < length ts'"
      with at [rule_format, of "Suc (Suc i)"] t(2) st
      show "unat (t_data (ts' ! i)) = unat (t_data t1) + Suc i * unat st" by (simp add: ts)
    qed
    then have cs: "constant_stride st (t_data t1) ts' label = Inr ()"
      using st n(3) by (intro constant_stride_ok) auto
    have "\<not> t_data t1 \<le> t_data t0" using t n(3) by (simp add: word_le_nat_alt)
    moreover have "uint st = int S" using st by (metis uint_nat)
    moreover have "\<not> st < n" using st n(2) by (simp add: word_less_nat_alt)
    ultimately show ?thesis using cs n(1) small
      by (simp add: ts st_def [symmetric] throw_if_def)
  qed (simp add: Cons)
qed (use len in simp)

lemma validate_state_tensor_ok:
  assumes "make_tensor (t_data t) dt shape = Inr t" "tensor_bytes t = Inr n" "t_data t \<noteq> 0"
  shows "validate_state_tensor t dt shape label = Inr ()"
proof -
  obtain u where u: "make_tensor 0 dt shape = Inr u" "t = u\<lparr>t_data := t_data t\<rparr>"
    using assms(1) make_tensor_data by metis
  have "tensor_bytes u = Inr n" using assms(2) u(2) tensor_bytes_data by metis
  moreover have "t_ne t = t_ne u" "t_dtype t = dt"
    using u(2) make_tensor_Inr [OF assms(1)] by (metis tensor.select_convs(3) tensor.surjective tensor.update_convs(1), blast)
  moreover have "is_contiguous t" using made_contiguous [OF assms(1)] .
  ultimately show ?thesis
    using u(1) assms(2,3) by (simp add: validate_state_tensor_def throw_if_def)
qed

lemma validate_state_layers_ok:
  assumes "length rs = length cs"
    and "\<And>i. i < length cs \<Longrightarrow> validate_state_tensor (cs ! i) (la_conv_dtype spec) (conv_extents spec) ''conv'' = Inr ()
      \<and> validate_state_tensor (rs ! i) FP32 (recurrent_extents spec) ''recurrent'' = Inr ()"
  shows "validate_state_layers spec (zip cs rs) = Inr ()"
  using assms
proof (induction cs arbitrary: rs)
  case (Cons c cs)
  then obtain r rs' where rs: "rs = r # rs'" by (cases rs) auto
  have "validate_state_layers spec (zip cs rs') = Inr ()"
    by (rule Cons.IH) (use Cons.prems(1) Cons.prems(2) [of "Suc _"] rs in auto)
  then show ?case using Cons.prems(2) [of 0] rs by simp
qed simp

text \<open>
  C14. The view over all layers of a planned pool always exists, and its strides are exact: the
  convolution and the recurrent tensor of layer \<open>i\<close> start \<open>i\<close> strides after those of layer 0, and with more
  than one layer a stride is at least the size of a tensor.
\<close>

theorem all_layers_view_exact:
  assumes plan: "plan_linear_attention_state_pool b spec = Inr (layout, b')"
    and fin: "layout_finish b' al label = Inr sz" and backing: "backs backing sz"
  shows "\<exists>pool v cn rn. make_state_pool backing layout = Inr pool \<and> all_layers_view pool = Inr v \<and> lv_spec v = spec \<and>
    length (lp_conv pool) = unat (la_layers spec) \<and> length (lp_recurrent pool) = unat (la_layers spec) \<and>
    tensor_bytes (lv_conv_layer0 v) = Inr cn \<and> tensor_bytes (lv_recurrent_layer0 v) = Inr rn \<and>
    (\<forall>i < unat (la_layers spec).
       int (unat (t_data (lp_conv pool ! i))) =
         int (unat (t_data (lv_conv_layer0 v))) + int i * lv_conv_layer_stride_bytes v \<and>
       int (unat (t_data (lp_recurrent pool ! i))) =
         int (unat (t_data (lv_recurrent_layer0 v))) + int i * lv_recurrent_layer_stride_bytes v) \<and>
    (1 < la_layers spec \<longrightarrow>
       int (unat cn) \<le> lv_conv_layer_stride_bytes v \<and> int (unat rn) \<le> lv_recurrent_layer_stride_bytes v)"
proof -
  obtain pool L A C S cn rn where pool: "make_state_pool backing layout = Inr pool" "lp_spec pool = spec"
    and g: "state_geometry pool L A (unat (ds_data backing) + unat sz) C S cn rn" "unat (ds_data backing) \<le> A"
    by (rule planned_state_pool [OF plan fin backing])
  have L: "0 < L" "length (lp_conv pool) = L" "length (lp_recurrent pool) = L" "L = unat (la_layers spec)"
    "unat cn \<le> C" "C + unat rn \<le> S" "0 < A"
    using g pool(2) by (auto simp: state_geometry_def)
  have at: "unat (t_data (lp_conv pool ! i)) = A + i * S" "unat (t_data (lp_recurrent pool ! i)) = A + C + i * S"
    "tensor_bytes (lp_conv pool ! i) = Inr cn" "tensor_bytes (lp_recurrent pool ! i) = Inr rn"
    "make_tensor (t_data (lp_conv pool ! i)) (la_conv_dtype spec) (conv_extents spec) = Inr (lp_conv pool ! i)"
    "make_tensor (t_data (lp_recurrent pool ! i)) FP32 (recurrent_extents spec) = Inr (lp_recurrent pool ! i)"
    "A + i * S + unat cn \<le> unat (ds_data backing) + unat sz"
    if "i < L" for i
    using g that pool(2) by (auto simp: state_geometry_def)
  have nz: "t_data (lp_conv pool ! i) \<noteq> 0" "t_data (lp_recurrent pool ! i) \<noteq> 0" if "i < L" for i
    using at(1,2) [OF that] L(7) by (auto simp: word_unat_eq_iff)
  have hd: "hd (lp_conv pool) = lp_conv pool ! 0" "hd (lp_recurrent pool) = lp_recurrent pool ! 0"
    using L(1-3) by (simp_all add: hd_conv_nth flip: length_greater_0_conv)
  have S: "0 < S" "unat cn \<le> S" "unat rn \<le> S" "L = 1 \<or> int S \<le> i64_max"
  proof -
    have "0 < int (unat rn)"
      by (rule made_tensor_geometry [OF at(6) [OF L(1)] at(4) [OF L(1)]])
        (use dtype_size_bounds(1) in simp)
    then show "0 < S" "unat cn \<le> S" "unat rn \<le> S" using L(5,6) by linarith+
    show "L = 1 \<or> int S \<le> i64_max"
    proof (cases "L = 1")
      case False
      then have "A + 1 * S + unat cn \<le> unat (ds_data backing) + unat sz" using at(7) [of 1] L(1) by linarith
      moreover have "int (unat sz) \<le> i64_max" using backing by (simp only: backs_def)
      ultimately have "int S \<le> i64_max" using g(2) by linarith
      then show ?thesis ..
    qed simp
  qed
  have sc: "layer_stride_bytes (lp_conv pool) ''conv'' = Inr (if L = 1 then 0 else int S)"
    using layer_stride_ok [of "lp_conv pool" A S cn "''conv''"] L(1-3) at S hd by simp
  have sr: "layer_stride_bytes (lp_recurrent pool) ''recurrent'' = Inr (if L = 1 then 0 else int S)"
    using layer_stride_ok [of "lp_recurrent pool" "A + C" S rn "''recurrent''"] L(1-3) at S hd by simp
  have "validate_state_layers spec (zip (lp_conv pool) (lp_recurrent pool)) = Inr ()"
    by (rule validate_state_layers_ok)
      (use L at nz validate_state_tensor_ok in \<open>auto intro!: validate_state_tensor_ok\<close>)
  moreover define v where "v = \<lparr>lv_conv_layer0 = lp_conv pool ! 0, lv_recurrent_layer0 = lp_recurrent pool ! 0,
      lv_conv_layer_stride_bytes = (if L = 1 then 0 else int S),
      lv_recurrent_layer_stride_bytes = (if L = 1 then 0 else int S), lv_spec = spec\<rparr>"
  ultimately have view: "all_layers_view pool = Inr v"
    using L sc sr hd by (auto simp: all_layers_view_def Let_def pool(2) throw_if_def)
  have steps: "int (unat (t_data (lp_conv pool ! i))) = int (unat (t_data (lv_conv_layer0 v))) + int i * lv_conv_layer_stride_bytes v"
    "int (unat (t_data (lp_recurrent pool ! i))) = int (unat (t_data (lv_recurrent_layer0 v))) + int i * lv_recurrent_layer_stride_bytes v"
    if "i < L" for i
  proof -
    have "unat (t_data (lp_conv pool ! i)) = unat (t_data (lp_conv pool ! 0)) + i * (if L = 1 then 0 else S)"
      "unat (t_data (lp_recurrent pool ! i)) = unat (t_data (lp_recurrent pool ! 0)) + i * (if L = 1 then 0 else S)"
      using at(1,2) [OF that] at(1,2) [OF L(1)] that by auto
    then show "int (unat (t_data (lp_conv pool ! i))) = int (unat (t_data (lv_conv_layer0 v))) + int i * lv_conv_layer_stride_bytes v"
      "int (unat (t_data (lp_recurrent pool ! i))) = int (unat (t_data (lv_recurrent_layer0 v))) + int i * lv_recurrent_layer_stride_bytes v"
      by (simp_all add: v_def del: of_nat_unat)
  qed
  have "int (unat cn) \<le> lv_conv_layer_stride_bytes v \<and> int (unat rn) \<le> lv_recurrent_layer_stride_bytes v"
    if "1 < la_layers spec"
  proof -
    have "L \<noteq> 1" using that L(4) by (simp add: word_less_nat_alt)
    then show ?thesis using S(2,3) by (simp add: v_def del: of_nat_unat)
  qed
  moreover have "lv_spec v = spec" "tensor_bytes (lv_conv_layer0 v) = Inr cn" "tensor_bytes (lv_recurrent_layer0 v) = Inr rn"
    using at(3,4) [OF L(1)] by (simp_all add: v_def)
  ultimately show ?thesis using pool(1) view steps L(2-4) by blast
qed

section \<open>A sample pool\<close>

text \<open>Two layers with two slots each, planned on a fresh builder, with runtime calls that always succeed.\<close>

definition la_sample_spec :: la_spec where
  "la_sample_spec = \<lparr>la_layers = 2, la_conv_channels = 2, la_conv_width = 1, la_value_heads = 1,
     la_value_head_dim = 1, la_key_head_dim = 1, la_slot_count = 2, la_conv_dtype = BF16\<rparr>"

definition la_sample_region :: "u64 \<Rightarrow> layout_region" where
  "la_sample_region off = \<lparr>lr_offset = off, lr_bytes = 8, lr_alignment = 256\<rparr>"

definition la_sample_layout :: la_layout where
  "la_sample_layout = \<lparr>ll_spec = la_sample_spec, ll_conv = [la_sample_region 0, la_sample_region 512],
     ll_recurrent = [la_sample_region 256, la_sample_region 768]\<rparr>"

definition la_sample_backing :: device_span where
  "la_sample_backing = \<lparr>ds_data = 4096, ds_bytes = 1024\<rparr>"

lemma la_sample_planned:
  "plan_linear_attention_state_pool empty_builder la_sample_spec = Inr (la_sample_layout, \<lparr>lb_cursor = 776, lb_peak = 776\<rparr>)"
  by (simp add: plan_linear_attention_state_pool_def la_sample_spec_def validate_positive_def make_tensor_def
      normalize_shape_def set_contiguous_strides_def checked_mul_i64_def conv_extents_def recurrent_extents_def
      tensor_bytes_def numel_def shape_numel_def layout_add_def align_up_def is_power_of_two_def checked_add_def
      empty_builder_def upt_conv_Cons la_sample_layout_def la_sample_region_def)

lemma la_sample_finish: "layout_finish \<lparr>lb_cursor = 776, lb_peak = 776\<rparr> 256 ''state'' = Inr 1024"
  by (simp add: layout_finish_def align_up_def is_power_of_two_def checked_add_def)

lemma la_sample_backs: "backs la_sample_backing 1024"
  by (simp add: backs_def la_sample_backing_def)

theorem copy_slot_updates_image_witness:
  "\<exists>pool. make_state_pool la_sample_backing la_sample_layout = Inr pool \<and>
     fst (copy_slot ideal_memcpy pool 0 1 (\<lambda>a. if a < 4100 then 7 else 0)) = Inr () \<and>
     slot_image pool (snd (copy_slot ideal_memcpy pool 0 1 (\<lambda>a. if a < 4100 then 7 else 0))) 1 =
       slot_image pool (\<lambda>a. if a < 4100 then 7 else 0) 0"
proof -
  obtain pool where pool: "make_state_pool la_sample_backing la_sample_layout = Inr pool"
    and run: "case copy_slot ideal_memcpy pool 0 1 (\<lambda>a. if a < 4100 then 7 else 0) of
       (Inr _, m') \<Rightarrow> slot_image pool m' = (slot_image pool (\<lambda>a. if a < 4100 then 7 else 0))
          (1 := slot_image pool (\<lambda>a. if a < 4100 then 7 else 0) 0) \<and>
          (\<exists>image. slot_image pool (\<lambda>a. if a < 4100 then 7 else 0) 0 = Inr image)
     | (Inl e, m') \<Rightarrow> (\<exists>d q n m1. fst (ideal_memcpy d q n m1) = Inl e) \<and>
          (\<forall>slot. slot \<noteq> 1 \<longrightarrow> slot_image pool m' slot = slot_image pool (\<lambda>a. if a < 4100 then 7 else 0) slot)"
    using copy_slot_updates_image [OF la_sample_planned la_sample_finish la_sample_backs ideal_memcpy_law, of 0 1 "\<lambda>a. if a < 4100 then 7 else 0"]
    by (auto simp: la_sample_spec_def)
  then show ?thesis
    by (intro exI [of _ pool]) (auto simp: ideal_memcpy_def split: prod.splits sum.splits)
qed

theorem zero_slot_clears_image_witness:
  "\<exists>pool. make_state_pool la_sample_backing la_sample_layout = Inr pool \<and>
     fst (zero_slot ideal_memset pool 1 (\<lambda>_. 9)) = Inr () \<and>
     slot_image pool (snd (zero_slot ideal_memset pool 1 (\<lambda>_. 9))) 1 = slot_image pool (\<lambda>_. 0) 1"
proof -
  obtain pool where pool: "make_state_pool la_sample_backing la_sample_layout = Inr pool"
    and run: "case zero_slot ideal_memset pool 1 (\<lambda>_. 9) of
       (Inr _, m') \<Rightarrow> slot_image pool m' = (slot_image pool (\<lambda>_. 9))(1 := slot_image pool (\<lambda>_. 0) 1)
     | (Inl e, m') \<Rightarrow> (\<exists>d n m1. fst (ideal_memset d 0 n m1) = Inl e) \<and>
          (\<forall>k. k \<noteq> 1 \<longrightarrow> slot_image pool m' k = slot_image pool (\<lambda>_. 9) k)"
    using zero_slot_clears_image [OF la_sample_planned la_sample_finish la_sample_backs ideal_memset_law, of 1 "\<lambda>_. 9"]
    by (auto simp: la_sample_spec_def)
  then show ?thesis
    by (intro exI [of _ pool]) (auto simp: ideal_memset_def split: prod.splits sum.splits)
qed

theorem all_layers_view_exact_witness:
  "\<exists>pool v. make_state_pool la_sample_backing la_sample_layout = Inr pool \<and> all_layers_view pool = Inr v \<and>
     int (unat (t_data (lp_recurrent pool ! 1))) =
       int (unat (t_data (lv_recurrent_layer0 v))) + lv_recurrent_layer_stride_bytes v"
proof -
  have "1 < unat (la_layers la_sample_spec)" by (simp add: la_sample_spec_def)
  then show ?thesis
    using all_layers_view_exact [OF la_sample_planned la_sample_finish la_sample_backs] by fastforce
qed

end
