(* ===== verification/Planned_Tensors.thy ===== *)
theory Planned_Tensors
  imports Tensor_Slots
begin

text \<open>
  Tensors planned with \<open>LayoutBuilder::add_tensor\<close> and bound to a backing allocation, as the cyclic
  K/V cache and the replay records use them: where a planned region lies, that it binds, where the
  rows of its outermost dimension lie, and copies of one slot between two lists of planes.
\<close>

section \<open>Planned regions\<close>

definition region_off :: "tensor_region \<Rightarrow> nat" where
  "region_off r = unat (lr_offset (tr_region r))"

definition region_end :: "tensor_region \<Rightarrow> nat" where
  "region_end r = region_off r + unat (lr_bytes (tr_region r))"

text \<open>A region for a tensor of \<open>n\<close> bytes that lies between the offsets \<open>lo\<close> and \<open>hi\<close>.\<close>

definition placed :: "dtype \<Rightarrow> int list \<Rightarrow> u64 \<Rightarrow> nat \<Rightarrow> nat \<Rightarrow> tensor_region \<Rightarrow> bool" where
  "placed dt shape n lo hi r =
     (tr_dtype r = dt \<and> tr_shape r = shape @ replicate (4 - length shape) 1 \<and>
      lr_bytes (tr_region r) = n \<and> lr_alignment (tr_region r) = 256 \<and> 256 dvd region_off r \<and>
      lo \<le> region_off r \<and> region_end r \<le> hi \<and>
      (\<exists>t. make_tensor 0 dt shape = Inr t \<and> tensor_bytes t = Inr n))"

lemma placed_mono: "placed dt shape n lo hi r \<Longrightarrow> lo' \<le> lo \<Longrightarrow> hi \<le> hi' \<Longrightarrow> placed dt shape n lo' hi' r"
  by (auto simp: placed_def)

lemma add_tensor_placed:
  assumes "layout_add_tensor b dt shape 256 label = Inr (r, b')"
  obtains n where "placed dt shape n (unat (lb_cursor b)) (unat (lb_cursor b')) r"
    "unat (lb_cursor b) \<le> unat (lb_cursor b')" "unat (lb_cursor b') \<le> unat (lb_peak b')"
    "unat (lb_peak b) \<le> unat (lb_peak b')"
proof -
  from assms obtain t n lr where t: "make_tensor 0 dt shape = Inr t" "tensor_bytes t = Inr n"
    and add: "layout_add b n 256 label = Inr (lr, b')"
    and r: "r = \<lparr>tr_region = lr, tr_dtype = dt, tr_shape = shape @ replicate (4 - length shape) 1\<rparr>"
    by (auto simp: layout_add_tensor_def result_simps)
  note g = layout_add_Inr [OF add]
  have "placed dt shape n (unat (lb_cursor b)) (unat (lb_cursor b')) r"
    using g t by (simp add: placed_def region_off_def region_end_def r)
  then show ?thesis using that [of n] g(6-8) by linarith
qed

lemma add_tensor_mono:
  assumes "layout_add_tensor b dt shape 256 label = Inr (r, b')"
  shows "unat (lb_cursor b) \<le> unat (lb_cursor b')" "unat (lb_cursor b') \<le> unat (lb_peak b')"
    "unat (lb_peak b) \<le> unat (lb_peak b')"
  by (rule add_tensor_placed [OF assms], assumption)+

lemma add_tensor_size:
  assumes "layout_add_tensor b dt shape 256 label = Inr (r, b')"
    and "make_tensor 0 dt shape = Inr t" "tensor_bytes t = Inr n"
  shows "placed dt shape n (unat (lb_cursor b)) (unat (lb_cursor b')) r"
  using add_tensor_placed [OF assms(1)] assms(2,3) by (metis Inr_inject placed_def)

lemma make_tensor_padded:
  assumes "make_tensor p dt shape = Inr t"
  shows "make_tensor p dt (shape @ replicate (4 - length shape) 1) = Inr t"
proof -
  obtain a b c d where g: "t_ne t = [a, b, c, d]"
    "t_nb t = [int (dtype_size dt), int (dtype_size dt) * a, int (dtype_size dt) * a * b,
       int (dtype_size dt) * a * b * c]"
    "0 < a" "0 < b" "0 < c" "0 < d" "t_data t = p" "t_dtype t = dt"
    "shape @ replicate (4 - length shape) 1 = [a, b, c, d]" "int (dtype_size dt) * a * b * c \<le> i64_max"
    by (rule make_tensor_Inr [OF assms])
  have "make_tensor p dt [a, b, c, d] = Inr t"
    using make_tensor_eq [of a b c d dt "[a, b, c, d]" p] g by simp
  then show ?thesis by (simp only: g(9))
qed

text \<open>A planned region binds to a tensor of its shape inside the backing.\<close>

lemma placed_bind:
  assumes r: "placed dt shape n lo hi r" and hi: "hi \<le> unat sz" and backing: "backs backing sz"
  obtains t where "tensor_region_bind r backing = Inr t" "make_tensor (t_data t) dt shape = Inr t"
    "tensor_bytes t = Inr n" "unat (t_data t) = unat (ds_data backing) + region_off r" "t_data t \<noteq> 0"
    "unat (t_data t) + unat n \<le> unat (ds_data backing) + unat sz" "int (unat n) \<le> i64_max"
proof -
  let ?p = "ds_data backing + lr_offset (tr_region r)"
  from r obtain u where u: "make_tensor 0 dt shape = Inr u" "tensor_bytes u = Inr n"
    and g: "tr_dtype r = dt" "tr_shape r = shape @ replicate (4 - length shape) 1"
      "lr_bytes (tr_region r) = n" "lr_alignment (tr_region r) = 256" "256 dvd region_off r" "region_end r \<le> hi"
    by (auto simp: placed_def)
  have B: "ds_bytes backing = sz" "ds_data backing \<noteq> 0" "256 dvd unat (ds_data backing)"
    "unat (ds_data backing) + unat sz \<le> u64_max" "int (unat sz) \<le> i64_max"
    using backing unfolding backs_def by blast+
  have le: "region_off r + unat n \<le> unat sz" using g(3,6) hi by (simp add: region_end_def)
  have "is_power_of_two (lr_alignment (tr_region r))"
    "unat (lr_alignment (tr_region r)) dvd unat (lr_offset (tr_region r))"
    "unat (lr_offset (tr_region r)) + unat (lr_bytes (tr_region r)) \<le> unat (ds_bytes backing)" "ds_data backing \<noteq> 0"
    "unat (lr_alignment (tr_region r)) dvd unat (ds_data backing)"
    "unat (ds_data backing) + unat (ds_bytes backing) \<le> u64_max"
    using g B le by (simp_all add: region_off_def)
  note bound = region_bind_ok [OF this]
  define t where "t = u\<lparr>t_data := ?p\<rparr>"
  have mk: "make_tensor ?p dt shape = Inr t" using u(1) unfolding t_def by (subst make_tensor_data) blast
  have "tensor_region_bind r backing = Inr t"
    using make_tensor_padded [OF u(1)] make_tensor_padded [OF mk] u(2) bound(1) g
    by (simp add: tensor_region_bind_def)
  moreover have "t_data t = ?p" by (simp add: t_def)
  moreover have "tensor_bytes t = Inr n" using u(2) by (simp add: t_def)
  moreover have "unat ?p = unat (ds_data backing) + region_off r" using bound(2) by (simp add: region_off_def)
  moreover have "?p \<noteq> 0" using calculation(4) B(2) by (metis add_is_0 unat_eq_0)
  moreover have "unat ?p + unat n \<le> unat (ds_data backing) + unat sz" using calculation(4) le by linarith
  moreover have "int (unat n) \<le> i64_max" using le B(5) by linarith
  ultimately show ?thesis using that mk by metis
qed

text \<open>The tensor a region binds to.\<close>

definition bound_tensor :: "device_span \<Rightarrow> tensor_region \<Rightarrow> tensor" where
  "bound_tensor backing r = (case tensor_region_bind r backing of Inr t \<Rightarrow> t | Inl _ \<Rightarrow> undefined)"

lemma bound_tensor_placed:
  assumes "placed dt shape n lo hi r" "hi \<le> unat sz" "backs backing sz"
  shows "tensor_region_bind r backing = Inr (bound_tensor backing r)"
    "make_tensor (t_data (bound_tensor backing r)) dt shape = Inr (bound_tensor backing r)"
    "tensor_bytes (bound_tensor backing r) = Inr n"
    "unat (t_data (bound_tensor backing r)) = unat (ds_data backing) + region_off r"
    "t_data (bound_tensor backing r) \<noteq> 0"
    "unat (t_data (bound_tensor backing r)) + unat n \<le> unat (ds_data backing) + unat sz"
    "int (unat n) \<le> i64_max" "region_end r = region_off r + unat n"
proof -
  obtain t where t: "tensor_region_bind r backing = Inr t" "make_tensor (t_data t) dt shape = Inr t"
    "tensor_bytes t = Inr n" "unat (t_data t) = unat (ds_data backing) + region_off r" "t_data t \<noteq> 0"
    "unat (t_data t) + unat n \<le> unat (ds_data backing) + unat sz" "int (unat n) \<le> i64_max"
    by (rule placed_bind [OF assms])
  have eq: "bound_tensor backing r = t" by (simp add: bound_tensor_def t(1))
  show "tensor_region_bind r backing = Inr (bound_tensor backing r)"
    "make_tensor (t_data (bound_tensor backing r)) dt shape = Inr (bound_tensor backing r)"
    "tensor_bytes (bound_tensor backing r) = Inr n"
    "unat (t_data (bound_tensor backing r)) = unat (ds_data backing) + region_off r"
    "t_data (bound_tensor backing r) \<noteq> 0"
    "unat (t_data (bound_tensor backing r)) + unat n \<le> unat (ds_data backing) + unat sz"
    "int (unat n) \<le> i64_max" "region_end r = region_off r + unat n"
    using t assms(1) unfolding eq by (auto simp: placed_def region_end_def)
qed

section \<open>Rows of the outermost dimension\<close>

lemma slice_rows:
  assumes "t_nb t ! nat dim = q" "t_ne t ! nat dim = d" "t_data t \<noteq> 0" "0 \<le> dim" "dim < 4" "0 \<le> q"
    and "0 \<le> start" "0 < rows" "start + rows \<le> d" "d * q \<le> i64_max"
  shows "slice t dim start rows =
    Inr (t\<lparr>t_data := t_data t + word_of_int (start * q), t_ne := (t_ne t)[nat dim := rows]\<rparr>)"
proof -
  have "start * q \<le> d * q" using assms by (intro mult_right_mono) auto
  then have "start * q \<le> i64_max" using assms(10) by linarith
  then have "checked_mul_i64 start q = Inr (start * q)"
    using assms by (intro checked_mul_i64_Inr_iff [THEN iffD2]) simp
  then show ?thesis using assms by (simp add: slice_def throw_if_def)
qed

text \<open>
  The rows of a tensor of rank four: \<open>w\<close> bytes each, so that any run of rows is a contiguous range.
\<close>

definition rows_of :: "(int \<Rightarrow> int \<Rightarrow> tensor result) \<Rightarrow> int \<Rightarrow> u64 \<Rightarrow> u64 \<Rightarrow> bool" where
  "rows_of rows_at outer p w =
     (unat p + nat outer * unat w \<le> u64_max \<and> 0 < unat w \<and>
      (\<forall>start rows. 0 \<le> start \<longrightarrow> 0 < rows \<longrightarrow> start + rows \<le> outer \<longrightarrow>
        (\<exists>u n. rows_at start rows = Inr u \<and> t_data u = slot_addr p w (nat start) \<and>
          tensor_bytes u = Inr n \<and> unat n = nat rows * unat w)))"

lemma rows_of_slots:
  assumes "rows_of f outer p w"
  shows "slots_of (\<lambda>s. f s 1) outer p w"
proof -
  have "\<exists>u. f s 1 = Inr u \<and> t_data u = p + word_of_nat (nat s * unat w) \<and> tensor_bytes u = Inr w"
    if "0 \<le> s" "s < outer" for s
  proof -
    from assms that obtain u n where u: "f s 1 = Inr u" "t_data u = slot_addr p w (nat s)" "tensor_bytes u = Inr n"
      "unat n = nat 1 * unat w" unfolding rows_of_def by (metis add1_zle_eq zero_less_one)
    then have "n = w" by (simp add: word_unat_eq_iff)
    with u show ?thesis by (simp add: slot_addr_def)
  qed
  then show ?thesis using assms by (simp add: rows_of_def slots_of_def)
qed

lemma rows_ofE:
  assumes "rows_of f outer p w" "0 \<le> start" "0 < rows" "start + rows \<le> outer"
  obtains u n where "f start rows = Inr u" "t_data u = slot_addr p w (nat start)" "tensor_bytes u = Inr n"
    "unat n = nat rows * unat w"
  using assms unfolding rows_of_def by blast

lemma rows_ofI:
  assumes q: "0 < q" "0 < d" "int (unat n) = d * q" "int (unat n) \<le> i64_max"
    and p: "unat p + unat n \<le> u64_max"
    and rows: "\<And>start rows. 0 \<le> start \<Longrightarrow> 0 < rows \<Longrightarrow> start + rows \<le> d \<Longrightarrow> rows * q \<le> i64_max \<Longrightarrow>
      \<exists>u k. f start rows = Inr u \<and> t_data u = p + word_of_int (start * q) \<and> tensor_bytes u = Inr k \<and>
        int (unat k) = rows * q"
  obtains w where "rows_of f d p w" "unat n = nat d * unat w"
proof -
  have "q \<le> q * d" using q by (intro int_mult_grow) auto
  then have "q \<le> i64_max" using q(3,4) by (simp only: mult.commute)
  then have "int (unat (word_of_int q :: u64)) = q"
    using q(1) by (simp add: uint_word_of_int_eq take_bit_eq_mod)
  then obtain w :: u64 where w: "int (unat w) = q" by blast
  have times: "x * q = int (nat x * unat w)" if "0 \<le> x" for x using that by (simp add: w del: of_nat_unat)
  have nw: "unat n = nat d * unat w" using q(2,3) times [of d] by (simp only: of_nat_eq_iff less_imp_le)
  have "\<exists>u k. f start rows = Inr u \<and> t_data u = slot_addr p w (nat start) \<and> tensor_bytes u = Inr k \<and>
      unat k = nat rows * unat w"
    if r: "0 \<le> start" "0 < rows" "start + rows \<le> d" for start rows
  proof -
    have "rows * q \<le> d * q" using r q(1) by (intro mult_right_mono) auto
    then have "rows * q \<le> i64_max" using q(3,4) by linarith
    from rows [OF r this] obtain u k where u: "f start rows = Inr u" "t_data u = p + word_of_int (start * q)"
      "tensor_bytes u = Inr k" "int (unat k) = rows * q" by blast
    have "unat k = nat rows * unat w" using u(4) times [of rows] r(2) by (simp only: of_nat_eq_iff less_imp_le)
    moreover have "word_of_int (start * q) = (word_of_nat (nat start * unat w) :: u64)"
      by (simp only: times [OF r(1)] of_int_of_nat_eq)
    ultimately show ?thesis using u by (simp add: slot_addr_def)
  qed
  moreover have "0 < unat w" using w q(1) by linarith
  ultimately have "rows_of f d p w" using p nw unfolding rows_of_def by simp
  then show ?thesis using that nw by blast
qed

lemma rows_of_rank4:
  assumes mk: "make_tensor p dt [a, b, c, d] = Inr t" and n: "tensor_bytes t = Inr n" "int (unat n) \<le> i64_max"
    and p: "p \<noteq> 0" "unat p + unat n \<le> u64_max"
  obtains w where "rows_of (slice t 3) d p w" "unat n = nat d * unat w"
proof -
  obtain e where g: "t_ne t = [a, b, c, d]" "t_nb t = [e, e * a, e * a * b, e * a * b * c]"
    "e = int (dtype_size (t_dtype t))" "t_data t = p" "0 < a" "0 < b" "0 < c" "0 < d"
    "int (unat n) = d * (e * a * b * c)"
    by (rule made_tensor_geometry [OF mk n(1)]) simp
  have q0: "0 < e * a * b * c" using g dtype_size_bounds(1) [of "t_dtype t"] by simp
  have dq: "d * (e * a * b * c) \<le> i64_max" using g(9) n(2) by simp
  have "\<exists>u k. slice t 3 start rows = Inr u \<and> t_data u = p + word_of_int (start * (e * a * b * c)) \<and>
      tensor_bytes u = Inr k \<and> int (unat k) = rows * (e * a * b * c)"
    if r: "0 \<le> start" "0 < rows" "start + rows \<le> d" "rows * (e * a * b * c) \<le> i64_max" for start rows
  proof -
    let ?u = "t\<lparr>t_data := p + word_of_int (start * (e * a * b * c)), t_ne := [a, b, c, rows]\<rparr>"
    have sl: "slice t 3 start rows = Inr ?u"
      using slice_rows [of t 3 "e * a * b * c" d start rows] g q0 dq p r by (simp add: numeral_3_eq_3)
    have "int (dtype_size (t_dtype ?u)) * a * b * c * rows \<le> i64_max"
      using g(3) r(4) by (simp add: mult.commute)
    then obtain k where "tensor_bytes ?u = Inr k" "int (unat k) = int (dtype_size (t_dtype ?u)) * a * b * c * rows"
      using tensor_bytes_ok [of ?u a b c rows] g r by auto
    then show ?thesis using sl g(3) by (intro exI [of _ ?u] exI [of _ k]) (simp add: mult.commute)
  qed
  then show ?thesis
    by (rule rows_ofI [of "e * a * b * c" d n p "slice t 3", OF q0 g(8) g(9) n(2) p(2) _ that])
qed

lemma rows_of_rank3:
  assumes mk: "make_tensor p dt [a, b, d] = Inr t" and n: "tensor_bytes t = Inr n" "int (unat n) \<le> i64_max"
    and p: "p \<noteq> 0" "unat p + unat n \<le> u64_max"
  obtains w where "rows_of (\<lambda>start rows. rbind (slice t 2 start rows) (\<lambda>u. view u [a, b, rows])) d p w"
    "unat n = nat d * unat w"
proof -
  obtain e where g: "t_ne t = [a, b, d, 1]" "t_nb t = [e, e * a, e * a * b, e * a * b * d]"
    "e = int (dtype_size (t_dtype t))" "t_data t = p" "0 < a" "0 < b" "0 < d" "int (unat n) = d * (e * a * b)"
    by (rule made_tensor_geometry [OF mk n(1)]) (simp add: mult.commute)
  have q0: "0 < e * a * b" using g dtype_size_bounds(1) [of "t_dtype t"] by simp
  have dq: "d * (e * a * b) \<le> i64_max" using g(8) n(2) by simp
  let ?f = "\<lambda>start rows. rbind (slice t 2 start rows) (\<lambda>u. view u [a, b, rows])"
  have "\<exists>u k. ?f start rows = Inr u \<and> t_data u = p + word_of_int (start * (e * a * b)) \<and>
      tensor_bytes u = Inr k \<and> int (unat k) = rows * (e * a * b)"
    if r: "0 \<le> start" "0 < rows" "start + rows \<le> d" "rows * (e * a * b) \<le> i64_max" for start rows
  proof -
    let ?s = "t\<lparr>t_data := p + word_of_int (start * (e * a * b)), t_ne := [a, b, rows, 1]\<rparr>"
    have sl: "slice t 2 start rows = Inr ?s"
      using slice_rows [of t 2 "e * a * b" d start rows] g q0 dq p r by (simp add: numeral_2_eq_2)
    have le: "e * a * b * rows \<le> i64_max" using r(4) by (simp add: mult.commute)
    obtain u k where "view ?s [a, b, rows] = Inr u" "t_data u = t_data ?s" "tensor_bytes u = Inr k"
      "int (unat k) = e * a * b * rows"
      by (rule view_inner [of ?s a b rows e "e * a * b" "e * a * b * d" "[a, b, rows]"]) (use g r le in auto)
    then show ?thesis using sl by (intro exI [of _ u] exI [of _ k]) (simp add: mult.commute)
  qed
  then show ?thesis
    by (rule rows_ofI [of "e * a * b" d n p ?f, OF q0 g(7,8) n(2) p(2) _ that])
qed

section \<open>Copies between two lists of planes\<close>

lemma copy_between_planes:
  assumes law: "memcpy_law memcpy" and ok: "planes_ok slots dps" "planes_ok slots sps"
    and same: "map snd dps = map snd sps"
    and apart: "\<And>x y. x \<in> set dps \<Longrightarrow> y \<in> set sps \<Longrightarrow> plane_range slots x \<inter> plane_range slots y = {}"
    and s: "s < slots"
    and run: "siter (\<lambda>((p, w), q, _). memcpy (slot_addr p w s) (slot_addr q w s) w) (zip dps sps) m = (r, m')"
  shows "(\<forall>a. a \<notin> (\<Union>x \<in> set dps. plane_range slots x) \<longrightarrow> m' a = m a) \<and>
    (\<forall>(p, w) \<in> set dps. \<forall>k < slots. k \<noteq> s \<longrightarrow>
       read_bytes m' (slot_addr p w k) w = read_bytes m (slot_addr p w k) w) \<and>
    (r = Inr () \<longrightarrow> (\<forall>((p, w), q, _) \<in> set (zip dps sps).
       read_bytes m' (slot_addr p w s) w = read_bytes m (slot_addr q w s) w)) \<and>
    (\<forall>e. r = Inl e \<longrightarrow> (\<exists>d q n m1. fst (memcpy d q n m1) = Inl e))"
proof -
  let ?job = "\<lambda>((p, w), q, _). (slot_addr p w s, slot_addr q w s, w)"
  have len: "length dps = length sps" using same by (metis length_map)
  have width: "w = w'" if "((p, w), q, w') \<in> set (zip dps sps)" for p w q w'
    using that same by (auto simp: set_zip dest: arg_cong [of _ _ "\<lambda>xs. xs ! _"])
      (metis length_map nth_map snd_conv)
  have fitd: "unat p + slots * unat w \<le> u64_max" if "(p, w) \<in> set dps" for p w
    using ok(1) that by (auto simp: planes_ok_def)
  have fits: "unat p + slots * unat w \<le> u64_max" if "(p, w) \<in> set sps" for p w
    using ok(2) that by (auto simp: planes_ok_def)
  have run': "siter (\<lambda>(d, q, n). memcpy d q n) (map ?job (zip dps sps)) m = (r, m')"
  proof -
    have "siter (\<lambda>(d, q, n). memcpy d q n) (map ?job xs) =
        siter (\<lambda>((p, w), q, _). memcpy (slot_addr p w s) (slot_addr q w s) w) xs" for xs :: "((u64 \<times> u64) \<times> u64 \<times> u64) list"
      by (induction xs) auto
    then show ?thesis using run by simp
  qed
  have jobE: "\<exists>p q. d = slot_addr p n s \<and> c = slot_addr q n s \<and> (p, n) \<in> set dps \<and> (q, n) \<in> set sps"
    if "(d, c, n) \<in> set (map ?job (zip dps sps))" for d c n
    using that width by (fastforce dest: set_zip_leftD set_zip_rightD)
  have main: "(\<forall>a. a \<notin> (\<Union>(d, q, n) \<in> set (map ?job (zip dps sps)). byte_range d n) \<longrightarrow> m' a = m a) \<and>
    (r = Inr () \<longrightarrow> (\<forall>(d, q, n) \<in> set (map ?job (zip dps sps)). read_bytes m' d n = read_bytes m q n)) \<and>
    (\<forall>e. r = Inl e \<longrightarrow> (\<exists>d q n m1. fst (memcpy d q n m1) = Inl e))"
  proof (rule siter_memcpy [OF law _ _ _ run'])
    show "no_wrap d n \<and> no_wrap c n" if "(d, c, n) \<in> set (map ?job (zip dps sps))" for d c n
      using jobE [OF that] slot_range(2) [OF fitd s] slot_range(2) [OF fits s] by blast
    show "byte_range d n \<inter> byte_range c' n' = {}"
      if "(d, c, n) \<in> set (map ?job (zip dps sps))" "(d', c', n') \<in> set (map ?job (zip dps sps))" for d c n d' c' n'
      using jobE [OF that(1)] jobE [OF that(2)] slot_range(3) [OF fitd s] slot_range(3) [OF fits s] apart by blast
    have "sorted_wrt (\<lambda>(p, w) (p', w'). byte_range (slot_addr p w s) w \<inter> byte_range (slot_addr p' w' s) w' = {})
        (map fst (zip dps sps))"
      using plane_slot_targets [OF ok(1) s] len by simp
    then show "sorted_wrt (\<lambda>(d, c, n) (d', c', n'). byte_range d n \<inter> byte_range d' n' = {}) (map ?job (zip dps sps))"
      unfolding sorted_wrt_map by (rule sorted_wrt_mono_rel [rotated]) auto
  qed
  have frame: "m' a = m a" if out: "\<And>p w. (p, w) \<in> set dps \<Longrightarrow> a \<notin> byte_range (slot_addr p w s) w" for a
  proof -
    have "a \<notin> byte_range d n" if "(d, c, n) \<in> set (map ?job (zip dps sps))" for d c n
      using jobE [OF that] out by blast
    then have "a \<notin> (\<Union>(d, q, n) \<in> set (map ?job (zip dps sps)). byte_range d n)" by blast
    then show ?thesis using main by blast
  qed
  have copied: "read_bytes m' (slot_addr p w s) w = read_bytes m (slot_addr q w s) w"
    if "r = Inr ()" "((p, w), q, v) \<in> set (zip dps sps)" for p w q v
  proof -
    have "(slot_addr p w s, slot_addr q w s, w) \<in> set (map ?job (zip dps sps))" using that(2) by force
    then show ?thesis using main that(1) by blast
  qed
  have kept: "(\<forall>a. a \<notin> (\<Union>x \<in> set dps. plane_range slots x) \<longrightarrow> m' a = m a) \<and>
    (\<forall>(p, w) \<in> set dps. \<forall>k < slots. k \<noteq> s \<longrightarrow>
       read_bytes m' (slot_addr p w k) w = read_bytes m (slot_addr p w k) w)"
    by (rule planes_frame [OF ok(1) s]) (rule frame)
  show ?thesis
  proof (intro conjI)
    show "r = Inr () \<longrightarrow> (\<forall>((p, w), q, _) \<in> set (zip dps sps).
       read_bytes m' (slot_addr p w s) w = read_bytes m (slot_addr q w s) w)"
      using copied by fast
    show "\<forall>a. a \<notin> (\<Union>x \<in> set dps. plane_range slots x) \<longrightarrow> m' a = m a" using kept ..
    show "\<forall>(p, w) \<in> set dps. \<forall>k < slots. k \<noteq> s \<longrightarrow>
       read_bytes m' (slot_addr p w k) w = read_bytes m (slot_addr p w k) w" using kept ..
    show "\<forall>e. r = Inl e \<longrightarrow> (\<exists>d q n m1. fst (memcpy d q n m1) = Inl e)" using main by blast
  qed
qed

end
