(* ===== verification/Cyclic_KV.thy ===== *)
theory Cyclic_KV
  imports Planned_Tensors
begin

text \<open>
  Fixed cyclic K/V storage (\<open>src/core/cyclic_kv_cache.*\<close>): the plan of the K and V planes of every
  layer, the cache bound to a backing allocation, its layer views, and the copy of one lane from
  another cache. The theorem shows that a planned cache binds and that a lane copy between two caches
  updates exactly one lane.
\<close>

section \<open>The plan\<close>

record cyclic_layout =
  cl_capacity :: u32
  cl_padded_capacity :: u32
  cl_num_kv_heads :: int
  cl_head_dim :: int
  cl_lane_capacity :: int
  cl_k :: "tensor_region list"
  cl_v :: "tensor_region list"

abbreviation cyclic_align :: u64 where "cyclic_align \<equiv> 256"

definition align_up_u32 :: "u32 \<Rightarrow> u32 \<Rightarrow> u32 result" where
  "align_up_u32 value alignment =
     (let mask = (ucast alignment :: u64) - 1;
          aligned = ((ucast value :: u64) + mask) AND NOT mask
      in if uint aligned > i32_max
         then Inl (invalid_argument ''Cyclic KV padded capacity is out of range'')
         else Inr (ucast aligned))"

fun plan_cyclic_layers ::
  "layout_builder \<Rightarrow> int list \<Rightarrow> nat list \<Rightarrow> (tensor_region list \<times> tensor_region list \<times> layout_builder) result" where
  "plan_cyclic_layers b shape [] = Inr ([], [], b)"
| "plan_cyclic_layers b shape (layer # layers) =
     (let prefix = ''Cyclic KV layer '' @ string_of_nat layer in
      rbind (layout_add_tensor b BF16 shape cyclic_align (prefix @ '' K'')) (\<lambda>(k, b1).
      rbind (layout_add_tensor b1 BF16 shape cyclic_align (prefix @ '' V'')) (\<lambda>(v, b2).
      rbind (plan_cyclic_layers b2 shape layers) (\<lambda>(ks, vs, b').
      Inr (k # ks, v # vs, b')))))"

definition plan_cyclic_kv_cache ::
  "layout_builder \<Rightarrow> u32 \<Rightarrow> u32 \<Rightarrow> int \<Rightarrow> int \<Rightarrow> int \<Rightarrow> (cyclic_layout \<times> layout_builder) result" where
  "plan_cyclic_kv_cache b layers capacity num_kv_heads head_dim lane_capacity =
     rbind (throw_if (layers = 0 \<or> capacity = 0 \<or> uint capacity > i32_max \<or> num_kv_heads \<le> 0 \<or>
                      head_dim \<le> 0 \<or> lane_capacity \<le> 0)
              (invalid_argument ''Cyclic KV geometry is invalid'')) (\<lambda>_.
     rbind (align_up_u32 capacity 128) (\<lambda>padded_capacity.
     let padded = sint padded_capacity in
     rbind (plan_cyclic_layers b [head_dim, padded, num_kv_heads, lane_capacity] [0..<unat layers]) (\<lambda>(ks, vs, b').
     Inr (\<lparr>cl_capacity = capacity, cl_padded_capacity = padded_capacity, cl_num_kv_heads = num_kv_heads,
            cl_head_dim = head_dim, cl_lane_capacity = lane_capacity, cl_k = ks, cl_v = vs\<rparr>, b'))))"

definition cyclic_payload_bytes :: "cyclic_layout \<Rightarrow> u64" where
  "cyclic_payload_bytes layout =
     foldl (\<lambda>n r. n + lr_bytes (tr_region r))
       (foldl (\<lambda>n r. n + lr_bytes (tr_region r)) 0 (cl_k layout)) (cl_v layout)"

section \<open>The bound cache\<close>

record cyclic_cache =
  cc_k :: "tensor list"
  cc_v :: "tensor list"
  cc_capacity :: u32
  cc_padded_capacity :: u32
  cc_num_kv_heads :: int
  cc_head_dim :: int
  cc_lane_capacity :: int

fun bind_cyclic_layers ::
  "device_span \<Rightarrow> int list \<Rightarrow> (tensor_region \<times> tensor_region) list \<Rightarrow> (tensor list \<times> tensor list) result" where
  "bind_cyclic_layers backing expected_shape [] = Inr ([], [])"
| "bind_cyclic_layers backing expected_shape ((k, v) # layers) =
     rbind (throw_if (tr_dtype k \<noteq> BF16 \<or> tr_dtype v \<noteq> BF16 \<or>
                      tr_shape k \<noteq> expected_shape \<or> tr_shape v \<noteq> expected_shape)
              (invalid_argument ''Cyclic KV layer layout is inconsistent'')) (\<lambda>_.
     rbind (tensor_region_bind k backing) (\<lambda>kt.
     rbind (tensor_region_bind v backing) (\<lambda>vt.
     rbind (bind_cyclic_layers backing expected_shape layers) (\<lambda>(ks, vs).
     Inr (kt # ks, vt # vs)))))"

definition make_cyclic_cache :: "device_span \<Rightarrow> cyclic_layout \<Rightarrow> cyclic_cache result" where
  "make_cyclic_cache backing layout =
     rbind (throw_if (cl_k layout = [] \<or> length (cl_v layout) \<noteq> length (cl_k layout) \<or> cl_capacity layout = 0 \<or>
                      cl_padded_capacity layout < cl_capacity layout \<or> cl_num_kv_heads layout \<le> 0 \<or>
                      cl_head_dim layout \<le> 0 \<or> cl_lane_capacity layout \<le> 0)
              (invalid_argument ''Cyclic KV layout is inconsistent'')) (\<lambda>_.
     let expected_shape = [cl_head_dim layout, sint (cl_padded_capacity layout), cl_num_kv_heads layout,
           cl_lane_capacity layout] in
     rbind (bind_cyclic_layers backing expected_shape (zip (cl_k layout) (cl_v layout))) (\<lambda>(ks, vs).
     Inr \<lparr>cc_k = ks, cc_v = vs, cc_capacity = cl_capacity layout,
          cc_padded_capacity = cl_padded_capacity layout, cc_num_kv_heads = cl_num_kv_heads layout,
          cc_head_dim = cl_head_dim layout, cc_lane_capacity = cl_lane_capacity layout\<rparr>))"

definition cyclic_layer_count :: "cyclic_cache \<Rightarrow> u32" where
  "cyclic_layer_count c = word_of_nat (length (cc_k c))"

record cyclic_layer_view =
  cv_k :: tensor
  cv_v :: tensor
  cv_capacity :: u32
  cv_padded_capacity :: u32
  cv_num_kv_heads :: int
  cv_head_dim :: int
  cv_lane_capacity :: int

definition layer_view :: "cyclic_cache \<Rightarrow> u32 \<Rightarrow> cyclic_layer_view result" where
  "layer_view c layer =
     (if layer \<ge> cyclic_layer_count c then Inl (out_of_range ''Cyclic KV layer is out of range'')
      else Inr \<lparr>cv_k = cc_k c ! unat layer, cv_v = cc_v c ! unat layer, cv_capacity = cc_capacity c,
             cv_padded_capacity = cc_padded_capacity c, cv_num_kv_heads = cc_num_kv_heads c,
             cv_head_dim = cc_head_dim c, cv_lane_capacity = cc_lane_capacity c\<rparr>)"

section \<open>Copying a lane\<close>

text \<open>
  One iteration of the copy loop. All four vectors have the same length: the constructor fills both
  vectors of a cache, and the layer counts of the two caches have been compared.
\<close>

definition copy_lane_layer ::
  "memcpy_call \<Rightarrow> int \<Rightarrow> (tensor \<times> tensor) \<times> (tensor \<times> tensor) \<Rightarrow> (memory, unit) prog" where
  "copy_lane_layer memcpy lane = (\<lambda>((k, v), (sk, sv)).
     sbind (slift (slice k 3 lane 1)) (\<lambda>destination_k.
     sbind (slift (slice v 3 lane 1)) (\<lambda>destination_v.
     sbind (slift (slice sk 3 lane 1)) (\<lambda>source_k.
     sbind (slift (slice sv 3 lane 1)) (\<lambda>source_v.
     sbind (slift (tensor_bytes destination_k)) (\<lambda>kn.
     sbind (memcpy (t_data destination_k) (t_data source_k) kn) (\<lambda>_.
     sbind (slift (tensor_bytes destination_v)) (\<lambda>vn.
     memcpy (t_data destination_v) (t_data source_v) vn))))))))"

definition copy_lane_from ::
  "memcpy_call \<Rightarrow> cyclic_cache \<Rightarrow> cyclic_cache \<Rightarrow> int \<Rightarrow> (memory, unit) prog" where
  "copy_lane_from memcpy c source lane =
     sbind (slift (throw_if (cyclic_layer_count source \<noteq> cyclic_layer_count c \<or>
              cc_capacity source \<noteq> cc_capacity c \<or> cc_padded_capacity source \<noteq> cc_padded_capacity c \<or>
              cc_num_kv_heads source \<noteq> cc_num_kv_heads c \<or> cc_head_dim source \<noteq> cc_head_dim c \<or>
              cc_lane_capacity source \<noteq> cc_lane_capacity c)
              (invalid_argument ''Cyclic KV copy requires identical layouts''))) (\<lambda>_.
     sbind (slift (throw_if (lane < 0 \<or> lane \<ge> cc_lane_capacity c)
              (out_of_range ''Cyclic KV lane is out of range''))) (\<lambda>_.
     siter (copy_lane_layer memcpy lane)
       (zip (zip (cc_k c) (cc_v c)) (zip (cc_k source) (cc_v source)))))"

text \<open>The image of a lane: the K and V bytes of every layer.\<close>

definition lane_image :: "cyclic_cache \<Rightarrow> memory \<Rightarrow> int \<Rightarrow> (byte list \<times> byte list) list result" where
  "lane_image c m lane =
     rmap (\<lambda>(k, v).
       rbind (slice k 3 lane 1) (\<lambda>kt. rbind (slot_bytes m kt) (\<lambda>kb.
       rbind (slice v 3 lane 1) (\<lambda>vt. rbind (slot_bytes m vt) (\<lambda>vb. Inr (kb, vb))))))
       (zip (cc_k c) (cc_v c))"

section \<open>The geometry of a planned cache\<close>

lemma plan_cyclic_layers_placed:
  assumes "plan_cyclic_layers b shape ls = Inr (ks, vs, b')"
    and "make_tensor 0 BF16 shape = Inr t" "tensor_bytes t = Inr n"
  shows "length ks = length ls \<and> length vs = length ls \<and> unat (lb_cursor b) \<le> unat (lb_cursor b') \<and>
    unat (lb_peak b) \<le> unat (lb_peak b') \<and>
    (\<forall>(k, v) \<in> set (zip ks vs). placed BF16 shape n (unat (lb_cursor b)) (unat (lb_peak b')) k \<and>
       placed BF16 shape n (unat (lb_cursor b)) (unat (lb_peak b')) v) \<and>
    sorted_wrt (\<lambda>r r'. region_end r \<le> region_off r') (concat (map (\<lambda>(k, v). [k, v]) (zip ks vs)))"
  using assms
proof (induction ls arbitrary: b ks vs)
  case (Cons l ls)
  from Cons.prems(1) obtain k b1 v b2 ks' vs' label label' where
    k: "layout_add_tensor b BF16 shape 256 label = Inr (k, b1)"
    and v: "layout_add_tensor b1 BF16 shape 256 label' = Inr (v, b2)"
    and rest: "plan_cyclic_layers b2 shape ls = Inr (ks', vs', b')" and eq: "ks = k # ks'" "vs = v # vs'"
    by (auto simp: Let_def result_simps)
  note pk = add_tensor_size [OF k Cons.prems(2,3)] and pv = add_tensor_size [OF v Cons.prems(2,3)]
  note IH = Cons.IH [OF rest Cons.prems(2,3)]
  have mono: "unat (lb_cursor b) \<le> unat (lb_cursor b1)" "unat (lb_cursor b1) \<le> unat (lb_cursor b2)"
    "unat (lb_cursor b1) \<le> unat (lb_peak b1)" "unat (lb_cursor b2) \<le> unat (lb_peak b2)"
    "unat (lb_peak b) \<le> unat (lb_peak b1)" "unat (lb_peak b1) \<le> unat (lb_peak b2)"
    using add_tensor_mono [OF k] add_tensor_mono [OF v] by blast+
  have up: "unat (lb_peak b2) \<le> unat (lb_peak b')" using IH by blast
  have here: "placed BF16 shape n (unat (lb_cursor b)) (unat (lb_peak b')) k"
    "placed BF16 shape n (unat (lb_cursor b)) (unat (lb_peak b')) v"
    using placed_mono [OF pk] placed_mono [OF pv] mono up by auto
  have there: "placed BF16 shape n (unat (lb_cursor b)) (unat (lb_peak b')) x \<and> unat (lb_cursor b2) \<le> region_off x \<and>
      placed BF16 shape n (unat (lb_cursor b)) (unat (lb_peak b')) y \<and> unat (lb_cursor b2) \<le> region_off y"
    if "(x, y) \<in> set (zip ks' vs')" for x y
  proof -
    have "placed BF16 shape n (unat (lb_cursor b2)) (unat (lb_peak b')) x"
      "placed BF16 shape n (unat (lb_cursor b2)) (unat (lb_peak b')) y" using IH that by auto
    then show ?thesis using placed_mono [of BF16 shape n "unat (lb_cursor b2)"] mono by (auto simp: placed_def)
  qed
  have ends: "region_end k \<le> unat (lb_cursor b1)" "unat (lb_cursor b1) \<le> region_off v" "region_end v \<le> unat (lb_cursor b2)"
    using pk pv by (auto simp: placed_def)
  have "sorted_wrt (\<lambda>r r'. region_end r \<le> region_off r') (concat (map (\<lambda>(k, v). [k, v]) (zip ks vs)))"
    using IH there ends mono by (fastforce simp: eq)
  then show ?case using IH here there mono up by (auto simp: eq)
qed simp

lemma align_up_u32_ge:
  assumes "align_up_u32 v 128 = Inr w"
  shows "v \<le> w"
proof -
  let ?a = "((ucast v :: u64) + 127) AND NOT 127"
  have v: "unat (ucast v :: u64) = unat v" using unat_u32_le [of v] by (simp add: unsigned_ucast_eq take_bit_eq_mod)
  have le: "uint ?a \<le> i32_max" and w: "w = ucast ?a" using assms by (auto simp: align_up_u32_def Let_def split: if_splits)
  have sum: "unat ((ucast v :: u64) + 127) = unat v + 127"
    using unat_u32_le [of v] v by (simp add: unat_add_u64)
  have "unat ?a = (unat v + 127) div 128 * 128"
    using unat_and_not_mask [of 128 "(ucast v :: u64) + 127"] sum by (simp add: is_power_of_two_def)
  moreover have "unat v \<le> (unat v + 127) div 128 * 128"
    using round_up_props(1) [of 128 "unat v"] by (simp add: round_up_def)
  moreover have "unat w = unat ?a"
  proof -
    have "int (unat ?a) \<le> i32_max" using le by simp
    then have "unat ?a < 4294967296" by linarith
    then show ?thesis unfolding w by (simp only: unsigned_ucast_eq take_bit_eq_mod) simp
  qed
  ultimately show ?thesis by (simp add: word_le_nat_alt)
qed

text \<open>The planes of a cache in the order of its plan, and what makes its lanes independent.\<close>

definition cache_planes :: "cyclic_cache \<Rightarrow> u64 \<Rightarrow> (u64 \<times> u64) list" where
  "cache_planes c w = concat (map (\<lambda>(k, v). [(t_data k, w), (t_data v, w)]) (zip (cc_k c) (cc_v c)))"

definition cache_lanes :: "cyclic_cache \<Rightarrow> u64 \<Rightarrow> bool" where
  "cache_lanes c w = (length (cc_v c) = length (cc_k c) \<and> cc_k c \<noteq> [] \<and>
     planes_ok (nat (cc_lane_capacity c)) (cache_planes c w) \<and>
     (\<forall>t \<in> set (cc_k c) \<union> set (cc_v c). slots_of (\<lambda>s. slice t 3 s 1) (cc_lane_capacity c) (t_data t) w \<and>
        t_ne t ! 3 = cc_lane_capacity c))"

lemma bind_cyclic_layers_ok:
  assumes "length vs = length ks"
    and "\<And>r. r \<in> set ks \<union> set vs \<Longrightarrow> tr_dtype r = BF16 \<and> tr_shape r = shape \<and> (\<exists>t. tensor_region_bind r backing = Inr t)"
  shows "bind_cyclic_layers backing shape (zip ks vs) = Inr (map (bound_tensor backing) ks, map (bound_tensor backing) vs)"
  using assms
proof (induction ks arbitrary: vs)
  case (Cons k ks)
  then obtain v vs' where vs: "vs = v # vs'" by (cases vs) auto
  have "bind_cyclic_layers backing shape (zip ks vs') = Inr (map (bound_tensor backing) ks, map (bound_tensor backing) vs')"
    by (rule Cons.IH) (use Cons.prems vs in auto)
  moreover have "tensor_region_bind k backing = Inr (bound_tensor backing k)" "tr_dtype k = BF16" "tr_shape k = shape"
    using Cons.prems(2) [of k] by (auto simp: bound_tensor_def)
  moreover have "tensor_region_bind v backing = Inr (bound_tensor backing v)" "tr_dtype v = BF16" "tr_shape v = shape"
    using Cons.prems(2) [of v] by (auto simp: bound_tensor_def vs)
  ultimately show ?case by (simp add: vs)
qed simp

lemma interleave_set: "length vs = length ks \<Longrightarrow> set (concat (map (\<lambda>(k, v). [k, v]) (zip ks vs))) = set ks \<union> set vs"
  by (induction vs ks rule: list_induct2) auto

lemma interleave_map:
  "length vs = length ks \<Longrightarrow> concat (map (\<lambda>(k, v). [g k, g v]) (zip (map f ks) (map f vs))) =
     map (\<lambda>r. g (f r)) (concat (map (\<lambda>(k, v). [k, v]) (zip ks vs)))"
  by (induction vs ks rule: list_induct2) auto

lemma bound_planes_ok:
  assumes sorted: "sorted_wrt (\<lambda>r r'. region_end r \<le> region_off r') rs"
    and placed: "\<And>r. r \<in> set rs \<Longrightarrow> placed dt shape n lo hi r" and hi: "hi \<le> unat sz" and backing: "backs backing sz"
    and n: "unat n = slots * unat w"
  shows "planes_ok slots (map (\<lambda>r. (t_data (bound_tensor backing r), w)) rs)"
    "\<forall>x \<in> set (map (\<lambda>r. (t_data (bound_tensor backing r), w)) rs).
       plane_range slots x \<subseteq> byte_range (ds_data backing) (ds_bytes backing)"
proof -
  let ?D = "unat (ds_data backing)"
  have B: "?D + unat sz \<le> u64_max" "ds_bytes backing = sz" using backing unfolding backs_def by blast+
  have range: "plane_range slots (t_data (bound_tensor backing r), w) =
      {a. ?D + region_off r \<le> unat a \<and> unat a < ?D + region_end r}" "?D + region_end r \<le> ?D + unat sz"
    if "r \<in> set rs" for r
    using bound_tensor_placed(4,6,8) [OF placed [OF that] hi backing] n by (simp_all add: plane_range_def add.assoc)
  have fit: "unat (t_data (bound_tensor backing r)) + slots * unat w \<le> u64_max" if "r \<in> set rs" for r
    using bound_tensor_placed(6) [OF placed [OF that] hi backing] n B by linarith
  have "sorted_wrt (\<lambda>r r'. plane_range slots (t_data (bound_tensor backing r), w) \<inter>
      plane_range slots (t_data (bound_tensor backing r'), w) = {}) rs"
    by (rule sorted_wrt_mono_rel [OF _ sorted]) (auto simp: range)
  then show "planes_ok slots (map (\<lambda>r. (t_data (bound_tensor backing r), w)) rs)"
    using fit by (auto simp: planes_ok_def sorted_wrt_map)
  show "\<forall>x \<in> set (map (\<lambda>r. (t_data (bound_tensor backing r), w)) rs).
       plane_range slots x \<subseteq> byte_range (ds_data backing) (ds_bytes backing)"
    using range B by (fastforce simp: byte_range_def)
qed

lemma planned_cyclic_cache:
  assumes plan: "plan_cyclic_kv_cache b layers capacity heads dim lanes = Inr (layout, b')"
    and fin: "layout_finish b' al label = Inr sz" and backing: "backs backing sz"
  obtains c w padded t n where "make_cyclic_cache backing layout = Inr c" "cache_lanes c w"
    "\<forall>x \<in> set (cache_planes c w). plane_range (nat lanes) x \<subseteq> byte_range (ds_data backing) (ds_bytes backing)"
    "length (cc_k c) = unat layers" "cc_capacity c = capacity" "cc_padded_capacity c = padded"
    "cc_num_kv_heads c = heads" "cc_head_dim c = dim" "cc_lane_capacity c = lanes"
    "align_up_u32 capacity 128 = Inr padded" "make_tensor 0 BF16 [dim, sint padded, heads, lanes] = Inr t"
    "tensor_bytes t = Inr n" "unat n = nat lanes * unat w"
proof -
  from plan obtain padded ks vs where pos: "layers \<noteq> 0" "capacity \<noteq> 0" "0 < heads" "0 < dim" "0 < lanes"
    and pad: "align_up_u32 capacity 128 = Inr padded"
    and loop: "plan_cyclic_layers b [dim, sint padded, heads, lanes] [0..<unat layers] = Inr (ks, vs, b')"
    and lay: "layout = \<lparr>cl_capacity = capacity, cl_padded_capacity = padded, cl_num_kv_heads = heads,
        cl_head_dim = dim, cl_lane_capacity = lanes, cl_k = ks, cl_v = vs\<rparr>"
    by (auto simp: plan_cyclic_kv_cache_def Let_def result_simps)
  let ?shape = "[dim, sint padded, heads, lanes]"
  have L: "0 < unat layers" using pos(1) by (simp add: unat_gt_0)
  then obtain t n where t: "make_tensor 0 BF16 ?shape = Inr t" "tensor_bytes t = Inr n"
    using loop by (cases "[0..<unat layers]") (auto simp: Let_def result_simps layout_add_tensor_def)
  note g = plan_cyclic_layers_placed [OF loop t]
  let ?rs = "concat (map (\<lambda>(k, v). [k, v]) (zip ks vs))"
  have len: "length ks = unat layers" "length vs = length ks" using g by simp_all
  have sets: "set ?rs = set ks \<union> set vs"
    by (rule interleave_set [OF len(2)])
  have placed: "placed BF16 ?shape n (unat (lb_cursor b)) (unat (lb_peak b')) r" if "r \<in> set ?rs" for r
    using g that by auto
  note hi = planned_peak [OF fin]
  let ?f = "bound_tensor backing"
  note bt = bound_tensor_placed [OF placed hi backing]
  have shape: "tr_dtype r = BF16 \<and> tr_shape r = ?shape" if "r \<in> set ?rs" for r
    using placed [OF that] by (simp add: placed_def)
  have bind: "bind_cyclic_layers backing ?shape (zip ks vs) = Inr (map ?f ks, map ?f vs)"
    by (rule bind_cyclic_layers_ok [OF len(2)]) (use shape bt(1) sets in blast)
  define c where "c = \<lparr>cc_k = map ?f ks, cc_v = map ?f vs, cc_capacity = capacity, cc_padded_capacity = padded,
      cc_num_kv_heads = heads, cc_head_dim = dim, cc_lane_capacity = lanes\<rparr>"
  have mk: "make_cyclic_cache backing layout = Inr c"
    using bind len L pos align_up_u32_ge [OF pad]
    by (auto simp: make_cyclic_cache_def lay Let_def throw_if_def c_def not_less)
  have ex: "\<exists>w. slots_of (\<lambda>s. slice (?f r) 3 s 1) lanes (t_data (?f r)) w \<and> unat n = nat lanes * unat w"
    if r: "r \<in> set ?rs" for r
  proof -
    have "unat (t_data (?f r)) + unat n \<le> u64_max" using bt(6) [OF r] backing unfolding backs_def by linarith
    from rows_of_rank4 [OF bt(2) [OF r] bt(3) [OF r] bt(7) [OF r] bt(5) [OF r] this]
    obtain w where "rows_of (slice (?f r) 3) lanes (t_data (?f r)) w" "unat n = nat lanes * unat w" by blast
    then show ?thesis using rows_of_slots by blast
  qed
  have "ks \<noteq> []" using len L by auto
  then have "hd ks \<in> set ?rs" unfolding sets by simp
  then obtain w :: u64 where w: "unat n = nat lanes * unat w" using ex by blast
  have slots: "slots_of (\<lambda>s. slice (?f r) 3 s 1) lanes (t_data (?f r)) w" "t_ne (?f r) ! 3 = lanes" if r: "r \<in> set ?rs" for r
  proof -
    obtain w' where w': "slots_of (\<lambda>s. slice (?f r) 3 s 1) lanes (t_data (?f r)) w'" "unat n = nat lanes * unat w'"
      using ex [OF r] by blast
    then have "w' = w" using w pos(5) by (simp add: word_unat_eq_iff)
    with w' show "slots_of (\<lambda>s. slice (?f r) 3 s 1) lanes (t_data (?f r)) w" by simp
    show "t_ne (?f r) ! 3 = lanes" by (rule make_tensor_Inr [OF bt(2) [OF r]]) simp
  qed
  have planes: "cache_planes c w = map (\<lambda>r. (t_data (?f r), w)) ?rs"
    unfolding c_def cache_planes_def by (simp add: interleave_map [OF len(2)])
  note bp = bound_planes_ok [of ?rs, OF conjunct2 [OF conjunct2 [OF conjunct2 [OF conjunct2 [OF conjunct2 [OF g]]]]] placed hi backing w]
  have "cache_lanes c w"
    unfolding cache_lanes_def planes
    using bp(1) slots [unfolded sets] len L by (auto simp: c_def)
  then show ?thesis
    by (rule that [OF mk]) (use bp(2) planes len pad t w in \<open>simp_all add: c_def\<close>)
qed

section \<open>Lane copies between planned caches\<close>

lemma sbind_unit: "sbind m sret = (m :: ('s, unit) prog)"
  by (auto simp: fun_eq_iff sbind_def split: prod.splits sum.splits)

lemma sbind_slift: "sbind (slift (Inr x)) f = f x"
  by (simp add: fun_eq_iff sbind_def slift_def)

lemma copy_lane_layer_planes:
  assumes "\<forall>t \<in> {k, v, sk, sv}. slots_of (\<lambda>s. slice t 3 s 1) lanes (t_data t) w" "0 \<le> lane" "lane < lanes"
  shows "copy_lane_layer memcpy lane ((k, v), (sk, sv)) =
    siter (\<lambda>((p, w), q, _). memcpy (slot_addr p w (nat lane)) (slot_addr q w (nat lane)) w)
      (zip [(t_data k, w), (t_data v, w)] [(t_data sk, w), (t_data sv, w)])"
proof -
  have slot: "\<exists>u. slice t 3 lane 1 = Inr u \<and> t_data u = slot_addr (t_data t) w (nat lane) \<and> tensor_bytes u = Inr w"
    if "t \<in> {k, v, sk, sv}" for t
  proof -
    from assms(1) that have "slots_of (\<lambda>s. slice t 3 s 1) lanes (t_data t) w" by blast
    then show ?thesis by (rule slots_ofE [OF _ assms(2,3)]) blast
  qed
  obtain a b c d where "slice k 3 lane 1 = Inr a" "t_data a = slot_addr (t_data k) w (nat lane)" "tensor_bytes a = Inr w"
    "slice v 3 lane 1 = Inr b" "t_data b = slot_addr (t_data v) w (nat lane)" "tensor_bytes b = Inr w"
    "slice sk 3 lane 1 = Inr c" "t_data c = slot_addr (t_data sk) w (nat lane)"
    "slice sv 3 lane 1 = Inr d" "t_data d = slot_addr (t_data sv) w (nat lane)"
    using slot [of k] slot [of v] slot [of sk] slot [of sv] by auto
  then show ?thesis
    unfolding copy_lane_layer_def prod.case by (simp add: sbind_slift sbind_unit)
qed

lemma copy_lane_loop:
  assumes "\<forall>t \<in> set (map fst xs) \<union> set (map snd xs) \<union> set (map fst ys) \<union> set (map snd ys).
      slots_of (\<lambda>s. slice t 3 s 1) lanes (t_data t) w" "0 \<le> lane" "lane < lanes" "length ys = length xs"
  shows "siter (copy_lane_layer memcpy lane) (zip xs ys) =
    siter (\<lambda>((p, w), q, _). memcpy (slot_addr p w (nat lane)) (slot_addr q w (nat lane)) w)
      (zip (concat (map (\<lambda>(k, v). [(t_data k, w), (t_data v, w)]) xs))
        (concat (map (\<lambda>(k, v). [(t_data k, w), (t_data v, w)]) ys)))"
  using assms(4,1)
proof (induction ys xs rule: list_induct2)
  case (Cons y ys x xs)
  obtain k v where x: "x = (k, v)" by (cases x)
  obtain sk sv where y: "y = (sk, sv)" by (cases y)
  note layer = copy_lane_layer_planes [of k v sk sv lanes w lane memcpy, OF _ assms(2,3)]
  let ?g = "\<lambda>(k, v). [(t_data k, w), (t_data v, w)]"
  have split: "zip (concat (map ?g (x # xs))) (concat (map ?g (y # ys))) =
      zip (?g x) (?g y) @ zip (concat (map ?g xs)) (concat (map ?g ys))"
    by (simp add: x y)
  have "copy_lane_layer memcpy lane (x, y) =
      siter (\<lambda>((p, w), q, _). memcpy (slot_addr p w (nat lane)) (slot_addr q w (nat lane)) w) (zip (?g x) (?g y))"
    using layer Cons.prems by (simp add: x y)
  then show ?case
    using Cons.IH Cons.prems unfolding split siter_append by simp
qed simp

lemma lane_image_planes:
  assumes "cache_lanes c w" "0 \<le> lane" "lane < cc_lane_capacity c"
  shows "lane_image c m lane =
    Inr (map (\<lambda>(k, v). (read_bytes m (slot_addr (t_data k) w (nat lane)) w,
       read_bytes m (slot_addr (t_data v) w (nat lane)) w)) (zip (cc_k c) (cc_v c)))"
proof -
  have slot: "\<exists>u. slice t 3 lane 1 = Inr u \<and> t_data u = slot_addr (t_data t) w (nat lane) \<and> tensor_bytes u = Inr w"
    if "t \<in> set (cc_k c) \<union> set (cc_v c)" for t
  proof -
    from assms(1) that have "slots_of (\<lambda>s. slice t 3 s 1) (cc_lane_capacity c) (t_data t) w"
      unfolding cache_lanes_def by blast
    then show ?thesis by (rule slots_ofE [OF _ assms(2,3)]) blast
  qed
  show ?thesis
    unfolding lane_image_def
  proof (rule rmap_ok)
    fix x assume "x \<in> set (zip (cc_k c) (cc_v c))"
    moreover obtain k v where x: "x = (k, v)" by (cases x)
    ultimately have "k \<in> set (cc_k c)" "v \<in> set (cc_v c)" by (auto dest: set_zip_leftD set_zip_rightD)
    with slot [of k] slot [of v]
    show "(case x of (k, v) \<Rightarrow> rbind (slice k 3 lane 1) (\<lambda>kt. rbind (slot_bytes m kt) (\<lambda>kb.
        rbind (slice v 3 lane 1) (\<lambda>vt. rbind (slot_bytes m vt) (\<lambda>vb. Inr (kb, vb)))))) =
      Inr (case x of (k, v) \<Rightarrow> (read_bytes m (slot_addr (t_data k) w (nat lane)) w,
         read_bytes m (slot_addr (t_data v) w (nat lane)) w))"
      by (auto simp: x slot_bytes_def)
  qed
qed

lemma lane_image_out_of_range:
  assumes c: "cache_lanes c w" and lane: "lane < 0 \<or> cc_lane_capacity c \<le> lane"
  shows "lane_image c m lane = lane_image c m' lane"
proof -
  have "cc_k c \<noteq> []" "length (cc_v c) = length (cc_k c)" using c by (auto simp: cache_lanes_def)
  then obtain k ks v vs where kv: "cc_k c = k # ks" "cc_v c = v # vs" by (metis length_0_conv neq_Nil_conv)
  have "t_ne k ! 3 = cc_lane_capacity c" using c kv by (auto simp: cache_lanes_def)
  then show ?thesis using lane by (auto simp: lane_image_def kv slice_def Let_def throw_if_def)
qed

lemma lane_images_agree:
  assumes c: "cache_lanes c w" "cache_lanes d w" "length (cc_k d) = length (cc_k c)"
    and lane: "0 \<le> lane" "lane < cc_lane_capacity c" "lane < cc_lane_capacity d"
    and same: "\<forall>((p, _), q, _) \<in> set (zip (cache_planes c w) (cache_planes d w)).
      read_bytes m (slot_addr p w (nat lane)) w = read_bytes m' (slot_addr q w (nat lane)) w"
  shows "lane_image c m lane = lane_image d m' lane"
proof -
  let ?R = "\<lambda>m t. read_bytes m (slot_addr (t_data t) w (nat lane)) w"
  have pairs: "map (\<lambda>(k, v). (?R m k, ?R m v)) xs = map (\<lambda>(k, v). (?R m' k, ?R m' v)) ys"
    if "length ys = length xs" "\<forall>((p, _), q, _) \<in> set (zip (concat (map (\<lambda>(k, v). [(t_data k, w), (t_data v, w)]) xs))
        (concat (map (\<lambda>(k, v). [(t_data k, w), (t_data v, w)]) ys))).
      read_bytes m (slot_addr p w (nat lane)) w = read_bytes m' (slot_addr q w (nat lane)) w" for xs ys
    using that by (induction ys xs rule: list_induct2) auto
  have "length (zip (cc_k d) (cc_v d)) = length (zip (cc_k c) (cc_v c))"
    using c by (simp add: cache_lanes_def)
  from pairs [OF this] same show ?thesis
    unfolding lane_image_planes [OF c(1) lane(1,2)] lane_image_planes [OF c(2) lane(1,3)] cache_planes_def by blast
qed

lemma copy_lane_from_planes:
  assumes c: "cache_lanes c w" "cache_lanes d w" and len: "length (cc_k d) = length (cc_k c)"
    and eq: "cc_capacity d = cc_capacity c" "cc_padded_capacity d = cc_padded_capacity c"
      "cc_num_kv_heads d = cc_num_kv_heads c" "cc_head_dim d = cc_head_dim c" "cc_lane_capacity d = cc_lane_capacity c"
    and lane: "0 \<le> lane" "lane < cc_lane_capacity c"
  shows "copy_lane_from memcpy c d lane =
    siter (\<lambda>((p, w), q, _). memcpy (slot_addr p w (nat lane)) (slot_addr q w (nat lane)) w)
      (zip (cache_planes c w) (cache_planes d w))"
proof -
  let ?xs = "zip (cc_k c) (cc_v c)" and ?ys = "zip (cc_k d) (cc_v d)"
  have slots: "\<forall>t \<in> set (map fst ?xs) \<union> set (map snd ?xs) \<union> set (map fst ?ys) \<union> set (map snd ?ys).
      slots_of (\<lambda>s. slice t 3 s 1) (cc_lane_capacity c) (t_data t) w"
    using c eq(5) by (auto simp: cache_lanes_def)
  have "length ?ys = length ?xs" using c len by (simp add: cache_lanes_def)
  note loop = copy_lane_loop [OF slots lane this, of memcpy, folded cache_planes_def]
  show ?thesis
    using eq lane len
    by (simp add: copy_lane_from_def cyclic_layer_count_def throw_if_def sbind_slift loop)
qed

lemma cache_plane_width: "(p, v) \<in> set (cache_planes c w) \<Longrightarrow> v = w"
  by (auto simp: cache_planes_def)

lemma other_lanes_kept:
  assumes c: "cache_lanes c w" and lane: "0 \<le> lane"
    and kept: "\<forall>(p, w) \<in> set (cache_planes c w). \<forall>k < nat (cc_lane_capacity c). k \<noteq> nat lane \<longrightarrow>
       read_bytes m' (slot_addr p w k) w = read_bytes m (slot_addr p w k) w"
    and k: "k \<noteq> lane"
  shows "lane_image c m' k = lane_image c m k"
proof (cases "0 \<le> k \<and> k < cc_lane_capacity c")
  case True
  then have "nat k < nat (cc_lane_capacity c)" "nat k \<noteq> nat lane" using k lane by auto
  then have "read_bytes m' (slot_addr q w (nat k)) w = read_bytes m (slot_addr q w (nat k)) w"
    if "(q, v) \<in> set (cache_planes c w)" for q v
    using kept that cache_plane_width [OF that] by fast
  then show ?thesis using True
    by (intro lane_images_agree [OF c c]) (auto simp: zip_same)
next
  case False
  then show ?thesis using lane_image_out_of_range [OF c] by (metis not_le)
qed

text \<open>Two caches planned with the same parameters have planes of the same width, side by side.\<close>

lemma planned_cache_pair:
  assumes plan: "plan_cyclic_kv_cache b layers capacity heads dim lanes = Inr (layout, b')"
      "plan_cyclic_kv_cache b1 layers capacity heads dim lanes = Inr (layout1, b1')"
    and fin: "layout_finish b' al label = Inr sz" "layout_finish b1' al1 label1 = Inr sz1"
    and backing: "backs backing sz" "backs backing1 sz1" and lanes: "0 < lanes"
  obtains c d w where "make_cyclic_cache backing layout = Inr c" "make_cyclic_cache backing1 layout1 = Inr d"
    "cache_lanes c w" "cache_lanes d w" "cc_lane_capacity c = lanes" "cc_lane_capacity d = lanes"
    "length (cc_k d) = length (cc_k c)" "map snd (cache_planes c w) = map snd (cache_planes d w)"
    "\<forall>x \<in> set (cache_planes c w). plane_range (nat lanes) x \<subseteq> byte_range (ds_data backing) (ds_bytes backing)"
    "\<forall>x \<in> set (cache_planes d w). plane_range (nat lanes) x \<subseteq> byte_range (ds_data backing1) (ds_bytes backing1)"
    "\<And>lane memcpy. 0 \<le> lane \<Longrightarrow> lane < lanes \<Longrightarrow> copy_lane_from memcpy c d lane =
       siter (\<lambda>((p, w), q, _). memcpy (slot_addr p w (nat lane)) (slot_addr q w (nat lane)) w)
         (zip (cache_planes c w) (cache_planes d w))"
proof -
  obtain c w padded t n where c: "make_cyclic_cache backing layout = Inr c" "cache_lanes c w"
    "\<forall>x \<in> set (cache_planes c w). plane_range (nat lanes) x \<subseteq> byte_range (ds_data backing) (ds_bytes backing)"
    "length (cc_k c) = unat layers" "cc_capacity c = capacity" "cc_padded_capacity c = padded"
    "cc_num_kv_heads c = heads" "cc_head_dim c = dim" "cc_lane_capacity c = lanes"
    "align_up_u32 capacity 128 = Inr padded" "make_tensor 0 BF16 [dim, sint padded, heads, lanes] = Inr t"
    "tensor_bytes t = Inr n" "unat n = nat lanes * unat w"
    by (rule planned_cyclic_cache [OF plan(1) fin(1) backing(1)])
  obtain d w1 padded1 t1 n1 where d: "make_cyclic_cache backing1 layout1 = Inr d" "cache_lanes d w1"
    "\<forall>x \<in> set (cache_planes d w1). plane_range (nat lanes) x \<subseteq> byte_range (ds_data backing1) (ds_bytes backing1)"
    "length (cc_k d) = unat layers" "cc_capacity d = capacity" "cc_padded_capacity d = padded1"
    "cc_num_kv_heads d = heads" "cc_head_dim d = dim" "cc_lane_capacity d = lanes"
    "align_up_u32 capacity 128 = Inr padded1" "make_tensor 0 BF16 [dim, sint padded1, heads, lanes] = Inr t1"
    "tensor_bytes t1 = Inr n1" "unat n1 = nat lanes * unat w1"
    by (rule planned_cyclic_cache [OF plan(2) fin(2) backing(2)])
  have p: "padded1 = padded" using c(10) d(10) by simp
  then have "unat n1 = unat n" using c(11,12) d(11,12) by simp
  then have w: "w1 = w" using c(13) d(13) lanes by (simp add: word_unat_eq_iff)
  note d = d [unfolded p w]
  have len: "length (cache_planes c w) = length (cache_planes d w)"
    using c(2,4) d(2,4) by (simp add: cache_planes_def cache_lanes_def length_concat comp_def split_beta sum_list_triv)
  have widths: "map snd (cache_planes c w) = map snd (cache_planes d w)"
  proof -
    have "map snd (cache_planes x w) = replicate (length (cache_planes x w)) w" for x
      by (rule replicate_eqI) (auto simp: cache_planes_def)
    then show ?thesis by (simp add: len)
  qed
  have copy: "copy_lane_from memcpy c d lane =
       siter (\<lambda>((p, w), q, _). memcpy (slot_addr p w (nat lane)) (slot_addr q w (nat lane)) w)
         (zip (cache_planes c w) (cache_planes d w))" if "0 \<le> lane" "lane < lanes" for lane memcpy
    by (rule copy_lane_from_planes [OF c(2) d(2)]) (use c(4-9) d(4-9) that in simp_all)
  show ?thesis
    by (rule that [OF c(1) d(1) c(2) d(2) c(9) d(9) _ widths c(3) d(3) copy]) (use c(4) d(4) in simp_all)
qed

text \<open>
  C12. Two caches planned with the same parameters and bound to backings that do not overlap: both plans
  bind, and copying a lane from one cache to the other updates exactly that lane of the destination. If every
  device copy is accepted it holds the lane image of the source; if one fails, the error is the runtime's and
  the other lanes are intact. The source cache and every byte outside the destination backing stay.
\<close>

theorem copy_lane_updates_image:
  assumes plan: "plan_cyclic_kv_cache b layers capacity heads dim lanes = Inr (layout, b')"
      "plan_cyclic_kv_cache b1 layers capacity heads dim lanes = Inr (layout1, b1')"
    and fin: "layout_finish b' al label = Inr sz" "layout_finish b1' al1 label1 = Inr sz1"
    and backing: "backs backing sz" "backs backing1 sz1"
      "byte_range (ds_data backing) (ds_bytes backing) \<inter> byte_range (ds_data backing1) (ds_bytes backing1) = {}"
    and law: "memcpy_law memcpy" and lane: "0 \<le> lane" "lane < lanes"
  shows "\<exists>c source. make_cyclic_cache backing layout = Inr c \<and> make_cyclic_cache backing1 layout1 = Inr source \<and>
    (case copy_lane_from memcpy c source lane m of
       (Inr _, m') \<Rightarrow> lane_image c m' = (lane_image c m)(lane := lane_image source m lane) \<and>
          (\<exists>image. lane_image source m lane = Inr image)
     | (Inl e, m') \<Rightarrow> (\<exists>d q n m1. fst (memcpy d q n m1) = Inl e) \<and>
          (\<forall>k. k \<noteq> lane \<longrightarrow> lane_image c m' k = lane_image c m k)) \<and>
    (\<forall>a. a \<notin> byte_range (ds_data backing) (ds_bytes backing) \<longrightarrow>
       snd (copy_lane_from memcpy c source lane m) a = m a)"
proof -
  have pos: "0 < lanes" using lane by simp
  obtain c d w where mk: "make_cyclic_cache backing layout = Inr c" "make_cyclic_cache backing1 layout1 = Inr d"
    and c: "cache_lanes c w" "cache_lanes d w" "cc_lane_capacity c = lanes" "cc_lane_capacity d = lanes"
      "length (cc_k d) = length (cc_k c)" "map snd (cache_planes c w) = map snd (cache_planes d w)"
      "\<forall>x \<in> set (cache_planes c w). plane_range (nat lanes) x \<subseteq> byte_range (ds_data backing) (ds_bytes backing)"
      "\<forall>x \<in> set (cache_planes d w). plane_range (nat lanes) x \<subseteq> byte_range (ds_data backing1) (ds_bytes backing1)"
      "copy_lane_from memcpy c d lane =
       siter (\<lambda>((p, w), q, _). memcpy (slot_addr p w (nat lane)) (slot_addr q w (nat lane)) w)
         (zip (cache_planes c w) (cache_planes d w))"
    by (rule planned_cache_pair [OF plan fin backing(1,2) pos]) (use lane in blast)
  obtain r m' where run: "copy_lane_from memcpy c d lane m = (r, m')" by fastforce
  have ok: "planes_ok (nat lanes) (cache_planes c w)" "planes_ok (nat lanes) (cache_planes d w)"
    using c(1-4) by (auto simp: cache_lanes_def)
  have apart: "plane_range (nat lanes) x \<inter> plane_range (nat lanes) y = {}"
    if "x \<in> set (cache_planes c w)" "y \<in> set (cache_planes d w)" for x y
    using c(7,8) backing(3) that by blast
  have nl: "nat lane < nat lanes" using lane by simp
  note cp = copy_between_planes [OF law ok c(6) apart nl run [unfolded c(9)]]
  have other: "lane_image c m' k = lane_image c m k" if "k \<noteq> lane" for k
    using other_lanes_kept [OF c(1) lane(1) _ that] cp c(3) by blast
  have copied: "lane_image c m' lane = lane_image d m lane" if "r = Inr ()"
  proof -
    have width: "v = w" if "((q, v), z) \<in> set (zip (cache_planes c w) (cache_planes d w))" for q v z
      using set_zip_leftD [OF that] by (rule cache_plane_width)
    show ?thesis using that cp c(3-5) lane width
      by (intro lane_images_agree [OF c(1,2)]) fastforce+
  qed
  have image: "\<exists>image. lane_image d m lane = Inr image" using lane_image_planes [OF c(2)] lane c(4) by auto
  have out: "m' a = m a" if "a \<notin> byte_range (ds_data backing) (ds_bytes backing)" for a
    using cp c(7) that by blast
  show ?thesis
    using mk run other copied image out cp by (cases r) (auto simp: fun_eq_iff)
qed

section \<open>A sample pair of caches\<close>

definition cyclic_sample_region :: "u64 \<Rightarrow> tensor_region" where
  "cyclic_sample_region off =
     \<lparr>tr_region = \<lparr>lr_offset = off, lr_bytes = 512, lr_alignment = 256\<rparr>, tr_dtype = BF16, tr_shape = [1, 128, 1, 2]\<rparr>"

definition cyclic_sample_layout :: cyclic_layout where
  "cyclic_sample_layout = \<lparr>cl_capacity = 1, cl_padded_capacity = 128, cl_num_kv_heads = 1, cl_head_dim = 1,
     cl_lane_capacity = 2, cl_k = [cyclic_sample_region 0], cl_v = [cyclic_sample_region 512]\<rparr>"

lemma cyclic_sample_planned:
  "plan_cyclic_kv_cache empty_builder 1 1 1 1 2 = Inr (cyclic_sample_layout, \<lparr>lb_cursor = 1024, lb_peak = 1024\<rparr>)"
  by (simp add: plan_cyclic_kv_cache_def align_up_u32_def cyclic_sample_layout_def cyclic_sample_region_def
      layout_add_tensor_def make_tensor_def normalize_shape_def set_contiguous_strides_def checked_mul_i64_def
      tensor_bytes_def numel_def shape_numel_def layout_add_def align_up_def is_power_of_two_def checked_add_def
      empty_builder_def)

lemma cyclic_sample_finish: "layout_finish \<lparr>lb_cursor = 1024, lb_peak = 1024\<rparr> 256 ''kv'' = Inr 1024"
  by (simp add: layout_finish_def align_up_def is_power_of_two_def checked_add_def)

lemma cyclic_sample_backings:
  "backs \<lparr>ds_data = 4096, ds_bytes = 1024\<rparr> 1024" "backs \<lparr>ds_data = 8192, ds_bytes = 1024\<rparr> 1024"
  "byte_range (ds_data \<lparr>ds_data = 4096, ds_bytes = 1024\<rparr>) (ds_bytes \<lparr>ds_data = 4096, ds_bytes = 1024\<rparr>) \<inter>
   byte_range (ds_data \<lparr>ds_data = 8192, ds_bytes = 1024\<rparr>) (ds_bytes \<lparr>ds_data = 8192, ds_bytes = 1024\<rparr>) = {}"
  by (auto simp: backs_def byte_range_def)

theorem copy_lane_updates_image_witness:
  "\<exists>c source. make_cyclic_cache \<lparr>ds_data = 4096, ds_bytes = 1024\<rparr> cyclic_sample_layout = Inr c \<and>
     make_cyclic_cache \<lparr>ds_data = 8192, ds_bytes = 1024\<rparr> cyclic_sample_layout = Inr source \<and>
     fst (copy_lane_from ideal_memcpy c source 1 (\<lambda>a. if a < 8192 then 0 else 5)) = Inr () \<and>
     lane_image c (snd (copy_lane_from ideal_memcpy c source 1 (\<lambda>a. if a < 8192 then 0 else 5))) 1 =
       lane_image source (\<lambda>a. if a < 8192 then 0 else 5) 1"
proof -
  let ?m = "\<lambda>a :: u64. if a < 8192 then 0 else 5 :: byte"
  obtain c d where mk: "make_cyclic_cache \<lparr>ds_data = 4096, ds_bytes = 1024\<rparr> cyclic_sample_layout = Inr c"
    "make_cyclic_cache \<lparr>ds_data = 8192, ds_bytes = 1024\<rparr> cyclic_sample_layout = Inr d"
    and run: "case copy_lane_from ideal_memcpy c d 1 ?m of
       (Inr _, m') \<Rightarrow> lane_image c m' = (lane_image c ?m)(1 := lane_image d ?m 1) \<and> (\<exists>image. lane_image d ?m 1 = Inr image)
     | (Inl e, m') \<Rightarrow> (\<exists>x q n m1. fst (ideal_memcpy x q n m1) = Inl e) \<and>
          (\<forall>k. k \<noteq> 1 \<longrightarrow> lane_image c m' k = lane_image c ?m k)"
    using copy_lane_updates_image [OF cyclic_sample_planned cyclic_sample_planned cyclic_sample_finish cyclic_sample_finish
        cyclic_sample_backings ideal_memcpy_law, of 1 ?m] by auto
  then show ?thesis
    by (intro exI [of _ c] exI [of _ d]) (auto simp: ideal_memcpy_def split: prod.splits sum.splits)
qed

end
