(* ===== verification/Gdn_Records.thy ===== *)
theory Gdn_Records
  imports Planned_Tensors
begin

text \<open>
  Replay records of the gated delta-net layers (\<open>src/core/gdn_replay_records.*\<close>): the validation of
  a record specification, the plan of its four planes, the checks of a layout, the bound records and
  the tensors of one layer. The theorem shows that planned records always bind and that the layers
  are pairwise disjoint in all planes.
\<close>

section \<open>Specification and plan\<close>

record gdn_spec =
  gs_layers :: int
  gs_record_capacity :: int
  gs_width :: int
  gs_conv_channels :: int
  gs_qk_heads :: int
  gs_value_heads :: int
  gs_key_dim :: int
  gs_value_dim :: int

record gdn_layout =
  gl_spec :: gdn_spec
  gl_conv :: tensor_region
  gl_key :: tensor_region
  gl_value :: tensor_region
  gl_gate :: tensor_region

abbreviation kRecordAlignment :: u64 where "kRecordAlignment \<equiv> 256"

abbreviation kMaximumRecordCapacity :: int where "kMaximumRecordCapacity \<equiv> 8"

definition require_positive :: "int \<Rightarrow> string \<Rightarrow> unit result" where
  "require_positive value label =
     throw_if (value \<le> 0) (invalid_argument (''GDN replay '' @ label @ '' must be positive''))"

text \<open>The quotient is only taken for a positive capacity, which \<open>validate_spec\<close> checks first.\<close>

definition checked_outer_extent :: "gdn_spec \<Rightarrow> int result" where
  "checked_outer_extent spec =
     rbind (throw_if (gs_layers spec > i32_max div gs_record_capacity spec)
              (overflow_error ''GDN replay layer/row extent exceeds int32'')) (\<lambda>_.
     Inr (gs_layers spec * gs_record_capacity spec))"

definition validate_spec :: "gdn_spec \<Rightarrow> unit result" where
  "validate_spec spec =
     rbind (require_positive (gs_layers spec) ''layer count'') (\<lambda>_.
     rbind (require_positive (gs_record_capacity spec) ''record capacity'') (\<lambda>_.
     rbind (require_positive (gs_width spec) ''width'') (\<lambda>_.
     rbind (require_positive (gs_conv_channels spec) ''convolution channel count'') (\<lambda>_.
     rbind (require_positive (gs_qk_heads spec) ''Q/K head count'') (\<lambda>_.
     rbind (require_positive (gs_value_heads spec) ''value head count'') (\<lambda>_.
     rbind (require_positive (gs_key_dim spec) ''key dimension'') (\<lambda>_.
     rbind (require_positive (gs_value_dim spec) ''value dimension'') (\<lambda>_.
     rbind (throw_if (gs_record_capacity spec > kMaximumRecordCapacity)
              (invalid_argument ''GDN replay record capacity exceeds eight rows'')) (\<lambda>_.
     rbind (throw_if (gs_value_heads spec mod gs_qk_heads spec \<noteq> 0)
              (invalid_argument ''GDN replay value heads must be grouped by Q/K heads'')) (\<lambda>_.
     rbind (checked_outer_extent spec) (\<lambda>_. Inr ())))))))))))"

definition plan_gdn_replay_records ::
  "layout_builder \<Rightarrow> gdn_spec \<Rightarrow> (gdn_layout \<times> layout_builder) result" where
  "plan_gdn_replay_records b spec =
     rbind (validate_spec spec) (\<lambda>_.
     rbind (checked_outer_extent spec) (\<lambda>outer.
     rbind (layout_add_tensor b BF16 [gs_conv_channels spec, gs_width spec, outer]
              kRecordAlignment ''GDN replay conv records'') (\<lambda>(conv, b1).
     rbind (layout_add_tensor b1 BF16 [gs_key_dim spec, gs_qk_heads spec, gs_width spec, outer]
              kRecordAlignment ''GDN replay key records'') (\<lambda>(key, b2).
     rbind (layout_add_tensor b2 BF16 [gs_value_dim spec, gs_value_heads spec, gs_width spec, outer]
              kRecordAlignment ''GDN replay value records'') (\<lambda>(val, b3).
     rbind (layout_add_tensor b3 FP32 [2, gs_value_heads spec, gs_width spec, outer]
              kRecordAlignment ''GDN replay gate records'') (\<lambda>(gate, b4).
     Inr (\<lparr>gl_spec = spec, gl_conv = conv, gl_key = key, gl_value = val, gl_gate = gate\<rparr>, b4)))))))"

definition gdn_payload_bytes :: "gdn_layout \<Rightarrow> u64" where
  "gdn_payload_bytes layout =
     lr_bytes (tr_region (gl_conv layout)) + lr_bytes (tr_region (gl_key layout)) +
     lr_bytes (tr_region (gl_value layout)) + lr_bytes (tr_region (gl_gate layout))"

section \<open>Checks of a layout\<close>

definition require_region :: "tensor_region \<Rightarrow> dtype \<Rightarrow> int list \<Rightarrow> string \<Rightarrow> unit result" where
  "require_region region dt shape label =
     rbind (throw_if (tr_dtype region \<noteq> dt \<or> tr_shape region \<noteq> shape \<or>
                      lr_alignment (tr_region region) \<noteq> kRecordAlignment)
              (logic_error (''GDN replay '' @ label @ '' layout does not match its spec''))) (\<lambda>_.
     rbind (make_tensor 0 dt shape) (\<lambda>expected.
     rbind (tensor_bytes expected) (\<lambda>n.
     throw_if (lr_bytes (tr_region region) \<noteq> n)
       (logic_error (''GDN replay '' @ label @ '' layout has an inconsistent byte size'')))))"

definition require_disjoint :: "tensor_region \<Rightarrow> tensor_region \<Rightarrow> unit result" where
  "require_disjoint a b =
     (let a_begin = lr_offset (tr_region a); b_begin = lr_offset (tr_region b);
          a_bytes = lr_bytes (tr_region a); b_bytes = lr_bytes (tr_region b) in
      rbind (throw_if (a_bytes > max_word - a_begin \<or> b_bytes > max_word - b_begin)
               (overflow_error ''GDN replay region end overflows size_t'')) (\<lambda>_.
      let a_end = a_begin + a_bytes; b_end = b_begin + b_bytes in
      throw_if (a_begin < b_end \<and> b_begin < a_end) (logic_error ''GDN replay record planes overlap'')))"

text \<open>The nested loop: every region against the ones before it.\<close>

fun require_all_disjoint :: "tensor_region list \<Rightarrow> tensor_region list \<Rightarrow> unit result" where
  "require_all_disjoint earlier [] = Inr ()"
| "require_all_disjoint earlier (r # rs) =
     rbind (rmap (require_disjoint r) earlier) (\<lambda>_. require_all_disjoint (earlier @ [r]) rs)"

definition validate_layout :: "gdn_layout \<Rightarrow> unit result" where
  "validate_layout layout =
     (let spec = gl_spec layout in
      rbind (validate_spec spec) (\<lambda>_.
      rbind (checked_outer_extent spec) (\<lambda>outer.
      rbind (require_region (gl_conv layout) BF16 [gs_conv_channels spec, gs_width spec, outer, 1] ''conv'') (\<lambda>_.
      rbind (require_region (gl_key layout) BF16
               [gs_key_dim spec, gs_qk_heads spec, gs_width spec, outer] ''key'') (\<lambda>_.
      rbind (require_region (gl_value layout) BF16
               [gs_value_dim spec, gs_value_heads spec, gs_width spec, outer] ''value'') (\<lambda>_.
      rbind (require_region (gl_gate layout) FP32
               [2, gs_value_heads spec, gs_width spec, outer] ''gate'') (\<lambda>_.
      require_all_disjoint [] [gl_conv layout, gl_key layout, gl_value layout, gl_gate layout])))))))"

section \<open>The bound records\<close>

record gdn_records =
  gr_conv :: tensor
  gr_key :: tensor
  gr_value :: tensor
  gr_gate :: tensor
  gr_spec :: gdn_spec

text \<open>The member initialisers bind the four planes before the body validates the layout.\<close>

definition make_gdn_records :: "device_span \<Rightarrow> gdn_layout \<Rightarrow> gdn_records result" where
  "make_gdn_records backing layout =
     rbind (tensor_region_bind (gl_conv layout) backing) (\<lambda>conv.
     rbind (tensor_region_bind (gl_key layout) backing) (\<lambda>key.
     rbind (tensor_region_bind (gl_value layout) backing) (\<lambda>val.
     rbind (tensor_region_bind (gl_gate layout) backing) (\<lambda>gate.
     rbind (validate_layout layout) (\<lambda>_.
     Inr \<lparr>gr_conv = conv, gr_key = key, gr_value = val, gr_gate = gate, gr_spec = gl_spec layout\<rparr>)))))"

record gdn_layer =
  gy_conv :: tensor
  gy_key :: tensor
  gy_value :: tensor
  gy_gate :: tensor

definition records_layer :: "gdn_records \<Rightarrow> int \<Rightarrow> int \<Rightarrow> gdn_layer result" where
  "records_layer rec layer_index rows =
     (let spec = gr_spec rec in
      rbind (validate_spec spec) (\<lambda>_.
      rbind (throw_if (layer_index < 0 \<or> layer_index \<ge> gs_layers spec)
               (out_of_range ''GDN replay layer index out of range'')) (\<lambda>_.
      rbind (throw_if (rows \<le> 0 \<or> rows > gs_record_capacity spec)
               (out_of_range ''GDN replay active row count out of range'')) (\<lambda>_.
      let outer_begin = layer_index * gs_record_capacity spec in
      rbind (rbind (slice (gr_conv rec) 2 outer_begin rows)
               (\<lambda>t. view t [gs_conv_channels spec, gs_width spec, rows])) (\<lambda>conv.
      rbind (slice (gr_key rec) 3 outer_begin rows) (\<lambda>key.
      rbind (slice (gr_value rec) 3 outer_begin rows) (\<lambda>val.
      rbind (slice (gr_gate rec) 3 outer_begin rows) (\<lambda>gate.
      Inr \<lparr>gy_conv = conv, gy_key = key, gy_value = val, gy_gate = gate\<rparr>))))))))"

definition layer_planes :: "gdn_layer \<Rightarrow> tensor list" where
  "layer_planes l = [gy_conv l, gy_key l, gy_value l, gy_gate l]"

section \<open>Planned records bind\<close>

lemma checked_outer_extent_Inr:
  assumes "validate_spec spec = Inr u" "checked_outer_extent spec = Inr outer"
  shows "outer = gs_layers spec * gs_record_capacity spec" "0 < gs_layers spec" "0 < gs_record_capacity spec"
  using assms by (auto simp: validate_spec_def require_positive_def checked_outer_extent_def result_simps)

lemma require_region_ok:
  assumes "placed dt shape n lo hi r"
  shows "require_region r dt (shape @ replicate (4 - length shape) 1) label = Inr ()"
proof -
  from assms obtain t where t: "make_tensor 0 dt shape = Inr t" "tensor_bytes t = Inr n" by (auto simp: placed_def)
  show ?thesis
    using assms make_tensor_padded [OF t(1)] t(2) by (simp add: require_region_def placed_def throw_if_def)
qed

lemma require_disjoint_ok:
  assumes "placed dt shape n lo hi a" "placed dt' shape' n' lo' hi' b" "hi \<le> u64_max" "hi' \<le> u64_max"
    and "region_end b \<le> region_off a"
  shows "require_disjoint a b = Inr ()"
proof -
  have e: "region_end a \<le> u64_max" "region_end b \<le> u64_max" using assms(1-4) by (auto simp: placed_def)
  then have f: "unat (lr_offset (tr_region a)) + unat (lr_bytes (tr_region a)) \<le> u64_max"
    "unat (lr_offset (tr_region b)) + unat (lr_bytes (tr_region b)) \<le> u64_max"
    by (simp_all add: region_end_def region_off_def)
  have "\<not> lr_offset (tr_region a) < lr_offset (tr_region b) + lr_bytes (tr_region b)"
    using assms(5) unat_add_u64 [OF f(2)] by (simp add: word_less_nat_alt region_end_def region_off_def)
  then show ?thesis using f
    by (simp add: require_disjoint_def Let_def throw_if_def max_word_minus_less_iff)
qed

lemma plan_gdn_placed:
  assumes plan: "plan_gdn_replay_records b spec = Inr (layout, b')"
  obtains outer n1 n2 n3 n4 where "validate_spec spec = Inr ()" "checked_outer_extent spec = Inr outer"
    "gl_spec layout = spec"
    "placed BF16 [gs_conv_channels spec, gs_width spec, outer] n1 0 (unat (lb_peak b')) (gl_conv layout)"
    "placed BF16 [gs_key_dim spec, gs_qk_heads spec, gs_width spec, outer] n2 0 (unat (lb_peak b')) (gl_key layout)"
    "placed BF16 [gs_value_dim spec, gs_value_heads spec, gs_width spec, outer] n3 0 (unat (lb_peak b')) (gl_value layout)"
    "placed FP32 [2, gs_value_heads spec, gs_width spec, outer] n4 0 (unat (lb_peak b')) (gl_gate layout)"
    "region_end (gl_conv layout) \<le> region_off (gl_key layout)"
    "region_end (gl_key layout) \<le> region_off (gl_value layout)"
    "region_end (gl_value layout) \<le> region_off (gl_gate layout)"
proof -
  from plan obtain outer b1 b2 b3 conv key val gate l1 l2 l3 l4 where
    spec: "validate_spec spec = Inr ()" "checked_outer_extent spec = Inr outer"
    and add: "layout_add_tensor b BF16 [gs_conv_channels spec, gs_width spec, outer] 256 l1 = Inr (conv, b1)"
      "layout_add_tensor b1 BF16 [gs_key_dim spec, gs_qk_heads spec, gs_width spec, outer] 256 l2 = Inr (key, b2)"
      "layout_add_tensor b2 BF16 [gs_value_dim spec, gs_value_heads spec, gs_width spec, outer] 256 l3 = Inr (val, b3)"
      "layout_add_tensor b3 FP32 [2, gs_value_heads spec, gs_width spec, outer] 256 l4 = Inr (gate, b')"
    and lay: "layout = \<lparr>gl_spec = spec, gl_conv = conv, gl_key = key, gl_value = val, gl_gate = gate\<rparr>"
    by (auto simp: plan_gdn_replay_records_def result_simps)
  note mono = add_tensor_mono [OF add(1)] add_tensor_mono [OF add(2)] add_tensor_mono [OF add(3)] add_tensor_mono [OF add(4)]
  obtain n1 where p1: "placed BF16 [gs_conv_channels spec, gs_width spec, outer] n1 (unat (lb_cursor b)) (unat (lb_cursor b1)) conv"
    by (rule add_tensor_placed [OF add(1)])
  obtain n2 where p2: "placed BF16 [gs_key_dim spec, gs_qk_heads spec, gs_width spec, outer] n2 (unat (lb_cursor b1)) (unat (lb_cursor b2)) key"
    by (rule add_tensor_placed [OF add(2)])
  obtain n3 where p3: "placed BF16 [gs_value_dim spec, gs_value_heads spec, gs_width spec, outer] n3 (unat (lb_cursor b2)) (unat (lb_cursor b3)) val"
    by (rule add_tensor_placed [OF add(3)])
  obtain n4 where p4: "placed FP32 [2, gs_value_heads spec, gs_width spec, outer] n4 (unat (lb_cursor b3)) (unat (lb_cursor b')) gate"
    by (rule add_tensor_placed [OF add(4)])
  have order: "region_end conv \<le> region_off key" "region_end key \<le> region_off val" "region_end val \<le> region_off gate"
    using p1 p2 p3 p4 by (auto simp: placed_def)
  show ?thesis
    by (rule that [OF spec, of n1 n2 n3 n4])
      (use order mono placed_mono [OF p1] placed_mono [OF p2] placed_mono [OF p3] placed_mono [OF p4] in \<open>simp_all add: lay\<close>)
qed

lemma validate_layout_ok:
  assumes plan: "plan_gdn_replay_records b spec = Inr (layout, b')"
  shows "validate_layout layout = Inr ()"
proof -
  obtain outer n1 n2 n3 n4 where spec: "validate_spec spec = Inr ()" "checked_outer_extent spec = Inr outer"
      "gl_spec layout = spec"
    and p: "placed BF16 [gs_conv_channels spec, gs_width spec, outer] n1 0 (unat (lb_peak b')) (gl_conv layout)"
    "placed BF16 [gs_key_dim spec, gs_qk_heads spec, gs_width spec, outer] n2 0 (unat (lb_peak b')) (gl_key layout)"
    "placed BF16 [gs_value_dim spec, gs_value_heads spec, gs_width spec, outer] n3 0 (unat (lb_peak b')) (gl_value layout)"
    "placed FP32 [2, gs_value_heads spec, gs_width spec, outer] n4 0 (unat (lb_peak b')) (gl_gate layout)"
    and o: "region_end (gl_conv layout) \<le> region_off (gl_key layout)"
    "region_end (gl_key layout) \<le> region_off (gl_value layout)"
    "region_end (gl_value layout) \<le> region_off (gl_gate layout)"
    by (rule plan_gdn_placed [OF plan])
  note pk = unat_u64_le [of "lb_peak b'"]
  have le: "region_off r \<le> region_end r" for r by (simp add: region_end_def)
  have "region_end (gl_conv layout) \<le> region_off (gl_value layout)" "region_end (gl_conv layout) \<le> region_off (gl_gate layout)"
    "region_end (gl_key layout) \<le> region_off (gl_gate layout)"
    using o le [of "gl_key layout"] le [of "gl_value layout"] by linarith+
  with o have "require_all_disjoint [] [gl_conv layout, gl_key layout, gl_value layout, gl_gate layout] = Inr ()"
    using require_disjoint_ok [OF p(2) p(1) pk pk] require_disjoint_ok [OF p(3) p(1) pk pk]
      require_disjoint_ok [OF p(3) p(2) pk pk] require_disjoint_ok [OF p(4) p(1) pk pk]
      require_disjoint_ok [OF p(4) p(2) pk pk] require_disjoint_ok [OF p(4) p(3) pk pk] by simp
  then show ?thesis
    using spec require_region_ok [OF p(1)] require_region_ok [OF p(2)] require_region_ok [OF p(3)] require_region_ok [OF p(4)]
    by (simp add: validate_layout_def)
qed

section \<open>The layers of planned records\<close>

text \<open>The rows a layer may use in a plane: \<open>cap\<close> rows of \<open>w\<close> bytes each.\<close>

definition layer_block :: "int \<Rightarrow> u64 \<times> u64 \<Rightarrow> int \<Rightarrow> u64 set" where
  "layer_block cap = (\<lambda>(p, w) i. {a. unat p + nat i * (nat cap * unat w) \<le> unat a \<and>
     unat a < unat p + nat i * (nat cap * unat w) + nat cap * unat w})"

lemma layer_blocks_disjoint:
  assumes "0 \<le> i" "0 \<le> j" "i \<noteq> j"
  shows "layer_block cap x i \<inter> layer_block cap x j = {}"
proof -
  obtain p w where x: "x = (p, w)" by (cases x)
  have "nat i \<noteq> nat j" using assms by auto
  then have "nat i * (nat cap * unat w) + nat cap * unat w \<le> nat j * (nat cap * unat w) \<or>
      nat j * (nat cap * unat w) + nat cap * unat w \<le> nat i * (nat cap * unat w)"
    using slot_end_le [of "nat i" "nat j" "nat cap * unat w"] slot_end_le [of "nat j" "nat i" "nat cap * unat w"]
    by (metis nat_neq_iff)
  then show ?thesis by (auto simp: layer_block_def x)
qed

lemma layer_block_plane:
  assumes "0 \<le> i" "i < layers" "0 < cap"
  shows "layer_block cap x i \<subseteq> plane_range (nat (layers * cap)) x"
proof -
  obtain p w where x: "x = (p, w)" by (cases x)
  have "nat (layers * cap) * unat w = nat layers * (nat cap * unat w)"
    using assms by (simp add: nat_mult_distrib)
  then show ?thesis
    using slot_end_le [of "nat i" "nat layers" "nat cap * unat w"] assms
    by (auto simp: layer_block_def plane_range_def x)
qed

lemma rows_block:
  assumes r: "rows_of f (layers * cap) p w" and i: "0 \<le> i" "i < layers" and rows: "0 < rows" "rows \<le> cap"
  obtains u n where "f (i * cap) rows = Inr u" "tensor_bytes u = Inr n" "byte_range (t_data u) n \<subseteq> layer_block cap (p, w) i"
proof -
  have cap: "0 < cap" using rows by simp
  have "(i + 1) * cap \<le> layers * cap" using i cap by (intro mult_right_mono) auto
  then have le: "i * cap + rows \<le> layers * cap" using rows by (simp add: distrib_right)
  have "0 \<le> i * cap" using i cap by simp
  then obtain u n where u: "f (i * cap) rows = Inr u" "t_data u = slot_addr p w (nat (i * cap))" "tensor_bytes u = Inr n"
    "unat n = nat rows * unat w"
    by (rule rows_ofE [OF r _ rows(1) le])
  have "i * cap < layers * cap" using le rows by linarith
  then have "nat (i * cap) < nat (layers * cap)" using \<open>0 \<le> i * cap\<close> by simp
  moreover have "unat p + nat (layers * cap) * unat w \<le> u64_max" using r by (simp add: rows_of_def)
  ultimately have "unat (t_data u) = unat p + nat (i * cap) * unat w"
    unfolding u(2) by (intro slot_range(1))
  moreover have "nat (i * cap) * unat w = nat i * (nat cap * unat w)" using i cap by (simp add: nat_mult_distrib)
  moreover have "unat n \<le> nat cap * unat w" unfolding u(4) using rows by (intro mult_le_mono1 nat_mono)
  ultimately have "byte_range (t_data u) n \<subseteq> layer_block cap (p, w) i" by (auto simp: byte_range_def layer_block_def)
  then show ?thesis using that u by blast
qed

text \<open>
  The four planes of bound records, with their row widths: disjoint, inside the backing, and read by
  the four slices of \<open>layer\<close>.
\<close>

definition record_planes :: "gdn_records \<Rightarrow> (u64 \<times> u64) list \<Rightarrow> device_span \<Rightarrow> bool" where
  "record_planes rec ps backing =
     (let spec = gr_spec rec; outer = gs_layers spec * gs_record_capacity spec in
      length ps = 4 \<and> planes_ok (nat outer) ps \<and> validate_spec spec = Inr () \<and>
      (\<forall>x \<in> set ps. plane_range (nat outer) x \<subseteq> byte_range (ds_data backing) (ds_bytes backing)) \<and>
      rows_of (\<lambda>s r. rbind (slice (gr_conv rec) 2 s r) (\<lambda>t. view t [gs_conv_channels spec, gs_width spec, r]))
        outer (fst (ps ! 0)) (snd (ps ! 0)) \<and>
      rows_of (slice (gr_key rec) 3) outer (fst (ps ! 1)) (snd (ps ! 1)) \<and>
      rows_of (slice (gr_value rec) 3) outer (fst (ps ! 2)) (snd (ps ! 2)) \<and>
      rows_of (slice (gr_gate rec) 3) outer (fst (ps ! 3)) (snd (ps ! 3)))"

lemma four_planes_ok:
  assumes backing: "backs backing sz"
    and at: "unat p1 = unat (ds_data backing) + o1" "unat p2 = unat (ds_data backing) + o2"
      "unat p3 = unat (ds_data backing) + o3" "unat p4 = unat (ds_data backing) + o4"
    and ends: "o1 + outer * unat w1 \<le> o2" "o2 + outer * unat w2 \<le> o3" "o3 + outer * unat w3 \<le> o4"
      "o4 + outer * unat w4 \<le> unat sz"
  shows "planes_ok outer [(p1, w1), (p2, w2), (p3, w3), (p4, w4)] \<and>
    (\<forall>x \<in> set [(p1, w1), (p2, w2), (p3, w3), (p4, w4)].
       plane_range outer x \<subseteq> byte_range (ds_data backing) (ds_bytes backing))"
proof -
  have B: "unat (ds_data backing) + unat sz \<le> u64_max" "ds_bytes backing = sz" using backing unfolding backs_def by blast+
  have "planes_ok outer [(p1, w1), (p2, w2), (p3, w3), (p4, w4)]"
    using at ends B(1) by (auto simp: planes_ok_def plane_range_def)
  moreover have "plane_range outer x \<subseteq> byte_range (ds_data backing) (ds_bytes backing)"
    if "x \<in> set [(p1, w1), (p2, w2), (p3, w3), (p4, w4)]" for x
    using that at ends by (auto simp: plane_range_def byte_range_def B(2))
  ultimately show ?thesis by blast
qed

lemma planned_records:
  assumes plan: "plan_gdn_replay_records b spec = Inr (layout, b')"
    and fin: "layout_finish b' al label = Inr sz" and backing: "backs backing sz"
  obtains rec ps where "make_gdn_records backing layout = Inr rec" "gr_spec rec = spec" "record_planes rec ps backing"
proof -
  obtain outer n1 n2 n3 n4 where spec: "validate_spec spec = Inr ()" "checked_outer_extent spec = Inr outer"
      "gl_spec layout = spec"
    and p: "placed BF16 [gs_conv_channels spec, gs_width spec, outer] n1 0 (unat (lb_peak b')) (gl_conv layout)"
    "placed BF16 [gs_key_dim spec, gs_qk_heads spec, gs_width spec, outer] n2 0 (unat (lb_peak b')) (gl_key layout)"
    "placed BF16 [gs_value_dim spec, gs_value_heads spec, gs_width spec, outer] n3 0 (unat (lb_peak b')) (gl_value layout)"
    "placed FP32 [2, gs_value_heads spec, gs_width spec, outer] n4 0 (unat (lb_peak b')) (gl_gate layout)"
    and o: "region_end (gl_conv layout) \<le> region_off (gl_key layout)"
    "region_end (gl_key layout) \<le> region_off (gl_value layout)"
    "region_end (gl_value layout) \<le> region_off (gl_gate layout)"
    by (rule plan_gdn_placed [OF plan])
  have outer: "outer = gs_layers spec * gs_record_capacity spec" by (rule checked_outer_extent_Inr(1) [OF spec(1,2)])
  note hi = planned_peak [OF fin]
  let ?t = "bound_tensor backing"
  note b1 = bound_tensor_placed [OF p(1) hi backing] and b2 = bound_tensor_placed [OF p(2) hi backing]
    and b3 = bound_tensor_placed [OF p(3) hi backing] and b4 = bound_tensor_placed [OF p(4) hi backing]
  define rec where "rec = \<lparr>gr_conv = ?t (gl_conv layout), gr_key = ?t (gl_key layout), gr_value = ?t (gl_value layout),
      gr_gate = ?t (gl_gate layout), gr_spec = spec\<rparr>"
  have mk: "make_gdn_records backing layout = Inr rec"
    using b1(1) b2(1) b3(1) b4(1) validate_layout_ok [OF plan] spec(3) by (simp add: make_gdn_records_def rec_def)
  have B: "unat (ds_data backing) + unat sz \<le> u64_max" using backing unfolding backs_def by blast
  have fit: "unat (t_data (?t (gl_conv layout))) + unat n1 \<le> u64_max" "unat (t_data (?t (gl_key layout))) + unat n2 \<le> u64_max"
    "unat (t_data (?t (gl_value layout))) + unat n3 \<le> u64_max" "unat (t_data (?t (gl_gate layout))) + unat n4 \<le> u64_max"
    using b1(6) b2(6) b3(6) b4(6) B by linarith+
  obtain w1 where w1: "rows_of (\<lambda>s r. rbind (slice (?t (gl_conv layout)) 2 s r) (\<lambda>t. view t [gs_conv_channels spec, gs_width spec, r]))
      outer (t_data (?t (gl_conv layout))) w1" "unat n1 = nat outer * unat w1"
    by (rule rows_of_rank3 [OF b1(2,3,7,5) fit(1)])
  obtain w2 where w2: "rows_of (slice (?t (gl_key layout)) 3) outer (t_data (?t (gl_key layout))) w2" "unat n2 = nat outer * unat w2"
    by (rule rows_of_rank4 [OF b2(2,3,7,5) fit(2)])
  obtain w3 where w3: "rows_of (slice (?t (gl_value layout)) 3) outer (t_data (?t (gl_value layout))) w3" "unat n3 = nat outer * unat w3"
    by (rule rows_of_rank4 [OF b3(2,3,7,5) fit(3)])
  obtain w4 where w4: "rows_of (slice (?t (gl_gate layout)) 3) outer (t_data (?t (gl_gate layout))) w4" "unat n4 = nat outer * unat w4"
    by (rule rows_of_rank4 [OF b4(2,3,7,5) fit(4)])
  have last: "region_off (gl_gate layout) + nat outer * unat w4 \<le> unat sz" using p(4) b4(8) w4(2) hi by (simp add: placed_def)
  note planes = four_planes_ok [OF backing b1(4) b2(4) b3(4) b4(4), of "nat outer" w1 w2 w3 w4,
      OF o [unfolded b1(8) b2(8) b3(8) w1(2) w2(2) w3(2)] last]
  let ?ps = "[(t_data (?t (gl_conv layout)), w1), (t_data (?t (gl_key layout)), w2),
     (t_data (?t (gl_value layout)), w3), (t_data (?t (gl_gate layout)), w4)]"
  have "record_planes rec ?ps backing"
    using planes w1(1) w2(1) w3(1) w4(1) spec(1) by (simp add: record_planes_def Let_def rec_def outer)
  then show ?thesis using that mk by (simp add: rec_def)
qed

lemma records_layer_blocks:
  assumes rp: "record_planes rec ps backing"
    and i: "0 \<le> i" "i < gs_layers (gr_spec rec)" and rows: "0 < rows" "rows \<le> gs_record_capacity (gr_spec rec)"
  obtains l where "records_layer rec i rows = Inr l"
    "\<forall>x < 4. \<exists>n. tensor_bytes (layer_planes l ! x) = Inr n \<and>
       byte_range (t_data (layer_planes l ! x)) n \<subseteq> layer_block (gs_record_capacity (gr_spec rec)) (ps ! x) i"
proof -
  let ?spec = "gr_spec rec" let ?cap = "gs_record_capacity ?spec"
  have r: "rows_of (\<lambda>s r. rbind (slice (gr_conv rec) 2 s r) (\<lambda>t. view t [gs_conv_channels ?spec, gs_width ?spec, r]))
        (gs_layers ?spec * ?cap) (fst (ps ! 0)) (snd (ps ! 0))"
    "rows_of (slice (gr_key rec) 3) (gs_layers ?spec * ?cap) (fst (ps ! 1)) (snd (ps ! 1))"
    "rows_of (slice (gr_value rec) 3) (gs_layers ?spec * ?cap) (fst (ps ! 2)) (snd (ps ! 2))"
    "rows_of (slice (gr_gate rec) 3) (gs_layers ?spec * ?cap) (fst (ps ! 3)) (snd (ps ! 3))"
    "validate_spec ?spec = Inr ()"
    using rp by (auto simp: record_planes_def Let_def)
  obtain u1 n1 where u1: "rbind (slice (gr_conv rec) 2 (i * ?cap) rows) (\<lambda>t. view t [gs_conv_channels ?spec, gs_width ?spec, rows]) = Inr u1"
    "tensor_bytes u1 = Inr n1" "byte_range (t_data u1) n1 \<subseteq> layer_block ?cap (ps ! 0) i"
    by (rule rows_block [OF r(1) i rows]) simp
  obtain u2 n2 where u2: "slice (gr_key rec) 3 (i * ?cap) rows = Inr u2" "tensor_bytes u2 = Inr n2"
    "byte_range (t_data u2) n2 \<subseteq> layer_block ?cap (ps ! 1) i" by (rule rows_block [OF r(2) i rows]) simp
  obtain u3 n3 where u3: "slice (gr_value rec) 3 (i * ?cap) rows = Inr u3" "tensor_bytes u3 = Inr n3"
    "byte_range (t_data u3) n3 \<subseteq> layer_block ?cap (ps ! 2) i" by (rule rows_block [OF r(3) i rows]) simp
  obtain u4 n4 where u4: "slice (gr_gate rec) 3 (i * ?cap) rows = Inr u4" "tensor_bytes u4 = Inr n4"
    "byte_range (t_data u4) n4 \<subseteq> layer_block ?cap (ps ! 3) i" by (rule rows_block [OF r(4) i rows]) simp
  let ?l = "\<lparr>gy_conv = u1, gy_key = u2, gy_value = u3, gy_gate = u4\<rparr>"
  have "records_layer rec i rows = Inr ?l"
    using u1(1) u2(1) u3(1) u4(1) r(5) i rows by (simp add: records_layer_def Let_def throw_if_def)
  moreover have "\<exists>n. tensor_bytes (layer_planes ?l ! x) = Inr n \<and>
       byte_range (t_data (layer_planes ?l ! x)) n \<subseteq> layer_block ?cap (ps ! x) i" if "x < 4" for x
  proof -
    from that have "x = 0 \<or> x = 1 \<or> x = 2 \<or> x = 3" by auto
    then show ?thesis using u1(2,3) u2(2,3) u3(2,3) u4(2,3)
      by (elim disjE) (simp_all add: layer_planes_def numeral_2_eq_2 numeral_3_eq_3)
  qed
  ultimately show ?thesis using that by blast
qed

lemma records_layer_valid:
  assumes "records_layer rec i rows = Inr l"
  shows "0 \<le> i" "i < gs_layers (gr_spec rec)" "0 < rows" "rows \<le> gs_record_capacity (gr_spec rec)"
  using assms by (auto simp: records_layer_def Let_def result_simps)

lemma record_blocks_disjoint:
  assumes rp: "record_planes rec ps backing" and xy: "x < 4" "y < 4" "(i, x) \<noteq> (j, y)"
    and i: "0 \<le> i" "i < gs_layers (gr_spec rec)" and j: "0 \<le> j" "j < gs_layers (gr_spec rec)"
    and cap: "0 < gs_record_capacity (gr_spec rec)"
  shows "layer_block (gs_record_capacity (gr_spec rec)) (ps ! x) i \<inter>
    layer_block (gs_record_capacity (gr_spec rec)) (ps ! y) j = {}"
proof (cases "x = y")
  case True
  then show ?thesis using layer_blocks_disjoint i j xy by blast
next
  case False
  let ?n = "nat (gs_layers (gr_spec rec) * gs_record_capacity (gr_spec rec))"
  have ok: "planes_ok ?n ps" "length ps = 4" using rp by (auto simp: record_planes_def Let_def)
  have "plane_range ?n (ps ! x) \<inter> plane_range ?n (ps ! y) = {}"
    using ok False xy unfolding planes_ok_def sorted_wrt_iff_nth_less by (metis inf_commute linorder_neqE_nat)
  then show ?thesis using layer_block_plane [OF i cap, of "ps ! x"] layer_block_plane [OF j cap, of "ps ! y"] by blast
qed

text \<open>
  C13. Replay records planned from a specification always bind to a backing of the planned size: the checks
  of the constructor never fail on a planned layout. Every layer with every admissible number of rows has its
  four tensors, inside the backing, and the tensors of two different layers, or of two different planes, share
  no byte.
\<close>

theorem replay_layers_disjoint:
  assumes plan: "plan_gdn_replay_records b spec = Inr (layout, b')"
    and fin: "layout_finish b' al label = Inr sz" and backing: "backs backing sz"
  shows "\<exists>rec. make_gdn_records backing layout = Inr rec \<and>
    (\<forall>i rows. 0 \<le> i \<and> i < gs_layers spec \<and> 0 < rows \<and> rows \<le> gs_record_capacity spec \<longrightarrow>
       (\<exists>l. records_layer rec i rows = Inr l \<and>
         (\<forall>x < 4. \<exists>n. tensor_bytes (layer_planes l ! x) = Inr n \<and>
            byte_range (t_data (layer_planes l ! x)) n \<subseteq> byte_range (ds_data backing) (ds_bytes backing)))) \<and>
    (\<forall>i rows l j rows' l' x y n n'.
       records_layer rec i rows = Inr l \<and> records_layer rec j rows' = Inr l' \<and> x < 4 \<and> y < 4 \<and> (i, x) \<noteq> (j, y) \<and>
       tensor_bytes (layer_planes l ! x) = Inr n \<and> tensor_bytes (layer_planes l' ! y) = Inr n' \<longrightarrow>
       byte_range (t_data (layer_planes l ! x)) n \<inter> byte_range (t_data (layer_planes l' ! y)) n' = {})"
proof -
  obtain rec ps where mk: "make_gdn_records backing layout = Inr rec" "gr_spec rec = spec" and rp: "record_planes rec ps backing"
    by (rule planned_records [OF plan fin backing])
  let ?cap = "gs_record_capacity spec"
  have ok: "length ps = 4" "\<forall>x \<in> set ps. plane_range (nat (gs_layers spec * ?cap)) x \<subseteq> byte_range (ds_data backing) (ds_bytes backing)"
    using rp by (auto simp: record_planes_def Let_def mk(2))
  have blocks: "\<exists>l. records_layer rec i rows = Inr l \<and> (\<forall>x < 4. \<exists>n. tensor_bytes (layer_planes l ! x) = Inr n \<and>
       byte_range (t_data (layer_planes l ! x)) n \<subseteq> layer_block ?cap (ps ! x) i)"
    if "0 \<le> i" "i < gs_layers spec" "0 < rows" "rows \<le> ?cap" for i rows
    by (rule records_layer_blocks [OF rp, unfolded mk(2), OF that]) blast
  have inside: "layer_block ?cap (ps ! x) i \<subseteq> byte_range (ds_data backing) (ds_bytes backing)"
    if "0 \<le> i" "i < gs_layers spec" "0 < ?cap" "x < 4" for x i
  proof -
    have "ps ! x \<in> set ps" using ok(1) that(4) by simp
    then show ?thesis using layer_block_plane [OF that(1-3), of "ps ! x"] ok(2) by blast
  qed
  have first: "\<exists>l. records_layer rec i rows = Inr l \<and> (\<forall>x < 4. \<exists>n. tensor_bytes (layer_planes l ! x) = Inr n \<and>
       byte_range (t_data (layer_planes l ! x)) n \<subseteq> byte_range (ds_data backing) (ds_bytes backing))"
    if "0 \<le> i \<and> i < gs_layers spec \<and> 0 < rows \<and> rows \<le> ?cap" for i rows
  proof -
    have cap: "0 < ?cap" using that by linarith
    from blocks [of i rows] that obtain l where l: "records_layer rec i rows = Inr l"
      and in_block: "\<forall>x < 4. \<exists>n. tensor_bytes (layer_planes l ! x) = Inr n \<and>
        byte_range (t_data (layer_planes l ! x)) n \<subseteq> layer_block ?cap (ps ! x) i" by blast
    have "\<exists>n. tensor_bytes (layer_planes l ! x) = Inr n \<and>
        byte_range (t_data (layer_planes l ! x)) n \<subseteq> byte_range (ds_data backing) (ds_bytes backing)" if "x < 4" for x
      using in_block inside [of i x] cap \<open>x < 4\<close> \<open>0 \<le> i \<and> i < gs_layers spec \<and> 0 < rows \<and> rows \<le> ?cap\<close> by (meson order_trans)
    then show ?thesis using l by blast
  qed
  have in_block: "byte_range (t_data (layer_planes l ! x)) n \<subseteq> layer_block ?cap (ps ! x) i"
    if l: "records_layer rec i rows = Inr l" and x: "x < 4" and n: "tensor_bytes (layer_planes l ! x) = Inr n" for i rows l x n
  proof -
    from blocks [OF records_layer_valid [OF l, unfolded mk(2)]] l
    have "\<forall>x < 4. \<exists>n. tensor_bytes (layer_planes l ! x) = Inr n \<and>
       byte_range (t_data (layer_planes l ! x)) n \<subseteq> layer_block ?cap (ps ! x) i" by simp
    then obtain k where "tensor_bytes (layer_planes l ! x) = Inr k"
      "byte_range (t_data (layer_planes l ! x)) k \<subseteq> layer_block ?cap (ps ! x) i" using x by blast
    then show ?thesis using n by simp
  qed
  have second: "byte_range (t_data (layer_planes l ! x)) n \<inter> byte_range (t_data (layer_planes l' ! y)) n' = {}"
    if l: "records_layer rec i rows = Inr l" "records_layer rec j rows' = Inr l'" and xy: "x < 4" "y < 4" "(i, x) \<noteq> (j, y)"
      and n: "tensor_bytes (layer_planes l ! x) = Inr n" "tensor_bytes (layer_planes l' ! y) = Inr n'"
    for i rows l j rows' l' x y n n'
  proof -
    note v = records_layer_valid [OF l(1), unfolded mk(2)] and v' = records_layer_valid [OF l(2), unfolded mk(2)]
    have "byte_range (t_data (layer_planes l ! x)) n \<subseteq> layer_block ?cap (ps ! x) i"
      "byte_range (t_data (layer_planes l' ! y)) n' \<subseteq> layer_block ?cap (ps ! y) j"
      using in_block l xy n by blast+
    moreover have "0 < ?cap" using v(3,4) by linarith
    ultimately show ?thesis
      using record_blocks_disjoint [OF rp xy, unfolded mk(2), OF v(1,2) v'(1,2)] by blast
  qed
  show ?thesis using mk(1) first second by blast
qed

section \<open>Sample records\<close>

definition gdn_sample_spec :: gdn_spec where
  "gdn_sample_spec = \<lparr>gs_layers = 2, gs_record_capacity = 2, gs_width = 1, gs_conv_channels = 1, gs_qk_heads = 1,
     gs_value_heads = 1, gs_key_dim = 1, gs_value_dim = 1\<rparr>"

definition gdn_sample_layout :: gdn_layout where
  "gdn_sample_layout = \<lparr>gl_spec = gdn_sample_spec,
     gl_conv = \<lparr>tr_region = \<lparr>lr_offset = 0, lr_bytes = 8, lr_alignment = 256\<rparr>, tr_dtype = BF16, tr_shape = [1, 1, 4, 1]\<rparr>,
     gl_key = \<lparr>tr_region = \<lparr>lr_offset = 256, lr_bytes = 8, lr_alignment = 256\<rparr>, tr_dtype = BF16, tr_shape = [1, 1, 1, 4]\<rparr>,
     gl_value = \<lparr>tr_region = \<lparr>lr_offset = 512, lr_bytes = 8, lr_alignment = 256\<rparr>, tr_dtype = BF16, tr_shape = [1, 1, 1, 4]\<rparr>,
     gl_gate = \<lparr>tr_region = \<lparr>lr_offset = 768, lr_bytes = 32, lr_alignment = 256\<rparr>, tr_dtype = FP32, tr_shape = [2, 1, 1, 4]\<rparr>\<rparr>"

lemma gdn_sample_planned:
  "plan_gdn_replay_records empty_builder gdn_sample_spec = Inr (gdn_sample_layout, \<lparr>lb_cursor = 800, lb_peak = 800\<rparr>)"
  by (simp add: plan_gdn_replay_records_def gdn_sample_spec_def gdn_sample_layout_def validate_spec_def require_positive_def
      checked_outer_extent_def layout_add_tensor_def make_tensor_def normalize_shape_def set_contiguous_strides_def
      checked_mul_i64_def tensor_bytes_def numel_def shape_numel_def layout_add_def align_up_def is_power_of_two_def
      checked_add_def empty_builder_def)

theorem replay_layers_disjoint_witness:
  "\<exists>rec l l' n n'. make_gdn_records \<lparr>ds_data = 4096, ds_bytes = 1024\<rparr> gdn_sample_layout = Inr rec \<and>
     records_layer rec 0 2 = Inr l \<and> records_layer rec 1 1 = Inr l' \<and>
     tensor_bytes (gy_gate l) = Inr n \<and> tensor_bytes (gy_gate l') = Inr n' \<and>
     byte_range (t_data (gy_gate l)) n \<inter> byte_range (t_data (gy_gate l')) n' = {}"
proof -
  have fin: "layout_finish \<lparr>lb_cursor = 800, lb_peak = 800\<rparr> 256 ''gdn'' = Inr 1024"
    by (simp add: layout_finish_def align_up_def is_power_of_two_def checked_add_def)
  have bk: "backs \<lparr>ds_data = 4096, ds_bytes = 1024\<rparr> 1024" by (simp add: backs_def)
  have gs: "gs_layers gdn_sample_spec = 2" "gs_record_capacity gdn_sample_spec = 2" by (simp_all add: gdn_sample_spec_def)
  have gate: "layer_planes l ! 3 = gy_gate l" for l by (simp add: layer_planes_def)
  obtain rec where mk: "make_gdn_records \<lparr>ds_data = 4096, ds_bytes = 1024\<rparr> gdn_sample_layout = Inr rec"
    and ex: "\<forall>i rows. 0 \<le> i \<and> i < gs_layers gdn_sample_spec \<and> 0 < rows \<and> rows \<le> gs_record_capacity gdn_sample_spec \<longrightarrow>
       (\<exists>l. records_layer rec i rows = Inr l \<and>
         (\<forall>x < 4. \<exists>n. tensor_bytes (layer_planes l ! x) = Inr n \<and>
            byte_range (t_data (layer_planes l ! x)) n \<subseteq> byte_range (ds_data \<lparr>ds_data = 4096, ds_bytes = 1024\<rparr>)
              (ds_bytes \<lparr>ds_data = 4096, ds_bytes = 1024\<rparr>)))"
    and dj: "\<forall>i rows l j rows' l' x y n n'.
       records_layer rec i rows = Inr l \<and> records_layer rec j rows' = Inr l' \<and> x < 4 \<and> y < 4 \<and> (i, x) \<noteq> (j, y) \<and>
       tensor_bytes (layer_planes l ! x) = Inr n \<and> tensor_bytes (layer_planes l' ! y) = Inr n' \<longrightarrow>
       byte_range (t_data (layer_planes l ! x)) n \<inter> byte_range (t_data (layer_planes l' ! y)) n' = {}"
    using replay_layers_disjoint [OF gdn_sample_planned fin bk] by (elim exE conjE) (rule that)
  have ex3: "\<exists>l n. records_layer rec i rows = Inr l \<and> tensor_bytes (gy_gate l) = Inr n"
    if "0 \<le> i" "i < 2" "0 < rows" "rows \<le> 2" for i rows
  proof -
    from ex [unfolded gs] that obtain l where l: "records_layer rec i rows = Inr l"
      "\<forall>x < 4. \<exists>n. tensor_bytes (layer_planes l ! x) = Inr n \<and>
         byte_range (t_data (layer_planes l ! x)) n \<subseteq> byte_range (ds_data \<lparr>ds_data = 4096, ds_bytes = 1024\<rparr>)
           (ds_bytes \<lparr>ds_data = 4096, ds_bytes = 1024\<rparr>)" by blast
    from l(2) [rule_format, of 3] obtain n where "tensor_bytes (layer_planes l ! 3) = Inr n" by auto
    with l(1) show ?thesis unfolding gate by blast
  qed
  obtain l n where l: "records_layer rec 0 2 = Inr l" "tensor_bytes (gy_gate l) = Inr n" using ex3 [of 0 2] by auto
  obtain l' n' where l': "records_layer rec 1 1 = Inr l'" "tensor_bytes (gy_gate l') = Inr n'" using ex3 [of 1 1] by auto
  have "byte_range (t_data (gy_gate l)) n \<inter> byte_range (t_data (gy_gate l')) n' = {}"
    using dj [rule_format, of 0 2 l 1 1 l' 3 3 n n'] l l' unfolding gate by simp
  with mk l l' show ?thesis by blast
qed

end
