(* ===== verification/Spec2Isabelle.thy ===== *)
theory Spec2Isabelle
  imports Arena Paged_KV Admission Runtime_Config Executor_Reach
    Service_Output Response_Store_Inv Request_Plan Sha256 Target_Indexing
    Linear_Attention_Slots Cyclic_KV Gdn_Records
begin

text \<open>
  Verification of the host-side core of GInfer, a C++ and CUDA inference engine for large language
  models. Paths below are relative to the repository, whose sources are under \<open>src/src\<close>.

  \<^bold>\<open>The program.\<close> A server (\<open>serve\<close>) turns HTTP requests into prompts and submits them to the
  engine. One worker thread of the engine (\<open>runtime/engine/concurrent_executor.h\<close>) admits requests
  into a fixed number of lanes under an admission policy, runs prefill steps and batched decode
  rounds on the model target, and completes requests; other threads submit, cancel, wait for and
  abandon them. A target (\<open>targets\<close>) plans each request, decides how much of a lane's resident
  state a new prompt may reuse, and keeps its key/value state in page pools
  (\<open>core/paged_kv_cache\<close>) whose storage is laid out once (\<open>core/layout\<close>) and carved out of device
  arenas (\<open>core/arena\<close>) as tensor views (\<open>core/tensor\<close>). The answer streams back through a filter
  that holds back tool calls, and finished responses are kept in a bounded store.

  \<^bold>\<open>How code is modelled.\<close> \<open>Prelude\<close> holds the shared vocabulary: an exception is a value of
  \<open>exn\<close>, code that only computes returns \<open>'a result\<close>, code that mutates an object is a \<open>prog\<close> that
  returns a result and the state left behind, also when it throws. Machine integers that can wrap
  are words (\<open>u64\<close>, \<open>u32\<close>, \<open>byte\<close>); lengths of vectors and sums of sizes of objects in memory are
  natural numbers. \<open>Hoare\<close> gives weakest preconditions for \<open>prog\<close>, with rules for loops over lists
  and a locale for relations every step keeps. \<open>Transitions\<close> holds reachability and the locale
  \<open>invariant_system\<close>, which the page pools, the executor and the response store instantiate.
  \<open>Cxx_String\<close> models the string operations the serving code uses.

  \<^bold>\<open>Theories and sources.\<close>
  \<^item> \<open>Tensor\<close>: \<open>core/dtype\<close>, \<open>core/tensor\<close>. Shapes, strides, views, slices and permutations with
    their checked 64-bit products; every element of a tensor lies inside its bytes, and slices and
    permutations address the same elements.
  \<^item> \<open>Bump\<close>, \<open>Layout\<close>, \<open>Arena\<close>: \<open>core/layout\<close>, \<open>core/arena\<close>. The locale of \<open>Bump\<close> states what a bump
    allocator promises; the layout builder, the workspace dry run and the arena interpret it.
    Planned regions are aligned and disjoint and bind inside a backing of the planned size; what
    the dry run accepts, the arena performs.
  \<^item> \<open>Paged_Pool\<close>, \<open>Paged_KV\<close>: \<open>core/paged_kv_cache\<close>. Pool planning, page selection, zeroing,
    allocations with entitlements, block-table rows and bundles over several pools; no page has two
    owners, an entitlement can always be materialised, bundle operations are atomic.
  \<^item> \<open>Device_Copy\<close>, \<open>Tensor_Slots\<close>, \<open>Planned_Tensors\<close>: shared by the fixed state storage. A byte memory,
    the two CUDA calls the storage issues as parameters with laws (\<open>memcpy_law\<close>, \<open>memset_law\<close>), what a
    sequence of disjoint writes does, and where slots, lanes and rows of planned tensors lie.
  \<^item> \<open>Linear_Attention\<close>, \<open>Linear_Attention_Slots\<close>: \<open>core/linear_attention_state\<close>; \<open>Cyclic_KV\<close>:
    \<open>core/cyclic_kv_cache\<close>; \<open>Gdn_Records\<close>: \<open>core/gdn_replay_records\<close>. Plans, bound storage and views.
    Planned storage always binds; copying or clearing a slot or lane is an update of one image and
    touches nothing else; the all-layers stride is exact; record layers share no byte.
  \<^item> \<open>Admission\<close>, \<open>Runtime_Config\<close>: \<open>runtime/engine/admission_policy\<close>, \<open>kv_capacity\<close>,
    \<open>request_memory\<close>, \<open>runtime/generation\<close>, \<open>runtime/contract/sampling\<close>. Backfill protection, the
    capacity the device can hold, transient memory, the token budget and sampling parameters.
  \<^item> \<open>Executor\<close>, \<open>Worker\<close> and their proofs \<open>Executor_Frame\<close>, \<open>Executor_Inv\<close>, \<open>Executor_Safety\<close>,
    \<open>Executor_Admit\<close>, \<open>Executor_Reach\<close>: \<open>runtime/engine/concurrent_executor.h\<close>. One definition per
    member function. The worker is a program; at every critical section an arbitrary sequence of
    actions of other threads, taken from a script in the state, may run, so that interleavings are
    those of the code. Reachable states are characterised by an invariant; an accepted request is
    always in exactly one place, capacity is accounted for, outcomes are final, and a stopped
    worker has completed everything.
  \<^item> \<open>Prefix_Identity\<close>, \<open>Request_Plan\<close>, \<open>Target_Indexing\<close>, \<open>Sha256\<close>: \<open>targets/qwen3_6\<close>
    (\<open>prefix_identity\<close>, \<open>request_plan_impl.h\<close>, \<open>linear_state_slots.h\<close>, \<open>mtp_alignment.h\<close>,
    \<open>frontend/digest.cpp\<close>). Resident state is reused only for an identical prefix, plans stay within
    the context capacity, state slots are disjoint, the digest is SHA-256.
  \<^item> \<open>Tool_Calls\<close>, \<open>Tool_Stream\<close>, \<open>Service_Output\<close>: \<open>serve/tool_call_parser\<close> and the output sink of
    \<open>serve/generation_service.cpp\<close>. Whatever the deltas, a streaming client receives the text a
    waiting client receives.
  \<^item> \<open>Response_Store\<close>, \<open>Response_Store_Inv\<close>: \<open>serve/response_store\<close>. Least recently used eviction
    within record and byte limits, with shared conversation nodes counted once.

  \<^bold>\<open>Termination.\<close> Loops are structural recursions or functions with a termination proof. The
  parsers advance their position in every turn. The admission loop of the worker repeats while
  rounds remove requests from the queue and other threads may add to it; the script of other
  threads is finite, and the measure is the number of requests in the queue plus those the script
  can still submit. The eviction loop of the store is a partial function whose value \<open>None\<close> would be
  an endless loop; in every reachable state it returns.

  \<^bold>\<open>Assumptions.\<close> Operations of the target, the JSON library, the random numbers of call
  identifiers, sizes of C++ types, the vision preprocessing and the CUDA copy and fill calls are
  parameters; of the latter only the documented effect on disjoint ranges is assumed, and each may
  fail. Backings of fixed storage are assumed aligned, non-null and below 2 to the 63 bytes (\<open>backs\<close>). The theorems about
  requests assume \<open>output_total\<close>: the output policy does not throw while a cancelled request is
  completed; without it a request taken from the queue could be lost (see the code of
  \<open>expire_pending_requests\<close>). Dereferencing an empty optional is undefined in C++ and is the value
  \<open>process_abort\<close> here, as is \<open>std::abort\<close>; no theorem relies on it being handled. The response
  store's theorems assume that live context nodes have distinct addresses.

  \<^bold>\<open>Not modelled.\<close> CUDA kernels and their launchers (\<open>ops\<close>), the target programs that call them,
  tokenisation, template rendering and media decoding, HTTP and JSON schemas, option parsing and
  logging, and the artifact reader and binder. Wall-clock metrics and memory ordering are left out;
  a mutex-protected section is atomic.
\<close>

end
